(* ===== verification/Prelude.thy ===== *)
theory Prelude
  imports "HOL-Library.Word"
begin

text \<open>
  Shared vocabulary of the development: the C integer types as words, byte buffers as lists
  with the C reads and writes on them, the little endian byte order of the ARM9 target, and
  the generic lemmas on bits, buffers and counted loops the component theories use.
\<close>

unbundle bit_operations_syntax

type_synonym u8 = "8 word"
type_synonym u16 = "16 word"
type_synonym u32 = "32 word"
type_synonym bytes = "8 word list"

named_theorems buf_simps \<open>reads, writes and lengths of byte buffers\<close>
named_theorems bit8_simps \<open>bits of the byte expressions the code builds\<close>

section \<open>Counted loops\<close>

text \<open>
  \<open>for_range n f s\<close> is \<open>for (i = 0; i < n; i++) s = f i s\<close> for a bound that the body does
  not change.
\<close>

fun for_range :: "nat \<Rightarrow> (nat \<Rightarrow> 's \<Rightarrow> 's) \<Rightarrow> 's \<Rightarrow> 's" where
  "for_range 0 f s = s"
| "for_range (Suc n) f s = f n (for_range n f s)"

lemma for_range_cong:
  "(\<And>i s. i < n \<Longrightarrow> f i s = g i s) \<Longrightarrow> for_range n f s = for_range n g s"
  by (induction n) auto

lemma for_range_invariant:
  assumes "P 0 s" and "\<And>i s. i < n \<Longrightarrow> P i s \<Longrightarrow> P (Suc i) (f i s)"
  shows "P n (for_range n f s)"
  using assms by (induction n) auto

lemma for_range_rel:
  assumes "R s t" and "\<And>i s t. i < n \<Longrightarrow> R s t \<Longrightarrow> R (f i s) (g i t)"
  shows "R (for_range n f s) (for_range n g t)"
  using assms by (induction n) auto

text \<open>
  The same loop from \<open>i\<close> on for \<open>n\<close> turns, with a body that can fail, and checked accesses to a buffer.
\<close>

fun for_opt :: "nat \<Rightarrow> nat \<Rightarrow> (nat \<Rightarrow> 's \<Rightarrow> 's option) \<Rightarrow> 's \<Rightarrow> 's option" where
  "for_opt i 0 f s = Some s"
| "for_opt i (Suc n) f s = Option.bind (f i s) (for_opt (Suc i) n f)"

definition get_at :: "'a list \<Rightarrow> nat \<Rightarrow> 'a option" where
  "get_at b i = (if i < length b then Some (b ! i) else None)"

definition put_at :: "'a list \<Rightarrow> nat \<Rightarrow> 'a \<Rightarrow> 'a list option" where
  "put_at b i x = (if i < length b then Some (b[i := x]) else None)"

lemma for_opt_invariant:
  assumes "P i s" and "\<And>j s. i \<le> j \<Longrightarrow> j < i + n \<Longrightarrow> P j s \<Longrightarrow> \<exists>s'. f j s = Some s' \<and> P (Suc j) s'"
  shows "\<exists>s'. for_opt i n f s = Some s' \<and> P (i + n) s'"
  using assms
proof (induction n arbitrary: i s)
  case (Suc n)
  obtain s1 where s1: "f i s = Some s1" "P (Suc i) s1" using Suc.prems(2) [of i s] Suc.prems(1) by auto
  show ?case using Suc.IH [OF s1(2)] Suc.prems(2) s1(1) by simp
qed simp

text \<open>A word that counts up to a limit, as a measure.\<close>

lemma word_count_down: "(i :: 'a::len word) + 1 \<noteq> m \<Longrightarrow> unat (m - (i + 1) - 1) < unat (m - i - 1)"
proof -
  assume "i + 1 \<noteq> m"
  then have "m - i - 1 \<noteq> 0" by (simp add: algebra_simps)
  then have "unat (m - i - 1 - 1) < unat (m - i - 1)"
    by (metis unat_gt_0 unat_minus_one diff_less zero_less_one)
  then show ?thesis by (simp add: algebra_simps)
qed

section \<open>Bytes, bit by bit\<close>

lemma u8_bit_ge [simp]: "8 \<le> n \<Longrightarrow> \<not> bit (x :: u8) n"
  using bit_imp_le_length [of x n] by auto

lemma less_8_cases: "n < (8 :: nat) \<longleftrightarrow> n \<in> {0, 1, 2, 3, 4, 5, 6, 7}"
  by auto

lemma less_8E:
  assumes "n < (8 :: nat)"
    and "n = 0 \<Longrightarrow> P" "n = 1 \<Longrightarrow> P" "n = 2 \<Longrightarrow> P" "n = 3 \<Longrightarrow> P"
    and "n = 4 \<Longrightarrow> P" "n = 5 \<Longrightarrow> P" "n = 6 \<Longrightarrow> P" "n = 7 \<Longrightarrow> P"
  shows P
  using assms by (auto simp: less_8_cases)

lemma u8_eq_iff:
  fixes x y :: u8
  shows "x = y \<longleftrightarrow> bit x 0 = bit y 0 \<and> bit x 1 = bit y 1 \<and> bit x 2 = bit y 2 \<and> bit x 3 = bit y 3
     \<and> bit x 4 = bit y 4 \<and> bit x 5 = bit y 5 \<and> bit x 6 = bit y 6 \<and> bit x 7 = bit y 7"
    (is "_ \<longleftrightarrow> ?r")
proof
  assume r: ?r
  show "x = y"
  proof (rule bit_eqI)
    fix n
    show "bit x n = bit y n"
      using r by (cases "n < 8") (auto simp: less_8_cases)
  qed
qed simp

lemma and_pow2_neq_0:
  fixes x :: "'a::len word"
  assumes "n < LENGTH('a)"
  shows "x AND push_bit n 1 \<noteq> 0 \<longleftrightarrow> bit x n"
proof -
  have "x AND push_bit n 1 \<noteq> 0 \<longleftrightarrow> (\<exists>m. bit (x AND push_bit n 1) m)"
    by (metis bit_0_eq bit_eq_iff bot_apply bot_bool_def)
  also have "\<dots> \<longleftrightarrow> bit x n"
    using assms by (auto simp: bit_and_iff bit_exp_iff push_bit_eq_mult)
  finally show ?thesis .
qed

lemma and_1_neq_0: "(x :: 'a::len word) AND 1 \<noteq> 0 \<longleftrightarrow> bit x 0"
  using and_pow2_neq_0 [of 0 x] by simp

lemma and_1_eq_1: "(x :: 'a::len word) AND 1 = 1 \<longleftrightarrow> bit x 0"
  by (simp add: and_one_eq bit_0 odd_iff_mod_2_eq_one)

lemma xor_left_self: "(x :: 'a::len word) XOR (x XOR y) = y"
  by (simp flip: xor.assoc)

lemmas xor_ac = xor.assoc xor.commute xor.left_commute xor_left_self

lemma bit_word_of_nat:
  "bit (word_of_nat k :: 'a::len word) m \<longleftrightarrow> m < LENGTH('a) \<and> bit k m"
proof -
  have "(word_of_nat k :: 'a word) = word_of_int (int k)" by simp
  then show ?thesis by (simp only: bit_word_of_int_iff bit_of_nat_iff_bit)
qed

lemma drop_bit_1_less:
  fixes b :: "'a::len word"
  assumes "b \<noteq> 0"
  shows "unat (drop_bit 1 b) < unat b"
proof -
  have "0 < unat b" using assms by (simp add: unat_gt_0)
  moreover have "unat (drop_bit 1 b) = unat b div 2"
    by (subst unat_drop_bit_eq) (simp add: drop_bit_eq_div)
  ultimately show ?thesis by simp
qed

text \<open>The parity of the low \<open>n\<close> bits, lowest bit first, and its linearity.\<close>

fun parity :: "nat \<Rightarrow> 'a::len word \<Rightarrow> bool" where
  "parity 0 b = False"
| "parity (Suc n) b = (bit b 0 \<noteq> parity n (drop_bit 1 b))"

lemma parity_xor: "parity n (x XOR y) = (parity n x \<noteq> parity n y)"
proof (induction n arbitrary: x y)
  case (Suc n)
  then show ?case by (simp only: parity.simps drop_bit_xor bit_xor_iff) blast
qed simp

lemma parity_0 [simp]: "parity n 0 = False"
  by (induction n) auto

section \<open>Byte buffers\<close>

text \<open>
  \<open>buf_read b off n\<close> is the \<open>n\<close> bytes at \<open>b + off\<close>; \<open>buf_write b off d\<close> is \<open>memcpy(b + off, d, n)\<close>.
  Both are used under the guard that the range is inside the buffer.
\<close>

definition buf_read :: "'a list \<Rightarrow> nat \<Rightarrow> nat \<Rightarrow> 'a list" where
  "buf_read b off n = take n (drop off b)"

definition buf_write :: "'a list \<Rightarrow> nat \<Rightarrow> 'a list \<Rightarrow> 'a list" where
  "buf_write b off d = take off b @ d @ drop (off + length d) b"

lemma length_buf_read [buf_simps]: "off + n \<le> length b \<Longrightarrow> length (buf_read b off n) = n"
  by (simp add: buf_read_def)

lemma length_buf_write [buf_simps]:
  "off + length d \<le> length b \<Longrightarrow> length (buf_write b off d) = length b"
  by (simp add: buf_write_def)

lemma buf_write_nth:
  assumes "off + length d \<le> length b" and "i < length b"
  shows "buf_write b off d ! i = (if off \<le> i \<and> i < off + length d then d ! (i - off) else b ! i)"
  using assms by (auto simp: buf_write_def nth_append min_def)

lemma buf_read_nth:
  "off + n \<le> length b \<Longrightarrow> i < n \<Longrightarrow> buf_read b off n ! i = b ! (off + i)"
  by (simp add: buf_read_def)

lemma buf_read_write_same [buf_simps]:
  "off + length d \<le> length b \<Longrightarrow> buf_read (buf_write b off d) off (length d) = d"
  by (simp add: buf_read_def buf_write_def)

lemma buf_read_write_other [buf_simps]:
  assumes "off + length d \<le> length b" and "p + n \<le> length b"
    and "p + n \<le> off \<or> off + length d \<le> p"
  shows "buf_read (buf_write b off d) p n = buf_read b p n"
proof (rule nth_equalityI)
  show "length (buf_read (buf_write b off d) p n) = length (buf_read b p n)"
    using assms by (simp add: buf_simps)
  fix i
  assume "i < length (buf_read (buf_write b off d) p n)"
  then have "i < n" using assms by (simp add: buf_simps)
  then show "buf_read (buf_write b off d) p n ! i = buf_read b p n ! i"
    using assms by (auto simp: buf_read_nth buf_write_nth buf_simps)
qed

text \<open>A sequence of writes, each at an offset.\<close>

fun apply_writes :: "'a list \<Rightarrow> (nat \<times> 'a list) list \<Rightarrow> 'a list" where
  "apply_writes b [] = b"
| "apply_writes b ((off, d) # ws) = apply_writes (buf_write b off d) ws"

fun last_write :: "(nat \<times> 'a list) list \<Rightarrow> nat \<Rightarrow> 'a list \<Rightarrow> 'a list" where
  "last_write [] p old = old"
| "last_write ((off, d) # ws) p old = last_write ws p (if off = p then d else old)"

lemma apply_writes_append: "apply_writes b (ws @ vs) = apply_writes (apply_writes b ws) vs"
  by (induction b ws rule: apply_writes.induct) auto

lemma length_apply_writes [buf_simps]:
  "\<forall>(off, d) \<in> set ws. off + length d \<le> length b \<Longrightarrow> length (apply_writes b ws) = length b"
  by (induction b ws rule: apply_writes.induct) (auto simp: buf_simps)

lemma buf_read_apply_writes:
  assumes "\<forall>(off, d) \<in> set ws. off + length d \<le> length b \<and>
      (off = p \<and> length d = n \<or> p + n \<le> off \<or> off + length d \<le> p)"
    and "p + n \<le> length b" "0 < n" "\<forall>(off, d) \<in> set ws. 0 < length d"
  shows "buf_read (apply_writes b ws) p n = last_write ws p (buf_read b p n)"
  using assms
proof (induction b ws rule: apply_writes.induct)
  case (2 b off d ws)
  then have len: "length (buf_write b off d) = length b" by (simp add: buf_simps)
  have "buf_read (buf_write b off d) p n = (if off = p then d else buf_read b p n)"
    using 2(2-5) by (auto simp: buf_simps)
  then show ?case using 2 len by auto
qed simp

section \<open>Little endian integers\<close>

definition u16_bytes :: "u16 \<Rightarrow> bytes" where
  "u16_bytes w = [ucast w, ucast (drop_bit 8 w)]"

definition bytes_u16 :: "bytes \<Rightarrow> u16" where
  "bytes_u16 b = ucast (b ! 0) OR push_bit 8 (ucast (b ! 1))"

definition u32_bytes :: "u32 \<Rightarrow> bytes" where
  "u32_bytes w = [ucast w, ucast (drop_bit 8 w), ucast (drop_bit 16 w), ucast (drop_bit 24 w)]"

definition bytes_u32 :: "bytes \<Rightarrow> u32" where
  "bytes_u32 b = ucast (b ! 0) OR push_bit 8 (ucast (b ! 1)) OR push_bit 16 (ucast (b ! 2))
     OR push_bit 24 (ucast (b ! 3))"

lemma length_u16_bytes [buf_simps]: "length (u16_bytes w) = 2"
  by (simp add: u16_bytes_def)

lemma length_u32_bytes [buf_simps]: "length (u32_bytes w) = 4"
  by (simp add: u32_bytes_def)

lemma bytes_u16_bytes [simp]: "bytes_u16 (u16_bytes w) = w"
  by (rule bit_eqI)
    (auto simp: bytes_u16_def u16_bytes_def bit_or_iff bit_push_bit_iff bit_ucast_iff bit_drop_bit_eq
      dest: bit_imp_le_length)

lemma bytes_u32_bytes [simp]: "bytes_u32 (u32_bytes w) = w"
proof (rule bit_eqI)
  fix n
  show "bit (bytes_u32 (u32_bytes w)) n = bit w n"
    by (cases "n < 8"; cases "n < 16"; cases "n < 24"; cases "n < 32")
      (auto simp: bytes_u32_def u32_bytes_def bit_or_iff bit_push_bit_iff bit_ucast_iff
        bit_drop_bit_eq dest: bit_imp_le_length)
qed

lemma u16_bytes_bytes [simp]: "length b = 2 \<Longrightarrow> u16_bytes (bytes_u16 b) = b"
proof -
  assume "length b = 2"
  then obtain x y where b: "b = [x, y]" by (auto simp: length_Suc_conv numeral_2_eq_2)
  have "ucast (ucast x OR push_bit 8 (ucast y) :: u16) = x"
    "ucast (drop_bit 8 (ucast x OR push_bit 8 (ucast y) :: u16)) = y"
    by (rule bit_eqI, auto simp: bit_or_iff bit_push_bit_iff bit_ucast_iff bit_drop_bit_eq
        dest: bit_imp_le_length)+
  then show ?thesis by (simp add: b u16_bytes_def bytes_u16_def)
qed

lemma u16_bytes_inject [simp]: "u16_bytes x = u16_bytes y \<longleftrightarrow> x = y"
  by (metis bytes_u16_bytes)

lemma u32_bytes_inject [simp]: "u32_bytes x = u32_bytes y \<longleftrightarrow> x = y"
  by (metis bytes_u32_bytes)

end
