(* ===== verification/Hamming.thy ===== *)
theory Hamming
  imports Prelude
begin

text \<open>
  The error correcting code of \<open>at91/src/utility/hamming.c\<close>: a 22 bit Hamming code over a
  256 byte block. The bootloader checks the image in SDRAM with it and the NAND flash stack
  checks every page with it. The model has one definition per C function and loop body; the
  theorems show that any single flipped bit is corrected and any two flipped bits, in the data
  or in the stored code, are reported.
\<close>

section \<open>The code\<close>

text \<open>\<open>Hamming_ERROR_SINGLEBIT\<close>, \<open>Hamming_ERROR_ECC\<close> and \<open>Hamming_ERROR_MULTIPLEBITS\<close>.\<close>

definition Hamming_ERROR_SINGLEBIT :: u8 where "Hamming_ERROR_SINGLEBIT = 1"
definition Hamming_ERROR_ECC :: u8 where "Hamming_ERROR_ECC = 2"
definition Hamming_ERROR_MULTIPLEBITS :: u8 where "Hamming_ERROR_MULTIPLEBITS = 3"

lemmas Hamming_ERROR_defs =
  Hamming_ERROR_SINGLEBIT_def Hamming_ERROR_ECC_def Hamming_ERROR_MULTIPLEBITS_def

function CountBits_loop :: "u8 \<Rightarrow> u8 \<Rightarrow> u8" where
  "CountBits_loop byte count =
     (if byte > 0
      then CountBits_loop (drop_bit 1 byte) (if byte AND 1 \<noteq> 0 then count + 1 else count)
      else count)"
  by pat_completeness auto
termination
  by (relation "measure (\<lambda>(byte, count). unat byte)")
    (auto simp del: drop_bit_Suc intro: drop_bit_1_less [simplified])

declare CountBits_loop.simps [simp del]

definition CountBitsInByte :: "u8 \<Rightarrow> u8" where
  "CountBitsInByte byte = CountBits_loop byte 0"

definition CountBitsInCode256 :: "bytes \<Rightarrow> u8" where
  "CountBitsInCode256 code =
     CountBitsInByte (code ! 0) + CountBitsInByte (code ! 1) + CountBitsInByte (code ! 2)"

text \<open>The first loop of \<open>Compute256\<close>: the state is (columnSum, evenLineCode, oddLineCode).\<close>

definition line_step :: "bytes \<Rightarrow> nat \<Rightarrow> u8 \<times> u8 \<times> u8 \<Rightarrow> u8 \<times> u8 \<times> u8" where
  "line_step data i = (\<lambda>(columnSum, evenLineCode, oddLineCode).
     let columnSum = columnSum XOR data ! i in
     if CountBitsInByte (data ! i) AND 1 = 1
     then (columnSum, evenLineCode XOR word_of_nat (255 - i), oddLineCode XOR word_of_nat i)
     else (columnSum, evenLineCode, oddLineCode))"

text \<open>The second loop: the state is (columnSum, evenColumnCode, oddColumnCode).\<close>

definition column_step :: "nat \<Rightarrow> u8 \<times> u8 \<times> u8 \<Rightarrow> u8 \<times> u8 \<times> u8" where
  "column_step i = (\<lambda>(columnSum, evenColumnCode, oddColumnCode).
     if columnSum AND 1 \<noteq> 0
     then (drop_bit 1 columnSum, evenColumnCode XOR word_of_nat (7 - i),
           oddColumnCode XOR word_of_nat i)
     else (drop_bit 1 columnSum, evenColumnCode, oddColumnCode))"

text \<open>
  The third loop interleaves the parities. Its state is the three code bytes and the four
  parity bytes it shifts out: (code, oddLine, evenLine, oddColumn, evenColumn).
\<close>

definition set_if :: "bool \<Rightarrow> u8 \<Rightarrow> u8 \<Rightarrow> u8" where
  "set_if c m x = (if c then x OR m else x)"

definition interleave_step ::
    "nat \<Rightarrow> (u8 \<times> u8 \<times> u8) \<times> u8 \<times> u8 \<times> u8 \<times> u8 \<Rightarrow> (u8 \<times> u8 \<times> u8) \<times> u8 \<times> u8 \<times> u8 \<times> u8" where
  "interleave_step i = (\<lambda>((code0, code1, code2), oddLine, evenLine, oddColumn, evenColumn).
     ((set_if (evenLine AND 0x80 \<noteq> 0) 1 (set_if (oddLine AND 0x80 \<noteq> 0) 2 (push_bit 2 code0)),
       set_if (evenLine AND 0x08 \<noteq> 0) 1 (set_if (oddLine AND 0x08 \<noteq> 0) 2 (push_bit 2 code1)),
       set_if (evenColumn AND 0x04 \<noteq> 0) 1 (set_if (oddColumn AND 0x04 \<noteq> 0) 2 (push_bit 2 code2))),
      push_bit 1 oddLine, push_bit 1 evenLine, push_bit 1 oddColumn, push_bit 1 evenColumn))"

definition interleave :: "u8 \<Rightarrow> u8 \<Rightarrow> u8 \<Rightarrow> u8 \<Rightarrow> u8 \<times> u8 \<times> u8" where
  "interleave oddLine evenLine oddColumn evenColumn =
     fst (for_range 4 interleave_step ((0, 0, 0), oddLine, evenLine, oddColumn, evenColumn))"

definition Compute256 :: "bytes \<Rightarrow> bytes" where
  "Compute256 data =
     (let (columnSum, evenLineCode, oddLineCode) = for_range 256 (line_step data) (0, 0, 0);
          (_, evenColumnCode, oddColumnCode) = for_range 8 column_step (columnSum, 0, 0);
          (code0, code1, code2) =
            interleave oddLineCode evenLineCode oddColumnCode evenColumnCode
      in [NOT code0, NOT code1, NOT code2])"

text \<open>The byte and bit index that \<open>Verify256\<close> reads out of the correction code.\<close>

definition correction_byte :: "bytes \<Rightarrow> u8" where
  "correction_byte correctionCode =
     (let c0 = correctionCode ! 0; c1 = correctionCode ! 1 in
      c0 AND 0x80 OR push_bit 1 c0 AND 0x40 OR push_bit 2 c0 AND 0x20 OR push_bit 3 c0 AND 0x10
      OR drop_bit 4 c1 AND 0x08 OR drop_bit 3 c1 AND 0x04 OR drop_bit 2 c1 AND 0x02
      OR drop_bit 1 c1 AND 0x01)"

definition correction_bit :: "bytes \<Rightarrow> u8" where
  "correction_bit correctionCode =
     (let c2 = correctionCode ! 2 in
      drop_bit 5 c2 AND 0x04 OR drop_bit 4 c2 AND 0x02 OR drop_bit 3 c2 AND 0x01)"

definition Verify256 :: "bytes \<Rightarrow> bytes \<Rightarrow> bytes \<times> u8" where
  "Verify256 data originalCode =
     (let computedCode = Compute256 data;
          correctionCode = [computedCode ! 0 XOR originalCode ! 0,
                            computedCode ! 1 XOR originalCode ! 1,
                            computedCode ! 2 XOR originalCode ! 2]
      in if correctionCode ! 0 = 0 \<and> correctionCode ! 1 = 0 \<and> correctionCode ! 2 = 0
         then (data, 0)
         else if CountBitsInCode256 correctionCode = 11
         then (let byte = correction_byte correctionCode; bit = correction_bit correctionCode
               in (data[unat byte := data ! unat byte XOR push_bit (unat bit) 1],
                   Hamming_ERROR_SINGLEBIT))
         else if CountBitsInCode256 correctionCode = 1
         then (data, Hamming_ERROR_ECC)
         else (data, Hamming_ERROR_MULTIPLEBITS))"

section \<open>The code on whole buffers\<close>

text \<open>
  \<open>Hamming_Compute256x\<close> and \<open>Hamming_Verify256x\<close> walk a buffer in blocks of 256 bytes while
  \<open>size > 0\<close>, with \<open>size -= 256\<close> on an \<open>unsigned int\<close>. \<open>off\<close> and \<open>coff\<close> are how far the two
  pointers have advanced; \<open>None\<close> is an access outside one of the two buffers.
\<close>

function Compute256x_loop :: "bytes \<Rightarrow> nat \<Rightarrow> u32 \<Rightarrow> bytes \<Rightarrow> nat \<Rightarrow> bytes option" where
  "Compute256x_loop data off sz code coff =
     (if sz > 0
      then if off + 256 \<le> length data \<and> coff + 3 \<le> length code
        then Compute256x_loop data (off + 256) (sz - 256)
               (buf_write code coff (Compute256 (buf_read data off 256))) (coff + 3)
        else None
      else Some code)"
  by pat_completeness auto
termination
  by (relation "measure (\<lambda>(data, off, sz, code, coff). length data - off)") auto

declare Compute256x_loop.simps [simp del]

definition Hamming_Compute256x :: "bytes \<Rightarrow> u32 \<Rightarrow> bytes \<Rightarrow> bytes option" where
  "Hamming_Compute256x data sz code = Compute256x_loop data 0 sz code 0"

function Verify256x_loop ::
    "bytes \<Rightarrow> nat \<Rightarrow> u32 \<Rightarrow> bytes \<Rightarrow> nat \<Rightarrow> u8 \<Rightarrow> (bytes \<times> u8) option" where
  "Verify256x_loop data off sz code coff result =
     (if sz > 0
      then if off + 256 \<le> length data \<and> coff + 3 \<le> length code
        then let (block, error) = Verify256 (buf_read data off 256) (buf_read code coff 3);
                 data = buf_write data off block
             in if error = Hamming_ERROR_SINGLEBIT
                then Verify256x_loop data (off + 256) (sz - 256) code (coff + 3)
                       Hamming_ERROR_SINGLEBIT
                else if error \<noteq> 0 then Some (data, error)
                else Verify256x_loop data (off + 256) (sz - 256) code (coff + 3) result
        else None
      else Some (data, result))"
  by pat_completeness auto
termination
proof (relation "measure (\<lambda>(data, off, sz, code, coff, result). length data - off)", goal_cases)
  case (2 data off sz code coff result x block error data')
  then have "length block = 256" by (auto simp: Verify256_def Let_def buf_simps split: if_splits)
  with 2 show ?case by (auto simp: buf_simps)
next
  case (3 data off sz code coff result x block error data')
  then have "length block = 256" by (auto simp: Verify256_def Let_def buf_simps split: if_splits)
  with 3 show ?case by (auto simp: buf_simps)
qed simp

declare Verify256x_loop.simps [simp del]

definition Hamming_Verify256x :: "bytes \<Rightarrow> u32 \<Rightarrow> bytes \<Rightarrow> (bytes \<times> u8) option" where
  "Hamming_Verify256x data sz code = Verify256x_loop data 0 sz code 0 0"

section \<open>Counting bits and linearity\<close>

lemma bit_CountBits_loop:
  "drop_bit n b = 0 \<Longrightarrow> bit (CountBits_loop b c) 0 = (bit c 0 \<noteq> parity n b)"
proof (induction n arbitrary: b c)
  case 0
  then show ?case by (simp add: CountBits_loop.simps)
next
  case (Suc n)
  show ?case
  proof (cases "b = 0")
    case True
    then show ?thesis by (simp add: CountBits_loop.simps)
  next
    case False
    have d: "drop_bit n (drop_bit 1 b) = 0"
      using Suc.prems by (simp only: drop_bit_drop_bit) simp
    let ?c = "if b AND 1 \<noteq> 0 then c + 1 else c"
    have "CountBits_loop b c = CountBits_loop (drop_bit 1 b) ?c"
      using False by (subst CountBits_loop.simps) (simp only: word_neq_0_conv if_True)
    then have "bit (CountBits_loop b c) 0 = (bit ?c 0 \<noteq> parity n (drop_bit 1 b))"
      by (simp only: Suc.IH [OF d])
    moreover have "bit ?c 0 = (bit c 0 \<noteq> bit b 0)"
      by (simp only: and_1_neq_0) (simp add: bit_0)
    ultimately show ?thesis by (simp only: parity.simps) blast
  qed
qed

lemma u8_drop_bit_8 [simp]: "drop_bit 8 (b :: u8) = 0"
  by (rule bit_eqI) (simp add: bit_drop_bit_eq)

lemma CountBitsInByte_odd: "CountBitsInByte b AND 1 = 1 \<longleftrightarrow> parity 8 b"
proof -
  have "CountBitsInByte b AND 1 = 1 \<longleftrightarrow> bit (CountBitsInByte b) 0"
    by (rule and_1_eq_1)
  also have "\<dots> \<longleftrightarrow> parity 8 b"
    unfolding CountBitsInByte_def by (subst bit_CountBits_loop [where n = 8]) simp_all
  finally show ?thesis .
qed

text \<open>The first loop is linear over XOR, block by block.\<close>

definition xor3 :: "u8 \<times> u8 \<times> u8 \<Rightarrow> u8 \<times> u8 \<times> u8 \<Rightarrow> u8 \<times> u8 \<times> u8" where
  "xor3 = (\<lambda>(a, b, c) (a', b', c'). (a XOR a', b XOR b', c XOR c'))"

lemma xor3_pair [simp]: "xor3 (a, b, c) (a', b', c') = (a XOR a', b XOR b', c XOR c')"
  by (simp add: xor3_def)

definition xor_block :: "bytes \<Rightarrow> bytes \<Rightarrow> bytes" where
  "xor_block d e = map2 (XOR) d e"

lemma xor_block_nth [simp]:
  "i < length d \<Longrightarrow> i < length e \<Longrightarrow> xor_block d e ! i = d ! i XOR e ! i"
  by (simp add: xor_block_def)

lemma line_step_eq:
  "line_step data i (s, e, ol) =
     (s XOR data ! i, if parity 8 (data ! i) then e XOR word_of_nat (255 - i) else e,
      if parity 8 (data ! i) then ol XOR word_of_nat i else ol)"
  by (simp add: line_step_def CountBitsInByte_odd)

lemma column_step_eq:
  "column_step i (s, e, ol) =
     (drop_bit 1 s, if bit s 0 then e XOR word_of_nat (7 - i) else e,
      if bit s 0 then ol XOR word_of_nat i else ol)"
  unfolding column_step_def and_1_neq_0 by simp

lemma line_step_linear:
  assumes "i < length d" "i < length e"
  shows "line_step (xor_block d e) i (xor3 s t) = xor3 (line_step d i s) (line_step e i t)"
proof -
  obtain a b c a' b' c' where "s = (a, b, c)" "t = (a', b', c')" by (metis prod_cases3)
  then show ?thesis using assms
    by (simp add: line_step_eq xor3_def parity_xor xor_ac)
qed

lemma column_step_linear:
  "column_step i (xor3 s t) = xor3 (column_step i s) (column_step i t)"
proof -
  obtain a b c a' b' c' where "s = (a, b, c)" "t = (a', b', c')" by (metis prod_cases3)
  then show ?thesis
    by (simp add: column_step_eq xor3_def bit_xor_iff drop_bit_xor xor_ac del: bit_0)
qed

lemma line_loop_linear:
  "n \<le> length d \<Longrightarrow> n \<le> length e \<Longrightarrow>
   for_range n (line_step (xor_block d e)) (0, 0, 0)
     = xor3 (for_range n (line_step d) (0, 0, 0)) (for_range n (line_step e) (0, 0, 0))"
  by (induction n) (auto simp: line_step_linear)

lemma column_loop_linear:
  "for_range n column_step (xor3 s t) = xor3 (for_range n column_step s) (for_range n column_step t)"
  by (induction n) (auto simp: column_step_linear)

text \<open>The bits of the interleaved code.\<close>

lemma and_mask_bits [simp]:
  fixes x :: u8
  shows "x AND 0x80 \<noteq> 0 \<longleftrightarrow> bit x 7" "x AND 0x08 \<noteq> 0 \<longleftrightarrow> bit x 3" "x AND 0x04 \<noteq> 0 \<longleftrightarrow> bit x 2"
  using and_pow2_neq_0 [of 7 x] and_pow2_neq_0 [of 3 x] and_pow2_neq_0 [of 2 x] by simp_all

lemma bit_set_if: "bit (set_if c m x) n = (c \<and> bit m n \<or> bit x n)"
  by (auto simp: set_if_def bit_or_iff)

definition code_bits :: "u8 \<Rightarrow> bool list" where
  "code_bits x = map (bit x) [7, 6, 5, 4, 3, 2, 1, 0]"

lemma code_bits_inject: "code_bits x = code_bits y \<longleftrightarrow> x = y"
  by (auto simp: code_bits_def u8_eq_iff)

lemma interleave_bits:
  "interleave ol el oc ec = (c0, c1, c2) \<Longrightarrow>
   code_bits c0 = [bit ol 7, bit el 7, bit ol 6, bit el 6, bit ol 5, bit el 5, bit ol 4, bit el 4]
   \<and> code_bits c1 = [bit ol 3, bit el 3, bit ol 2, bit el 2, bit ol 1, bit el 1, bit ol 0, bit el 0]
   \<and> code_bits c2 = [bit oc 2, bit ec 2, bit oc 1, bit ec 1, bit oc 0, bit ec 0, False, False]"
  by (auto simp: interleave_def interleave_step_def eval_nat_numeral code_bits_def bit_set_if
      bit_push_bit_iff simp del: push_bit_Suc simp flip: push_bit_of_1)

section \<open>Syndromes\<close>

text \<open>The code before inversion, as a function of what the first loop computed.\<close>

definition parities_code :: "u8 \<times> u8 \<times> u8 \<Rightarrow> u8 \<times> u8 \<times> u8" where
  "parities_code = (\<lambda>(columnSum, evenLine, oddLine).
     let (_, evenColumn, oddColumn) = for_range 8 column_step (columnSum, 0, 0)
     in interleave oddLine evenLine oddColumn evenColumn)"

definition syndrome :: "bytes \<Rightarrow> u8 \<times> u8 \<times> u8" where
  "syndrome e = parities_code (for_range 256 (line_step e) (0, 0, 0))"

lemma Compute256_syndrome:
  "Compute256 data = (case syndrome data of (c0, c1, c2) \<Rightarrow> [NOT c0, NOT c1, NOT c2])"
  by (simp add: Compute256_def syndrome_def parities_code_def split: prod.splits)

lemma length_Compute256 [simp]: "length (Compute256 data) = 3"
  by (simp add: Compute256_syndrome split: prod.splits)

lemma interleave_linear:
  "interleave (a XOR a') (b XOR b') (c XOR c') (d XOR d')
     = xor3 (interleave a b c d) (interleave a' b' c' d')"
proof -
  obtain x y z where 1: "interleave a b c d = (x, y, z)" by (metis prod_cases3)
  obtain x' y' z' where 2: "interleave a' b' c' d' = (x', y', z')" by (metis prod_cases3)
  obtain u v w where 3: "interleave (a XOR a') (b XOR b') (c XOR c') (d XOR d') = (u, v, w)"
    by (metis prod_cases3)
  note bs = interleave_bits [OF 1] interleave_bits [OF 2] interleave_bits [OF 3]
  have "u = x XOR x' \<and> v = y XOR y' \<and> w = z XOR z'"
    using bs by (simp add: code_bits_def u8_eq_iff bit_xor_iff del: bit_0)
  then show ?thesis by (simp add: 1 2 3 xor3_def)
qed

lemma xor3_0 [simp]: "xor3 (0, 0, 0) s = s" "xor3 s (0, 0, 0) = s"
  by (cases s; simp add: xor3_def)+

lemma parities_code_linear: "parities_code (xor3 s t) = xor3 (parities_code s) (parities_code t)"
proof -
  obtain a b c a' b' c' where st: "s = (a, b, c)" "t = (a', b', c')" by (metis prod_cases3)
  obtain x y z where 1: "for_range 8 column_step (a, 0, 0) = (x, y, z)" by (metis prod_cases3)
  obtain x' y' z' where 2: "for_range 8 column_step (a', 0, 0) = (x', y', z')" by (metis prod_cases3)
  have "for_range 8 column_step (a XOR a', 0, 0) = xor3 (x, y, z) (x', y', z')"
    using column_loop_linear [of 8 "(a, 0, 0)" "(a', 0, 0)"] by (simp only: 1 2) simp
  then show ?thesis
    by (simp add: st parities_code_def 1 2 interleave_linear)
qed

lemma syndrome_linear:
  "length d = 256 \<Longrightarrow> length e = 256 \<Longrightarrow>
   syndrome (xor_block d e) = xor3 (syndrome d) (syndrome e)"
  by (simp add: syndrome_def line_loop_linear parities_code_linear)

text \<open>A single flipped bit.\<close>

definition unit_error :: "nat \<Rightarrow> nat \<Rightarrow> bytes" where
  "unit_error i b = (replicate 256 0)[i := push_bit b 1]"

lemma length_unit_error [simp]: "length (unit_error i b) = 256"
  by (simp add: unit_error_def)

lemma xor_unit_error:
  "length d = 256 \<Longrightarrow> i < 256 \<Longrightarrow>
   xor_block d (unit_error i b) = d[i := d ! i XOR push_bit b 1]"
  by (rule nth_equalityI) (auto simp: xor_block_def unit_error_def nth_list_update)

lemma parity_push_bit: "b < 8 \<Longrightarrow> parity 8 (push_bit b 1 :: u8)"
  by (elim less_8E; simp only:; code_simp)

lemma line_loop_unit:
  "b < 8 \<Longrightarrow> i < 256 \<Longrightarrow> n \<le> 256 \<Longrightarrow>
   for_range n (line_step (unit_error i b)) (0, 0, 0) =
     (if i < n then (push_bit b 1, word_of_nat (255 - i), word_of_nat i) else (0, 0, 0))"
proof (induction n)
  case (Suc n)
  then show ?case
    by (cases "i = n") (auto simp: line_step_eq parity_push_bit unit_error_def nth_list_update
        simp del: parity.simps push_bit_of_1)
qed simp

lemma column_loop_unit:
  "b < 8 \<Longrightarrow> for_range 8 column_step (push_bit b 1, 0, 0) = (0, word_of_nat (7 - b), word_of_nat b)"
  by (elim less_8E; simp only:; code_simp)

lemma syndrome_unit:
  "b < 8 \<Longrightarrow> i < 256 \<Longrightarrow>
   syndrome (unit_error i b) =
     interleave (word_of_nat i) (word_of_nat (255 - i)) (word_of_nat b) (word_of_nat (7 - b))"
  by (simp add: syndrome_def line_loop_unit parities_code_def column_loop_unit
      del: push_bit_of_1)

lemma word_255_minus: "i < 256 \<Longrightarrow> (word_of_nat (255 - i) :: u8) = NOT (word_of_nat i)"
  by (simp add: not_eq_complement of_nat_diff)

lemma bits_7_minus:
  "b < 8 \<Longrightarrow> bit (word_of_nat (7 - b) :: u8) 0 = (\<not> bit (word_of_nat b :: u8) 0)
     \<and> bit (word_of_nat (7 - b) :: u8) (Suc 0) = (\<not> bit (word_of_nat b :: u8) (Suc 0))
     \<and> bit (word_of_nat (7 - b) :: u8) 2 = (\<not> bit (word_of_nat b :: u8) 2)"
  by (elim less_8E) simp_all

text \<open>
  The bits of the syndrome of one flipped bit: each pair holds an address bit and its complement.
\<close>

definition pair_bits :: "bool list \<Rightarrow> bool list" where
  "pair_bits as = concat (map (\<lambda>a. [a, \<not> a]) as)"

definition address_bits :: "nat \<Rightarrow> nat \<Rightarrow> bool list" where
  "address_bits i b = map (bit (word_of_nat i :: u8)) [7, 6, 5, 4, 3, 2, 1, 0]
     @ map (bit (word_of_nat b :: u8)) [2, 1, 0]"

definition code3_bits :: "u8 \<times> u8 \<times> u8 \<Rightarrow> bool list" where
  "code3_bits = (\<lambda>(c0, c1, c2). code_bits c0 @ code_bits c1 @ code_bits c2)"

lemma syndrome_unit_bits:
  assumes "b < 8" "i < 256"
  shows "code3_bits (syndrome (unit_error i b)) = pair_bits (address_bits i b) @ [False, False]"
proof -
  obtain c0 c1 c2 where c: "syndrome (unit_error i b) = (c0, c1, c2)" by (metis prod_cases3)
  have "interleave (word_of_nat i) (NOT (word_of_nat i)) (word_of_nat b) (word_of_nat (7 - b))
      = (c0, c1, c2)"
    using c unfolding syndrome_unit [OF assms] word_255_minus [OF assms(2)] .
  from interleave_bits [OF this] show ?thesis
    by (simp add: c code3_bits_def pair_bits_def address_bits_def bits_7_minus [OF assms(1)]
        bit_not_iff del: bit_0)
qed

section \<open>Counting the bits of a correction code\<close>

definition ones :: "bool list \<Rightarrow> nat" where
  "ones l = length (filter id l)"

lemma ones_simps [simp]:
  "ones [] = 0" "ones (a # l) = of_bool a + ones l" "ones (l @ l') = ones l + ones l'"
  by (auto simp: ones_def)

fun popcount :: "nat \<Rightarrow> u8 \<Rightarrow> nat" where
  "popcount 0 b = 0"
| "popcount (Suc n) b = of_bool (bit b 0) + popcount n (drop_bit 1 b)"

lemma popcount_0 [simp]: "popcount n 0 = 0"
  by (induction n) auto

lemma CountBits_loop_popcount:
  "drop_bit n b = 0 \<Longrightarrow> CountBits_loop b c = c + word_of_nat (popcount n b)"
proof (induction n arbitrary: b c)
  case 0
  then show ?case by (simp add: CountBits_loop.simps)
next
  case (Suc n)
  show ?case
  proof (cases "b = 0")
    case True
    then show ?thesis by (simp add: CountBits_loop.simps)
  next
    case False
    have d: "drop_bit n (drop_bit 1 b) = 0"
      using Suc.prems by (simp only: drop_bit_drop_bit) simp
    let ?c = "if b AND 1 \<noteq> 0 then c + 1 else c"
    have "CountBits_loop b c = CountBits_loop (drop_bit 1 b) ?c"
      using False by (subst CountBits_loop.simps) (simp only: word_neq_0_conv if_True)
    also have "\<dots> = ?c + word_of_nat (popcount n (drop_bit 1 b))"
      by (rule Suc.IH [OF d])
    also have "?c = c + of_bool (bit b 0)"
      by (simp only: and_1_neq_0) simp
    finally show ?thesis by (simp only: popcount.simps) (simp add: add.assoc)
  qed
qed

lemma popcount_code_bits: "popcount 8 x = ones (code_bits x)"
  by (simp add: eval_nat_numeral code_bits_def bit_drop_bit_eq drop_bit_drop_bit del: bit_0 drop_bit_Suc)

lemma CountBitsInByte_ones: "CountBitsInByte x = word_of_nat (ones (code_bits x))"
  by (simp add: CountBitsInByte_def CountBits_loop_popcount [of 8] popcount_code_bits)

lemma length_code3_bits [simp]: "length (code3_bits c) = 24"
  by (cases c) (simp add: code3_bits_def code_bits_def)

lemma ones_le_length: "ones l \<le> length l"
  by (simp add: ones_def)

lemma u8_of_nat_eq:
  assumes "m < 256" "n < 256"
  shows "(word_of_nat m :: u8) = word_of_nat n \<longleftrightarrow> m = n"
  using assms by (simp add: word_unat_eq_iff unat_of_nat)

lemma CountBitsInCode256_ones:
  "CountBitsInCode256 [c0, c1, c2] = word_of_nat (ones (code3_bits (c0, c1, c2)))"
  by (simp add: CountBitsInCode256_def CountBitsInByte_ones code3_bits_def)

lemma CountBitsInCode256_eq:
  "n < 256 \<Longrightarrow>
   CountBitsInCode256 [c0, c1, c2] = word_of_nat n \<longleftrightarrow> ones (code3_bits (c0, c1, c2)) = n"
  using ones_le_length [of "code3_bits (c0, c1, c2)"]
  by (simp only: CountBitsInCode256_ones length_code3_bits u8_of_nat_eq)

lemma ones_pair_bits: "ones (pair_bits as) = length as"
  by (induction as) (auto simp: pair_bits_def)

text \<open>Flipping one entry changes the count by one.\<close>

lemma ones_flip:
  assumes "k < length l"
  shows "ones (l[k := \<not> l ! k]) = (if l ! k then ones l - 1 else ones l + 1)"
proof -
  have "ones (l[k := a]) = ones (take k l) + of_bool a + ones (drop (Suc k) l)" for a
    using assms by (simp add: upd_conv_take_nth_drop)
  from this [of "\<not> l ! k"] this [of "l ! k"] show ?thesis by simp
qed

lemma code_bits_nth: "m < 8 \<Longrightarrow> code_bits x ! m = bit x (7 - m)"
  by (elim less_8E) (simp_all add: code_bits_def nth_Cons')

lemma length_code_bits [simp]: "length (code_bits x) = 8"
  by (simp add: code_bits_def)

lemma code3_bits_nth:
  "m < 8 \<Longrightarrow> code3_bits (c0, c1, c2) ! m = bit c0 (7 - m)"
  "m < 8 \<Longrightarrow> code3_bits (c0, c1, c2) ! (8 + m) = bit c1 (7 - m)"
  "m < 8 \<Longrightarrow> code3_bits (c0, c1, c2) ! (16 + m) = bit c2 (7 - m)"
  by (simp_all add: code3_bits_def nth_append code_bits_nth)

lemma code3_bits_inject: "code3_bits c = code3_bits d \<longleftrightarrow> c = d"
  by (cases c; cases d) (simp add: code3_bits_def code_bits_inject)

lemma code3_bits_0: "code3_bits (0, 0, 0) = replicate 24 False"
  by code_simp

definition bneq :: "bool \<Rightarrow> bool \<Rightarrow> bool" where
  "bneq a b \<longleftrightarrow> a \<noteq> b"

lemma bneq_self [simp]: "\<not> bneq a a"
  by (simp add: bneq_def)

lemma code3_bits_xor: "code3_bits (xor3 c d) = map2 bneq (code3_bits c) (code3_bits d)"
  by (cases c; cases d) (simp add: code3_bits_def code_bits_def bit_xor_iff bneq_def del: bit_0)

section \<open>One flipped bit is corrected, two are reported\<close>

text \<open>A bit of the code word: bit \<open>b\<close> of data byte \<open>i\<close>, or bit \<open>t\<close> of code byte \<open>j\<close>.\<close>

datatype position = DataBit nat nat | CodeBit nat nat

fun valid_position :: "position \<Rightarrow> bool" where
  "valid_position (DataBit i b) \<longleftrightarrow> i < 256 \<and> b < 8"
| "valid_position (CodeBit j t) \<longleftrightarrow> j < 3 \<and> t < 8"

fun flip_at :: "position \<Rightarrow> bytes \<times> bytes \<Rightarrow> bytes \<times> bytes" where
  "flip_at (DataBit i b) (data, code) = (data[i := data ! i XOR push_bit b 1], code)"
| "flip_at (CodeBit j t) (data, code) = (data, code[j := code ! j XOR push_bit t 1])"

text \<open>The same two errors as XOR patterns on the data and on the code.\<close>

definition code_flip :: "nat \<Rightarrow> nat \<Rightarrow> u8 \<times> u8 \<times> u8" where
  "code_flip j t = (if j = 0 then push_bit t 1 else 0, if j = 1 then push_bit t 1 else 0,
     if j = 2 then push_bit t 1 else 0)"

definition xor_code :: "bytes \<Rightarrow> u8 \<times> u8 \<times> u8 \<Rightarrow> bytes" where
  "xor_code code = (\<lambda>(k0, k1, k2). [code ! 0 XOR k0, code ! 1 XOR k1, code ! 2 XOR k2])"

definition correct_at :: "u8 \<times> u8 \<times> u8 \<Rightarrow> bytes \<Rightarrow> bytes" where
  "correct_at = (\<lambda>(c0, c1, c2) data.
     let byte = correction_byte [c0, c1, c2]; bt = correction_bit [c0, c1, c2]
     in data[unat byte := data ! unat byte XOR push_bit (unat bt) 1])"

lemma correction_cancel: "(s XOR e) XOR (s XOR k) = (e XOR k :: u8)"
  by (simp add: xor_ac)

lemma Verify256_xor:
  assumes "length d = 256" "length e = 256"
  shows "Verify256 (xor_block d e) (xor_code (Compute256 d) k) =
    (let c = xor3 (syndrome e) k; n = ones (code3_bits c) in
     if c = (0, 0, 0) then (xor_block d e, 0)
     else if n = 11 then (correct_at c (xor_block d e), Hamming_ERROR_SINGLEBIT)
     else if n = 1 then (xor_block d e, Hamming_ERROR_ECC)
     else (xor_block d e, Hamming_ERROR_MULTIPLEBITS))"
proof -
  obtain s0 s1 s2 where s: "syndrome d = (s0, s1, s2)" by (metis prod_cases3)
  obtain e0 e1 e2 where e: "syndrome e = (e0, e1, e2)" by (metis prod_cases3)
  obtain k0 k1 k2 where k: "k = (k0, k1, k2)" by (metis prod_cases3)
  have x: "syndrome (xor_block d e) = (s0 XOR e0, s1 XOR e1, s2 XOR e2)"
    using assms by (simp add: syndrome_linear s e)
  have n: "CountBitsInCode256 [e0 XOR k0, e1 XOR k1, e2 XOR k2] = 11
        \<longleftrightarrow> ones (code3_bits (e0 XOR k0, e1 XOR k1, e2 XOR k2)) = 11"
      "CountBitsInCode256 [e0 XOR k0, e1 XOR k1, e2 XOR k2] = 1
        \<longleftrightarrow> ones (code3_bits (e0 XOR k0, e1 XOR k1, e2 XOR k2)) = 1"
    using CountBitsInCode256_eq [of 11] CountBitsInCode256_eq [of 1] by simp_all
  show ?thesis
    by (simp add: Verify256_def Compute256_syndrome x s e k xor_code_def correction_cancel n
        correct_at_def Let_def)
qed

lemma xor_block_0: "length d = 256 \<Longrightarrow> xor_block d (replicate 256 0) = d"
  by (rule nth_equalityI) (simp_all add: xor_block_def)

lemma syndrome_0: "syndrome (replicate 256 0) = (0, 0, 0)"
  using syndrome_linear [of "replicate 256 0" "replicate 256 0"]
  by (cases "syndrome (replicate 256 0)") (simp add: xor_block_0)

lemma xor_code_0: "length c = 3 \<Longrightarrow> xor_code c (0, 0, 0) = c"
  by (auto simp: xor_code_def length_Suc_conv numeral_3_eq_3)

lemma xor_code_flip:
  "length c = 3 \<Longrightarrow> j < 3 \<Longrightarrow> xor_code c (code_flip j t) = c[j := c ! j XOR push_bit t 1]"
  by (auto simp: xor_code_def code_flip_def length_Suc_conv numeral_3_eq_3 less_Suc_eq)

lemma code_bits_flip:
  "t < 8 \<Longrightarrow> code_bits (x XOR push_bit t 1) = (code_bits x)[7 - t := \<not> code_bits x ! (7 - t)]"
  by (elim less_8E) (simp_all add: code_bits_def bit_xor_iff del: bit_0)

lemma code3_bits_code_flip:
  assumes "j < 3" "t < 8"
  shows "code3_bits (xor3 c (code_flip j t))
    = (code3_bits c)[8 * j + (7 - t) := \<not> code3_bits c ! (8 * j + (7 - t))]"
proof -
  obtain c0 c1 c2 where c: "c = (c0, c1, c2)" by (metis prod_cases3)
  have t: "7 - t < 8" by simp
  from assms(1) consider "j = 0" | "j = 1" | "j = 2" by linarith
  then show ?thesis
    by cases (simp_all add: t c code_flip_def code3_bits_def code_bits_flip [OF assms(2)]
        list_update_append nth_append del: push_bit_of_1)
qed

lemma correct_at_unit:
  assumes "b < 8" "i < 256" "length d = 256"
  shows "correct_at (syndrome (unit_error i b)) (xor_block d (unit_error i b)) = d"
proof -
  obtain c0 c1 c2 where c: "syndrome (unit_error i b) = (c0, c1, c2)" by (metis prod_cases3)
  note bs = syndrome_unit_bits [OF assms(1,2), unfolded c]
  have "correction_byte [c0, c1, c2] = word_of_nat i"
    using bs by (simp add: u8_eq_iff correction_byte_def code3_bits_def code_bits_def pair_bits_def
        address_bits_def bit_or_iff bit_and_iff bit_push_bit_iff bit_drop_bit_eq
          del: bit_0 push_bit_Suc drop_bit_Suc)
  moreover have "unat (correction_bit [c0, c1, c2]) = b"
  proof -
    have "correction_bit [c0, c1, c2] = word_of_nat b"
      using bs assms(1) by (elim less_8E)
        (simp_all add: u8_eq_iff correction_bit_def code3_bits_def code_bits_def pair_bits_def
          address_bits_def bit_or_iff bit_and_iff bit_push_bit_iff bit_drop_bit_eq
          del: bit_0 push_bit_Suc drop_bit_Suc)
    then show ?thesis using assms(1) by (simp add: unat_of_nat)
  qed
  moreover have "unat (word_of_nat i :: u8) = i" using assms(2) by (simp add: unat_of_nat)
  ultimately show ?thesis
    using assms by (simp add: correct_at_def c xor_unit_error xor.assoc del: push_bit_of_1)
qed

lemma Verify256_clean:
  assumes "length data = 256"
  shows "Verify256 data (Compute256 data) = (data, 0)"
proof -
  have "Verify256 (xor_block data (replicate 256 0)) (xor_code (Compute256 data) (0, 0, 0))
      = (xor_block data (replicate 256 0), 0)"
    using assms by (simp add: Verify256_xor syndrome_0)
  then show ?thesis using assms by (simp add: xor_block_0 xor_code_0)
qed

lemma syndrome_unit_ones:
  "b < 8 \<Longrightarrow> i < 256 \<Longrightarrow> ones (code3_bits (syndrome (unit_error i b))) = 11"
  by (simp add: syndrome_unit_bits ones_pair_bits) (simp add: address_bits_def)

lemma not_0_if_ones: "ones (code3_bits c) \<noteq> 0 \<Longrightarrow> c \<noteq> (0, 0, 0)"
  by (auto simp: code3_bits_0 ones_def)

text \<open>The error patterns of one and of two flips.\<close>

fun data_error :: "position \<Rightarrow> bytes" where
  "data_error (DataBit i b) = unit_error i b"
| "data_error (CodeBit j t) = replicate 256 0"

fun code_error :: "position \<Rightarrow> u8 \<times> u8 \<times> u8" where
  "code_error (DataBit i b) = (0, 0, 0)"
| "code_error (CodeBit j t) = code_flip j t"

lemma length_data_error [simp]: "length (data_error p) = 256"
  by (cases p) auto

lemma flip_at_xor:
  assumes "valid_position p" "length d = 256" "length c = 3"
  shows "flip_at p (d, c) = (xor_block d (data_error p), xor_code c (code_error p))"
  using assms by (cases p)
    (auto simp: xor_unit_error xor_code_flip xor_block_0 xor_code_0 simp del: push_bit_of_1)

definition position_syndrome :: "position \<Rightarrow> u8 \<times> u8 \<times> u8" where
  "position_syndrome p = xor3 (syndrome (data_error p)) (code_error p)"

lemma position_syndrome_simps:
  "position_syndrome (DataBit i b) = syndrome (unit_error i b)"
  "position_syndrome (CodeBit j t) = code_flip j t"
  by (simp_all add: position_syndrome_def syndrome_0)

text \<open>The syndrome bits of a flipped code bit, and of a flip after any other error.\<close>

definition code_index :: "nat \<Rightarrow> nat \<Rightarrow> nat" where
  "code_index j t = 8 * j + (7 - t)"

lemma code_index_less: "j < 3 \<Longrightarrow> code_index j t < 24"
  by (simp add: code_index_def)

lemma ones_code_flip:
  "j < 3 \<Longrightarrow> t < 8 \<Longrightarrow>
   ones (code3_bits (xor3 c (code_flip j t))) =
     (if code3_bits c ! code_index j t then ones (code3_bits c) - 1 else ones (code3_bits c) + 1)"
  using code_index_less [of j t]
  by (simp add: code3_bits_code_flip code_index_def [symmetric] ones_flip)

lemma ones_single_code_flip: "j < 3 \<Longrightarrow> t < 8 \<Longrightarrow> ones (code3_bits (code_flip j t)) = 1"
  using ones_code_flip [of j t "(0, 0, 0)"] code_index_less [of j t]
  by (simp add: code3_bits_0) (simp add: ones_def)

text \<open>A single flipped bit of the code word: the data comes back as it was.\<close>

lemma Verify256_single_error_raw:
  assumes "length data = 256" and "valid_position p"
  shows "case flip_at p (data, Compute256 data) of (data', code') \<Rightarrow>
    Verify256 data' code' =
      (data, case p of DataBit i b \<Rightarrow> Hamming_ERROR_SINGLEBIT | CodeBit j t \<Rightarrow> Hamming_ERROR_ECC)"
proof (cases p)
  case (DataBit i b)
  with assms have ib: "b < 8" "i < 256" by auto
  have "Verify256 (xor_block data (unit_error i b)) (xor_code (Compute256 data) (0, 0, 0))
      = (data, Hamming_ERROR_SINGLEBIT)"
    using assms(1) ib not_0_if_ones [of "syndrome (unit_error i b)"]
    by (simp add: Verify256_xor syndrome_unit_ones correct_at_unit Let_def)
  then show ?thesis using assms DataBit by (simp add: flip_at_xor del: flip_at.simps)
next
  case (CodeBit j t)
  with assms have jt: "j < 3" "t < 8" by auto
  have "Verify256 (xor_block data (replicate 256 0)) (xor_code (Compute256 data) (code_flip j t))
      = (data, Hamming_ERROR_ECC)"
    using assms(1) jt not_0_if_ones [of "code_flip j t"]
    by (subst Verify256_xor) (simp_all add: syndrome_0 ones_single_code_flip xor_block_0 Let_def)
  then show ?thesis using assms CodeBit by (simp add: flip_at_xor del: flip_at.simps)
qed

text \<open>Two flipped bits.\<close>

lemma xor_block_assoc: "length d = 256 \<Longrightarrow> length e = 256 \<Longrightarrow> length f = 256 \<Longrightarrow>
   xor_block (xor_block d e) f = xor_block d (xor_block e f)"
  by (rule nth_equalityI) (auto simp: xor_block_def xor.assoc)

lemma length_xor_block [simp]: "length d = length e \<Longrightarrow> length (xor_block d e) = length e"
  by (simp add: xor_block_def)

lemma xor_code_assoc: "length c = 3 \<Longrightarrow> xor_code (xor_code c k) l = xor_code c (xor3 k l)"
  by (cases k; cases l) (simp add: xor_code_def xor.assoc)

lemma flip_at_twice:
  assumes "valid_position p" "valid_position q" "length d = 256" "length c = 3"
  shows "flip_at q (flip_at p (d, c)) =
    (xor_block d (xor_block (data_error p) (data_error q)),
     xor_code c (xor3 (code_error p) (code_error q)))"
proof -
  have "length (xor_code c (code_error p)) = 3" by (cases "code_error p") (simp add: xor_code_def)
  then show ?thesis
    using assms by (simp add: flip_at_xor xor_block_assoc xor_code_assoc del: flip_at.simps)
qed

lemma xor3_ac: "xor3 (xor3 a b) (xor3 c d) = xor3 (xor3 a c) (xor3 b d)"
  by (cases a; cases b; cases c; cases d) (simp add: xor_ac)

lemma syndrome_twice:
  "xor3 (syndrome (xor_block (data_error p) (data_error q))) (xor3 (code_error p) (code_error q))
     = xor3 (position_syndrome p) (position_syndrome q)"
  by (simp add: syndrome_linear position_syndrome_def xor3_ac)

lemma pair_bits_xor:
  "length as = length bs \<Longrightarrow> map2 bneq (pair_bits as) (pair_bits bs)
     = concat (map2 (\<lambda>a b. [bneq a b, bneq a b]) as bs)"
  by (induction as bs rule: list_induct2) (auto simp: pair_bits_def bneq_def)

lemma ones_concat_pairs:
  "length as = length bs \<Longrightarrow>
   ones (concat (map2 (\<lambda>a b. [bneq a b, bneq a b]) as bs)) = 2 * ones (map2 bneq as bs)"
  by (induction as bs rule: list_induct2) auto

lemma ones_map2_neq: "length as = length bs \<Longrightarrow> ones (map2 bneq as bs) = 0 \<longleftrightarrow> as = bs"
  by (induction as bs rule: list_induct2) (auto simp: bneq_def)

lemma length_address_bits [simp]: "length (address_bits i b) = 11"
  by (simp add: address_bits_def)

lemma address_bits_inject:
  assumes "i < 256" "i' < 256" "b < 8" "b' < 8" "address_bits i b = address_bits i' b'"
  shows "i = i' \<and> b = b'"
proof -
  have hi: "\<not> bit (word_of_nat b :: u8) 3 \<and> \<not> bit (word_of_nat b :: u8) 4
      \<and> \<not> bit (word_of_nat b :: u8) 5 \<and> \<not> bit (word_of_nat b :: u8) 6
      \<and> \<not> bit (word_of_nat b :: u8) 7" if "b < 8" for b
    using that by (elim less_8E) simp_all
  have "(word_of_nat i :: u8) = word_of_nat i'"
    using assms by (simp add: u8_eq_iff address_bits_def del: bit_0)
  moreover have "(word_of_nat b :: u8) = word_of_nat b'"
    using assms by (simp add: u8_eq_iff address_bits_def hi del: bit_0)
  ultimately show ?thesis using assms by (simp add: u8_of_nat_eq)
qed

lemma ones_data_data:
  assumes "valid_position (DataBit i b)" "valid_position (DataBit i' b')" "(i, b) \<noteq> (i', b')"
  shows "\<exists>n > 0. ones (code3_bits (xor3 (syndrome (unit_error i b)) (syndrome (unit_error i' b')))) = 2 * n"
proof -
  let ?n = "ones (map2 bneq (address_bits i b) (address_bits i' b'))"
  have "length (pair_bits (address_bits i b)) = length (pair_bits (address_bits i' b'))"
    by (simp add: pair_bits_def address_bits_def)
  then have "ones (code3_bits (xor3 (syndrome (unit_error i b)) (syndrome (unit_error i' b')))) = 2 * ?n"
    using assms by (simp add: code3_bits_xor syndrome_unit_bits pair_bits_xor ones_concat_pairs)
  moreover have "?n \<noteq> 0"
    using assms address_bits_inject [of i i' b b'] by (auto simp: ones_map2_neq)
  ultimately show ?thesis by blast
qed

lemma code_index_inject:
  assumes "t < 8" "t' < 8" "code_index j t = code_index j' t'"
  shows "j = j' \<and> t = t'"
proof -
  have d: "code_index j t div 8 = j" for j t
    by (simp add: code_index_def)
  then have "j = j'" using assms(3) by metis
  moreover from this have "7 - t = 7 - t'" using assms(3) by (simp add: code_index_def)
  ultimately show ?thesis using assms by linarith
qed

lemma code_flip_bits:
  "j < 3 \<Longrightarrow> t < 8 \<Longrightarrow> code3_bits (code_flip j t) = (replicate 24 False)[code_index j t := True]"
  using code3_bits_code_flip [of j t "(0, 0, 0)"] code_index_less [of j t]
  by (simp add: code3_bits_0 code_index_def [symmetric])

lemma two_errors_count:
  assumes "valid_position p" "valid_position q" "p \<noteq> q"
  shows "ones (code3_bits (xor3 (position_syndrome p) (position_syndrome q))) \<notin> {0, 1, 11}"
proof (cases p)
  case (DataBit i b)
  show ?thesis
  proof (cases q)
    case q: (DataBit i' b')
    then obtain n where "0 < n"
      "ones (code3_bits (xor3 (syndrome (unit_error i b)) (syndrome (unit_error i' b')))) = 2 * n"
      using assms DataBit ones_data_data by blast
    then show ?thesis by (auto simp: DataBit q position_syndrome_simps) presburger
  next
    case q: (CodeBit j t)
    then show ?thesis using assms DataBit
      by (simp add: position_syndrome_simps ones_code_flip syndrome_unit_ones)
  qed
next
  case (CodeBit j t)
  show ?thesis
  proof (cases q)
    case q: (DataBit i' b')
    have "xor3 (code_flip j t) (syndrome (unit_error i' b'))
        = xor3 (syndrome (unit_error i' b')) (code_flip j t)"
      by (cases "code_flip j t"; cases "syndrome (unit_error i' b')") (simp add: xor.commute)
    then show ?thesis using assms CodeBit q
      by (simp add: position_syndrome_simps ones_code_flip syndrome_unit_ones)
  next
    case q: (CodeBit j' t')
    have "code_index j t \<noteq> code_index j' t'"
      using assms CodeBit q code_index_inject by auto
    then have "\<not> code3_bits (code_flip j t) ! code_index j' t'"
      using assms CodeBit q by (simp add: code_flip_bits code_index_less)
    then show ?thesis using assms CodeBit q
      by (simp add: position_syndrome_simps ones_code_flip ones_single_code_flip)
  qed
qed

lemma Verify256_double_error_raw:
  assumes "length data = 256" and "valid_position p" and "valid_position q" and "p \<noteq> q"
  shows "case flip_at q (flip_at p (data, Compute256 data)) of (data', code') \<Rightarrow>
    Verify256 data' code' = (data', Hamming_ERROR_MULTIPLEBITS)"
  using assms two_errors_count [OF assms(2-4)]
    not_0_if_ones [of "xor3 (position_syndrome p) (position_syndrome q)"]
  by (simp add: flip_at_twice Verify256_xor syndrome_twice Let_def del: flip_at.simps)

section \<open>Whole buffers\<close>

text \<open>One turn of the verification loop, over a buffer split at the current block.\<close>

lemma buf_read_middle: "length b = n \<Longrightarrow> buf_read (pre @ b @ post) (length pre) n = b"
  by (simp add: buf_read_def)

lemma buf_write_middle:
  "length b = length b' \<Longrightarrow> buf_write (pre @ b @ post) (length pre) b' = pre @ b' @ post"
  by (simp add: buf_write_def)

lemma size_step:
  assumes "Suc m * 256 < 2 ^ 32"
  shows "(word_of_nat (Suc m * 256) :: u32) > 0"
    and "word_of_nat (Suc m * 256) - 256 = (word_of_nat (m * 256) :: u32)"
proof -
  have "unat (word_of_nat (Suc m * 256) :: u32) = Suc m * 256"
    using assms by (simp only: unat_of_nat) simp
  then show "(word_of_nat (Suc m * 256) :: u32) > 0"
    by (simp only: word_less_nat_alt) simp
  show "word_of_nat (Suc m * 256) - 256 = (word_of_nat (m * 256) :: u32)"
    by (simp add: algebra_simps)
qed

lemma length_fst_Verify256 [simp]: "length (fst (Verify256 d c)) = length d"
  by (simp add: Verify256_def Let_def)

lemma Verify256x_turn:
  assumes "Verify256 b c = (b', e)" "length b = 256" "length c = 3" "Suc m * 256 < 2 ^ 32"
  shows "Verify256x_loop (pre @ b @ post) (length pre) (word_of_nat (Suc m * 256)) (cpre @ c @ cpost)
      (length cpre) r =
    (if e = 0 \<or> e = Hamming_ERROR_SINGLEBIT
     then Verify256x_loop ((pre @ b') @ post) (length (pre @ b')) (word_of_nat (m * 256))
            ((cpre @ c) @ cpost) (length (cpre @ c))
            (if e = Hamming_ERROR_SINGLEBIT then Hamming_ERROR_SINGLEBIT else r)
     else Some (pre @ b' @ post, e))"
proof -
  have "length b' = 256" using assms length_fst_Verify256 [of b c] by simp
  then show ?thesis using assms size_step [OF assms(4)]
    by (subst Verify256x_loop.simps)
      (auto simp: buf_read_middle buf_write_middle Hamming_ERROR_defs add.commute
        simp del: of_nat_mult of_nat_Suc mult_Suc)
qed

text \<open>A block with at most one flipped data bit.\<close>

definition one_flip :: "bytes \<Rightarrow> bytes \<Rightarrow> bool" where
  "one_flip b b' \<longleftrightarrow> (\<exists>i < 256. \<exists>t < 8. b' = b[i := b ! i XOR push_bit t 1])"

definition at_most_one_flip :: "bytes \<Rightarrow> bytes \<Rightarrow> bool" where
  "at_most_one_flip b b' \<longleftrightarrow> length b = 256 \<and> (b' = b \<or> one_flip b b')"

lemma one_flip_neq: "length b = 256 \<Longrightarrow> one_flip b b' \<Longrightarrow> b' \<noteq> b"
proof
  assume "one_flip b b'" "b' = b" "length b = 256"
  then obtain i t where t: "t < 8" and it: "b ! i = b ! i XOR push_bit t 1"
    by (metis nth_list_update_eq one_flip_def)
  from it have "bit (b ! i) t = bit (b ! i XOR push_bit t 1) t" by metis
  then show False using t by (simp add: bit_xor_iff bit_push_bit_iff del: push_bit_of_1)
qed

lemma Verify256_at_most_one:
  assumes "at_most_one_flip b b'"
  shows "Verify256 b' (Compute256 b) = (b, if b' = b then 0 else Hamming_ERROR_SINGLEBIT)"
proof (cases "b' = b")
  case True
  then show ?thesis using assms by (simp add: Verify256_clean at_most_one_flip_def)
next
  case False
  with assms obtain i t where "i < 256" "t < 8" "b' = b[i := b ! i XOR push_bit t 1]" "length b = 256"
    by (auto simp: at_most_one_flip_def one_flip_def)
  then show ?thesis using Verify256_single_error_raw [of b "DataBit i t"] False by simp
qed

lemma at_most_one_flip_length: "at_most_one_flip b b' \<Longrightarrow> length b = 256 \<and> length b' = 256"
  by (auto simp: at_most_one_flip_def one_flip_def)

lemma Verify256x_blocks:
  assumes "list_all2 at_most_one_flip bs bs'" "(length bs + n) * 256 < 2 ^ 32"
  shows "Verify256x_loop (pre @ concat bs' @ post) (length pre) (word_of_nat ((length bs + n) * 256))
      (cpre @ concat (map Compute256 bs) @ cpost) (length cpre) r =
    Verify256x_loop ((pre @ concat bs) @ post) (length (pre @ concat bs)) (word_of_nat (n * 256))
      ((cpre @ concat (map Compute256 bs)) @ cpost) (length (cpre @ concat (map Compute256 bs)))
      (if bs' = bs then r else Hamming_ERROR_SINGLEBIT)"
  using assms
proof (induction bs bs' arbitrary: pre cpre r rule: list_all2_induct)
  case (Cons b bs b' bs')
  note len = at_most_one_flip_length [OF Cons.hyps(1)]
  have szs: "(length bs + n) * 256 < 2 ^ 32" "Suc (length bs + n) * 256 < 2 ^ 32"
    using Cons.prems by simp_all
  note turn = Verify256x_turn [OF Verify256_at_most_one [OF Cons.hyps(1)] _ _ szs(2),
      of pre "concat bs' @ post" cpre "concat (map Compute256 bs) @ cpost" r]
  show ?case
    using turn len Cons.IH [OF szs(1), of "pre @ b" "cpre @ Compute256 b"]
    by (simp add: Hamming_ERROR_defs del: of_nat_mult of_nat_Suc of_nat_add mult_Suc)
qed simp

lemma concat_length_3: "length (concat (map Compute256 bs)) = 3 * length bs"
  by (induction bs) auto

lemma Verify256x_corrects_raw:
  assumes "list_all2 at_most_one_flip blocks received" and "256 * length blocks < 2 ^ 32"
  shows "Hamming_Verify256x (concat received) (word_of_nat (256 * length blocks))
      (concat (map Compute256 blocks)) =
    Some (concat blocks, if received = blocks then 0 else Hamming_ERROR_SINGLEBIT)"
  using Verify256x_blocks [OF assms(1), of 0 "[]" "[]" "[]" "[]" 0] assms(2)
  by (simp add: Hamming_Verify256x_def Verify256x_loop.simps [of _ _ 0] mult.commute
      del: of_nat_mult)

text \<open>
  A block that the code cannot correct stops the walk: the blocks before it are corrected, the
  error is returned, the rest is left as received.
\<close>

lemma Verify256x_detects_raw:
  assumes "list_all2 at_most_one_flip before before'" and "length bad = 256"
    and "Verify256 bad code = (bad', e)" and "length code = 3"
    and "e \<noteq> 0" and "e \<noteq> Hamming_ERROR_SINGLEBIT"
    and "256 * (length before + Suc n) < 2 ^ 32"
  shows "Hamming_Verify256x (concat before' @ bad @ rest)
      (word_of_nat (256 * (length before + Suc n)))
      (concat (map Compute256 before) @ code @ coderest) =
    Some (concat before @ bad' @ rest, e)"
proof -
  have sz: "Suc n * 256 < 2 ^ 32" "(length before + Suc n) * 256 < 2 ^ 32" using assms(7) by simp_all
  show ?thesis
    using Verify256x_blocks [OF assms(1) sz(2), of "[]" "bad @ rest" "[]" "code @ coderest" 0]
      Verify256x_turn [OF assms(3,2,4) sz(1), of "concat before" rest
        "concat (map Compute256 before)" coderest]
      assms(5,6)
    by (simp add: Hamming_Verify256x_def mult.commute del: of_nat_mult of_nat_Suc of_nat_add mult_Suc
        add_Suc_right mult_Suc_right)
qed

text \<open>
  A size that is not a multiple of 256 never gives a clean result: the counter steps over zero,
  and the walk ends with an uncorrectable block or outside a buffer.
\<close>

lemma unat_minus_256_mod: "unat ((sz :: u32) - 256) mod 256 = unat sz mod 256"
proof -
  have "uint (sz - 256) mod 256 = (uint sz - 256) mod 2 ^ 32 mod 256"
    by (simp add: uint_word_ariths)
  also have "\<dots> = uint sz mod 256"
    by (simp add: mod_mod_cancel)
  finally have "int (unat (sz - 256) mod 256) = int (unat sz mod 256)"
    by (simp add: zmod_int)
  then show ?thesis by (simp only: of_nat_eq_iff)
qed

lemma Verify256x_unaligned_raw:
  assumes "unat sz mod 256 \<noteq> 0"
  shows "case Hamming_Verify256x data sz code of
    None \<Rightarrow> True | Some (_, e) \<Rightarrow> e = Hamming_ERROR_ECC \<or> e = Hamming_ERROR_MULTIPLEBITS"
proof -
  have "unat sz mod 256 \<noteq> 0 \<Longrightarrow> case Verify256x_loop data off sz code coff r of
    None \<Rightarrow> True | Some (_, e) \<Rightarrow> e = Hamming_ERROR_ECC \<or> e = Hamming_ERROR_MULTIPLEBITS" for off coff r
  proof (induction data off sz code coff r rule: Verify256x_loop.induct)
    case (1 data off sz code coff r)
    obtain b e where v: "Verify256 (buf_read data off 256) (buf_read code coff 3) = (b, e)"
      by (metis prod.exhaust)
    then have e: "e \<in> {0, Hamming_ERROR_SINGLEBIT, Hamming_ERROR_ECC, Hamming_ERROR_MULTIPLEBITS}"
      by (auto simp: Verify256_def Let_def split: if_splits)
    have nz: "sz > 0" "unat (sz - 256) mod 256 \<noteq> 0"
      using 1(3) by (auto simp: unat_minus_256_mod word_gt_0)
    show ?case
      using e "1.IH"(1) [OF nz(1) _ v [symmetric] refl refl _ nz(2)]
        "1.IH"(2) [OF nz(1) _ v [symmetric] refl refl _ _ nz(2)]
      by (subst Verify256x_loop.simps) (auto simp: nz(1) v Let_def Hamming_ERROR_defs)
  qed
  then show ?thesis using assms by (simp add: Hamming_Verify256x_def)
qed


text \<open>The codes of a whole buffer.\<close>

lemma Compute256x_turn:
  assumes "length b = 256" "length c = 3" "Suc m * 256 < 2 ^ 32"
  shows "Compute256x_loop (pre @ b @ post) (length pre) (word_of_nat (Suc m * 256)) (cpre @ c @ cpost)
      (length cpre) =
    Compute256x_loop ((pre @ b) @ post) (length (pre @ b)) (word_of_nat (m * 256))
      ((cpre @ Compute256 b) @ cpost) (length (cpre @ Compute256 b))"
  using assms size_step [OF assms(3)]
  by (subst Compute256x_loop.simps)
    (auto simp: buf_read_middle buf_write_middle add.commute simp del: of_nat_mult of_nat_Suc mult_Suc)

lemma Compute256x_blocks:
  assumes "\<forall>b \<in> set bs. length b = 256" "length bs * 256 < 2 ^ 32" "3 * length bs \<le> length cbuf"
  shows "Compute256x_loop (pre @ concat bs @ post) (length pre) (word_of_nat (length bs * 256))
      (cpre @ cbuf) (length cpre) =
    Some (cpre @ concat (map Compute256 bs) @ drop (3 * length bs) cbuf)"
  using assms
proof (induction bs arbitrary: pre cpre cbuf)
  case Nil
  then show ?case by (simp add: Compute256x_loop.simps)
next
  case (Cons b bs)
  have sz: "Suc (length bs) * 256 < 2 ^ 32" "length bs * 256 < 2 ^ 32" using Cons.prems(2) by simp_all
  have c: "length (take 3 cbuf) = 3" "3 * length bs \<le> length (drop 3 cbuf)" using Cons.prems(3) by simp_all
  have b: "length b = 256" "\<forall>b \<in> set bs. length b = 256" using Cons.prems(1) by simp_all
  show ?case
    using Compute256x_turn [OF b(1) c(1) sz(1), of pre "concat bs @ post" cpre "drop 3 cbuf"]
      Cons.IH [OF b(2) sz(2) c(2), of "pre @ b" "cpre @ Compute256 b"]
    by (simp add: add.commute del: of_nat_mult of_nat_Suc of_nat_add mult_Suc)
qed

section \<open>Properties\<close>

text \<open>
  C11. Single error correction: whatever bit of the 256 data bytes or of the 3 code bytes is
  flipped, \<open>Verify256\<close> leaves the original data in the buffer; it reports a corrected data bit as
  \<open>SINGLEBIT\<close> and a damaged code as \<open>ECC\<close>.
\<close>
theorem Verify256_single_error:
  assumes "length data = 256" and "valid_position p"
  shows "case flip_at p (data, Compute256 data) of (data', code') \<Rightarrow>
    Verify256 data' code' =
      (data, case p of DataBit i b \<Rightarrow> Hamming_ERROR_SINGLEBIT | CodeBit j t \<Rightarrow> Hamming_ERROR_ECC)"
  using assms by (rule Verify256_single_error_raw)

theorem Verify256_single_error_witness:
  "case flip_at (DataBit 5 3) (replicate 256 0, Compute256 (replicate 256 0)) of (data', code') \<Rightarrow>
    Verify256 data' code' = (replicate 256 0, Hamming_ERROR_SINGLEBIT)"
  using Verify256_single_error [of "replicate 256 0" "DataBit 5 3"] by simp

text \<open>
  C12. Double error detection: any two different flipped bits of the code word, in the data, in the
  code or one in each, are reported as \<open>MULTIPLEBITS\<close>, and the data is left as it was received.
\<close>
theorem Verify256_double_error:
  assumes "length data = 256" and "valid_position p" and "valid_position q" and "p \<noteq> q"
  shows "case flip_at q (flip_at p (data, Compute256 data)) of (data', code') \<Rightarrow>
    Verify256 data' code' = (data', Hamming_ERROR_MULTIPLEBITS)"
  using assms by (rule Verify256_double_error_raw)

theorem Verify256_double_error_witness:
  "case flip_at (CodeBit 2 7) (flip_at (DataBit 5 3) (replicate 256 0, Compute256 (replicate 256 0)))
    of (data', code') \<Rightarrow> Verify256 data' code' = (data', Hamming_ERROR_MULTIPLEBITS)"
  using Verify256_double_error [of "replicate 256 0" "DataBit 5 3" "CodeBit 2 7"] by simp

text \<open>
  C13. Computing the codes of a buffer of 256 byte blocks and verifying a received buffer against
  them, where every block has at most one flipped bit, restores every block, and tells whether
  anything had to be corrected.
\<close>
theorem Hamming_roundtrip:
  assumes "list_all2 at_most_one_flip blocks received" and "256 * length blocks < 2 ^ 32"
    and "length codes = 3 * length blocks"
  shows "Option.bind (Hamming_Compute256x (concat blocks) (word_of_nat (256 * length blocks)) codes)
      (Hamming_Verify256x (concat received) (word_of_nat (256 * length blocks))) =
    Some (concat blocks, if received = blocks then 0 else Hamming_ERROR_SINGLEBIT)"
proof -
  have "\<forall>b \<in> set blocks. length b = 256"
    using assms(1) by (auto simp: list_all2_conv_all_nth in_set_conv_nth at_most_one_flip_def)
  then have "Hamming_Compute256x (concat blocks) (word_of_nat (256 * length blocks)) codes
      = Some (concat (map Compute256 blocks))"
    using Compute256x_blocks [of blocks codes "[]" "[]" "[]"] assms(2,3)
    by (simp add: Hamming_Compute256x_def mult.commute del: of_nat_mult)
  then show ?thesis using Verify256x_corrects_raw [OF assms(1,2)] by simp
qed

theorem Hamming_roundtrip_witness:
  "Option.bind (Hamming_Compute256x (concat [replicate 256 0]) (word_of_nat (256 * length [replicate 256 (0::u8)])) [9, 9, 9])
      (Hamming_Verify256x (concat [(replicate 256 0)[7 := 1]]) (word_of_nat (256 * length [replicate 256 (0::u8)]))) =
    Some (concat [replicate 256 0], if [(replicate 256 (0::u8))[7 := 1]] = [replicate 256 0] then 0
      else Hamming_ERROR_SINGLEBIT)"
proof (rule Hamming_roundtrip)
  have "(replicate 256 (0::u8))[7 := 1]
      = (replicate 256 0)[7 := replicate 256 0 ! 7 XOR push_bit 0 1]" by simp
  then have "one_flip (replicate 256 0) ((replicate 256 0)[7 := 1])"
    by (intro one_flip_def [THEN iffD2] exI [of _ 7] exI [of _ 0] conjI) simp_all
  then show "list_all2 at_most_one_flip [replicate 256 0] [(replicate 256 0)[7 := 1]]"
    by (simp add: at_most_one_flip_def)
qed simp_all

text \<open>
  C24. A block that the code cannot correct stops the walk: the blocks before it are corrected, its
  error is returned, and every later block is left as received, unchecked.
\<close>
theorem Hamming_Verify256x_detects:
  assumes "list_all2 at_most_one_flip before before'" and "length bad = 256"
    and "Verify256 bad code = (bad', e)" and "length code = 3"
    and "e \<noteq> 0" and "e \<noteq> Hamming_ERROR_SINGLEBIT"
    and "256 * (length before + Suc n) < 2 ^ 32"
  shows "Hamming_Verify256x (concat before' @ bad @ rest)
      (word_of_nat (256 * (length before + Suc n)))
      (concat (map Compute256 before) @ code @ coderest) =
    Some (concat before @ bad' @ rest, e)"
  using assms by (rule Verify256x_detects_raw)

theorem Hamming_Verify256x_detects_witness:
  "Hamming_Verify256x (concat [] @ ((replicate 256 0)[1 := 1, 2 := 1]) @ replicate 256 7)
      (word_of_nat (256 * (length ([] :: bytes list) + Suc 1)))
      (concat (map Compute256 []) @ Compute256 (replicate 256 0) @ [1, 2, 3]) =
    Some (concat [] @ ((replicate 256 0)[1 := 1, 2 := 1]) @ replicate 256 7, Hamming_ERROR_MULTIPLEBITS)"
proof (rule Hamming_Verify256x_detects)
  show "Verify256 ((replicate 256 0)[1 := 1, 2 := 1]) (Compute256 (replicate 256 0))
      = ((replicate 256 0)[1 := 1, 2 := 1], Hamming_ERROR_MULTIPLEBITS)"
    using Verify256_double_error_raw [of "replicate 256 0" "DataBit 1 0" "DataBit 2 0"] by simp
qed (simp_all add: Hamming_ERROR_defs)

text \<open>
  A size that is not a multiple of 256 never yields a clean or corrected result: the counter
  steps over zero, and the walk ends with an uncorrectable block or leaves a buffer.
\<close>
theorem Hamming_Verify256x_unaligned:
  assumes "unat sz mod 256 \<noteq> 0"
  shows "case Hamming_Verify256x data sz code of
    None \<Rightarrow> True | Some (_, e) \<Rightarrow> e = Hamming_ERROR_ECC \<or> e = Hamming_ERROR_MULTIPLEBITS"
  using assms by (rule Verify256x_unaligned_raw)

theorem Hamming_Verify256x_unaligned_witness:
  "case Hamming_Verify256x [1] 255 [2] of
    None \<Rightarrow> True | Some (_, e) \<Rightarrow> e = Hamming_ERROR_ECC \<or> e = Hamming_ERROR_MULTIPLEBITS"
  by (rule Hamming_Verify256x_unaligned) simp

end
