(* ===== verification/Crc.thy ===== *)
theory Crc
  imports Prelude
begin

text \<open>
  The CRC of \<open>bootloader/utility/CRC.c\<close>, with which the bootloader checks its own image: the
  table, the table driven loop, and a proof that it is division by the CCITT polynomial, one bit
  at a time, which detects every error inside two neighbouring bytes.
\<close>

section \<open>The code\<close>

definition crc16ccitt_table :: "u16 list" where
  "crc16ccitt_table =
    [0x0000, 0x1021, 0x2042, 0x3063, 0x4084, 0x50a5, 0x60c6, 0x70e7,
     0x8108, 0x9129, 0xa14a, 0xb16b, 0xc18c, 0xd1ad, 0xe1ce, 0xf1ef,
     0x1231, 0x0210, 0x3273, 0x2252, 0x52b5, 0x4294, 0x72f7, 0x62d6,
     0x9339, 0x8318, 0xb37b, 0xa35a, 0xd3bd, 0xc39c, 0xf3ff, 0xe3de,
     0x2462, 0x3443, 0x0420, 0x1401, 0x64e6, 0x74c7, 0x44a4, 0x5485,
     0xa56a, 0xb54b, 0x8528, 0x9509, 0xe5ee, 0xf5cf, 0xc5ac, 0xd58d,
     0x3653, 0x2672, 0x1611, 0x0630, 0x76d7, 0x66f6, 0x5695, 0x46b4,
     0xb75b, 0xa77a, 0x9719, 0x8738, 0xf7df, 0xe7fe, 0xd79d, 0xc7bc,
     0x48c4, 0x58e5, 0x6886, 0x78a7, 0x0840, 0x1861, 0x2802, 0x3823,
     0xc9cc, 0xd9ed, 0xe98e, 0xf9af, 0x8948, 0x9969, 0xa90a, 0xb92b,
     0x5af5, 0x4ad4, 0x7ab7, 0x6a96, 0x1a71, 0x0a50, 0x3a33, 0x2a12,
     0xdbfd, 0xcbdc, 0xfbbf, 0xeb9e, 0x9b79, 0x8b58, 0xbb3b, 0xab1a,
     0x6ca6, 0x7c87, 0x4ce4, 0x5cc5, 0x2c22, 0x3c03, 0x0c60, 0x1c41,
     0xedae, 0xfd8f, 0xcdec, 0xddcd, 0xad2a, 0xbd0b, 0x8d68, 0x9d49,
     0x7e97, 0x6eb6, 0x5ed5, 0x4ef4, 0x3e13, 0x2e32, 0x1e51, 0x0e70,
     0xff9f, 0xefbe, 0xdfdd, 0xcffc, 0xbf1b, 0xaf3a, 0x9f59, 0x8f78,
     0x9188, 0x81a9, 0xb1ca, 0xa1eb, 0xd10c, 0xc12d, 0xf14e, 0xe16f,
     0x1080, 0x00a1, 0x30c2, 0x20e3, 0x5004, 0x4025, 0x7046, 0x6067,
     0x83b9, 0x9398, 0xa3fb, 0xb3da, 0xc33d, 0xd31c, 0xe37f, 0xf35e,
     0x02b1, 0x1290, 0x22f3, 0x32d2, 0x4235, 0x5214, 0x6277, 0x7256,
     0xb5ea, 0xa5cb, 0x95a8, 0x8589, 0xf56e, 0xe54f, 0xd52c, 0xc50d,
     0x34e2, 0x24c3, 0x14a0, 0x0481, 0x7466, 0x6447, 0x5424, 0x4405,
     0xa7db, 0xb7fa, 0x8799, 0x97b8, 0xe75f, 0xf77e, 0xc71d, 0xd73c,
     0x26d3, 0x36f2, 0x0691, 0x16b0, 0x6657, 0x7676, 0x4615, 0x5634,
     0xd94c, 0xc96d, 0xf90e, 0xe92f, 0x99c8, 0x89e9, 0xb98a, 0xa9ab,
     0x5844, 0x4865, 0x7806, 0x6827, 0x18c0, 0x08e1, 0x3882, 0x28a3,
     0xcb7d, 0xdb5c, 0xeb3f, 0xfb1e, 0x8bf9, 0x9bd8, 0xabbb, 0xbb9a,
     0x4a75, 0x5a54, 0x6a37, 0x7a16, 0x0af1, 0x1ad0, 0x2ab3, 0x3a92,
     0xfd2e, 0xed0f, 0xdd6c, 0xcd4d, 0xbdaa, 0xad8b, 0x9de8, 0x8dc9,
     0x7c26, 0x6c07, 0x5c64, 0x4c45, 0x3ca2, 0x2c83, 0x1ce0, 0x0cc1,
     0xef1f, 0xff3e, 0xcf5d, 0xdf7c, 0xaf9b, 0xbfba, 0x8fd9, 0x9ff8,
     0x6e17, 0x7e36, 0x4e55, 0x5e74, 0x2e93, 0x3eb2, 0x0ed1, 0x1ef0]"

text \<open>
  One turn of \<open>while (length--)\<close>; the operands are promoted to 32 bits before the shifts. \<open>None\<close>
  is a read past the end of the buffer.
\<close>

definition crc_turn :: "u8 \<Rightarrow> u16 \<Rightarrow> u16" where
  "crc_turn byte startingCrc =
     (let tbl_idx = (drop_bit 8 (ucast startingCrc) XOR ucast byte) AND 0xff :: u32
      in ucast ((ucast (crc16ccitt_table ! unat tbl_idx) XOR push_bit 8 (ucast startingCrc :: u32))
                AND 0xffff))"

fun crc16ccitt_loop :: "bytes \<Rightarrow> nat \<Rightarrow> nat \<Rightarrow> u16 \<Rightarrow> u16 option" where
  "crc16ccitt_loop data off 0 startingCrc = Some (startingCrc AND 0xffff)"
| "crc16ccitt_loop data off (Suc n) startingCrc =
     (if off < length data then crc16ccitt_loop data (off + 1) n (crc_turn (data ! off) startingCrc)
      else None)"

definition crc16ccitt :: "bytes \<Rightarrow> u32 \<Rightarrow> u16 \<Rightarrow> u16 option" where
  "crc16ccitt input len startingCrc = crc16ccitt_loop input 0 (unat len) startingCrc"

definition crc16ccitt_default_start_crc :: "bytes \<Rightarrow> u32 \<Rightarrow> u16 option" where
  "crc16ccitt_default_start_crc input len = crc16ccitt input len 0xffff"

section \<open>Polynomial division\<close>

text \<open>One step of the division by \<open>x^16 + x^12 + x^5 + 1\<close>, and the reference CRC of a message.\<close>

definition crc_bit_step :: "u16 \<Rightarrow> u16" where
  "crc_bit_step c = (if bit c 15 then push_bit 1 c XOR 0x1021 else push_bit 1 c)"

fun crc_bits :: "nat \<Rightarrow> u16 \<Rightarrow> u16" where
  "crc_bits 0 c = c"
| "crc_bits (Suc n) c = crc_bits n (crc_bit_step c)"

definition crc_byte :: "u16 \<Rightarrow> u8 \<Rightarrow> u16" where
  "crc_byte c b = crc_bits 8 (c XOR push_bit 8 (ucast b))"

definition crc_reference :: "u16 \<Rightarrow> bytes \<Rightarrow> u16" where
  "crc_reference = foldl crc_byte"

lemma crc_bit_step_xor: "crc_bit_step (x XOR y) = crc_bit_step x XOR crc_bit_step y"
  by (auto simp: crc_bit_step_def bit_xor_iff push_bit_xor xor_ac)

lemma crc_bits_xor: "crc_bits n (x XOR y) = crc_bits n x XOR crc_bits n y"
  by (induction n arbitrary: x y) (auto simp: crc_bit_step_xor)

lemma crc_bits_commute: "crc_bits n (crc_bit_step x) = crc_bit_step (crc_bits n x)"
  by (induction n arbitrary: x) auto

lemma crc_bits_add: "crc_bits (m + n) x = crc_bits n (crc_bits m x)"
  by (induction m arbitrary: x) auto

lemma crc_bit_step_0: "crc_bit_step x = 0 \<longleftrightarrow> x = 0"
proof
  assume z: "crc_bit_step x = 0"
  show "x = 0"
  proof (cases "bit x 15")
    case True
    then have "bit (push_bit 1 x XOR 0x1021) 0 = bit (0 :: u16) 0"
      using z by (simp only: crc_bit_step_def if_True)
    then show ?thesis by (simp add: bit_xor_iff bit_push_bit_iff del: push_bit_Suc)
  next
    case False
    then have z': "push_bit 1 x = 0" using z by (simp only: crc_bit_step_def if_False)
    show ?thesis
    proof (rule bit_eqI)
      fix n
      show "bit x n = bit 0 n"
      proof (cases "n < 15")
        case True
        then have "bit (push_bit 1 x) (Suc n) = bit x n"
          by (simp add: bit_push_bit_iff del: push_bit_Suc)
        then show ?thesis using z' by (simp del: push_bit_Suc)
      next
        case F: False
        then show ?thesis using False bit_imp_le_length [of x n] by (cases "n = 15") auto
      qed
    qed
  qed
qed (simp add: crc_bit_step_def)

lemma crc_bits_0: "crc_bits n x = 0 \<longleftrightarrow> x = 0"
  by (induction n arbitrary: x) (auto simp: crc_bit_step_0)

lemma xor_eq_0: "(x :: u16) XOR y = 0 \<longleftrightarrow> x = y"
  by (metis xor.right_neutral xor_left_self xor_self_eq)

lemma crc_bits_inject: "crc_bits n x = crc_bits n y \<longleftrightarrow> x = y"
  using crc_bits_0 [of n "x XOR y"] by (simp add: crc_bits_xor xor_eq_0)

text \<open>A value below \<open>2 ^ (16 - n)\<close> is only shifted by \<open>n\<close> steps.\<close>

lemma crc_bits_low:
  "(\<And>m. 16 - n \<le> m \<Longrightarrow> \<not> bit x m) \<Longrightarrow> n \<le> 16 \<Longrightarrow> crc_bits n x = push_bit n x"
proof (induction n arbitrary: x)
  case (Suc n)
  have "\<not> bit x 15" using Suc.prems(1) [of 15] by simp
  then have s: "crc_bit_step x = push_bit 1 x" by (simp add: crc_bit_step_def)
  have "crc_bits n (push_bit 1 x) = push_bit n (push_bit 1 x)"
  proof (rule Suc.IH)
    fix m
    assume "16 - n \<le> m"
    then show "\<not> bit (push_bit 1 x) m"
      using Suc.prems(1) [of "m - 1"] Suc.prems(2)
      by (auto simp: bit_push_bit_iff simp del: push_bit_Suc)
  qed (use Suc.prems(2) in simp)
  then show ?case by (simp add: s push_bit_push_bit del: push_bit_Suc)
qed simp

lemma crc_bits_byte: "crc_bits 8 (ucast (b :: u8)) = push_bit 8 (ucast b)"
  by (rule crc_bits_low) (auto simp: bit_ucast_iff)

text \<open>Splitting a word into its bytes.\<close>

lemma u16_split: "(c :: u16) = push_bit 8 (ucast (ucast (drop_bit 8 c) :: u8)) XOR ucast (ucast c :: u8)"
  by (rule bit_eqI)
    (auto simp: bit_xor_iff bit_push_bit_iff bit_ucast_iff bit_drop_bit_eq dest: bit_imp_le_length)

lemma push_bit_8_ucast: "push_bit 8 (c :: u16) = push_bit 8 (ucast (ucast c :: u8))"
  by (rule bit_eqI) (auto simp: bit_push_bit_iff bit_ucast_iff)

lemma crc_byte_split:
  "crc_byte c b = crc_bits 8 (push_bit 8 (ucast (ucast (drop_bit 8 c) XOR b :: u8))) XOR push_bit 8 c"
proof -
  have "c XOR push_bit 8 (ucast b)
      = push_bit 8 (ucast (ucast (drop_bit 8 c) XOR b :: u8)) XOR ucast (ucast c :: u8)"
    by (subst u16_split) (simp add: push_bit_xor unsigned_xor_eq xor_ac del: u16_split)
  then have "crc_byte c b = crc_bits 8 (push_bit 8 (ucast (ucast (drop_bit 8 c) XOR b :: u8)))
      XOR crc_bits 8 (ucast (ucast c :: u8))"
    by (simp only: crc_byte_def crc_bits_xor)
  then show ?thesis by (simp only: crc_bits_byte push_bit_8_ucast [of c])
qed

section \<open>The table\<close>

definition crc_double :: "u16 list \<Rightarrow> u16 list" where
  "crc_double ts = concat (map (\<lambda>t. [crc_bit_step t, crc_bit_step t XOR 0x1021]) ts)"

lemma crc_table_double: "crc_double (take 128 crc16ccitt_table) = crc16ccitt_table"
  by (simp add: crc16ccitt_table_def crc_double_def crc_bit_step_def)

lemma length_crc_table [simp]: "length crc16ccitt_table = 256"
  by (simp add: crc16ccitt_table_def)

lemma crc_double_nth:
  "i < length ts \<Longrightarrow> crc_double ts ! (2 * i) = crc_bit_step (ts ! i)
    \<and> crc_double ts ! (2 * i + 1) = crc_bit_step (ts ! i) XOR 0x1021"
proof (induction ts arbitrary: i)
  case (Cons t ts)
  then show ?case by (cases i) (auto simp: crc_double_def)
qed simp

lemma crc_table_step:
  assumes "i < 128"
  shows "crc16ccitt_table ! (2 * i) = crc_bit_step (crc16ccitt_table ! i)"
    and "crc16ccitt_table ! (2 * i + 1) = crc_bit_step (crc16ccitt_table ! i) XOR 0x1021"
proof -
  have "i < length (take 128 crc16ccitt_table)" using assms by simp
  from crc_double_nth [OF this] assms
  show "crc16ccitt_table ! (2 * i) = crc_bit_step (crc16ccitt_table ! i)"
    and "crc16ccitt_table ! (2 * i + 1) = crc_bit_step (crc16ccitt_table ! i) XOR 0x1021"
    by (simp_all only: crc_table_double nth_take)
qed

lemma crc_table_0: "crc16ccitt_table ! 0 = 0"
  by (simp add: crc16ccitt_table_def)

lemma crc_bits_one: "crc_bits 8 0x100 = 0x1021"
  by code_simp

lemma shifted_index_step:
  assumes "i < 128"
  shows "crc_bit_step (word_of_nat (256 * i)) = word_of_nat (256 * (2 * i))"
proof -
  have "\<not> bit (word_of_nat (256 * i) :: u16) 15"
    using assms by (simp only: bit_word_of_nat) (simp add: bit_iff_odd)
  then show ?thesis by (simp add: crc_bit_step_def)
qed

lemma u16_0x100: "bit (0x100 :: u16) m \<longleftrightarrow> m = 8"
  using bit_exp_iff [of 8 m, where ?'a = u16] by auto

lemma crc_table_bits: "n < 256 \<Longrightarrow> crc16ccitt_table ! n = crc_bits 8 (word_of_nat (256 * n))"
proof (induction n rule: less_induct)
  case (less n)
  show ?case
  proof (cases "n = 0")
    case True
    then show ?thesis using crc_table_0 by (simp add: crc_bits_0)
  next
    case False
    let ?i = "n div 2"
    have i: "?i < 128" "?i < n" "?i < 256" using less.prems False by auto
    have ev: "crc_bit_step (crc16ccitt_table ! ?i) = crc_bits 8 (word_of_nat (256 * (2 * ?i)))"
      using less.IH [OF i(2,3)] by (simp only: shifted_index_step [OF i(1), symmetric] crc_bits_commute)
    show ?thesis
    proof (cases "even n")
      case True
      then have "n = 2 * ?i" by simp
      then show ?thesis using crc_table_step(1) [OF i(1)] ev by metis
    next
      case o: False
      then have n: "n = 2 * ?i + 1" by simp
      have "(word_of_nat (256 * n) :: u16) = word_of_nat (256 * (2 * ?i)) XOR 0x100"
      proof -
        have "(word_of_nat (256 * n) :: u16) = word_of_nat (256 * (2 * ?i)) + 0x100"
          by (subst n) (simp add: algebra_simps)
        also have "\<dots> = word_of_nat (256 * (2 * ?i)) XOR 0x100"
        proof (rule disjunctive_add_eq_xor, rule bit_eqI)
          fix m
          have "\<not> bit (256 * (2 * ?i)) 8" by (simp add: bit_iff_odd)
          then show "bit (word_of_nat (256 * (2 * ?i)) AND 0x100 :: u16) m = bit 0 m"
            by (simp only: bit_and_iff bit_word_of_nat u16_0x100 bit_0_eq) auto
        qed
        finally show ?thesis .
      qed
      then show ?thesis
        using crc_table_step(2) [OF i(1)] ev n by (metis crc_bits_xor crc_bits_one)
    qed
  qed
qed


section \<open>The loop computes the reference\<close>

lemma word_of_nat_byte: "word_of_nat (256 * unat (b :: u8)) = (push_bit 8 (ucast b) :: u16)"
  by (simp add: push_bit_eq_mult unsigned_def)

lemma crc_turn_byte: "crc_turn b c = crc_byte c b"
proof -
  let ?k = "ucast (drop_bit 8 c) XOR b :: u8"
  have idx: "(drop_bit 8 (ucast c) XOR ucast b) AND 0xff = (ucast ?k :: u32)"
  proof (rule bit_eqI)
    fix m
    have "bit (0xff :: u32) m \<longleftrightarrow> m < 8" if "m < 32"
      using bit_mask_iff [of 8 m, where ?'a = u32] that by (simp add: mask_eq_exp_minus_1)
    then show "bit ((drop_bit 8 (ucast c) XOR ucast b) AND 0xff :: u32) m = bit (ucast ?k :: u32) m"
      by (cases "m < 32")
        (auto simp: bit_and_iff bit_xor_iff bit_drop_bit_eq bit_ucast_iff dest: bit_imp_le_length)
  qed
  have k: "unat ?k < 256" by (rule order_less_le_trans [OF unsigned_less]) simp
  have u: "unat (ucast ?k :: u32) = unat ?k" using k by (simp add: unsigned_ucast_eq take_bit_nat_eq_self_iff)
  from k have t: "crc16ccitt_table ! unat ?k = crc_bits 8 (push_bit 8 (ucast ?k))"
    by (simp only: crc_table_bits word_of_nat_byte)
  have m: "(ucast ((ucast t XOR push_bit 8 (ucast c :: u32)) AND 0xffff) :: u16) = t XOR push_bit 8 c" for t
  proof (rule bit_eqI)
    fix m
    have "bit (0xffff :: u32) m \<longleftrightarrow> m < 16" if "m < 32"
      using bit_mask_iff [of 16 m, where ?'a = u32] that by (simp add: mask_eq_exp_minus_1)
    then show "bit (ucast ((ucast t XOR push_bit 8 (ucast c :: u32)) AND 0xffff) :: u16) m
        = bit (t XOR push_bit 8 c) m"
      by (cases "m < 16")
        (auto simp: bit_and_iff bit_xor_iff bit_push_bit_iff bit_ucast_iff dest: bit_imp_le_length)
  qed
  show ?thesis by (simp only: crc_turn_def Let_def idx u t m crc_byte_split)
qed

lemma u16_and_ffff: "(c :: u16) AND 0xffff = c"
proof -
  have "(0xffff :: u16) = - 1" by simp
  then show ?thesis by (simp only: and.right_neutral)
qed

lemma crc_loop_reference:
  "off + n \<le> length data \<Longrightarrow>
    crc16ccitt_loop data off n c = Some (crc_reference c (buf_read data off n))"
proof (induction n arbitrary: off c)
  case 0
  then show ?case by (simp add: u16_and_ffff crc_reference_def buf_read_def)
next
  case (Suc n)
  then have "buf_read data off (Suc n) = data ! off # buf_read data (off + 1) n"
    by (simp add: buf_read_def flip: Cons_nth_drop_Suc)
  then show ?case using Suc by (simp add: crc_turn_byte crc_reference_def)
qed

lemma crc_loop_overrun: "length data < off + n \<Longrightarrow> off \<le> length data \<Longrightarrow>
    crc16ccitt_loop data off n c = None"
  by (induction n arbitrary: off c) auto


section \<open>What the checksum is good for\<close>

lemma crc_byte_inject: "crc_byte c b = crc_byte d b \<longleftrightarrow> c = d"
  by (auto simp: crc_byte_def crc_bits_inject) (metis xor_left_self xor.commute)

lemma crc_reference_inject: "crc_reference c bs = crc_reference d bs \<longleftrightarrow> c = d"
  by (induction bs arbitrary: c d) (auto simp: crc_reference_def crc_byte_inject)

lemma crc_reference_append: "crc_reference c (xs @ ys) = crc_reference (crc_reference c xs) ys"
  by (simp add: crc_reference_def)

lemma crc_two_bytes:
  "crc_reference c [a, b] = crc_bits 16 (c XOR (push_bit 8 (ucast a) XOR ucast b))"
proof -
  have "crc_reference c [a, b]
      = crc_bits 8 (crc_bits 8 (c XOR push_bit 8 (ucast a)) XOR crc_bits 8 (ucast b))"
    by (simp add: crc_reference_def crc_byte_def crc_bits_byte)
  also have "\<dots> = crc_bits (8 + 8) (c XOR (push_bit 8 (ucast a) XOR ucast b))"
    by (simp only: crc_bits_add crc_bits_xor xor.assoc)
  finally show ?thesis by simp
qed

lemma crc_two_bytes_then:
  "crc_reference c (a # b # post)
    = crc_reference (crc_bits 16 (c XOR (push_bit 8 (ucast a) XOR ucast b))) post"
  using crc_reference_append [of c "[a, b]" post] by (simp add: crc_two_bytes)

lemma u16_of_bytes_inject:
  "(push_bit 8 (ucast a) XOR ucast b :: u16) = push_bit 8 (ucast a') XOR ucast b' \<longleftrightarrow>
    a = (a' :: u8) \<and> b = (b' :: u8)"
proof
  assume e: "(push_bit 8 (ucast a) XOR ucast b :: u16) = push_bit 8 (ucast a') XOR ucast b'"
  have h: "ucast (drop_bit 8 (push_bit 8 (ucast x) XOR ucast y :: u16)) = x"
    and l: "ucast (push_bit 8 (ucast x) XOR ucast y :: u16) = y" for x y :: u8
    by (rule bit_eqI, auto simp: bit_xor_iff bit_push_bit_iff bit_ucast_iff bit_drop_bit_eq
        dest: bit_imp_le_length)+
  show "a = a' \<and> b = b'" using e h l by metis
qed auto

lemma crc16ccitt_is_division_raw:
  "crc16ccitt input len c =
    (if unat len \<le> length input then Some (crc_reference c (take (unat len) input)) else None)"
  by (simp add: crc16ccitt_def crc_loop_reference crc_loop_overrun buf_read_def)

lemma xor_cancel: "(x :: u16) XOR y = x XOR z \<longleftrightarrow> y = z"
  by (metis xor_left_self)

lemma crc_detects_burst_raw:
  assumes "(a, b) \<noteq> (a', b')" and "length (pre @ [a, b] @ post) = unat len"
  shows "crc16ccitt_default_start_crc (pre @ [a, b] @ post) len
    \<noteq> crc16ccitt_default_start_crc (pre @ [a', b'] @ post) len"
  using assms
  by (auto simp: crc16ccitt_default_start_crc_def crc16ccitt_is_division_raw crc_reference_append crc_reference_inject
      crc_two_bytes_then crc_bits_inject u16_of_bytes_inject xor_cancel)

text \<open>
  C18. For every buffer, length and start value, the table driven routine returns the remainder of
  the polynomial division of the first \<open>len\<close> bytes by \<open>x^16 + x^12 + x^5 + 1\<close>, and it is the read
  past the end of the buffer, and nothing else, that makes it fail.
\<close>
theorem crc16ccitt_is_division:
  "crc16ccitt input len c =
    (if unat len \<le> length input then Some (crc_reference c (take (unat len) input)) else None)"
  by (rule crc16ccitt_is_division_raw)

text \<open>
  Splitting a message: the CRC of a concatenation is the CRC of the second part started with
  the CRC of the first, so that an image may be checked in pieces.
\<close>
theorem crc16ccitt_append:
  assumes "length xs = unat m" and "length ys = unat n" and "unat m + unat n < 2 ^ 32"
  shows "crc16ccitt (xs @ ys) (m + n) c = Option.bind (crc16ccitt xs m c) (crc16ccitt ys n)"
proof -
  have "unat (m + n) = unat m + unat n" using assms(3) by (simp add: unat_word_ariths)
  then show ?thesis using assms by (simp add: crc16ccitt_is_division_raw crc_reference_append)
qed

theorem crc16ccitt_append_witness:
  "crc16ccitt ([1, 2] @ [3]) (2 + 1) 0xffff = Option.bind (crc16ccitt [1, 2] 2 0xffff) (crc16ccitt [3] 1)"
  by (rule crc16ccitt_append) simp_all

text \<open>
  C19. Whatever precedes and follows them, two neighbouring bytes of a message cannot change without
  changing the checksum: every error burst inside two bytes of the image is detected.
\<close>
theorem crc16ccitt_detects_burst:
  assumes "(a, b) \<noteq> (a', b')" and "length (pre @ [a, b] @ post) = unat len"
  shows "crc16ccitt_default_start_crc (pre @ [a, b] @ post) len
    \<noteq> crc16ccitt_default_start_crc (pre @ [a', b'] @ post) len"
  using assms by (rule crc_detects_burst_raw)

theorem crc16ccitt_detects_burst_witness:
  "crc16ccitt_default_start_crc ([7] @ [1, 2] @ []) 3 \<noteq> crc16ccitt_default_start_crc ([7] @ [1, 3] @ []) 3"
  by (rule crc16ccitt_detects_burst) simp_all

end
