(* ===== verification/CommonFram.thy ===== *)
theory CommonFram
  imports Prelude
begin

text \<open>
  The layout of the critical data in FRAM (\<open>bsp_sam9g20/common/fram/CommonFRAM.h\<close> and
  \<open>CommonFRAM.c\<close>): the packed structures, the addresses derived from them with \<open>offsetof\<close>, the
  areas for the Hamming codes, and the functions that select an address by image slot; every
  address is shown to lie inside its own area.
\<close>

section \<open>Packed structures\<close>

text \<open>The members of \<open>CriticalDataBlock\<close>, those of the nested \<open>BootloaderGroup\<close> in their place.\<close>

datatype cdb_field =
    F_software_version
  | F_software_subversion
  | F_software_subsubversion
  | F_filler_sw_version
  | F_reboot_counter
  | F_seconds_since_epoch
  | F_preferred_sd_card
  | F_global_hamming_flag
  | F_nor_flash_hamming_flag
  | F_sdc0_image_slot0_hamming_flag
  | F_sdc0_image_slot1_hamming_flag
  | F_sdc1_image_slot0_hamming_flag
  | F_sdc1_image_slot1_hamming_flag
  | F_filler_hamming_flags
  | F_nor_flash_reboot_counter
  | F_sdc0_image_slot0_reboot_counter
  | F_sdc0_image_slot1_reboot_counter
  | F_sdc1_image_slot0_reboot_counter
  | F_sdc1_image_slot1_reboot_counter
  | F_filler_reboot_counter
  | F_nor_flash_binary_size
  | F_nor_flash_hamming_code_size
  | F_sdc0_image_slot0_hamming_size
  | F_sdc0_image_slot1_hamming_size
  | F_sdc1_image_slot0_hamming_size
  | F_sdc1_image_slot1_hamming_size
  | F_software_update_available
  | F_software_update_in_volume_0
  | F_software_update_in_volume_1
  | F_filler_software_update
  | F_deploy_timer_armed
  | F_seconds_since_timer_armed
  | F_bootloader_faulty
  | F_bootloader_size
  | F_bootloader_hamming_code_size
  | F_number_of_active_tasks
  | F_filler_tasks

definition BootloaderGroup :: "(cdb_field \<times> nat) list" where
  "BootloaderGroup =
    [(F_preferred_sd_card, 2),
     (F_global_hamming_flag, 2),
     (F_nor_flash_hamming_flag, 2),
     (F_sdc0_image_slot0_hamming_flag, 2),
     (F_sdc0_image_slot1_hamming_flag, 2),
     (F_sdc1_image_slot0_hamming_flag, 2),
     (F_sdc1_image_slot1_hamming_flag, 2),
     (F_filler_hamming_flags, 2),
     (F_nor_flash_reboot_counter, 2),
     (F_sdc0_image_slot0_reboot_counter, 2),
     (F_sdc0_image_slot1_reboot_counter, 2),
     (F_sdc1_image_slot0_reboot_counter, 2),
     (F_sdc1_image_slot1_reboot_counter, 2),
     (F_filler_reboot_counter, 2),
     (F_nor_flash_binary_size, 4),
     (F_nor_flash_hamming_code_size, 4),
     (F_sdc0_image_slot0_hamming_size, 4),
     (F_sdc0_image_slot1_hamming_size, 4),
     (F_sdc1_image_slot0_hamming_size, 4),
     (F_sdc1_image_slot1_hamming_size, 4),
     (F_software_update_available, 1),
     (F_software_update_in_volume_0, 1),
     (F_software_update_in_volume_1, 1),
     (F_filler_software_update, 1)]"

definition CriticalDataBlock :: "(cdb_field \<times> nat) list" where
  "CriticalDataBlock =
    [(F_software_version, 1),
     (F_software_subversion, 1),
     (F_software_subsubversion, 1),
     (F_filler_sw_version, 1),
     (F_reboot_counter, 4),
     (F_seconds_since_epoch, 4)]
    @ BootloaderGroup @
    [(F_deploy_timer_armed, 1),
     (F_seconds_since_timer_armed, 4),
     (F_bootloader_faulty, 4),
     (F_bootloader_size, 4),
     (F_bootloader_hamming_code_size, 4),
     (F_number_of_active_tasks, 2),
     (F_filler_tasks, 2)]"

text \<open>\<open>sizeof\<close> and \<open>offsetof\<close> of a packed structure.\<close>

definition struct_size :: "('f \<times> nat) list \<Rightarrow> nat" where
  "struct_size L = sum_list (map snd L)"

fun offset_of :: "('f \<times> nat) list \<Rightarrow> 'f \<Rightarrow> nat" where
  "offset_of [] f = 0"
| "offset_of ((g, n) # L) f = (if f = g then 0 else n + offset_of L f)"

fun member_size :: "('f \<times> nat) list \<Rightarrow> 'f \<Rightarrow> nat" where
  "member_size [] f = 0"
| "member_size ((g, n) # L) f = (if f = g then n else member_size L f)"

abbreviation cdb_offset :: "cdb_field \<Rightarrow> nat" where
  "cdb_offset \<equiv> offset_of CriticalDataBlock"

abbreviation cdb_size :: "cdb_field \<Rightarrow> nat" where
  "cdb_size \<equiv> member_size CriticalDataBlock"

section \<open>Addresses\<close>

datatype SlotType = FLASH_SLOT | SDC_0_SL_0 | SDC_0_SL_1 | SDC_1_SL_0 | SDC_1_SL_1
  | BOOTLOADER_0 | BOOTLOADER_1

definition FRAM_END_ADDR :: u32 where "FRAM_END_ADDR = 0x3ffff"
definition BOOTLOADER_HAMMING_RESERVED_SIZE :: u32 where "BOOTLOADER_HAMMING_RESERVED_SIZE = 0x600"
definition IMAGES_HAMMING_RESERVED_SIZE :: u32 where "IMAGES_HAMMING_RESERVED_SIZE = 0x2A00"
definition BOOTLOADER_HAMMING_ADDR :: u32 where
  "BOOTLOADER_HAMMING_ADDR = FRAM_END_ADDR - BOOTLOADER_HAMMING_RESERVED_SIZE"
definition NOR_FLASH_HAMMING_ADDR :: u32 where
  "NOR_FLASH_HAMMING_ADDR = BOOTLOADER_HAMMING_ADDR - IMAGES_HAMMING_RESERVED_SIZE"
definition SDC0_SLOT0_HAMMING_ADDR :: u32 where
  "SDC0_SLOT0_HAMMING_ADDR = NOR_FLASH_HAMMING_ADDR - IMAGES_HAMMING_RESERVED_SIZE"
definition SDC0_SLOT1_HAMMING_ADDR :: u32 where
  "SDC0_SLOT1_HAMMING_ADDR = SDC0_SLOT0_HAMMING_ADDR - IMAGES_HAMMING_RESERVED_SIZE"
definition SDC1_SLOT0_HAMMING_ADDR :: u32 where
  "SDC1_SLOT0_HAMMING_ADDR = SDC0_SLOT1_HAMMING_ADDR - IMAGES_HAMMING_RESERVED_SIZE"
definition SDC1_SLOT1_HAMMING_ADDR :: u32 where
  "SDC1_SLOT1_HAMMING_ADDR = SDC1_SLOT0_HAMMING_ADDR - IMAGES_HAMMING_RESERVED_SIZE"

definition CRITICAL_BLOCK_START_ADDR :: u32 where "CRITICAL_BLOCK_START_ADDR = 0"

definition BL_GROUP_ADDR :: u32 where
  "BL_GROUP_ADDR = word_of_nat (cdb_offset (fst (hd BootloaderGroup)))"

definition FRAM_SOFTWARE_VERSION_ADDR :: u32 where
  "FRAM_SOFTWARE_VERSION_ADDR = word_of_nat (cdb_offset F_software_version)"
definition REBOOT_COUNTER_ADDR :: u32 where
  "REBOOT_COUNTER_ADDR = word_of_nat (cdb_offset F_reboot_counter)"
definition SEC_SINCE_EPOCH_ADDR :: u32 where
  "SEC_SINCE_EPOCH_ADDR = word_of_nat (cdb_offset F_seconds_since_epoch)"
definition HAMMING_CHECK_FLAG_ADDR :: u32 where
  "HAMMING_CHECK_FLAG_ADDR = word_of_nat (cdb_offset F_global_hamming_flag)"
definition PREFERRED_SD_CARD_ADDR :: u32 where
  "PREFERRED_SD_CARD_ADDR = word_of_nat (cdb_offset F_preferred_sd_card)"
definition NOR_FLASH_HAMMING_FLAG_ADDR :: u32 where
  "NOR_FLASH_HAMMING_FLAG_ADDR = word_of_nat (cdb_offset F_nor_flash_hamming_flag)"
definition NOR_FLASH_REBOOT_COUNTER_ADDRESS :: u32 where
  "NOR_FLASH_REBOOT_COUNTER_ADDRESS = word_of_nat (cdb_offset F_nor_flash_reboot_counter)"
definition SDC0_SL0_HAMMING_FLAG_ADDR :: u32 where
  "SDC0_SL0_HAMMING_FLAG_ADDR = word_of_nat (cdb_offset F_sdc0_image_slot0_hamming_flag)"
definition SDC0_SL0_REBOOT_COUNTER_ADDR :: u32 where
  "SDC0_SL0_REBOOT_COUNTER_ADDR = word_of_nat (cdb_offset F_sdc0_image_slot0_reboot_counter)"
definition SDC0_SL1_HAMMING_FLAG_ADDR :: u32 where
  "SDC0_SL1_HAMMING_FLAG_ADDR = word_of_nat (cdb_offset F_sdc0_image_slot1_hamming_flag)"
definition SDC0_SL1_REBOOT_COUNTER_ADDR :: u32 where
  "SDC0_SL1_REBOOT_COUNTER_ADDR = word_of_nat (cdb_offset F_sdc0_image_slot1_reboot_counter)"
definition SDC1_SL0_HAMMING_FLAG_ADDR :: u32 where
  "SDC1_SL0_HAMMING_FLAG_ADDR = word_of_nat (cdb_offset F_sdc1_image_slot0_hamming_flag)"
definition SDC1_SL0_REBOOT_COUNTER_ADDR :: u32 where
  "SDC1_SL0_REBOOT_COUNTER_ADDR = word_of_nat (cdb_offset F_sdc1_image_slot0_reboot_counter)"
definition SDC1_SL1_HAMMING_FLAG_ADDR :: u32 where
  "SDC1_SL1_HAMMING_FLAG_ADDR = word_of_nat (cdb_offset F_sdc1_image_slot1_hamming_flag)"
definition SDC1_SL1_REBOOT_COUNTER_ADDR :: u32 where
  "SDC1_SL1_REBOOT_COUNTER_ADDR = word_of_nat (cdb_offset F_sdc1_image_slot1_reboot_counter)"
definition SOFTWARE_UPDATE_BOOL_ADDR :: u32 where
  "SOFTWARE_UPDATE_BOOL_ADDR = word_of_nat (cdb_offset F_software_update_available)"
definition NOR_FLASH_BINARY_SIZE_ADDR :: u32 where
  "NOR_FLASH_BINARY_SIZE_ADDR = word_of_nat (cdb_offset F_nor_flash_binary_size)"
definition NOR_FLASH_HAMMING_CODE_SIZE_ADDR :: u32 where
  "NOR_FLASH_HAMMING_CODE_SIZE_ADDR = word_of_nat (cdb_offset F_nor_flash_hamming_code_size)"
definition SDC0_SL0_HAMMING_SIZE_ADDR :: u32 where
  "SDC0_SL0_HAMMING_SIZE_ADDR = word_of_nat (cdb_offset F_sdc0_image_slot0_hamming_size)"
definition SDC0_SL1_HAMMING_SIZE_ADDR :: u32 where
  "SDC0_SL1_HAMMING_SIZE_ADDR = word_of_nat (cdb_offset F_sdc0_image_slot1_hamming_size)"
definition SDC1_SL0_HAMMING_SIZE_ADDR :: u32 where
  "SDC1_SL0_HAMMING_SIZE_ADDR = word_of_nat (cdb_offset F_sdc1_image_slot0_hamming_size)"
definition SDC1_SL1_HAMMING_SIZE_ADDR :: u32 where
  "SDC1_SL1_HAMMING_SIZE_ADDR = word_of_nat (cdb_offset F_sdc1_image_slot1_hamming_size)"
definition FRAM_DEPLOY_TIMER_ARMED_ADDR :: u32 where
  "FRAM_DEPLOY_TIMER_ARMED_ADDR = word_of_nat (cdb_offset F_deploy_timer_armed)"
definition FRAM_SECONDS_SINCE_TIMER_ARMED_ADDR :: u32 where
  "FRAM_SECONDS_SINCE_TIMER_ARMED_ADDR = word_of_nat (cdb_offset F_seconds_since_timer_armed)"
definition BOOTLOADER_SIZE_ADDR :: u32 where
  "BOOTLOADER_SIZE_ADDR = word_of_nat (cdb_offset F_bootloader_size)"
definition BOOTLOADER_HAMMING_SIZE_ADDR :: u32 where
  "BOOTLOADER_HAMMING_SIZE_ADDR = word_of_nat (cdb_offset F_bootloader_hamming_code_size)"
definition BOOTLOADER_FAULTY_ADDRESS :: u32 where
  "BOOTLOADER_FAULTY_ADDRESS = word_of_nat (cdb_offset F_bootloader_faulty)"

lemmas address_defs = FRAM_END_ADDR_def BOOTLOADER_HAMMING_RESERVED_SIZE_def
  IMAGES_HAMMING_RESERVED_SIZE_def BOOTLOADER_HAMMING_ADDR_def NOR_FLASH_HAMMING_ADDR_def
  SDC0_SLOT0_HAMMING_ADDR_def SDC0_SLOT1_HAMMING_ADDR_def SDC1_SLOT0_HAMMING_ADDR_def
  SDC1_SLOT1_HAMMING_ADDR_def CRITICAL_BLOCK_START_ADDR_def BL_GROUP_ADDR_def
  FRAM_SOFTWARE_VERSION_ADDR_def
  REBOOT_COUNTER_ADDR_def
  SEC_SINCE_EPOCH_ADDR_def
  HAMMING_CHECK_FLAG_ADDR_def
  PREFERRED_SD_CARD_ADDR_def
  NOR_FLASH_HAMMING_FLAG_ADDR_def
  NOR_FLASH_REBOOT_COUNTER_ADDRESS_def
  SDC0_SL0_HAMMING_FLAG_ADDR_def
  SDC0_SL0_REBOOT_COUNTER_ADDR_def
  SDC0_SL1_HAMMING_FLAG_ADDR_def
  SDC0_SL1_REBOOT_COUNTER_ADDR_def
  SDC1_SL0_HAMMING_FLAG_ADDR_def
  SDC1_SL0_REBOOT_COUNTER_ADDR_def
  SDC1_SL1_HAMMING_FLAG_ADDR_def
  SDC1_SL1_REBOOT_COUNTER_ADDR_def
  SOFTWARE_UPDATE_BOOL_ADDR_def
  NOR_FLASH_BINARY_SIZE_ADDR_def
  NOR_FLASH_HAMMING_CODE_SIZE_ADDR_def
  SDC0_SL0_HAMMING_SIZE_ADDR_def
  SDC0_SL1_HAMMING_SIZE_ADDR_def
  SDC1_SL0_HAMMING_SIZE_ADDR_def
  SDC1_SL1_HAMMING_SIZE_ADDR_def
  FRAM_DEPLOY_TIMER_ARMED_ADDR_def
  FRAM_SECONDS_SINCE_TIMER_ARMED_ADDR_def
  BOOTLOADER_SIZE_ADDR_def
  BOOTLOADER_HAMMING_SIZE_ADDR_def
  BOOTLOADER_FAULTY_ADDRESS_def

section \<open>Selecting an address by slot\<close>

definition determine_img_reboot_counter_addr :: "SlotType \<Rightarrow> u32" where
  "determine_img_reboot_counter_addr slotType =
     (if slotType = FLASH_SLOT then NOR_FLASH_REBOOT_COUNTER_ADDRESS
      else if slotType = SDC_0_SL_0 then SDC0_SL0_REBOOT_COUNTER_ADDR
      else if slotType = SDC_0_SL_1 then SDC0_SL1_REBOOT_COUNTER_ADDR
      else if slotType = SDC_1_SL_0 then SDC1_SL0_REBOOT_COUNTER_ADDR
      else if slotType = SDC_1_SL_1 then SDC1_SL1_REBOOT_COUNTER_ADDR
      else 0)"

definition determine_ham_code_address :: "SlotType \<Rightarrow> u32" where
  "determine_ham_code_address slotType =
     (if slotType = FLASH_SLOT then NOR_FLASH_HAMMING_ADDR
      else if slotType = SDC_0_SL_0 then SDC0_SLOT0_HAMMING_ADDR
      else if slotType = SDC_0_SL_1 then SDC0_SLOT1_HAMMING_ADDR
      else if slotType = SDC_1_SL_0 then SDC1_SLOT0_HAMMING_ADDR
      else if slotType = SDC_1_SL_1 then SDC1_SLOT1_HAMMING_ADDR
      else if slotType = BOOTLOADER_0 then BOOTLOADER_HAMMING_ADDR
      else 0)"

text \<open>The address is an output parameter: \<open>Inl\<close> is the negative return value.\<close>

definition determine_ham_code_address_with_sizecheck :: "SlotType \<Rightarrow> u32 \<Rightarrow> int + u32" where
  "determine_ham_code_address_with_sizecheck slotType size_to_write =
     (let local_address = determine_ham_code_address slotType in
      if local_address = 0 then Inl (- 4)
      else if slotType = BOOTLOADER_0 \<and> size_to_write > BOOTLOADER_HAMMING_RESERVED_SIZE then Inl (- 5)
      else if slotType \<noteq> BOOTLOADER_0 \<and> size_to_write > IMAGES_HAMMING_RESERVED_SIZE then Inl (- 5)
      else Inr local_address)"

definition determine_binary_size_address :: "SlotType \<Rightarrow> u32" where
  "determine_binary_size_address slotType =
     (if slotType = FLASH_SLOT then NOR_FLASH_BINARY_SIZE_ADDR
      else if slotType = BOOTLOADER_0 then BOOTLOADER_SIZE_ADDR
      else 0)"

definition determine_ham_size_address :: "SlotType \<Rightarrow> u32" where
  "determine_ham_size_address slotType =
     (if slotType = FLASH_SLOT then NOR_FLASH_HAMMING_CODE_SIZE_ADDR
      else if slotType = SDC_0_SL_0 then SDC0_SL0_HAMMING_SIZE_ADDR
      else if slotType = SDC_0_SL_1 then SDC0_SL1_HAMMING_SIZE_ADDR
      else if slotType = SDC_1_SL_0 then SDC1_SL0_HAMMING_SIZE_ADDR
      else if slotType = SDC_1_SL_1 then SDC1_SL1_HAMMING_SIZE_ADDR
      else if slotType = BOOTLOADER_0 then BOOTLOADER_HAMMING_SIZE_ADDR
      else 0)"

text \<open>Declared in \<open>FRAMApi.c\<close>, with the same shape as the others.\<close>

definition determine_ham_flag_address :: "SlotType \<Rightarrow> u32" where
  "determine_ham_flag_address slotType =
     (if slotType = FLASH_SLOT then NOR_FLASH_HAMMING_FLAG_ADDR
      else if slotType = SDC_0_SL_0 then SDC0_SL0_HAMMING_FLAG_ADDR
      else if slotType = SDC_0_SL_1 then SDC0_SL1_HAMMING_FLAG_ADDR
      else if slotType = SDC_1_SL_0 then SDC1_SL0_HAMMING_FLAG_ADDR
      else if slotType = SDC_1_SL_1 then SDC1_SL1_HAMMING_FLAG_ADDR
      else 0)"

section \<open>Packed layouts keep their members apart\<close>

lemma offset_in_struct: "f \<in> fst ` set L \<Longrightarrow> offset_of L f + member_size L f \<le> struct_size L"
  by (induction L f rule: offset_of.induct) (auto simp: struct_size_def)

lemma members_disjoint:
  "f \<in> fst ` set L \<Longrightarrow> g \<in> fst ` set L \<Longrightarrow> f \<noteq> g \<Longrightarrow>
    offset_of L f + member_size L f \<le> offset_of L g \<or> offset_of L g + member_size L g \<le> offset_of L f"
  by (induction L f rule: offset_of.induct) auto

lemma cdb_field_in_layout: "f \<in> fst ` set CriticalDataBlock"
  by (cases f) (simp_all add: CriticalDataBlock_def BootloaderGroup_def)

lemma cdb_struct_size [simp]: "struct_size CriticalDataBlock = 89"
  by (simp add: struct_size_def CriticalDataBlock_def BootloaderGroup_def)

lemma bl_struct_size [simp]: "struct_size BootloaderGroup = 56"
  by (simp add: struct_size_def BootloaderGroup_def)

lemma cdb_offsets [simp]:
  "cdb_offset F_software_version = 0"
  "cdb_offset F_software_subversion = Suc 0"
  "cdb_offset F_software_subsubversion = 2"
  "cdb_offset F_filler_sw_version = 3"
  "cdb_offset F_reboot_counter = 4"
  "cdb_offset F_seconds_since_epoch = 8"
  "cdb_offset F_preferred_sd_card = 12"
  "cdb_offset F_global_hamming_flag = 14"
  "cdb_offset F_nor_flash_hamming_flag = 16"
  "cdb_offset F_sdc0_image_slot0_hamming_flag = 18"
  "cdb_offset F_sdc0_image_slot1_hamming_flag = 20"
  "cdb_offset F_sdc1_image_slot0_hamming_flag = 22"
  "cdb_offset F_sdc1_image_slot1_hamming_flag = 24"
  "cdb_offset F_filler_hamming_flags = 26"
  "cdb_offset F_nor_flash_reboot_counter = 28"
  "cdb_offset F_sdc0_image_slot0_reboot_counter = 30"
  "cdb_offset F_sdc0_image_slot1_reboot_counter = 32"
  "cdb_offset F_sdc1_image_slot0_reboot_counter = 34"
  "cdb_offset F_sdc1_image_slot1_reboot_counter = 36"
  "cdb_offset F_filler_reboot_counter = 38"
  "cdb_offset F_nor_flash_binary_size = 40"
  "cdb_offset F_nor_flash_hamming_code_size = 44"
  "cdb_offset F_sdc0_image_slot0_hamming_size = 48"
  "cdb_offset F_sdc0_image_slot1_hamming_size = 52"
  "cdb_offset F_sdc1_image_slot0_hamming_size = 56"
  "cdb_offset F_sdc1_image_slot1_hamming_size = 60"
  "cdb_offset F_software_update_available = 64"
  "cdb_offset F_software_update_in_volume_0 = 65"
  "cdb_offset F_software_update_in_volume_1 = 66"
  "cdb_offset F_filler_software_update = 67"
  "cdb_offset F_deploy_timer_armed = 68"
  "cdb_offset F_seconds_since_timer_armed = 69"
  "cdb_offset F_bootloader_faulty = 73"
  "cdb_offset F_bootloader_size = 77"
  "cdb_offset F_bootloader_hamming_code_size = 81"
  "cdb_offset F_number_of_active_tasks = 85"
  "cdb_offset F_filler_tasks = 87"
  by (simp_all add: CriticalDataBlock_def BootloaderGroup_def)

lemma cdb_sizes [simp]:
  "cdb_size F_software_version = Suc 0"
  "cdb_size F_software_subversion = Suc 0"
  "cdb_size F_software_subsubversion = Suc 0"
  "cdb_size F_filler_sw_version = Suc 0"
  "cdb_size F_reboot_counter = 4"
  "cdb_size F_seconds_since_epoch = 4"
  "cdb_size F_preferred_sd_card = 2"
  "cdb_size F_global_hamming_flag = 2"
  "cdb_size F_nor_flash_hamming_flag = 2"
  "cdb_size F_sdc0_image_slot0_hamming_flag = 2"
  "cdb_size F_sdc0_image_slot1_hamming_flag = 2"
  "cdb_size F_sdc1_image_slot0_hamming_flag = 2"
  "cdb_size F_sdc1_image_slot1_hamming_flag = 2"
  "cdb_size F_filler_hamming_flags = 2"
  "cdb_size F_nor_flash_reboot_counter = 2"
  "cdb_size F_sdc0_image_slot0_reboot_counter = 2"
  "cdb_size F_sdc0_image_slot1_reboot_counter = 2"
  "cdb_size F_sdc1_image_slot0_reboot_counter = 2"
  "cdb_size F_sdc1_image_slot1_reboot_counter = 2"
  "cdb_size F_filler_reboot_counter = 2"
  "cdb_size F_nor_flash_binary_size = 4"
  "cdb_size F_nor_flash_hamming_code_size = 4"
  "cdb_size F_sdc0_image_slot0_hamming_size = 4"
  "cdb_size F_sdc0_image_slot1_hamming_size = 4"
  "cdb_size F_sdc1_image_slot0_hamming_size = 4"
  "cdb_size F_sdc1_image_slot1_hamming_size = 4"
  "cdb_size F_software_update_available = Suc 0"
  "cdb_size F_software_update_in_volume_0 = Suc 0"
  "cdb_size F_software_update_in_volume_1 = Suc 0"
  "cdb_size F_filler_software_update = Suc 0"
  "cdb_size F_deploy_timer_armed = Suc 0"
  "cdb_size F_seconds_since_timer_armed = 4"
  "cdb_size F_bootloader_faulty = 4"
  "cdb_size F_bootloader_size = 4"
  "cdb_size F_bootloader_hamming_code_size = 4"
  "cdb_size F_number_of_active_tasks = 2"
  "cdb_size F_filler_tasks = 2"
  by (simp_all add: CriticalDataBlock_def BootloaderGroup_def)

lemmas cdb_in_block = offset_in_struct [OF cdb_field_in_layout]
lemmas cdb_disjoint = members_disjoint [OF cdb_field_in_layout cdb_field_in_layout]

lemma address_values [simp]:
  "BL_GROUP_ADDR = 12"
  "FRAM_SOFTWARE_VERSION_ADDR = 0"
  "REBOOT_COUNTER_ADDR = 4"
  "SEC_SINCE_EPOCH_ADDR = 8"
  "HAMMING_CHECK_FLAG_ADDR = 14"
  "PREFERRED_SD_CARD_ADDR = 12"
  "NOR_FLASH_HAMMING_FLAG_ADDR = 16"
  "NOR_FLASH_REBOOT_COUNTER_ADDRESS = 28"
  "SDC0_SL0_HAMMING_FLAG_ADDR = 18"
  "SDC0_SL0_REBOOT_COUNTER_ADDR = 30"
  "SDC0_SL1_HAMMING_FLAG_ADDR = 20"
  "SDC0_SL1_REBOOT_COUNTER_ADDR = 32"
  "SDC1_SL0_HAMMING_FLAG_ADDR = 22"
  "SDC1_SL0_REBOOT_COUNTER_ADDR = 34"
  "SDC1_SL1_HAMMING_FLAG_ADDR = 24"
  "SDC1_SL1_REBOOT_COUNTER_ADDR = 36"
  "SOFTWARE_UPDATE_BOOL_ADDR = 64"
  "NOR_FLASH_BINARY_SIZE_ADDR = 40"
  "NOR_FLASH_HAMMING_CODE_SIZE_ADDR = 44"
  "SDC0_SL0_HAMMING_SIZE_ADDR = 48"
  "SDC0_SL1_HAMMING_SIZE_ADDR = 52"
  "SDC1_SL0_HAMMING_SIZE_ADDR = 56"
  "SDC1_SL1_HAMMING_SIZE_ADDR = 60"
  "FRAM_DEPLOY_TIMER_ARMED_ADDR = 68"
  "FRAM_SECONDS_SINCE_TIMER_ARMED_ADDR = 69"
  "BOOTLOADER_SIZE_ADDR = 77"
  "BOOTLOADER_HAMMING_SIZE_ADDR = 81"
  "BOOTLOADER_FAULTY_ADDRESS = 73"
  by (simp_all add: address_defs BootloaderGroup_def)

lemma hamming_addresses:
  "BOOTLOADER_HAMMING_ADDR = 0x3f9ff" "NOR_FLASH_HAMMING_ADDR = 0x3cfff"
  "SDC0_SLOT0_HAMMING_ADDR = 0x3a5ff" "SDC0_SLOT1_HAMMING_ADDR = 0x37bff"
  "SDC1_SLOT0_HAMMING_ADDR = 0x351ff" "SDC1_SLOT1_HAMMING_ADDR = 0x327ff"
  by (simp_all add: address_defs)

section \<open>Properties\<close>

text \<open>The bytes a slot may use for its Hamming code.\<close>

definition ham_area_size :: "SlotType \<Rightarrow> nat" where
  "ham_area_size slotType =
     unat (if slotType = BOOTLOADER_0 then BOOTLOADER_HAMMING_RESERVED_SIZE else IMAGES_HAMMING_RESERVED_SIZE)"

lemma ham_code_address_cases:
  assumes "determine_ham_code_address_with_sizecheck s n = Inr a"
  obtains "s = BOOTLOADER_0" "unat a = 0x3f9ff" "unat n \<le> 0x600"
  | k where "k < 5" "s = [FLASH_SLOT, SDC_0_SL_0, SDC_0_SL_1, SDC_1_SL_0, SDC_1_SL_1] ! k"
      "unat a = 0x3cfff - k * 0x2a00" "unat n \<le> 0x2a00"
proof (cases "s = BOOTLOADER_0")
  case True
  then show ?thesis using assms that(1)
    by (auto simp: determine_ham_code_address_with_sizecheck_def determine_ham_code_address_def Let_def
        hamming_addresses BOOTLOADER_HAMMING_RESERVED_SIZE_def word_le_nat_alt word_less_nat_alt
        split: if_splits)
next
  case False
  have i: "determine_ham_code_address s \<noteq> 0" "unat n \<le> 0x2a00" "a = determine_ham_code_address s"
    using assms False
    by (auto simp: determine_ham_code_address_with_sizecheck_def Let_def IMAGES_HAMMING_RESERVED_SIZE_def
        word_le_nat_alt word_less_nat_alt split: if_splits)
  show ?thesis
  proof (cases s)
    case FLASH_SLOT then show ?thesis using i that(2) [of 0] by (simp add: determine_ham_code_address_def hamming_addresses)
  next
    case SDC_0_SL_0 then show ?thesis using i that(2) [of 1] by (simp add: determine_ham_code_address_def hamming_addresses)
  next
    case SDC_0_SL_1 then show ?thesis using i that(2) [of 2] by (simp add: determine_ham_code_address_def hamming_addresses)
  next
    case SDC_1_SL_0 then show ?thesis using i that(2) [of 3] by (simp add: determine_ham_code_address_def hamming_addresses)
  next
    case SDC_1_SL_1 then show ?thesis using i that(2) [of 4] by (simp add: determine_ham_code_address_def hamming_addresses)
  qed (use i False in \<open>simp_all add: determine_ham_code_address_def\<close>)
qed

lemma ham_code_address_bounds:
  assumes "determine_ham_code_address_with_sizecheck s n = Inr a"
  shows "struct_size CriticalDataBlock \<le> unat a \<and> unat a + unat n \<le> unat FRAM_END_ADDR"
  by (rule ham_code_address_cases [OF assms]) (auto simp: FRAM_END_ADDR_def)

text \<open>
  C23. Every Hamming code write that the size check admits lies behind the critical data block and
  below the end of the FRAM, and the areas of two different slots never overlap.
\<close>
theorem ham_code_areas_disjoint:
  assumes "determine_ham_code_address_with_sizecheck s1 n1 = Inr a1"
    and "determine_ham_code_address_with_sizecheck s2 n2 = Inr a2" and "s1 \<noteq> s2"
  shows "struct_size CriticalDataBlock \<le> unat a1 \<and> unat a1 + unat n1 \<le> unat FRAM_END_ADDR
    \<and> (unat a1 + unat n1 \<le> unat a2 \<or> unat a2 + unat n2 \<le> unat a1)"
proof -
  have apart: "249855 - k * 10752 + n \<le> (249855 - l * 10752 :: nat)"
    if "l < k" "k < 5" "n \<le> 10752" for k l n
    using that by linarith
  have "unat a1 + unat n1 \<le> unat a2 \<or> unat a2 + unat n2 \<le> unat a1"
  proof ((rule ham_code_address_cases [OF assms(1)]; rule ham_code_address_cases [OF assms(2)]), goal_cases)
    case (4 k l)
    then have "k \<noteq> l" using assms(3) by auto
    then show ?thesis using 4 apart [of l k "unat n1"] apart [of k l "unat n2"] by linarith
  qed (use assms(3) in auto)
  then show ?thesis using ham_code_address_bounds [OF assms(1)] by blast
qed

theorem ham_code_areas_disjoint_witness:
  "struct_size CriticalDataBlock \<le> unat SDC1_SLOT1_HAMMING_ADDR
    \<and> unat SDC1_SLOT1_HAMMING_ADDR + unat (0x2A00 :: u32) \<le> unat FRAM_END_ADDR
    \<and> (unat SDC1_SLOT1_HAMMING_ADDR + unat (0x2A00 :: u32) \<le> unat SDC1_SLOT0_HAMMING_ADDR
      \<or> unat SDC1_SLOT0_HAMMING_ADDR + unat (0x100 :: u32) \<le> unat SDC1_SLOT1_HAMMING_ADDR)"
  by (rule ham_code_areas_disjoint [of SDC_1_SL_1 _ _ SDC_1_SL_0])
    (simp_all add: determine_ham_code_address_with_sizecheck_def determine_ham_code_address_def
      hamming_addresses IMAGES_HAMMING_RESERVED_SIZE_def)

text \<open>
  The members of the critical data block: no two overlap, all lie inside the 89 bytes of the
  packed structure, and those the bootloader reads at once are 56 bytes at \<open>BL_GROUP_ADDR\<close>.
\<close>
theorem critical_block_members:
  assumes "f \<noteq> g"
  shows "cdb_offset f + cdb_size f \<le> 89 \<and>
    (cdb_offset f + cdb_size f \<le> cdb_offset g \<or> cdb_offset g + cdb_size g \<le> cdb_offset f) \<and>
    (f \<in> fst ` set BootloaderGroup \<longrightarrow>
      cdb_offset f = unat BL_GROUP_ADDR + offset_of BootloaderGroup f \<and>
      offset_of BootloaderGroup f + cdb_size f \<le> 56)"
proof -
  have "f \<in> fst ` set BootloaderGroup \<Longrightarrow>
      cdb_offset f = 12 + offset_of BootloaderGroup f \<and> offset_of BootloaderGroup f + cdb_size f \<le> 56"
    by (auto simp: BootloaderGroup_def)
  then show ?thesis using cdb_in_block [of f] cdb_disjoint [OF assms] by simp
qed

theorem critical_block_members_witness:
  "cdb_offset F_bootloader_faulty + cdb_size F_bootloader_faulty \<le> 89"
  using critical_block_members [of F_bootloader_faulty F_bootloader_size] by simp

end
