(* ===== verification/FramApi.thy ===== *)
theory FramApi
  imports CommonFram
begin

text \<open>
  The FRAM API of the on-board software, \<open>bsp_sam9g20/common/fram/FRAMApi.c\<close>, over the two entry
  points \<open>FRAM_read\<close> and \<open>FRAM_writeAndVerify\<close> of the closed source hardware library, which are
  parameters. The laws of the device are those of the locale \<open>fram_device\<close>; a call may fail at
  any time, with an arbitrary return code and arbitrary bytes in the range it was to write.
\<close>

section \<open>The device\<close>

text \<open>
  \<open>FRAM_read addr buf\<close> fills \<open>buf\<close> (its length is the requested size, its content what the buffer
  held before) and returns the code and the buffer; \<open>FRAM_writeAndVerify\<close> writes its bytes.
\<close>

record 'd fram_hal =
  FRAM_read :: "u32 \<Rightarrow> bytes \<Rightarrow> 'd \<Rightarrow> (int \<times> bytes) \<times> 'd"
  FRAM_writeAndVerify :: "bytes \<Rightarrow> u32 \<Rightarrow> 'd \<Rightarrow> int \<times> 'd"

datatype VolumeId = SD_CARD_0 | SD_CARD_1

datatype SdSlots = SDC_SLOT_0 | SDC_SLOT_1

fun VolumeId_value :: "VolumeId \<Rightarrow> u32" where
  "VolumeId_value SD_CARD_0 = 0"
| "VolumeId_value SD_CARD_1 = 1"

definition bool_u8 :: "bool \<Rightarrow> u8" where
  "bool_u8 b = (if b then 1 else 0)"

section \<open>Blocks\<close>

definition fram_read_critical_block ::
    "'d fram_hal \<Rightarrow> bytes \<Rightarrow> u32 \<Rightarrow> 'd \<Rightarrow> (int \<times> bytes) \<times> 'd" where
  "fram_read_critical_block hal buffer max_size d =
     (if max_size < 89 then ((- 3, buffer), d)
      else (case FRAM_read hal CRITICAL_BLOCK_START_ADDR (take 89 buffer) d of
        ((result, bs), d) \<Rightarrow> ((result, bs @ drop 89 buffer), d)))"

definition fram_read_bootloader_block_raw ::
    "'d fram_hal \<Rightarrow> bytes \<Rightarrow> u32 \<Rightarrow> 'd \<Rightarrow> (int \<times> bytes) \<times> 'd" where
  "fram_read_bootloader_block_raw hal buff max_size d =
     (case FRAM_read hal BL_GROUP_ADDR (take 56 buff) d of
        ((result, bs), d) \<Rightarrow> ((result, bs @ drop 56 buff), d))"

definition fram_read_bootloader_block :: "'d fram_hal \<Rightarrow> bytes \<Rightarrow> 'd \<Rightarrow> (int \<times> bytes) \<times> 'd" where
  "fram_read_bootloader_block hal bl_info d = FRAM_read hal BL_GROUP_ADDR bl_info d"

definition fram_zero_out_all_fields :: "'d fram_hal \<Rightarrow> 'd \<Rightarrow> int \<times> 'd" where
  "fram_zero_out_all_fields hal = FRAM_writeAndVerify hal (replicate 89 0) CRITICAL_BLOCK_START_ADDR"

section \<open>Software version\<close>

definition fram_write_software_version :: "'d fram_hal \<Rightarrow> u8 \<Rightarrow> u8 \<Rightarrow> u8 \<Rightarrow> 'd \<Rightarrow> int \<times> 'd" where
  "fram_write_software_version hal software_version software_subversion sw_subsubversion =
     FRAM_writeAndVerify hal [software_version, software_subversion, sw_subsubversion]
       FRAM_SOFTWARE_VERSION_ADDR"

text \<open>
  The three output pointers: \<open>None\<close> is a null pointer. The guard of the source tests
  \<open>software_subversion\<close> twice and \<open>software_version\<close> not at all; a null \<open>software_version\<close>
  therefore reaches the assignment, which is \<open>None\<close> here. \<open>buf\<close> is the uninitialised local array.
\<close>

definition fram_read_software_version ::
    "'d fram_hal \<Rightarrow> bytes \<Rightarrow> u8 option \<Rightarrow> u8 option \<Rightarrow> u8 option \<Rightarrow> 'd \<Rightarrow>
      ((int \<times> u8 option \<times> u8 option \<times> u8 option) \<times> 'd) option" where
  "fram_read_software_version hal buf version subversion subsubversion d =
     (if subversion = None \<or> subversion = None \<or> subsubversion = None
      then Some ((- 3, version, subversion, subsubversion), d)
      else (case FRAM_read hal FRAM_SOFTWARE_VERSION_ADDR buf d of
        ((result, bs), d) \<Rightarrow>
          if result \<noteq> 0 then Some ((result, version, subversion, subsubversion), d)
          else if version = None then None
          else Some ((0, Some (bs ! 0), Some (bs ! 1), Some (bs ! 2)), d)))"

section \<open>Reboot counters\<close>

definition fram_increment_reboot_counter ::
    "'d fram_hal \<Rightarrow> u32 option \<Rightarrow> 'd \<Rightarrow> (int \<times> u32 option) \<times> 'd" where
  "fram_increment_reboot_counter hal new_reboot_counter d =
     (case new_reboot_counter of
        None \<Rightarrow> ((- 3, None), d)
      | Some old \<Rightarrow>
          (case FRAM_read hal REBOOT_COUNTER_ADDR (u32_bytes old) d of
            ((_, bs), d) \<Rightarrow>
              let counter = bytes_u32 bs + 1 in
              (case FRAM_writeAndVerify hal (u32_bytes counter) REBOOT_COUNTER_ADDR d of
                (result, d) \<Rightarrow> ((result, Some counter), d))))"

text \<open>\<open>sizeof(reboot_counter)\<close> is the size of the pointer, which is 4 on the ARM9.\<close>

definition fram_read_reboot_counter :: "'d fram_hal \<Rightarrow> u32 \<Rightarrow> 'd \<Rightarrow> (int \<times> u32) \<times> 'd" where
  "fram_read_reboot_counter hal reboot_counter d =
     (case FRAM_read hal REBOOT_COUNTER_ADDR (u32_bytes reboot_counter) d of
        ((result, bs), d) \<Rightarrow> ((result, bytes_u32 bs), d))"

definition fram_reset_reboot_counter :: "'d fram_hal \<Rightarrow> 'd \<Rightarrow> int \<times> 'd" where
  "fram_reset_reboot_counter hal = FRAM_writeAndVerify hal (u32_bytes 0) REBOOT_COUNTER_ADDR"

definition fram_read_img_reboot_counter ::
    "'d fram_hal \<Rightarrow> SlotType \<Rightarrow> u16 option \<Rightarrow> 'd \<Rightarrow> (int \<times> u16 option) \<times> 'd" where
  "fram_read_img_reboot_counter hal slotType reboot_counter d =
     (case reboot_counter of
        None \<Rightarrow> ((- 3, None), d)
      | Some old \<Rightarrow>
          (case FRAM_read hal (determine_img_reboot_counter_addr slotType) (u16_bytes old) d of
            ((result, bs), d) \<Rightarrow> ((result, Some (bytes_u16 bs)), d)))"

definition fram_reset_img_reboot_counter :: "'d fram_hal \<Rightarrow> SlotType \<Rightarrow> 'd \<Rightarrow> int \<times> 'd" where
  "fram_reset_img_reboot_counter hal slotType =
     FRAM_writeAndVerify hal (u16_bytes 0) (determine_img_reboot_counter_addr slotType)"

definition fram_increment_img_reboot_counter ::
    "'d fram_hal \<Rightarrow> SlotType \<Rightarrow> u16 option \<Rightarrow> 'd \<Rightarrow> (int \<times> u16 option) \<times> 'd" where
  "fram_increment_img_reboot_counter hal slotType new_reboot_counter d =
     (case fram_read_img_reboot_counter hal slotType (Some 0) d of
        ((result, counter), d) \<Rightarrow>
          if result \<noteq> 0 then ((result, new_reboot_counter), d)
          else let new_counter_local = the counter + 1 in
            (case FRAM_writeAndVerify hal (u16_bytes new_counter_local)
                    (determine_img_reboot_counter_addr slotType) d of
              (result, d) \<Rightarrow>
                if result \<noteq> 0 then ((result, new_reboot_counter), d)
                else ((result, map_option (\<lambda>_. new_counter_local) new_reboot_counter), d)))"

section \<open>Seconds and deployment timer\<close>

definition fram_update_seconds_since_epoch :: "'d fram_hal \<Rightarrow> u32 \<Rightarrow> 'd \<Rightarrow> int \<times> 'd" where
  "fram_update_seconds_since_epoch hal secondsSinceEpoch =
     FRAM_writeAndVerify hal (u32_bytes secondsSinceEpoch) SEC_SINCE_EPOCH_ADDR"

definition fram_read_seconds_since_epoch :: "'d fram_hal \<Rightarrow> u32 \<Rightarrow> 'd \<Rightarrow> (int \<times> u32) \<times> 'd" where
  "fram_read_seconds_since_epoch hal secondsSinceEpoch d =
     (case FRAM_read hal SEC_SINCE_EPOCH_ADDR (u32_bytes secondsSinceEpoch) d of
        ((result, bs), d) \<Rightarrow> ((result, bytes_u32 bs), d))"

definition fram_arm_deployment_timer :: "'d fram_hal \<Rightarrow> bool \<Rightarrow> 'd \<Rightarrow> int \<times> 'd" where
  "fram_arm_deployment_timer hal arm = FRAM_writeAndVerify hal [bool_u8 arm] FRAM_DEPLOY_TIMER_ARMED_ADDR"

definition fram_is_deployment_timer_armed ::
    "'d fram_hal \<Rightarrow> u8 option \<Rightarrow> 'd \<Rightarrow> (int \<times> u8 option) \<times> 'd" where
  "fram_is_deployment_timer_armed hal armed d =
     (case armed of
        Some old \<Rightarrow>
          (case FRAM_read hal FRAM_DEPLOY_TIMER_ARMED_ADDR [old] d of
            ((result, bs), d) \<Rightarrow> ((result, Some (bs ! 0)), d))
      | None \<Rightarrow> ((- 3, None), d))"

definition fram_get_seconds_on_deployment_timer ::
    "'d fram_hal \<Rightarrow> u32 option \<Rightarrow> 'd \<Rightarrow> (int \<times> u32 option) \<times> 'd" where
  "fram_get_seconds_on_deployment_timer hal seconds d =
     (case FRAM_read hal FRAM_SECONDS_SINCE_TIMER_ARMED_ADDR (u32_bytes 0) d of
        ((result, bs), d) \<Rightarrow>
          if result \<noteq> 0 then ((result, seconds), d)
          else ((0, map_option (\<lambda>_. bytes_u32 bs) seconds), d))"

definition fram_set_seconds_on_deployment_timer :: "'d fram_hal \<Rightarrow> u32 \<Rightarrow> 'd \<Rightarrow> int \<times> 'd" where
  "fram_set_seconds_on_deployment_timer hal seconds =
     FRAM_writeAndVerify hal (u32_bytes seconds) FRAM_SECONDS_SINCE_TIMER_ARMED_ADDR"

definition fram_increment_seconds_on_deployment_timer :: "'d fram_hal \<Rightarrow> u32 \<Rightarrow> 'd \<Rightarrow> int \<times> 'd" where
  "fram_increment_seconds_on_deployment_timer hal incrementSeconds d =
     (case fram_get_seconds_on_deployment_timer hal (Some 0) d of
        ((result, newSecValue), d) \<Rightarrow>
          if result \<noteq> 0 then (result, d)
          else fram_set_seconds_on_deployment_timer hal (the newSecValue + incrementSeconds) d)"

section \<open>Hamming flags, sizes and codes\<close>

definition fram_get_flash_ham_flag ::
    "'d fram_hal \<Rightarrow> u16 \<Rightarrow> bool option \<Rightarrow> 'd \<Rightarrow> (int \<times> bool option) \<times> 'd" where
  "fram_get_flash_ham_flag hal flag flag_set d =
     (case flag_set of
        None \<Rightarrow> ((- 3, None), d)
      | Some old \<Rightarrow>
          (case FRAM_read hal NOR_FLASH_HAMMING_FLAG_ADDR (u16_bytes flag) d of
            ((result, bs), d) \<Rightarrow> ((result, Some (if result = 0 then bytes_u16 bs \<noteq> 0 else old)), d)))"

definition fram_clear_ham_check_flag :: "'d fram_hal \<Rightarrow> 'd \<Rightarrow> int \<times> 'd" where
  "fram_clear_ham_check_flag hal = FRAM_writeAndVerify hal (u16_bytes 0) HAMMING_CHECK_FLAG_ADDR"

definition fram_set_ham_check_flag :: "'d fram_hal \<Rightarrow> 'd \<Rightarrow> int \<times> 'd" where
  "fram_set_ham_check_flag hal = FRAM_writeAndVerify hal (u16_bytes 1) HAMMING_CHECK_FLAG_ADDR"

definition fram_get_ham_check_flag ::
    "'d fram_hal \<Rightarrow> bool option \<Rightarrow> 'd \<Rightarrow> (int \<times> bool option) \<times> 'd" where
  "fram_get_ham_check_flag hal flag_set d =
     (case flag_set of
        None \<Rightarrow> ((- 3, None), d)
      | Some old \<Rightarrow>
          (case FRAM_read hal HAMMING_CHECK_FLAG_ADDR (u16_bytes 0) d of
            ((result, bs), d) \<Rightarrow>
              if result \<noteq> 0 then ((result, Some old), d)
              else let flag_status = bytes_u16 bs in
                if flag_status = - 1 then ((result, Some False), d)
                else if flag_status = 1 then ((result, Some True), d)
                else ((result, Some False), d)))"

definition fram_set_img_ham_flag :: "'d fram_hal \<Rightarrow> SlotType \<Rightarrow> 'd \<Rightarrow> int \<times> 'd" where
  "fram_set_img_ham_flag hal slotType d =
     (let address = determine_ham_flag_address slotType in
      if address = 0 then (- 3, d) else FRAM_writeAndVerify hal (u16_bytes 1) address d)"

definition fram_clear_img_ham_flag :: "'d fram_hal \<Rightarrow> SlotType \<Rightarrow> 'd \<Rightarrow> int \<times> 'd" where
  "fram_clear_img_ham_flag hal slotType d =
     (let address = determine_ham_flag_address slotType in
      if address = 0 then (- 3, d) else FRAM_writeAndVerify hal (u16_bytes 0) address d)"

definition fram_get_img_ham_flag ::
    "'d fram_hal \<Rightarrow> u16 \<Rightarrow> SlotType \<Rightarrow> bool option \<Rightarrow> 'd \<Rightarrow> (int \<times> bool option) \<times> 'd" where
  "fram_get_img_ham_flag hal flag slotType flag_set d =
     (case flag_set of
        None \<Rightarrow> ((- 3, None), d)
      | Some old \<Rightarrow>
          let address = determine_ham_flag_address slotType in
          if address = 0 then ((- 4, Some old), d)
          else (case FRAM_read hal address (u16_bytes flag) d of
            ((result, bs), d) \<Rightarrow> ((result, Some (if result = 0 then bytes_u16 bs \<noteq> 0 else old)), d)))"

definition sdc_hamming_flag_addr :: "VolumeId \<Rightarrow> SdSlots \<Rightarrow> u32" where
  "sdc_hamming_flag_addr volume slot =
     (if volume = SD_CARD_0
      then if slot = SDC_SLOT_0 then SDC0_SL0_HAMMING_FLAG_ADDR else SDC0_SL1_HAMMING_FLAG_ADDR
      else if slot = SDC_SLOT_0 then SDC1_SL0_HAMMING_FLAG_ADDR else SDC1_SL1_HAMMING_FLAG_ADDR)"

definition manipulate_sdc_hamming_flag ::
    "'d fram_hal \<Rightarrow> u16 \<Rightarrow> VolumeId \<Rightarrow> SdSlots \<Rightarrow> 'd \<Rightarrow> int \<times> 'd" where
  "manipulate_sdc_hamming_flag hal val volume slot =
     FRAM_writeAndVerify hal (u16_bytes val) (sdc_hamming_flag_addr volume slot)"

definition set_sdc_hamming_flag :: "'d fram_hal \<Rightarrow> VolumeId \<Rightarrow> SdSlots \<Rightarrow> 'd \<Rightarrow> int \<times> 'd" where
  "set_sdc_hamming_flag hal = manipulate_sdc_hamming_flag hal 1"

definition clear_sdc_hamming_flag :: "'d fram_hal \<Rightarrow> VolumeId \<Rightarrow> SdSlots \<Rightarrow> 'd \<Rightarrow> int \<times> 'd" where
  "clear_sdc_hamming_flag hal = manipulate_sdc_hamming_flag hal 0"

text \<open>The flag variable is 32 bits wide, so four bytes are read.\<close>

definition get_sdc_hamming_flag ::
    "'d fram_hal \<Rightarrow> bool option \<Rightarrow> VolumeId \<Rightarrow> SdSlots \<Rightarrow> 'd \<Rightarrow> (int \<times> bool option) \<times> 'd" where
  "get_sdc_hamming_flag hal flag_set volume slot d =
     (case flag_set of
        None \<Rightarrow> ((- 3, None), d)
      | Some old \<Rightarrow>
          (case FRAM_read hal (sdc_hamming_flag_addr volume slot) (u32_bytes 0) d of
            ((result, bs), d) \<Rightarrow> ((result, Some (if result = 0 then bytes_u32 bs \<noteq> 0 else old)), d)))"

definition fram_write_binary_size :: "'d fram_hal \<Rightarrow> SlotType \<Rightarrow> u32 \<Rightarrow> 'd \<Rightarrow> int \<times> 'd" where
  "fram_write_binary_size hal slotType binary_size d =
     (if slotType = FLASH_SLOT
      then FRAM_writeAndVerify hal (u32_bytes binary_size) NOR_FLASH_BINARY_SIZE_ADDR d
      else if slotType = BOOTLOADER_0
      then FRAM_writeAndVerify hal (u32_bytes binary_size) BOOTLOADER_SIZE_ADDR d
      else (- 3, d))"

definition fram_read_binary_size ::
    "'d fram_hal \<Rightarrow> SlotType \<Rightarrow> u32 option \<Rightarrow> 'd \<Rightarrow> (int \<times> u32 option) \<times> 'd" where
  "fram_read_binary_size hal slotType binary_size d =
     (case binary_size of
        None \<Rightarrow> ((- 4, None), d)
      | Some old \<Rightarrow>
          let address = determine_binary_size_address slotType in
          if address = 0 then ((- 4, Some old), d)
          else (case FRAM_read hal address (u32_bytes old) d of
            ((result, bs), d) \<Rightarrow> ((result, Some (bytes_u32 bs)), d)))"

definition fram_write_ham_size :: "'d fram_hal \<Rightarrow> SlotType \<Rightarrow> u32 \<Rightarrow> 'd \<Rightarrow> int \<times> 'd" where
  "fram_write_ham_size hal slotType ham_size d =
     (let address = determine_ham_size_address slotType in
      if address = 0 then (- 3, d) else FRAM_writeAndVerify hal (u32_bytes ham_size) address d)"

text \<open>The second part of \<open>fram_read_ham_size\<close>, after the optional flag.\<close>

definition fram_read_ham_size_value ::
    "'d fram_hal \<Rightarrow> SlotType \<Rightarrow> u32 \<Rightarrow> 'd \<Rightarrow> (int \<times> u32) \<times> 'd" where
  "fram_read_ham_size_value hal slotType old d =
     (let ham_size_addr = determine_ham_size_address slotType in
      if ham_size_addr = 0 then ((- 4, old), d)
      else (case FRAM_read hal ham_size_addr (u32_bytes old) d of
        ((result, bs), d) \<Rightarrow> ((result, bytes_u32 bs), d)))"

definition fram_read_ham_size ::
    "'d fram_hal \<Rightarrow> u16 \<Rightarrow> SlotType \<Rightarrow> u32 option \<Rightarrow> bool option \<Rightarrow> 'd \<Rightarrow>
      (int \<times> u32 option \<times> bool option) \<times> 'd" where
  "fram_read_ham_size hal flag slotType ham_size ham_flag_set d =
     (case ham_size of
        None \<Rightarrow> ((- 3, None, ham_flag_set), d)
      | Some old \<Rightarrow>
          (case ham_flag_set of
             None \<Rightarrow>
               (case fram_read_ham_size_value hal slotType old d of
                 ((result, v), d) \<Rightarrow> ((result, Some v, None), d))
           | Some _ \<Rightarrow>
               (case fram_get_img_ham_flag hal flag slotType (Some False) d of
                 ((result, flag_set), d) \<Rightarrow>
                   if result \<noteq> 0 then ((result, Some old, ham_flag_set), d)
                   else (case fram_read_ham_size_value hal slotType old d of
                     ((result, v), d) \<Rightarrow> ((result, Some v, flag_set), d)))))"

text \<open>\<open>None\<close> is a read outside \<open>buffer\<close>.\<close>

definition fram_write_ham_code ::
    "'d fram_hal \<Rightarrow> SlotType \<Rightarrow> bytes \<Rightarrow> u32 \<Rightarrow> u32 \<Rightarrow> 'd \<Rightarrow> (int \<times> 'd) option" where
  "fram_write_ham_code hal slotType buffer current_offset size_to_write d =
     (case determine_ham_code_address_with_sizecheck slotType size_to_write of
        Inl result \<Rightarrow> Some (result, d)
      | Inr address \<Rightarrow>
          if unat current_offset + unat size_to_write \<le> length buffer
          then Some (FRAM_writeAndVerify hal
                 (buf_read buffer (unat current_offset) (unat size_to_write)) address d)
          else None)"

text \<open>The clamping of \<open>size_to_read\<close>; the additions and subtractions wrap at 32 bits.\<close>

definition clamp_ham_size :: "SlotType \<Rightarrow> u32 \<Rightarrow> u32 \<Rightarrow> u32" where
  "clamp_ham_size slotType current_offset size_to_read =
     (if slotType = BOOTLOADER_0
      then if size_to_read + current_offset > BOOTLOADER_HAMMING_RESERVED_SIZE
        then BOOTLOADER_HAMMING_RESERVED_SIZE - current_offset else size_to_read
      else if size_to_read + current_offset > IMAGES_HAMMING_RESERVED_SIZE
        then IMAGES_HAMMING_RESERVED_SIZE - current_offset else size_to_read)"

text \<open>
  \<open>None\<close> is a write outside \<open>buffer\<close>, whose real length is that of the list; \<open>max_buffer\<close> is what
  the caller claims. \<open>size_read\<close> is \<open>None\<close> for a null pointer.
\<close>

definition fram_read_ham_code ::
    "'d fram_hal \<Rightarrow> SlotType \<Rightarrow> bytes \<Rightarrow> u32 \<Rightarrow> u32 \<Rightarrow> u32 \<Rightarrow> u32 option \<Rightarrow> 'd \<Rightarrow>
      ((int \<times> bytes \<times> u32 option) \<times> 'd) option" where
  "fram_read_ham_code hal slotType buffer max_buffer current_offset size_to_read size_read d =
     (let address = determine_ham_code_address slotType in
      if address = 0 then Some ((- 4, buffer, size_read), d)
      else case (if size_to_read = 0
            then (case fram_read_ham_size hal 0 slotType (Some size_to_read) None d of
                    ((result, v, _), d) \<Rightarrow> ((result, the v), d))
            else ((0, size_to_read), d)) of
        ((result, size_to_read), d) \<Rightarrow>
          if result \<noteq> 0 then Some ((result, buffer, size_read), d)
          else let size_to_read = clamp_ham_size slotType current_offset size_to_read in
            if size_to_read > max_buffer then Some ((- 5, buffer, size_read), d)
            else let off = unat current_offset; n = unat size_to_read in
              if length buffer < off + n then None
              else (case FRAM_read hal address (buf_read buffer off n) d of
                ((result, bs), d) \<Rightarrow>
                  if result \<noteq> 0 then Some ((result, buf_write buffer off bs, size_read), d)
                  else Some ((result, buf_write buffer off bs, map_option (\<lambda>_. size_to_read) size_read), d)))"

section \<open>Bootloader state, SD card choice and software update\<close>

definition fram_set_bootloader_faulty :: "'d fram_hal \<Rightarrow> bool \<Rightarrow> 'd \<Rightarrow> int \<times> 'd" where
  "fram_set_bootloader_faulty hal faulty =
     FRAM_writeAndVerify hal (u32_bytes (if faulty then 1 else 0)) BOOTLOADER_FAULTY_ADDRESS"

text \<open>
  \<open>faulty\<close> points to a \<open>bool\<close>, one byte, and four bytes are read: \<open>neighbours\<close> are the three bytes
  after it.
\<close>

definition fram_is_bootloader_faulty ::
    "'d fram_hal \<Rightarrow> u8 \<Rightarrow> bytes \<Rightarrow> 'd \<Rightarrow> (int \<times> u8 \<times> bytes) \<times> 'd" where
  "fram_is_bootloader_faulty hal faulty neighbours d =
     (case FRAM_read hal BOOTLOADER_FAULTY_ADDRESS (faulty # neighbours) d of
        ((result, bs), d) \<Rightarrow> ((result, hd bs, tl bs), d))"

text \<open>Four bytes are written at the two byte member \<open>preferred_sd_card\<close>.\<close>

definition fram_set_preferred_sd_card :: "'d fram_hal \<Rightarrow> VolumeId \<Rightarrow> 'd \<Rightarrow> int \<times> 'd" where
  "fram_set_preferred_sd_card hal volumeId =
     FRAM_writeAndVerify hal (u32_bytes (VolumeId_value volumeId)) PREFERRED_SD_CARD_ADDR"

text \<open>The raw value, for \<open>*volumeId = volumeIdRaw\<close> stores it without a check.\<close>

definition fram_get_preferred_sd_card ::
    "'d fram_hal \<Rightarrow> u32 option \<Rightarrow> 'd \<Rightarrow> (int \<times> u32 option) \<times> 'd" where
  "fram_get_preferred_sd_card hal volumeId d =
     (case FRAM_read hal PREFERRED_SD_CARD_ADDR (take 2 (u32_bytes 0)) d of
        ((result, bs), d) \<Rightarrow>
          let volumeIdRaw = bytes_u32 (bs @ drop 2 (u32_bytes 0)) in
          if volumeIdRaw = 0xffffffff then ((1, volumeId), d)
          else ((result, map_option (\<lambda>_. volumeIdRaw) volumeId), d))"

text \<open>\<open>raw\<close> is the content of the uninitialised local array \<open>raw_data\<close>.\<close>

definition fram_set_to_load_softwareupdate ::
    "'d fram_hal \<Rightarrow> bytes \<Rightarrow> bool \<Rightarrow> VolumeId \<Rightarrow> 'd \<Rightarrow> int \<times> 'd" where
  "fram_set_to_load_softwareupdate hal raw enable volume =
     (let raw_data = raw[0 := bool_u8 enable];
          raw_data = (if volume = SD_CARD_0 then raw_data[1 := 1] else raw_data[2 := 1])
      in FRAM_writeAndVerify hal raw_data SOFTWARE_UPDATE_BOOL_ADDR)"

text \<open>The flags are read as \<open>bool\<close>s: a byte that is not zero counts as true.\<close>

definition fram_get_to_load_softwareupdate ::
    "'d fram_hal \<Rightarrow> bytes \<Rightarrow> bool option \<Rightarrow> VolumeId option \<Rightarrow> 'd \<Rightarrow>
      (int \<times> bool option \<times> VolumeId option) \<times> 'd" where
  "fram_get_to_load_softwareupdate hal raw enable volume d =
     (if enable = None then ((- 3, enable, volume), d)
      else (case FRAM_read hal SOFTWARE_UPDATE_BOOL_ADDR raw d of
        ((result, raw_data), d) \<Rightarrow>
          if result \<noteq> 0 then ((result, enable, volume), d)
          else if raw_data ! 0 = 0 then ((0, Some False, volume), d)
          else if volume = None then ((- 3, enable, volume), d)
          else if raw_data ! 1 \<noteq> 0 \<and> raw_data ! 2 \<noteq> 0
          then (case FRAM_writeAndVerify hal [0, 0, 0] SOFTWARE_UPDATE_BOOL_ADDR d of
            (result, d) \<Rightarrow> ((result, Some False, volume), d))
          else let (enable, volume) =
                 (if raw_data ! 1 \<noteq> 0 then (Some True, Some SD_CARD_0)
                  else if raw_data ! 2 \<noteq> 0 then (Some True, Some SD_CARD_1)
                  else (enable, volume))
            in (case FRAM_writeAndVerify hal [0, 0, 0] SOFTWARE_UPDATE_BOOL_ADDR d of
              (result, d) \<Rightarrow> ((result, enable, volume), d))))"

section \<open>Default values\<close>

text \<open>\<open>result = f(); if(result != 0) return result; ...\<close> for a sequence of calls.\<close>

fun run_checked :: "('d \<Rightarrow> int \<times> 'd) list \<Rightarrow> 'd \<Rightarrow> int \<times> 'd" where
  "run_checked [] d = (0, d)"
| "run_checked (f # fs) d =
     (case f d of (result, d) \<Rightarrow> if result \<noteq> 0 then (result, d) else run_checked fs d)"

definition zero_out_calls :: "'d fram_hal \<Rightarrow> bytes \<Rightarrow> ('d \<Rightarrow> int \<times> 'd) list" where
  "zero_out_calls hal raw =
     [fram_clear_ham_check_flag hal,
      fram_clear_img_ham_flag hal FLASH_SLOT,
      fram_clear_img_ham_flag hal SDC_0_SL_0,
      fram_clear_img_ham_flag hal SDC_0_SL_1,
      fram_clear_img_ham_flag hal SDC_1_SL_0,
      fram_clear_img_ham_flag hal SDC_1_SL_1,
      fram_reset_img_reboot_counter hal FLASH_SLOT,
      fram_reset_img_reboot_counter hal SDC_0_SL_0,
      fram_reset_img_reboot_counter hal SDC_0_SL_1,
      fram_reset_img_reboot_counter hal SDC_1_SL_0,
      fram_reset_img_reboot_counter hal SDC_1_SL_1,
      fram_write_binary_size hal FLASH_SLOT 0,
      fram_write_binary_size hal BOOTLOADER_0 0,
      fram_write_ham_size hal FLASH_SLOT 0,
      fram_write_ham_size hal BOOTLOADER_0 0,
      fram_write_ham_size hal SDC_0_SL_0 0,
      fram_write_ham_size hal SDC_0_SL_1 0,
      fram_write_ham_size hal SDC_1_SL_0 0,
      fram_write_ham_size hal SDC_1_SL_1 0,
      fram_set_bootloader_faulty hal False,
      fram_set_to_load_softwareupdate hal raw False SD_CARD_0]"

text \<open>The middle part: an unset preferred SD card is set to SD card 0.\<close>

definition zero_out_preferred :: "'d fram_hal \<Rightarrow> 'd \<Rightarrow> int \<times> 'd" where
  "zero_out_preferred hal d =
     (case fram_get_preferred_sd_card hal (Some 0) d of
        ((result, _), d) \<Rightarrow>
          if result \<noteq> 0 then (result, d)
          else if result = 1 then fram_set_preferred_sd_card hal SD_CARD_0 d
          else (result, d))"

definition zero_out_reboot_counter :: "'d fram_hal \<Rightarrow> 'd \<Rightarrow> int \<times> 'd" where
  "zero_out_reboot_counter hal d =
     (case fram_read_reboot_counter hal 0 d of
        ((result, reboot_counter), d) \<Rightarrow>
          if result \<noteq> 0 then (result, d)
          else if reboot_counter = 0xffffffff then fram_reset_reboot_counter hal d
          else (result, d))"

definition fram_zero_out_default_zero_fields :: "'d fram_hal \<Rightarrow> bytes \<Rightarrow> 'd \<Rightarrow> int \<times> 'd" where
  "fram_zero_out_default_zero_fields hal raw =
     run_checked (zero_out_reboot_counter hal # zero_out_preferred hal # zero_out_calls hal raw)"


section \<open>The laws of the device\<close>

text \<open>
  \<open>mem\<close> is the content of the FRAM. A read changes nothing, and when it returns 0 it has delivered
  the bytes; a write touches only its range, and when it returns 0 the bytes are there.
\<close>

locale fram_device =
  fixes hal :: "'d fram_hal" and mem :: "'d \<Rightarrow> bytes" and valid :: "'d \<Rightarrow> bool"
  assumes mem_size: "valid d \<Longrightarrow> unat FRAM_END_ADDR < length (mem d)"
    and read_law: "valid d \<Longrightarrow> unat a + length b \<le> length (mem d) \<Longrightarrow>
      FRAM_read hal a b d = ((r, b'), d') \<Longrightarrow>
      valid d' \<and> mem d' = mem d \<and> length b' = length b \<and>
      (r = 0 \<longrightarrow> b' = buf_read (mem d) (unat a) (length b))"
    and write_law: "valid d \<Longrightarrow> unat a + length b \<le> length (mem d) \<Longrightarrow>
      FRAM_writeAndVerify hal b a d = (r, d') \<Longrightarrow>
      valid d' \<and> (\<exists>b'. length b' = length b \<and> mem d' = buf_write (mem d) (unat a) b' \<and> (r = 0 \<longrightarrow> b' = b))"

text \<open>The bytes of a member of the critical data block.\<close>

definition field_bytes :: "bytes \<Rightarrow> cdb_field \<Rightarrow> bytes" where
  "field_bytes m f = buf_read m (cdb_offset f) (cdb_size f)"

text \<open>The members that \<open>fram_zero_out_default_zero_fields\<close> is to clear.\<close>

definition zero_fields :: "cdb_field list" where
  "zero_fields = [F_global_hamming_flag, F_nor_flash_hamming_flag, F_sdc0_image_slot0_hamming_flag,
     F_sdc0_image_slot1_hamming_flag, F_sdc1_image_slot0_hamming_flag, F_sdc1_image_slot1_hamming_flag,
     F_nor_flash_reboot_counter, F_sdc0_image_slot0_reboot_counter, F_sdc0_image_slot1_reboot_counter,
     F_sdc1_image_slot0_reboot_counter, F_sdc1_image_slot1_reboot_counter, F_nor_flash_binary_size,
     F_bootloader_size, F_nor_flash_hamming_code_size, F_bootloader_hamming_code_size,
     F_sdc0_image_slot0_hamming_size, F_sdc0_image_slot1_hamming_size, F_sdc1_image_slot0_hamming_size,
     F_sdc1_image_slot1_hamming_size, F_bootloader_faulty]"

text \<open>The member that holds the reboot counter of an image.\<close>

definition img_counter_field :: "SlotType \<Rightarrow> cdb_field" where
  "img_counter_field s = (case s of FLASH_SLOT \<Rightarrow> F_nor_flash_reboot_counter
     | SDC_0_SL_0 \<Rightarrow> F_sdc0_image_slot0_reboot_counter | SDC_0_SL_1 \<Rightarrow> F_sdc0_image_slot1_reboot_counter
     | SDC_1_SL_0 \<Rightarrow> F_sdc1_image_slot0_reboot_counter | SDC_1_SL_1 \<Rightarrow> F_sdc1_image_slot1_reboot_counter
     | _ \<Rightarrow> F_software_version)"

lemma cdb_size_pos: "0 < cdb_size f"
  by (cases f) simp_all

context fram_device
begin

lemma block_in_mem: "valid d \<Longrightarrow> 89 \<le> length (mem d)"
  using mem_size [of d] by (simp add: FRAM_END_ADDR_def)

lemma field_in_mem: "valid d \<Longrightarrow> cdb_offset f + cdb_size f \<le> length (mem d)"
  using block_in_mem [of d] cdb_in_block [of f] by simp

lemma length_field_bytes: "valid d \<Longrightarrow> length (field_bytes (mem d) f) = cdb_size f"
  using field_in_mem [of d f] by (simp add: field_bytes_def buf_simps)

text \<open>\<open>writes f ws\<close>: the call \<open>f\<close> performs the writes \<open>ws\<close> when it succeeds.\<close>

definition writes :: "('d \<Rightarrow> int \<times> 'd) \<Rightarrow> (bytes \<Rightarrow> (nat \<times> bytes) list) \<Rightarrow> bool" where
  "writes f ws \<longleftrightarrow> (\<forall>d r d'. valid d \<longrightarrow> f d = (r, d') \<longrightarrow>
     valid d' \<and> length (mem d') = length (mem d) \<and> (r = 0 \<longrightarrow> mem d' = apply_writes (mem d) (ws (mem d))))"

lemma writes_hal:
  assumes "unat a + length b \<le> 89"
  shows "writes (FRAM_writeAndVerify hal b a) (\<lambda>_. [(unat a, b)])"
proof -
  have "valid d' \<and> length (mem d') = length (mem d) \<and> (r = 0 \<longrightarrow> mem d' = buf_write (mem d) (unat a) b)"
    if "valid d" "FRAM_writeAndVerify hal b a d = (r, d')" for d r d'
  proof -
    have "unat a + length b \<le> length (mem d)" using block_in_mem [OF that(1)] assms by simp
    then show ?thesis using write_law [OF that(1) _ that(2)] by (auto simp: buf_simps)
  qed
  then show ?thesis by (simp add: writes_def)
qed

lemma writes_run_checked:
  "list_all2 writes fs (map (\<lambda>ws _. ws) wss) \<Longrightarrow> writes (run_checked fs) (\<lambda>_. concat wss)"
proof (induction fs arbitrary: wss)
  case Nil
  then show ?case by (simp add: writes_def)
next
  case (Cons f fs)
  then obtain ws wss' where w: "wss = ws # wss'" "writes f (\<lambda>_. ws)" "list_all2 writes fs (map (\<lambda>ws _. ws) wss')"
    by (cases wss) auto
  have IH: "writes (run_checked fs) (\<lambda>_. concat wss')" using Cons.IH w(3) .
  show ?case
    unfolding writes_def
  proof (intro allI impI)
    fix d r d'
    assume v: "valid d" and e: "run_checked (f # fs) d = (r, d')"
    obtain r1 d1 where f: "f d = (r1, d1)" by (cases "f d")
    then have 1: "valid d1 \<and> length (mem d1) = length (mem d) \<and> (r1 = 0 \<longrightarrow> mem d1 = apply_writes (mem d) ws)"
      using w(2) v by (auto simp: writes_def)
    show "valid d' \<and> length (mem d') = length (mem d)
        \<and> (r = 0 \<longrightarrow> mem d' = apply_writes (mem d) (concat wss))"
      using e f 1 IH by (auto simp: writes_def w(1) apply_writes_append split: if_splits)
  qed
qed

lemma field_after_writes:
  assumes "valid d" and "\<forall>(off, b) \<in> set ws. \<exists>g. off = cdb_offset g \<and> length b = cdb_size g"
  shows "field_bytes (apply_writes (mem d) ws) f = last_write ws (cdb_offset f) (field_bytes (mem d) f)"
  unfolding field_bytes_def
proof (rule buf_read_apply_writes)
  show "\<forall>(off, b) \<in> set ws. off + length b \<le> length (mem d) \<and>
      (off = cdb_offset f \<and> length b = cdb_size f \<or> cdb_offset f + cdb_size f \<le> off
       \<or> off + length b \<le> cdb_offset f)"
  proof (clarify)
    fix off b
    assume "(off, b) \<in> set ws"
    then obtain g where g: "off = cdb_offset g" "length b = cdb_size g" using assms(2) by blast
    show "off + length b \<le> length (mem d) \<and>
      (off = cdb_offset f \<and> length b = cdb_size f \<or> cdb_offset f + cdb_size f \<le> off
       \<or> off + length b \<le> cdb_offset f)"
      using cdb_disjoint [of f g] field_in_mem [OF assms(1), of g] g by (cases "f = g") auto
  qed
  show "\<forall>(off, b) \<in> set ws. 0 < length b"
  proof
    fix w
    assume w: "w \<in> set ws"
    obtain off b where wb: "w = (off, b)" by (cases w)
    then obtain g where "length b = cdb_size g" using assms(2) w by blast
    then have "0 < length b" using cdb_size_pos [of g] by (simp only:)
    then show "case w of (off, b) \<Rightarrow> 0 < length b" by (simp add: wb)
  qed
qed (use field_in_mem [OF assms(1), of f] cdb_size_pos [of f] in auto)

lemma read_field:
  assumes "valid d" and "FRAM_read hal (word_of_nat (cdb_offset f)) b d = ((r, b'), d')"
    and "length b = cdb_size f"
  shows "valid d' \<and> mem d' = mem d \<and> length b' = cdb_size f \<and> (r = 0 \<longrightarrow> b' = field_bytes (mem d) f)"
proof -
  have "cdb_offset f < 89" using cdb_in_block [of f] cdb_size_pos [of f] by simp
  then have "unat (word_of_nat (cdb_offset f) :: u32) = cdb_offset f" by (simp add: unat_of_nat)
  then show ?thesis
    using read_law [OF assms(1) _ assms(2)] field_in_mem [OF assms(1), of f] assms(3)
    by (simp add: field_bytes_def)
qed

text \<open>The calls of \<open>fram_zero_out_default_zero_fields\<close>, as writes.\<close>

lemma writes_field:
  assumes "length b = cdb_size f"
  shows "writes (FRAM_writeAndVerify hal b (word_of_nat (cdb_offset f))) (\<lambda>_. [(cdb_offset f, b)])"
proof -
  have "cdb_offset f < 89" using cdb_in_block [of f] cdb_size_pos [of f] by simp
  then have "unat (word_of_nat (cdb_offset f) :: u32) = cdb_offset f" by (simp add: unat_of_nat)
  then show ?thesis using writes_hal [of "word_of_nat (cdb_offset f)" b] assms cdb_in_block [of f]
    by simp
qed

lemma writes_software_update:
  assumes "length raw = 3"
  shows "writes (fram_set_to_load_softwareupdate hal raw enable SD_CARD_0)
    (\<lambda>_. [(64, [bool_u8 enable]), (65, [1]), (66, [raw ! 2])])"
    and "writes (fram_set_to_load_softwareupdate hal raw enable SD_CARD_1)
    (\<lambda>_. [(64, [bool_u8 enable]), (65, [raw ! 1]), (66, [1])])"
proof -
  obtain x y z where raw: "raw = [x, y, z]"
    using assms by (auto simp: length_Suc_conv numeral_3_eq_3)
  have three: "buf_write b 64 [p, q, s] = apply_writes b [(64, [p]), (65, [q]), (66, [s])]"
    if "89 \<le> length b" for b and p q s :: u8
    using that by (intro nth_equalityI) (auto simp: buf_simps buf_write_nth nth_Cons split: nat.splits)
  have "writes (FRAM_writeAndVerify hal [p, q, s] SOFTWARE_UPDATE_BOOL_ADDR)
      (\<lambda>_. [(64, [p]), (65, [q]), (66, [s])])" for p q s
    using writes_hal [of SOFTWARE_UPDATE_BOOL_ADDR "[p, q, s]"] block_in_mem three
    by (simp add: writes_def)
  then show "writes (fram_set_to_load_softwareupdate hal raw enable SD_CARD_0)
      (\<lambda>_. [(64, [bool_u8 enable]), (65, [1]), (66, [raw ! 2])])"
    and "writes (fram_set_to_load_softwareupdate hal raw enable SD_CARD_1)
      (\<lambda>_. [(64, [bool_u8 enable]), (65, [raw ! 1]), (66, [1])])"
    by (simp_all add: fram_set_to_load_softwareupdate_def raw)
qed

lemma zero_bytes: "u16_bytes 0 = replicate 2 0" "u32_bytes 0 = replicate 4 0"
  by (simp_all add: u16_bytes_def u32_bytes_def numeral_2_eq_2 numeral_eq_Suc)

lemma zero_out_calls_writes:
  assumes "length raw = 3"
  shows "list_all2 writes (zero_out_calls hal raw)
    (map (\<lambda>ws _. ws) (map (\<lambda>f. [(cdb_offset f, replicate (cdb_size f) 0)]) zero_fields
      @ [[(64, [0]), (65, [1]), (66, [raw ! 2])]]))"
proof -
  have w: "writes (FRAM_writeAndVerify hal (replicate (cdb_size f) 0) (word_of_nat (cdb_offset f)))
      (\<lambda>_. [(cdb_offset f, replicate (cdb_size f) 0)])" for f
    by (rule writes_field) simp
  show ?thesis
    using w [of F_global_hamming_flag] w [of F_nor_flash_hamming_flag]
      w [of F_sdc0_image_slot0_hamming_flag] w [of F_sdc0_image_slot1_hamming_flag]
      w [of F_sdc1_image_slot0_hamming_flag] w [of F_sdc1_image_slot1_hamming_flag]
      w [of F_nor_flash_reboot_counter] w [of F_sdc0_image_slot0_reboot_counter]
      w [of F_sdc0_image_slot1_reboot_counter] w [of F_sdc1_image_slot0_reboot_counter]
      w [of F_sdc1_image_slot1_reboot_counter] w [of F_nor_flash_binary_size]
      w [of F_bootloader_size] w [of F_nor_flash_hamming_code_size] w [of F_bootloader_hamming_code_size]
      w [of F_sdc0_image_slot0_hamming_size] w [of F_sdc0_image_slot1_hamming_size]
      w [of F_sdc1_image_slot0_hamming_size] w [of F_sdc1_image_slot1_hamming_size]
      w [of F_bootloader_faulty] writes_software_update(1) [OF assms, of False]
    by (simp add: zero_out_calls_def zero_fields_def fram_clear_ham_check_flag_def
        fram_clear_img_ham_flag_def [abs_def] fram_reset_img_reboot_counter_def fram_write_binary_size_def [abs_def]
        fram_write_ham_size_def [abs_def] fram_set_bootloader_faulty_def determine_ham_flag_address_def
        determine_img_reboot_counter_addr_def determine_ham_size_address_def zero_bytes bool_u8_def)
qed

lemma writes_all:
  assumes "length raw = 3"
  shows "writes (run_checked (zero_out_calls hal raw))
    (\<lambda>_. map (\<lambda>f. (cdb_offset f, replicate (cdb_size f) 0)) zero_fields
      @ [(64, [0]), (65, [1]), (66, [raw ! 2])])"
proof -
  have "concat (map (\<lambda>f. [(cdb_offset f, replicate (cdb_size f) 0)]) fs) =
      map (\<lambda>f. (cdb_offset f, replicate (cdb_size f) (0 :: u8))) fs" for fs
    by (induction fs) auto
  then show ?thesis
    using writes_run_checked [OF zero_out_calls_writes [OF assms]] by (simp only: concat_append) simp
qed

lemma last_write_zeros:
  assumes "ws' = [(64, [0]), (65, [1]), (66, [x])]"
  shows "last_write (map (\<lambda>f. (cdb_offset f, replicate (cdb_size f) 0)) zero_fields @ ws') (cdb_offset f) old
    = (if f \<in> set zero_fields \<or> f = F_software_update_available then replicate (cdb_size f) 0
       else if f = F_software_update_in_volume_0 then [1]
       else if f = F_software_update_in_volume_1 then [x]
       else old)"
  by (cases f) (simp_all add: zero_fields_def assms)

text \<open>Two of four bytes are read, so that the value is never the \<open>0xffffffff\<close> that is tested for.\<close>

lemma get_preferred:
  assumes "valid d" and "fram_get_preferred_sd_card hal p d = ((r, q), d')"
  shows "\<exists>b. FRAM_read hal PREFERRED_SD_CARD_ADDR [0, 0] d = ((r, b), d') \<and>
    q = map_option (\<lambda>_. ucast (bytes_u16 b)) p \<and> valid d' \<and> mem d' = mem d \<and>
    (r = 0 \<longrightarrow> b = field_bytes (mem d) F_preferred_sd_card)"
proof -
  have z: "take 2 (u32_bytes 0) = [0, 0]" "drop 2 (u32_bytes 0) = [0, 0]" by (simp_all add: u32_bytes_def)
  obtain r1 b1 d1 where f: "FRAM_read hal PREFERRED_SD_CARD_ADDR [0, 0] d = ((r1, b1), d1)"
    by (metis prod.exhaust)
  then have m: "valid d1 \<and> mem d1 = mem d \<and> length b1 = 2 \<and>
      (r1 = 0 \<longrightarrow> b1 = field_bytes (mem d) F_preferred_sd_card)"
    using read_field [OF assms(1), of F_preferred_sd_card "[0, 0]"] by simp
  obtain x y where b1: "b1 = [x, y]" using m by (auto simp: length_Suc_conv numeral_2_eq_2)
  have v: "bytes_u32 (b1 @ [0, 0]) = ucast (bytes_u16 b1)"
    by (rule bit_eqI)
      (auto simp: b1 bytes_u32_def bytes_u16_def bit_or_iff bit_push_bit_iff bit_ucast_iff
        dest: bit_imp_le_length)
  have "(ucast (bytes_u16 b1) :: u32) \<noteq> 0xffffffff"
  proof
    assume "(ucast (bytes_u16 b1) :: u32) = 0xffffffff"
    then have "bit (ucast (bytes_u16 b1) :: u32) 31 = bit (0xffffffff :: u32) 31" by simp
    then show False by (auto simp: bit_ucast_iff dest: bit_imp_le_length)
  qed
  then show ?thesis
    using assms(2) f m by (simp add: fram_get_preferred_sd_card_def z v Let_def)
qed

lemma zero_out_preferred_reads:
  assumes "valid d" "zero_out_preferred hal d = (r, d')"
  shows "valid d' \<and> mem d' = mem d"
proof -
  obtain r1 q d1 where f: "fram_get_preferred_sd_card hal (Some 0) d = ((r1, q), d1)"
    by (metis prod.exhaust)
  then show ?thesis
    using assms(2) get_preferred [OF assms(1) f] by (auto simp: zero_out_preferred_def split: if_splits)
qed

lemma zero_out_reboot_counter_writes:
  assumes "valid d" "zero_out_reboot_counter hal d = (r, d')"
  shows "valid d' \<and> length (mem d') = length (mem d) \<and> (r = 0 \<longrightarrow> mem d' = apply_writes (mem d)
    (if bytes_u32 (field_bytes (mem d) F_reboot_counter) = 0xffffffff then [(4, u32_bytes 0)] else []))"
proof -
  obtain r1 b1 d1 where f: "FRAM_read hal REBOOT_COUNTER_ADDR (u32_bytes 0) d = ((r1, b1), d1)"
    by (metis prod.exhaust)
  have m: "valid d1 \<and> mem d1 = mem d \<and> (r1 = 0 \<longrightarrow> b1 = field_bytes (mem d) F_reboot_counter)"
    using read_field [OF assms(1), of F_reboot_counter] f by (simp add: length_u32_bytes)
  have w: "writes (fram_reset_reboot_counter hal) (\<lambda>_. [(4, u32_bytes 0)])"
    using writes_field [of "u32_bytes 0" F_reboot_counter]
    by (simp add: fram_reset_reboot_counter_def length_u32_bytes)
  then show ?thesis
    using assms(2) f m by (auto simp: zero_out_reboot_counter_def fram_read_reboot_counter_def writes_def
        split: if_splits)
qed

lemma zero_out_fields:
  assumes "valid d" "length raw = 3" "fram_zero_out_default_zero_fields hal raw d = (0, d')"
  shows "field_bytes (mem d') f =
     (if f \<in> set zero_fields \<or> f = F_software_update_available then replicate (cdb_size f) 0
      else if f = F_software_update_in_volume_0 then [1]
      else if f = F_software_update_in_volume_1 then [raw ! 2]
      else if f = F_reboot_counter \<and> bytes_u32 (field_bytes (mem d) f) = 0xffffffff then u32_bytes 0
      else field_bytes (mem d) f)"
proof -
  obtain r1 d1 where s1: "zero_out_reboot_counter hal d = (r1, d1)" by (cases "zero_out_reboot_counter hal d")
  obtain r2 d2 where s2: "zero_out_preferred hal d1 = (r2, d2)" by (cases "zero_out_preferred hal d1")
  have z: "r1 = 0" "r2 = 0" and s3: "run_checked (zero_out_calls hal raw) d2 = (0, d')"
    using assms(3) s1 s2 by (auto simp: fram_zero_out_default_zero_fields_def split: if_splits)
  let ?ws1 = "if bytes_u32 (field_bytes (mem d) F_reboot_counter) = 0xffffffff then [(4, u32_bytes 0)] else []"
  let ?ws3 = "map (\<lambda>f. (cdb_offset f, replicate (cdb_size f) 0)) zero_fields
      @ [(64, [0]), (65, [1]), (66, [raw ! 2])]"
  have m1: "valid d1" "mem d1 = apply_writes (mem d) ?ws1"
    using zero_out_reboot_counter_writes [OF assms(1) s1] z by auto
  have m2: "valid d2" "mem d2 = mem d1" using zero_out_preferred_reads [OF m1(1) s2] by auto
  have m3: "mem d' = apply_writes (mem d2) ?ws3"
    using writes_all [OF assms(2)] m2(1) s3 by (auto simp: writes_def)
  have g1: "\<exists>g. off = cdb_offset g \<and> length b = cdb_size g" if "(off, b) \<in> set ?ws1" for off b
    using that by (intro exI [of _ F_reboot_counter]) (auto simp: length_u32_bytes split: if_splits)
  have g3: "\<exists>g. off = cdb_offset g \<and> length b = cdb_size g" if w: "(off, b) \<in> set ?ws3" for off b
  proof -
    consider g where "off = cdb_offset g" "b = replicate (cdb_size g) 0"
      | "off = 64" "length b = 1" | "off = 65" "length b = 1" | "off = 66" "length b = 1"
      using w by auto
    then show ?thesis
    proof cases
      case 2 then show ?thesis by (intro exI [of _ F_software_update_available]) simp
    next
      case 3 then show ?thesis by (intro exI [of _ F_software_update_in_volume_0]) simp
    next
      case 4 then show ?thesis by (intro exI [of _ F_software_update_in_volume_1]) simp
    qed auto
  qed
  have f1: "field_bytes (mem d1) f = last_write ?ws1 (cdb_offset f) (field_bytes (mem d) f)"
    unfolding m1(2) by (rule field_after_writes [OF assms(1)]) (use g1 in blast)
  have f3: "field_bytes (mem d') f = last_write ?ws3 (cdb_offset f) (field_bytes (mem d2) f)"
    unfolding m3 by (rule field_after_writes [OF m2(1)]) (use g3 in blast)
  have off4: "cdb_offset f = 4 \<longleftrightarrow> f = F_reboot_counter" by (cases f) simp_all
  show ?thesis
    unfolding f3 m2(2) f1 last_write_zeros [OF refl]
    by (auto simp: off4 zero_fields_def)
qed

text \<open>A single write of one member: no other member changes, whatever the outcome.\<close>

lemma write_field:
  assumes "valid d" and "FRAM_writeAndVerify hal b (word_of_nat (cdb_offset f)) d = (r, d')"
    and "length b = cdb_size f"
  shows "valid d' \<and> (\<forall>g. g \<noteq> f \<longrightarrow> field_bytes (mem d') g = field_bytes (mem d) g)
    \<and> (r = 0 \<longrightarrow> field_bytes (mem d') f = b)"
proof -
  have "cdb_offset f < 89" using cdb_in_block [of f] cdb_size_pos [of f] by simp
  then have u: "unat (word_of_nat (cdb_offset f) :: u32) = cdb_offset f" by (simp add: unat_of_nat)
  obtain b' where b': "valid d'" "length b' = length b" "mem d' = buf_write (mem d) (cdb_offset f) b'"
      "r = 0 \<longrightarrow> b' = b"
    using write_law [OF assms(1) _ assms(2)] field_in_mem [OF assms(1), of f] assms(3) u by auto
  have "field_bytes (mem d') g = (if g = f then b' else field_bytes (mem d) g)" for g
    using field_in_mem [OF assms(1), of f] field_in_mem [OF assms(1), of g] b'(2,3) assms(3)
      cdb_disjoint [of f g] buf_read_write_same [of "cdb_offset f" b' "mem d"]
    by (cases "g = f") (auto simp: field_bytes_def buf_read_write_other)
  then show ?thesis using b' by auto
qed

lemma img_counter_addr:
  assumes "s \<noteq> BOOTLOADER_0" "s \<noteq> BOOTLOADER_1"
  shows "determine_img_reboot_counter_addr s = word_of_nat (cdb_offset (img_counter_field s))
    \<and> cdb_size (img_counter_field s) = 2"
  using assms by (cases s) (simp_all add: determine_img_reboot_counter_addr_def img_counter_field_def)

lemma increment_img_counter:
  assumes "valid d" "s \<noteq> BOOTLOADER_0" "s \<noteq> BOOTLOADER_1"
    and "fram_increment_img_reboot_counter hal s p d = ((r, q), d')"
  shows "valid d' \<and> (\<forall>g. g \<noteq> img_counter_field s \<longrightarrow> field_bytes (mem d') g = field_bytes (mem d) g) \<and>
    (r = 0 \<longrightarrow> (let n = bytes_u16 (field_bytes (mem d) (img_counter_field s)) + 1 in
      field_bytes (mem d') (img_counter_field s) = u16_bytes n \<and> q = map_option (\<lambda>_. n) p))"
proof -
  note addr = img_counter_addr [OF assms(2,3)]
  let ?f = "img_counter_field s"
  obtain r1 b1 d1 where f: "FRAM_read hal (word_of_nat (cdb_offset ?f)) (u16_bytes 0) d = ((r1, b1), d1)"
    by (metis prod.exhaust)
  have m: "valid d1 \<and> mem d1 = mem d \<and> (r1 = 0 \<longrightarrow> b1 = field_bytes (mem d) ?f)"
    using read_field [OF assms(1) f] addr by (simp add: length_u16_bytes)
  obtain r2 d2 where w: "FRAM_writeAndVerify hal (u16_bytes (bytes_u16 b1 + 1)) (word_of_nat (cdb_offset ?f)) d1
      = (r2, d2)" by (metis prod.exhaust)
  have m2: "valid d2 \<and> (\<forall>g. g \<noteq> ?f \<longrightarrow> field_bytes (mem d2) g = field_bytes (mem d1) g)
      \<and> (r2 = 0 \<longrightarrow> field_bytes (mem d2) ?f = u16_bytes (bytes_u16 b1 + 1))"
    using write_field [OF _ w] m addr by (simp add: length_u16_bytes)
  show ?thesis
    using assms(4) f w m m2
    by (auto simp: fram_increment_img_reboot_counter_def fram_read_img_reboot_counter_def addr Let_def
        split: if_splits)
qed

text \<open>The two fields that \<open>fram_set_preferred_sd_card\<close> writes.\<close>

lemma set_preferred:
  assumes "valid d" "fram_set_preferred_sd_card hal v d = (0, d')"
  shows "valid d' \<and> field_bytes (mem d') F_preferred_sd_card = u16_bytes (ucast (VolumeId_value v)) \<and>
    field_bytes (mem d') F_global_hamming_flag = [0, 0] \<and>
    (\<forall>g. g \<noteq> F_preferred_sd_card \<longrightarrow> g \<noteq> F_global_hamming_flag \<longrightarrow>
      field_bytes (mem d') g = field_bytes (mem d) g)"
proof -
  have two: "buf_write b 12 (u32_bytes (VolumeId_value v))
      = apply_writes b [(12, u16_bytes (ucast (VolumeId_value v))), (14, [0, 0])]" if "89 \<le> length b" for b
  proof -
    have "u32_bytes (VolumeId_value v) = u16_bytes (ucast (VolumeId_value v)) @ [0, 0]"
      by (cases v) (simp_all add: u32_bytes_def u16_bytes_def)
    then show ?thesis using that
      by (intro nth_equalityI)
        (auto simp: buf_simps buf_write_nth nth_append u16_bytes_def nth_Cons split: nat.splits)
  qed
  let ?ws = "[(12, u16_bytes (ucast (VolumeId_value v))), (14, [0, 0])]"
  have m: "valid d'" "mem d' = apply_writes (mem d) ?ws"
    using writes_hal [of PREFERRED_SD_CARD_ADDR "u32_bytes (VolumeId_value v)"] assms two
      block_in_mem [OF assms(1)]
    by (auto simp: writes_def fram_set_preferred_sd_card_def length_u32_bytes)
  have g: "\<exists>g. off = cdb_offset g \<and> length b = cdb_size g" if w: "(off, b) \<in> set ?ws" for off b
  proof -
    consider "off = 12" "length b = 2" | "off = 14" "length b = 2" using w by (auto simp: length_u16_bytes)
    then show ?thesis
    proof cases
      case 1 then show ?thesis by (intro exI [of _ F_preferred_sd_card]) simp
    next
      case 2 then show ?thesis by (intro exI [of _ F_global_hamming_flag]) simp
    qed
  qed
  have "field_bytes (mem d') f = last_write ?ws (cdb_offset f) (field_bytes (mem d) f)" for f
    unfolding m(2) by (rule field_after_writes [OF assms(1)]) (use g in blast)
  moreover have "cdb_offset f = 12 \<longleftrightarrow> f = F_preferred_sd_card"
      "cdb_offset f = 14 \<longleftrightarrow> f = F_global_hamming_flag" for f
    by (cases f; simp)+
  ultimately show ?thesis using m(1) by auto
qed

text \<open>The software update flags: what is stored, and what a later query makes of it.\<close>

lemma software_update_query:
  assumes "valid d" "length raw = 3" "fram_set_to_load_softwareupdate hal raw True v d = (0, d1)"
    and "length raw' = 3" "fram_get_to_load_softwareupdate hal raw' (Some e) (Some w) d1 = ((0, e', w'), d2)"
  shows "(let other = (if v = SD_CARD_0 then raw ! 2 else raw ! 1) in
      if other = 0 then e' = Some True \<and> w' = Some v else e' = Some False \<and> w' = Some w)
    \<and> valid d2 \<and> field_bytes (mem d2) F_software_update_available = [0]"
proof -
  obtain a b c where raw: "raw = [a, b, c]" using assms(2) by (auto simp: length_Suc_conv numeral_3_eq_3)
  let ?bs = "raw[0 := 1, (if v = SD_CARD_0 then 1 else 2) := 1]"
  have m: "valid d1" "buf_read (mem d1) 64 3 = ?bs"
  proof -
    have l: "length ?bs = 3" by (simp add: raw)
    have w: "FRAM_writeAndVerify hal ?bs 64 d = (0, d1)"
      using assms(3) by (cases v) (simp_all add: fram_set_to_load_softwareupdate_def raw bool_u8_def Let_def)
    then have "valid d1 \<and> mem d1 = buf_write (mem d) 64 ?bs"
      using write_law [OF assms(1) _ w] block_in_mem [OF assms(1)] l by auto
    then show "valid d1" "buf_read (mem d1) 64 3 = ?bs"
      using block_in_mem [OF assms(1)] buf_read_write_same [of 64 ?bs "mem d"] l by auto
  qed
  obtain r1 b1 d1' where f: "FRAM_read hal 64 raw' d1 = ((r1, b1), d1')" by (metis prod.exhaust)
  have rd: "valid d1' \<and> mem d1' = mem d1 \<and> (r1 = 0 \<longrightarrow> b1 = ?bs)"
    using read_law [OF m(1) _ f] block_in_mem [OF m(1)] assms(4) m(2) by simp
  obtain r2 d2' where w2: "FRAM_writeAndVerify hal [0, 0, 0] 64 d1' = (r2, d2')" by (metis prod.exhaust)
  have "writes (FRAM_writeAndVerify hal [0, 0, 0] 64) (\<lambda>_. [(64, [0, 0, 0])])"
    using writes_hal [of 64 "[0, 0, 0]"] by simp
  then have wr: "valid d2' \<and> (r2 = 0 \<longrightarrow> mem d2' = buf_write (mem d1) 64 [0, 0, 0])"
    using rd w2 by (auto simp: writes_def)
  have z: "field_bytes (buf_write (mem d1) 64 [0, 0, 0]) F_software_update_available = [0]"
    using block_in_mem [OF m(1)]
    by (auto simp: field_bytes_def buf_read_def buf_write_def)
  show ?thesis
    using assms(5) f w2 rd wr z
    by (cases v) (auto simp: fram_get_to_load_softwareupdate_def raw Let_def split: if_splits)
qed

end


text \<open>A device whose calls do not fail.\<close>

locale fram_reliable = fram_device hal mem valid
  for hal :: "'d fram_hal" and mem :: "'d \<Rightarrow> bytes" and valid :: "'d \<Rightarrow> bool" +
  assumes read_0: "valid d \<Longrightarrow> unat a + length b \<le> length (mem d) \<Longrightarrow> fst (fst (FRAM_read hal a b d)) = 0"
    and write_0: "valid d \<Longrightarrow> unat a + length b \<le> length (mem d) \<Longrightarrow>
      fst (FRAM_writeAndVerify hal b a d) = 0"
begin

definition succeeds :: "('d \<Rightarrow> int \<times> 'd) \<Rightarrow> bool" where
  "succeeds f \<longleftrightarrow> (\<forall>d. valid d \<longrightarrow> fst (f d) = 0 \<and> valid (snd (f d)))"

lemma succeeds_write: "unat a + length b \<le> 89 \<Longrightarrow> succeeds (FRAM_writeAndVerify hal b a)"
  unfolding succeeds_def
proof (intro allI impI)
  fix d
  assume a: "unat a + length b \<le> 89" "valid d"
  then have r: "unat a + length b \<le> length (mem d)" using block_in_mem [OF a(2)] by simp
  obtain rc d' where "FRAM_writeAndVerify hal b a d = (rc, d')" by (metis prod.exhaust)
  then show "fst (FRAM_writeAndVerify hal b a d) = 0 \<and> valid (snd (FRAM_writeAndVerify hal b a d))"
    using write_0 [OF a(2) r] write_law [OF a(2) r] by auto
qed

lemma succeeds_run_checked: "\<forall>f \<in> set fs. succeeds f \<Longrightarrow> succeeds (run_checked fs)"
  by (induction fs) (auto simp: succeeds_def split: prod.split)

lemma succeeds_calls: "length raw = 3 \<Longrightarrow> \<forall>f \<in> set (zero_out_calls hal raw). succeeds f"
  by (simp add: zero_out_calls_def fram_clear_ham_check_flag_def fram_clear_img_ham_flag_def [abs_def]
      fram_reset_img_reboot_counter_def fram_write_binary_size_def [abs_def]
      fram_write_ham_size_def [abs_def] fram_set_bootloader_faulty_def determine_ham_flag_address_def
      determine_img_reboot_counter_addr_def determine_ham_size_address_def
      fram_set_to_load_softwareupdate_def succeeds_write length_u16_bytes length_u32_bytes Let_def)

lemma zero_out_succeeds:
  assumes "valid d" "length raw = 3"
  shows "\<exists>d'. fram_zero_out_default_zero_fields hal raw d = (0, d')"
proof -
  obtain r1 d1 where s1: "zero_out_reboot_counter hal d = (r1, d1)" by (metis prod.exhaust)
  have rd1: "fst (fst (FRAM_read hal 4 (u32_bytes 0) d)) = 0"
    using read_0 [OF assms(1), of 4 "u32_bytes 0"] block_in_mem [OF assms(1)] by (simp add: length_u32_bytes)
  have rd2: "fst (fst (FRAM_read hal 12 [0, 0] d')) = 0" if "valid d'" for d'
    using read_0 [OF that, of 12 "[0, 0]"] block_in_mem [OF that] by simp
  have "succeeds (fram_reset_reboot_counter hal)"
    by (simp add: fram_reset_reboot_counter_def succeeds_write length_u32_bytes)
  then have rst: "fst (fram_reset_reboot_counter hal d') = 0" if "valid d'" for d'
    using that by (simp add: succeeds_def)
  obtain rc b1 dr where fr: "FRAM_read hal 4 (u32_bytes 0) d = ((rc, b1), dr)" by (metis prod.exhaust)
  have "unat (4 :: u32) + length (u32_bytes 0) \<le> length (mem d)"
    using block_in_mem [OF assms(1)] by (simp add: length_u32_bytes)
  then have dr: "rc = 0" "valid dr" using rd1 read_law [OF assms(1) _ fr] fr by auto
  have "zero_out_reboot_counter hal d
      = (if bytes_u32 b1 = 0xffffffff then fram_reset_reboot_counter hal dr else (0, dr))"
    by (simp add: zero_out_reboot_counter_def fram_read_reboot_counter_def fr dr)
  then have "fst (zero_out_reboot_counter hal d) = 0" using rst [OF dr(2)] by simp
  then have r1: "r1 = 0" "valid d1"
    using s1 zero_out_reboot_counter_writes [OF assms(1) s1] by simp_all
  obtain r2 d2 where s2: "zero_out_preferred hal d1 = (r2, d2)" by (metis prod.exhaust)
  obtain r q d2' where g: "fram_get_preferred_sd_card hal (Some 0) d1 = ((r, q), d2')" by (metis prod.exhaust)
  have "r = 0" using get_preferred [OF r1(2) g] rd2 [OF r1(2)] by auto
  then have r2: "r2 = 0" "valid d2"
    using s2 g zero_out_preferred_reads [OF r1(2) s2] by (auto simp: zero_out_preferred_def)
  have "succeeds (run_checked (zero_out_calls hal raw))"
    by (rule succeeds_run_checked [OF succeeds_calls [OF assms(2)]])
  then have "fst (run_checked (zero_out_calls hal raw) d2) = 0" using r2(2) by (simp add: succeeds_def)
  then show ?thesis
    using s1 s2 r1 r2 by (cases "run_checked (zero_out_calls hal raw) d2")
      (simp add: fram_zero_out_default_zero_fields_def)
qed

end

end
