(* ===== verification/At91Spi.thy ===== *)
theory At91Spi
  imports Prelude
begin

text \<open>
  The SPI driver that works without an operating system, \<open>bsp_sam9g20/common/At91SpiDriver.c\<close>, down
  to the registers of the SPI and of its DMA channel (PDC): configuration, start of a non-blocking
  transfer, the queued second transfer, and the interrupt handlers with the user callback. The
  status register is an input of the handler; the other registers keep what is written to them.
\<close>

section \<open>Registers and globals\<close>

datatype At91SpiBuses = SPI_BUS_0 | SPI_BUS_1

datatype SpiModes = SPI_MODE_0 | SPI_MODE_1 | SPI_MODE_2 | SPI_MODE_3

datatype At91TransferStates = IDLE | SPI_SUCCESS | SPI_OVERRUN_ERROR | SPI_MODE_ERROR | SPI_TIMEOUT

datatype InternalModes = DMA | BLOCKING

datatype InternalReception = WRITE_AND_READ | WRITE_ONLY | READ_ONLY

text \<open>The pointers the driver handles: null, the driver's own dummy buffer, a buffer of the caller.\<close>

datatype spi_ptr = NULL | DUMMY_BUF | USER_BUF nat

definition SPI_DUMMY_BUFFER_SIZE :: u32 where "SPI_DUMMY_BUFFER_SIZE = 128"

definition AT91C_SPI_MODF :: u32 where "AT91C_SPI_MODF = 0x4"
definition AT91C_SPI_OVRES :: u32 where "AT91C_SPI_OVRES = 0x8"
definition AT91C_SPI_ENDRX :: u32 where "AT91C_SPI_ENDRX = 0x10"
definition AT91C_SPI_ENDTX :: u32 where "AT91C_SPI_ENDTX = 0x20"
definition AT91C_SPI_RXBUFF :: u32 where "AT91C_SPI_RXBUFF = 0x40"
definition AT91C_SPI_TXBUFE :: u32 where "AT91C_SPI_TXBUFE = 0x80"
definition AT91C_SPI_MSTR :: u32 where "AT91C_SPI_MSTR = 0x1"
definition AT91C_SPI_CPOL :: u32 where "AT91C_SPI_CPOL = 0x1"
definition AT91C_SPI_NCPHA :: u32 where "AT91C_SPI_NCPHA = 0x2"

lemmas spi_bits = AT91C_SPI_MODF_def AT91C_SPI_OVRES_def AT91C_SPI_ENDRX_def AT91C_SPI_ENDTX_def
  AT91C_SPI_RXBUFF_def AT91C_SPI_TXBUFE_def

text \<open>One SPI with its PDC. \<open>SPI_IMR\<close> is what \<open>SPI_IER\<close> and \<open>SPI_IDR\<close> leave enabled.\<close>

record at91_spi =
  SPI_enabled :: bool
  SPI_MR :: u32
  SPI_CSR :: "u32 list"
  SPI_IMR :: u32
  SPI_TPR :: spi_ptr
  SPI_TCR :: u32
  SPI_RPR :: spi_ptr
  SPI_RCR :: u32
  SPI_TNPR :: spi_ptr
  SPI_TNCR :: u32
  SPI_RNPR :: spi_ptr
  SPI_RNCR :: u32
  TXTEN :: bool
  RXTEN :: bool

record CurrentSpiCfg =
  dlybs :: u8
  dlybct :: u8
  dlybcs :: u8
  mode_val :: u8
  frequency :: u32

text \<open>
  The globals of the file, the two peripherals, the interrupt lines of the AIC, and the user
  callbacks that were run so far (bus, state, argument). A callback is a number, 0 for null.
\<close>

record spi_globals =
  current_drv :: "At91SpiBuses option"
  current_spi_id :: u32
  current_npcs :: nat
  current_internal_mode :: InternalModes
  current_spi_cfg :: CurrentSpiCfg
  bus_0_active :: bool
  bus_1_active :: bool
  bus_0_aic_configured :: bool
  bus_1_aic_configured :: bool
  tx_finished :: bool
  rx_finished :: bool
  current_internal_reception :: InternalReception
  next_internal_reception :: InternalReception
  user_callback_bus_0 :: nat
  user_args_bus_0 :: nat
  user_callback_bus_1 :: nat
  user_args_bus_1 :: nat
  spi0 :: at91_spi
  spi1 :: at91_spi
  aic_enabled :: "u32 set"
  callbacks_run :: "(At91SpiBuses \<times> At91TransferStates \<times> nat \<times> nat) list"

definition AT91C_ID_SPI0 :: u32 where "AT91C_ID_SPI0 = 12"
definition AT91C_ID_SPI1 :: u32 where "AT91C_ID_SPI1 = 13"

fun spi_id :: "At91SpiBuses \<Rightarrow> u32" where
  "spi_id SPI_BUS_0 = AT91C_ID_SPI0"
| "spi_id SPI_BUS_1 = AT91C_ID_SPI1"

fun spi_regs :: "At91SpiBuses \<Rightarrow> spi_globals \<Rightarrow> at91_spi" where
  "spi_regs SPI_BUS_0 g = spi0 g"
| "spi_regs SPI_BUS_1 g = spi1 g"

fun set_regs :: "At91SpiBuses \<Rightarrow> (at91_spi \<Rightarrow> at91_spi) \<Rightarrow> spi_globals \<Rightarrow> spi_globals" where
  "set_regs SPI_BUS_0 f g = g\<lparr>spi0 := f (spi0 g)\<rparr>"
| "set_regs SPI_BUS_1 f g = g\<lparr>spi1 := f (spi1 g)\<rparr>"

section \<open>Configuration\<close>

text \<open>\<open>SPI_PCS\<close> and \<open>SPI_SCBR\<close> of \<open>spi_at91.h\<close>; the master clock is a parameter of the board.\<close>

definition SPI_PCS :: "nat \<Rightarrow> u32" where
  "SPI_PCS npcs = push_bit 16 (NOT (push_bit npcs 1) AND 0xF)"

definition SPI_SCBR :: "u32 \<Rightarrow> u32 \<Rightarrow> u32" where
  "SPI_SCBR baudrate masterClock = push_bit 8 (masterClock div baudrate)"

text \<open>\<open>SPI_Configure\<close>: disable, reset twice, write the mode register. A reset clears the registers.\<close>

definition SPI_reset :: "at91_spi \<Rightarrow> at91_spi" where
  "SPI_reset d = d\<lparr>SPI_enabled := False, SPI_MR := 0, SPI_CSR := replicate 4 0, SPI_IMR := 0\<rparr>"

definition SPI_Configure :: "u32 \<Rightarrow> at91_spi \<Rightarrow> at91_spi" where
  "SPI_Configure configuration d = (SPI_reset (SPI_reset (d\<lparr>SPI_enabled := False\<rparr>)))\<lparr>SPI_MR := configuration\<rparr>"

definition SPI_Enable :: "at91_spi \<Rightarrow> at91_spi" where
  "SPI_Enable d = d\<lparr>SPI_enabled := True\<rparr>"

text \<open>\<open>at91_get_drv_handle\<close>, for valid pointers: the bus is its own handle.\<close>

definition at91_get_drv_handle :: "At91SpiBuses \<Rightarrow> nat \<Rightarrow> int + (At91SpiBuses \<times> u32)" where
  "at91_get_drv_handle spi_bus npcs =
     (if npcs > 3 then Inl (- 1) else Inr (spi_bus, spi_id spi_bus))"

definition spi_mode_val :: "SpiModes \<Rightarrow> u32" where
  "spi_mode_val spi_mode =
     (if spi_mode = SPI_MODE_0 then AT91C_SPI_NCPHA
      else if spi_mode = SPI_MODE_2 then AT91C_SPI_NCPHA OR AT91C_SPI_CPOL
      else if spi_mode = SPI_MODE_3 then AT91C_SPI_CPOL
      else 0)"

text \<open>The chip select register and the copy of the configuration.\<close>

definition set_csr :: "u32 \<Rightarrow> At91SpiBuses \<Rightarrow> nat \<Rightarrow> u32 \<Rightarrow> u32 \<Rightarrow> u8 \<Rightarrow> u8 \<Rightarrow> u8 \<Rightarrow> spi_globals \<Rightarrow> spi_globals" where
  "set_csr mck drv npcs mode freq ct s cs g =
     (set_regs drv (\<lambda>d. d\<lparr>SPI_CSR := (SPI_CSR d)[npcs := SPI_SCBR freq mck OR mode
         OR push_bit 24 (ucast ct) OR push_bit 16 (ucast s)]\<rparr>) g)
     \<lparr>current_spi_cfg := \<lparr>dlybs = s, dlybct = ct, dlybcs = cs, mode_val = ucast mode, frequency = freq\<rparr>\<rparr>"

definition at91_spi_configure_driver ::
    "u32 \<Rightarrow> At91SpiBuses \<Rightarrow> nat \<Rightarrow> SpiModes \<Rightarrow> u32 \<Rightarrow> u8 \<Rightarrow> u8 \<Rightarrow> u8 \<Rightarrow> spi_globals \<Rightarrow> int \<times> spi_globals" where
  "at91_spi_configure_driver mck spi_bus npcs spi_mode freq ct s cs g =
     (if npcs > 3 then (- 1, g)
      else case at91_get_drv_handle spi_bus npcs of
        Inl retval \<Rightarrow> (retval, g)
      | Inr (drv, pid) \<Rightarrow>
          let init_cfg = push_bit 24 (ucast cs) OR SPI_PCS npcs OR AT91C_SPI_MSTR;
              g = set_regs drv (\<lambda>d. SPI_Enable (SPI_Configure init_cfg d)) g;
              g = (if spi_bus = SPI_BUS_0 then g\<lparr>bus_0_active := True\<rparr> else g\<lparr>bus_1_active := True\<rparr>)
          in (0, set_csr mck drv npcs (spi_mode_val spi_mode) freq ct s cs g))"

definition at91_configure_csr ::
    "u32 \<Rightarrow> At91SpiBuses \<Rightarrow> nat \<Rightarrow> SpiModes \<Rightarrow> u32 \<Rightarrow> u8 \<Rightarrow> u8 \<Rightarrow> u8 \<Rightarrow> spi_globals \<Rightarrow> int \<times> spi_globals" where
  "at91_configure_csr mck bus npcs spi_mode freq ct s cs g =
     (if npcs > 3 then (- 1, g)
      else case at91_get_drv_handle bus npcs of
        Inl retval \<Rightarrow> (retval, g)
      | Inr (drv, pid) \<Rightarrow> (0, set_csr mck drv npcs (spi_mode_val spi_mode) freq ct s cs g))"

definition at91_spi_configure_non_blocking_driver :: "At91SpiBuses \<Rightarrow> spi_globals \<Rightarrow> int \<times> spi_globals" where
  "at91_spi_configure_non_blocking_driver spi_bus g =
     (if spi_bus = SPI_BUS_0 \<and> \<not> bus_0_active g then (- 3, g)
      else if spi_bus = SPI_BUS_1 \<and> \<not> bus_1_active g then (- 3, g)
      else case at91_get_drv_handle spi_bus 0 of
        Inl _ \<Rightarrow> (- 1, g)
      | Inr (drv, pid) \<Rightarrow>
          if spi_bus = SPI_BUS_0 \<and> \<not> bus_0_aic_configured g
          then (0, g\<lparr>aic_enabled := aic_enabled g - {pid}, bus_0_aic_configured := True\<rparr>)
          else if spi_bus = SPI_BUS_1 \<and> \<not> bus_1_aic_configured g
          then (0, g\<lparr>aic_enabled := aic_enabled g - {pid}, bus_1_aic_configured := True\<rparr>)
          else (0, g))"

definition at91_select_npcs :: "At91SpiBuses \<Rightarrow> nat \<Rightarrow> spi_globals \<Rightarrow> spi_globals" where
  "at91_select_npcs drv npcs =
     set_regs drv (\<lambda>d. d\<lparr>SPI_MR := (SPI_MR d AND 0xff00ffff) OR SPI_PCS npcs\<rparr>)"

definition at91_internal_spi_reset :: "u32 \<Rightarrow> At91SpiBuses \<Rightarrow> nat \<Rightarrow> spi_globals \<Rightarrow> spi_globals" where
  "at91_internal_spi_reset mck drv npcs g =
     (let c = current_spi_cfg g;
          mr_cfg = push_bit 24 (ucast (dlybcs c)) OR SPI_PCS npcs OR AT91C_SPI_MSTR
      in set_regs drv (\<lambda>d. let d = SPI_Enable (SPI_Configure mr_cfg d) in
           d\<lparr>SPI_CSR := (SPI_CSR d)[npcs := SPI_SCBR (frequency c) mck OR ucast (mode_val c)
             OR push_bit 24 (ucast (dlybct c)) OR push_bit 16 (ucast (dlybs c))]\<rparr>) g)"

definition at91_stop_driver :: "At91SpiBuses \<Rightarrow> spi_globals \<Rightarrow> int \<times> spi_globals" where
  "at91_stop_driver bus g =
     (let g = (if bus = SPI_BUS_0
               then (if bus_0_aic_configured g
                     then g\<lparr>aic_enabled := aic_enabled g - {AT91C_ID_SPI0}, bus_0_aic_configured := False\<rparr>
                     else g)\<lparr>bus_0_active := False\<rparr>
               else (if bus_1_aic_configured g
                     then g\<lparr>aic_enabled := aic_enabled g - {AT91C_ID_SPI1}, bus_1_aic_configured := False\<rparr>
                     else g)\<lparr>bus_1_active := False\<rparr>)
      in (0, set_regs bus (\<lambda>d. SPI_reset (SPI_reset (d\<lparr>SPI_enabled := False\<rparr>))) g))"

section \<open>Non-blocking transfers\<close>

definition reset_dma_regs :: "at91_spi \<Rightarrow> at91_spi" where
  "reset_dma_regs d = d\<lparr>SPI_RNCR := 0, SPI_RCR := 0, SPI_TNCR := 0, SPI_TCR := 0, SPI_TPR := NULL,
     SPI_RPR := NULL, SPI_TNPR := NULL, SPI_RNPR := NULL\<rparr>"

definition at91_start_non_blocking_transfer :: "At91SpiBuses option \<Rightarrow> spi_globals \<Rightarrow> spi_globals" where
  "at91_start_non_blocking_transfer drv g =
     (case drv of
        None \<Rightarrow> g
      | Some b \<Rightarrow>
          let g = set_regs b (\<lambda>d. d\<lparr>TXTEN := True, RXTEN := True\<rparr>) g
          in if current_spi_id g \<noteq> 0 then g\<lparr>aic_enabled := insert (current_spi_id g) (aic_enabled g)\<rparr> else g)"

definition all_irqs :: u32 where
  "all_irqs = AT91C_SPI_TXBUFE OR AT91C_SPI_RXBUFF OR AT91C_SPI_ENDRX OR AT91C_SPI_ENDTX
     OR AT91C_SPI_MODF OR AT91C_SPI_OVRES"

text \<open>The DMA registers of the first transfer.\<close>

definition set_first_transfer :: "spi_ptr \<Rightarrow> spi_ptr \<Rightarrow> u32 \<Rightarrow> InternalReception \<Rightarrow> at91_spi \<Rightarrow> at91_spi" where
  "set_first_transfer send_buf recv_ptr transfer_len reception d =
     (let d = d\<lparr>SPI_TPR := send_buf, SPI_TCR := transfer_len, SPI_RPR := recv_ptr\<rparr> in
      if reception = WRITE_ONLY
      then (if transfer_len < SPI_DUMMY_BUFFER_SIZE
            then d\<lparr>SPI_RCR := transfer_len, SPI_RNCR := 0\<rparr>
            else d\<lparr>SPI_RCR := SPI_DUMMY_BUFFER_SIZE, SPI_RNCR := SPI_DUMMY_BUFFER_SIZE\<rparr>)
           \<lparr>SPI_RNPR := DUMMY_BUF\<rparr>
      else d\<lparr>SPI_RCR := transfer_len\<rparr>)"

definition at91_spi_non_blocking_transfer ::
    "u32 \<Rightarrow> At91SpiBuses \<Rightarrow> nat \<Rightarrow> spi_ptr \<Rightarrow> spi_ptr \<Rightarrow> u32 \<Rightarrow> nat \<Rightarrow> nat \<Rightarrow> bool \<Rightarrow> spi_globals \<Rightarrow>
      int \<times> spi_globals" where
  "at91_spi_non_blocking_transfer mck spi_bus npcs send_buf recv_buf transfer_len finish_callback
      callback_args start_immediately g =
     (if send_buf = NULL \<or> transfer_len = 0 then (- 1, g)
      else if spi_bus = SPI_BUS_0 \<and> \<not> bus_0_aic_configured g then (- 3, g)
      else if spi_bus = SPI_BUS_1 \<and> \<not> bus_1_aic_configured g then (- 3, g)
      else case at91_get_drv_handle spi_bus npcs of
        Inl retval \<Rightarrow> (retval, g)
      | Inr (drv, pid) \<Rightarrow>
          let reception = (if recv_buf = NULL then WRITE_ONLY else WRITE_AND_READ);
              recv_ptr = (if recv_buf = NULL then DUMMY_BUF else recv_buf);
              g = g\<lparr>current_internal_reception := reception\<rparr>;
              g = (if current_internal_mode g = BLOCKING
                   then (at91_internal_spi_reset mck drv npcs g)\<lparr>current_internal_mode := DMA\<rparr> else g);
              g = at91_select_npcs drv npcs g;
              g = (if spi_bus = SPI_BUS_0
                   then g\<lparr>user_callback_bus_0 := finish_callback, user_args_bus_0 := callback_args\<rparr>
                   else g\<lparr>user_callback_bus_1 := finish_callback, user_args_bus_1 := callback_args\<rparr>);
              g = g\<lparr>current_drv := Some drv, current_npcs := npcs, current_spi_id := pid\<rparr>;
              g = set_regs drv (\<lambda>d. (reset_dma_regs d)\<lparr>SPI_IMR := SPI_IMR d OR all_irqs\<rparr>) g;
              g = g\<lparr>rx_finished := False, tx_finished := False\<rparr>
          in if SPI_TCR (spi_regs drv g) = 0 \<and> SPI_RCR (spi_regs drv g) = 0
             then let g = set_regs drv (set_first_transfer send_buf recv_ptr transfer_len reception) g
                  in (0, if start_immediately then at91_start_non_blocking_transfer (Some drv) g else g)
             else (- 2, g))"

definition at91_add_second_transfer :: "spi_ptr \<Rightarrow> spi_ptr \<Rightarrow> u32 \<Rightarrow> spi_globals \<Rightarrow> spi_globals" where
  "at91_add_second_transfer second_send_buf second_recv_buf transfer_len g =
     at91_start_non_blocking_transfer (current_drv g)
       (case current_drv g of
          None \<Rightarrow> g
        | Some drv \<Rightarrow>
            let next_size_send = (if second_send_buf = NULL \<and> transfer_len \<ge> SPI_DUMMY_BUFFER_SIZE
                                  then SPI_DUMMY_BUFFER_SIZE else transfer_len);
                next_size_recv = (if second_recv_buf = NULL \<and> transfer_len \<ge> SPI_DUMMY_BUFFER_SIZE
                                  then SPI_DUMMY_BUFFER_SIZE else transfer_len);
                g = (if second_send_buf = NULL
                     then (set_regs drv (\<lambda>d. d\<lparr>SPI_TNPR := DUMMY_BUF\<rparr>) g)\<lparr>next_internal_reception := READ_ONLY\<rparr>
                     else set_regs drv (\<lambda>d. d\<lparr>SPI_TNPR := second_send_buf\<rparr>) g);
                g = set_regs drv (\<lambda>d. d\<lparr>SPI_TNCR := next_size_send\<rparr>) g;
                g = (if second_recv_buf = NULL
                     then (set_regs drv (\<lambda>d. d\<lparr>SPI_RNPR := DUMMY_BUF\<rparr>) g)\<lparr>next_internal_reception := WRITE_ONLY\<rparr>
                     else set_regs drv (\<lambda>d. d\<lparr>SPI_RNPR := second_recv_buf\<rparr>) g);
                g = set_regs drv (\<lambda>d. d\<lparr>SPI_RNCR := next_size_recv\<rparr>) g
            in if second_send_buf \<noteq> NULL \<and> second_recv_buf \<noteq> NULL
               then g\<lparr>next_internal_reception := WRITE_AND_READ\<rparr> else g)"

section \<open>Interrupts\<close>

definition flag_set :: "u32 \<Rightarrow> u32 \<Rightarrow> bool" where
  "flag_set status f \<longleftrightarrow> status AND f = f"

text \<open>The parts of \<open>generic_spi_interrupt_handler\<close>, in their order. Errors: state and error flag.\<close>

definition irq_errors :: "u32 \<Rightarrow> At91TransferStates \<Rightarrow> At91TransferStates \<times> bool" where
  "irq_errors status state =
     (let (state, error) =
        (if flag_set status AT91C_SPI_OVRES
            \<and> \<not> flag_set status AT91C_SPI_TXBUFE \<and> \<not> flag_set status AT91C_SPI_RXBUFF
         then (SPI_OVERRUN_ERROR, True) else (state, False))
      in if flag_set status AT91C_SPI_MODF then (SPI_MODE_ERROR, True) else (state, error))"

definition irq_endtx :: "u32 \<Rightarrow> At91SpiBuses \<Rightarrow> spi_globals \<Rightarrow> spi_globals" where
  "irq_endtx status drv g =
     (if flag_set status AT91C_SPI_ENDTX
      then let g = g\<lparr>current_internal_reception := next_internal_reception g\<rparr>
           in if current_internal_reception g = READ_ONLY \<and> \<not> flag_set status AT91C_SPI_RXBUFF
                \<and> SPI_TNCR (spi_regs drv g) = 0
              then set_regs drv (\<lambda>d. d\<lparr>SPI_TNPR := DUMMY_BUF, SPI_TNCR := SPI_DUMMY_BUFFER_SIZE\<rparr>) g
              else g
      else g)"

definition irq_endrx :: "u32 \<Rightarrow> At91SpiBuses \<Rightarrow> spi_globals \<Rightarrow> spi_globals" where
  "irq_endrx status drv g =
     (if flag_set status AT91C_SPI_ENDRX
      then let g = g\<lparr>current_internal_reception := next_internal_reception g\<rparr>
           in if current_internal_reception g = WRITE_ONLY \<and> \<not> flag_set status AT91C_SPI_TXBUFE
                \<and> SPI_RNCR (spi_regs drv g) = 0
              then set_regs drv (\<lambda>d. d\<lparr>SPI_RNPR := DUMMY_BUF, SPI_RNCR := SPI_DUMMY_BUFFER_SIZE\<rparr>) g
              else g
      else g)"

definition irq_finished_flags :: "u32 \<Rightarrow> spi_globals \<Rightarrow> spi_globals" where
  "irq_finished_flags status g =
     (let g = (if flag_set status AT91C_SPI_TXBUFE then g\<lparr>tx_finished := True\<rparr> else g)
      in if flag_set status AT91C_SPI_RXBUFF then g\<lparr>rx_finished := True\<rparr> else g)"

text \<open>Whether the transfer is over, and the state for the callback.\<close>

definition irq_decision :: "bool \<Rightarrow> At91TransferStates \<Rightarrow> spi_globals \<Rightarrow> bool \<times> At91TransferStates" where
  "irq_decision error state g =
     (if error then (True, state)
      else if current_internal_reception g = WRITE_ONLY \<and> tx_finished g then (True, SPI_SUCCESS)
      else if current_internal_reception g = READ_ONLY \<and> rx_finished g then (True, SPI_SUCCESS)
      else if rx_finished g \<and> tx_finished g then (True, SPI_SUCCESS)
      else (False, state))"

definition irq_cleanup :: "At91SpiBuses \<Rightarrow> spi_globals \<Rightarrow> spi_globals" where
  "irq_cleanup drv = set_regs drv (\<lambda>d. reset_dma_regs (d\<lparr>TXTEN := False, RXTEN := False,
     SPI_IMR := SPI_IMR d AND NOT all_irqs\<rparr>))"

definition generic_spi_interrupt_handler ::
    "u32 \<Rightarrow> At91SpiBuses \<Rightarrow> At91TransferStates \<Rightarrow> spi_globals \<Rightarrow> (bool \<times> At91TransferStates) \<times> spi_globals" where
  "generic_spi_interrupt_handler status drv state g =
     (let (state, error) = irq_errors status state;
          g = irq_finished_flags status (irq_endrx status drv (irq_endtx status drv g));
          (finish, state) = irq_decision error state g
      in ((finish, state), if finish then irq_cleanup drv g else g))"

definition spi_irq_handler :: "At91SpiBuses \<Rightarrow> u32 \<Rightarrow> At91TransferStates \<Rightarrow> spi_globals \<Rightarrow> spi_globals" where
  "spi_irq_handler bus status uninit g =
     (case generic_spi_interrupt_handler status bus uninit g of
        ((finished, transferState), g) \<Rightarrow>
          if finished
          then let cb = (if bus = SPI_BUS_0 then user_callback_bus_0 g else user_callback_bus_1 g);
                   args = (if bus = SPI_BUS_0 then user_args_bus_0 g else user_args_bus_1 g);
                   g = (if cb \<noteq> 0 then g\<lparr>callbacks_run := callbacks_run g @ [(bus, transferState, cb, args)]\<rparr> else g)
               in g\<lparr>aic_enabled := aic_enabled g - {spi_id bus}\<rparr>
          else g)"

section \<open>Runs of the interrupt handler\<close>

text \<open>
  An interrupt of a bus is taken only while its line is enabled in the AIC; the status it finds is
  arbitrary, and so is the uninitialised \<open>transferState\<close>.
\<close>

inductive irq_run :: "At91SpiBuses \<Rightarrow> spi_globals \<Rightarrow> spi_globals \<Rightarrow> bool" for bus where
  irq_none: "irq_run bus g g"
| irq_taken: "irq_run bus g h \<Longrightarrow> spi_id bus \<in> aic_enabled h \<Longrightarrow>
    irq_run bus g (spi_irq_handler bus status uninit h)"

lemma spi_regs_set_regs [simp]: "spi_regs b (set_regs b f g) = f (spi_regs b g)"
  by (cases b) simp_all

lemma set_regs_globals [simp]:
  "callbacks_run (set_regs b f g) = callbacks_run g" "aic_enabled (set_regs b f g) = aic_enabled g"
  "tx_finished (set_regs b f g) = tx_finished g" "rx_finished (set_regs b f g) = rx_finished g"
  "current_internal_reception (set_regs b f g) = current_internal_reception g"
  "next_internal_reception (set_regs b f g) = next_internal_reception g"
  "user_callback_bus_0 (set_regs b f g) = user_callback_bus_0 g"
  "user_callback_bus_1 (set_regs b f g) = user_callback_bus_1 g"
  "user_args_bus_0 (set_regs b f g) = user_args_bus_0 g"
  "user_args_bus_1 (set_regs b f g) = user_args_bus_1 g"
  "bus_0_aic_configured (set_regs b f g) = bus_0_aic_configured g"
  "bus_1_aic_configured (set_regs b f g) = bus_1_aic_configured g"
  "current_spi_id (set_regs b f g) = current_spi_id g"
  "current_internal_mode (set_regs b f g) = current_internal_mode g"
  "current_drv (set_regs b f g) = current_drv g"
  by (cases b; simp)+

lemma spi_regs_update [simp]:
  "spi_regs b (g\<lparr>current_internal_reception := x1\<rparr>) = spi_regs b g"
  "spi_regs b (g\<lparr>tx_finished := x2\<rparr>) = spi_regs b g"
  "spi_regs b (g\<lparr>rx_finished := x2\<rparr>) = spi_regs b g"
  "spi_regs b (g\<lparr>callbacks_run := x3\<rparr>) = spi_regs b g"
  "spi_regs b (g\<lparr>aic_enabled := x4\<rparr>) = spi_regs b g"
  by (cases b; simp)+

text \<open>The part of the handler before its decision keeps all but registers and flags.\<close>

lemma irq_prefix_keeps:
  fixes status drv g
  defines "h \<equiv> irq_finished_flags status (irq_endrx status drv (irq_endtx status drv g))"
  shows "callbacks_run h = callbacks_run g" "aic_enabled h = aic_enabled g"
    "next_internal_reception h = next_internal_reception g"
    "tx_finished h \<longleftrightarrow> tx_finished g \<or> flag_set status AT91C_SPI_TXBUFE"
    "rx_finished h \<longleftrightarrow> rx_finished g \<or> flag_set status AT91C_SPI_RXBUFF"
    "current_internal_reception h = (if flag_set status AT91C_SPI_ENDTX \<or> flag_set status AT91C_SPI_ENDRX
       then next_internal_reception g else current_internal_reception g)"
  by (auto simp: h_def irq_finished_flags_def irq_endrx_def irq_endtx_def Let_def)

lemma irq_cleanup_state:
  "callbacks_run (irq_cleanup drv g) = callbacks_run g" "aic_enabled (irq_cleanup drv g) = aic_enabled g"
  "tx_finished (irq_cleanup drv g) = tx_finished g" "rx_finished (irq_cleanup drv g) = rx_finished g"
  "\<not> TXTEN (spi_regs drv (irq_cleanup drv g))" "\<not> RXTEN (spi_regs drv (irq_cleanup drv g))"
  "user_callback_bus_0 (irq_cleanup drv g) = user_callback_bus_0 g"
  "user_callback_bus_1 (irq_cleanup drv g) = user_callback_bus_1 g"
  by (simp_all add: irq_cleanup_def reset_dma_regs_def)

lemma handler_finish:
  fixes status drv g
  defines "h \<equiv> irq_finished_flags status (irq_endrx status drv (irq_endtx status drv g))"
  assumes "generic_spi_interrupt_handler status drv st g = ((fin, st'), g')"
  shows "irq_decision (snd (irq_errors status st)) (fst (irq_errors status st)) h = (fin, st')"
    and "g' = (if fin then irq_cleanup drv h else h)"
  using assms(2) unfolding generic_spi_interrupt_handler_def Let_def h_def [symmetric]
  by (auto split: prod.splits)

lemma handler_callbacks:
  "callbacks_run (spi_irq_handler bus status st g) = callbacks_run g \<or>
   (\<exists>s c a. callbacks_run (spi_irq_handler bus status st g) = callbacks_run g @ [(bus, s, c, a)])
     \<and> spi_id bus \<notin> aic_enabled (spi_irq_handler bus status st g)
     \<and> \<not> TXTEN (spi_regs bus (spi_irq_handler bus status st g))
     \<and> \<not> RXTEN (spi_regs bus (spi_irq_handler bus status st g))"
proof -
  obtain fin st' g' where g': "generic_spi_interrupt_handler status bus st g = ((fin, st'), g')"
    by (metis prod.exhaust)
  then show ?thesis
    using handler_finish(2) [OF g'] irq_prefix_keeps(1) [of status bus g]
    by (auto simp: spi_irq_handler_def Let_def irq_cleanup_state)
qed

lemma irq_run_callbacks:
  assumes "irq_run bus g h"
  shows "callbacks_run h = callbacks_run g \<or>
    (\<exists>s c a. callbacks_run h = callbacks_run g @ [(bus, s, c, a)]) \<and> spi_id bus \<notin> aic_enabled h
      \<and> \<not> TXTEN (spi_regs bus h) \<and> \<not> RXTEN (spi_regs bus h)"
  using assms
proof induction
  case (irq_taken g h status uninit)
  then show ?case using handler_callbacks [of bus status uninit h] by auto
qed simp

section \<open>Starting a transfer\<close>

lemma at91_reset_select_keep [simp]:
  "callbacks_run (at91_internal_spi_reset mck b n g) = callbacks_run g"
  "next_internal_reception (at91_internal_spi_reset mck b n g) = next_internal_reception g"
  "aic_enabled (at91_internal_spi_reset mck b n g) = aic_enabled g"
  "callbacks_run (at91_select_npcs b n g) = callbacks_run g"
  "next_internal_reception (at91_select_npcs b n g) = next_internal_reception g"
  "aic_enabled (at91_select_npcs b n g) = aic_enabled g"
  "current_internal_reception (at91_internal_spi_reset mck b n g) = current_internal_reception g"
  "current_internal_reception (at91_select_npcs b n g) = current_internal_reception g"
  by (simp_all add: at91_internal_spi_reset_def at91_select_npcs_def Let_def)

lemma spi_regs_updates [simp]:
  "spi_regs b (g\<lparr>current_internal_mode := m\<rparr>) = spi_regs b g"
  "spi_regs b (g\<lparr>user_callback_bus_0 := c, user_args_bus_0 := a\<rparr>) = spi_regs b g"
  "spi_regs b (g\<lparr>user_callback_bus_1 := c, user_args_bus_1 := a\<rparr>) = spi_regs b g"
  "spi_regs b (g\<lparr>current_drv := d, current_npcs := n, current_spi_id := i\<rparr>) = spi_regs b g"
  "spi_regs b (g\<lparr>rx_finished := r, tx_finished := t\<rparr>) = spi_regs b g"
  by (cases b; simp)+

text \<open>The state up to the point where the registers of the first transfer are written.\<close>

definition transfer_prepared ::
    "u32 \<Rightarrow> At91SpiBuses \<Rightarrow> nat \<Rightarrow> InternalReception \<Rightarrow> nat \<Rightarrow> nat \<Rightarrow> spi_globals \<Rightarrow> spi_globals" where
  "transfer_prepared mck bus npcs reception cb args g =
     (let g = g\<lparr>current_internal_reception := reception\<rparr>;
          g = (if current_internal_mode g = BLOCKING
               then (at91_internal_spi_reset mck bus npcs g)\<lparr>current_internal_mode := DMA\<rparr> else g);
          g = at91_select_npcs bus npcs g;
          g = (if bus = SPI_BUS_0
               then g\<lparr>user_callback_bus_0 := cb, user_args_bus_0 := args\<rparr>
               else g\<lparr>user_callback_bus_1 := cb, user_args_bus_1 := args\<rparr>);
          g = g\<lparr>current_drv := Some bus, current_npcs := npcs, current_spi_id := spi_id bus\<rparr>;
          g = set_regs bus (\<lambda>d. (reset_dma_regs d)\<lparr>SPI_IMR := SPI_IMR d OR all_irqs\<rparr>) g
      in g\<lparr>rx_finished := False, tx_finished := False\<rparr>)"

lemma prepared_idle:
  "SPI_TCR (spi_regs bus (transfer_prepared mck bus npcs reception cb args g)) = 0"
  "SPI_RCR (spi_regs bus (transfer_prepared mck bus npcs reception cb args g)) = 0"
  by (simp_all add: transfer_prepared_def Let_def reset_dma_regs_def)

lemma prepared_state:
  fixes mck bus npcs reception cb args g
  defines "h \<equiv> transfer_prepared mck bus npcs reception cb args g"
  shows "callbacks_run h = callbacks_run g" "next_internal_reception h = next_internal_reception g"
    "current_internal_reception h = reception" "\<not> rx_finished h" "\<not> tx_finished h"
    "current_spi_id h = spi_id bus" "bus = SPI_BUS_0 \<Longrightarrow> user_callback_bus_0 h = cb \<and> user_args_bus_0 h = args"
    "bus = SPI_BUS_1 \<Longrightarrow> user_callback_bus_1 h = cb \<and> user_args_bus_1 h = args"
  by (simp_all add: h_def transfer_prepared_def Let_def)

definition transfer_allowed :: "At91SpiBuses \<Rightarrow> nat \<Rightarrow> spi_ptr \<Rightarrow> u32 \<Rightarrow> spi_globals \<Rightarrow> bool" where
  "transfer_allowed bus npcs send_buf transfer_len g \<longleftrightarrow> send_buf \<noteq> NULL \<and> transfer_len \<noteq> 0 \<and> npcs \<le> 3 \<and>
     (if bus = SPI_BUS_0 then bus_0_aic_configured g else bus_1_aic_configured g)"

lemma transfer_result:
  fixes recv_buf
  defines "reception \<equiv> (if recv_buf = NULL then WRITE_ONLY else WRITE_AND_READ)"
    and "recv_ptr \<equiv> (if recv_buf = NULL then DUMMY_BUF else recv_buf)"
  shows "at91_spi_non_blocking_transfer mck bus npcs send_buf recv_buf len cb args start g =
    (if transfer_allowed bus npcs send_buf len g
     then (0, (if start then at91_start_non_blocking_transfer (Some bus) else (\<lambda>g. g))
                (set_regs bus (set_first_transfer send_buf recv_ptr len reception)
                  (transfer_prepared mck bus npcs reception cb args g)))
     else (if send_buf = NULL \<or> len = 0 then - 1
           else if (if bus = SPI_BUS_0 then bus_0_aic_configured g else bus_1_aic_configured g) then - 1
           else - 3, g))"
proof (cases "transfer_allowed bus npcs send_buf len g")
  case True
  then have ok: "send_buf \<noteq> NULL" "len \<noteq> 0" "\<not> 3 < npcs"
      "\<not> (bus = SPI_BUS_0 \<and> \<not> bus_0_aic_configured g)" "\<not> (bus = SPI_BUS_1 \<and> \<not> bus_1_aic_configured g)"
    by (auto simp: transfer_allowed_def split: if_splits)
  have "at91_spi_non_blocking_transfer mck bus npcs send_buf recv_buf len cb args start g =
     (let h = transfer_prepared mck bus npcs reception cb args g in
      if SPI_TCR (spi_regs bus h) = 0 \<and> SPI_RCR (spi_regs bus h) = 0
      then let h = set_regs bus (set_first_transfer send_buf recv_ptr len reception) h
           in (0, if start then at91_start_non_blocking_transfer (Some bus) h else h)
      else (- 2, h))"
    unfolding at91_spi_non_blocking_transfer_def at91_get_drv_handle_def transfer_prepared_def
      reception_def recv_ptr_def
    by (simp only: ok Let_def if_False simp_thms sum.case prod.case)
  then show ?thesis using True by (simp add: prepared_idle Let_def)
next
  case False
  then show ?thesis
    by (cases bus) (auto simp: at91_spi_non_blocking_transfer_def at91_get_drv_handle_def transfer_allowed_def)
qed

lemma start_keeps [simp]:
  "callbacks_run (at91_start_non_blocking_transfer d g) = callbacks_run g"
  "next_internal_reception (at91_start_non_blocking_transfer d g) = next_internal_reception g"
  "current_internal_reception (at91_start_non_blocking_transfer d g) = current_internal_reception g"
  "tx_finished (at91_start_non_blocking_transfer d g) = tx_finished g"
  "rx_finished (at91_start_non_blocking_transfer d g) = rx_finished g"
  "user_callback_bus_0 (at91_start_non_blocking_transfer d g) = user_callback_bus_0 g"
  "user_callback_bus_1 (at91_start_non_blocking_transfer d g) = user_callback_bus_1 g"
  "user_args_bus_0 (at91_start_non_blocking_transfer d g) = user_args_bus_0 g"
  "user_args_bus_1 (at91_start_non_blocking_transfer d g) = user_args_bus_1 g"
  by (cases d; simp add: at91_start_non_blocking_transfer_def Let_def)+

text \<open>The callback of a bus after an interrupt that ends the transfer.\<close>

lemma irq_prefix_callback:
  fixes status drv g
  defines "h \<equiv> irq_finished_flags status (irq_endrx status drv (irq_endtx status drv g))"
  shows "user_callback_bus_0 h = user_callback_bus_0 g" "user_callback_bus_1 h = user_callback_bus_1 g"
    "user_args_bus_0 h = user_args_bus_0 g" "user_args_bus_1 h = user_args_bus_1 g"
  by (auto simp: h_def irq_finished_flags_def irq_endrx_def irq_endtx_def Let_def)

definition bus_callback :: "At91SpiBuses \<Rightarrow> spi_globals \<Rightarrow> nat \<times> nat" where
  "bus_callback bus g = (if bus = SPI_BUS_0 then (user_callback_bus_0 g, user_args_bus_0 g)
     else (user_callback_bus_1 g, user_args_bus_1 g))"

lemma handler_runs_callback:
  fixes status bus g
  defines "h \<equiv> irq_finished_flags status (irq_endrx status bus (irq_endtx status bus g))"
  assumes "irq_decision (snd (irq_errors status st)) (fst (irq_errors status st)) h = (True, st')"
    and "bus_callback bus g = (cb, args)" "cb \<noteq> 0"
  shows "let g' = spi_irq_handler bus status st g in
    callbacks_run g' = callbacks_run g @ [(bus, st', cb, args)] \<and> rx_finished g' = rx_finished h \<and>
    tx_finished g' = tx_finished h \<and> \<not> RXTEN (spi_regs bus g') \<and> spi_id bus \<notin> aic_enabled g'"
proof -
  obtain fin st2 g2 where g2: "generic_spi_interrupt_handler status bus st g = ((fin, st2), g2)"
    by (metis prod.exhaust)
  have fin: "fin" "st2 = st'" and g2h: "g2 = irq_cleanup bus h"
    using handler_finish [OF g2] assms(2) by (auto simp: h_def)
  have s2: "callbacks_run g2 = callbacks_run g" "rx_finished g2 = rx_finished h" "tx_finished g2 = tx_finished h"
    "\<not> RXTEN (spi_regs bus g2)" "aic_enabled g2 = aic_enabled g"
    using irq_prefix_keeps(1,2) [of status bus g] by (simp_all add: g2h irq_cleanup_state h_def)
  have "bus_callback bus g2 = bus_callback bus g"
    unfolding g2h bus_callback_def irq_cleanup_def h_def by (simp add: irq_prefix_callback)
  then have "spi_irq_handler bus status st g
      = g2\<lparr>callbacks_run := callbacks_run g2 @ [(bus, st', cb, args)], aic_enabled := aic_enabled g2 - {spi_id bus}\<rparr>"
    using g2 fin assms(3,4) by (auto simp: spi_irq_handler_def Let_def bus_callback_def split: if_splits)
  then show ?thesis using s2 by (cases bus) simp_all
qed

section \<open>Properties\<close>

text \<open>
  C22. Whatever interrupts follow, the user callback runs at most once before the next transfer is
  started, and when it has run the interrupt line and both DMA directions of the bus are off.
\<close>
theorem spi_callback_once:
  assumes "irq_run bus g h"
  shows "callbacks_run h = callbacks_run g \<or>
    (\<exists>s c a. callbacks_run h = callbacks_run g @ [(bus, s, c, a)]) \<and> spi_id bus \<notin> aic_enabled h
      \<and> \<not> TXTEN (spi_regs bus h) \<and> \<not> RXTEN (spi_regs bus h)"
  using assms by (rule irq_run_callbacks)

definition idle_spi :: at91_spi where
  "idle_spi = \<lparr>SPI_enabled = True, SPI_MR = 0, SPI_CSR = replicate 4 0, SPI_IMR = 0, SPI_TPR = NULL,
     SPI_TCR = 0, SPI_RPR = NULL, SPI_RCR = 0, SPI_TNPR = NULL, SPI_TNCR = 0, SPI_RNPR = NULL,
     SPI_RNCR = 0, TXTEN = False, RXTEN = False\<rparr>"

text \<open>A driver after a transfer whose second part only wrote, both buses configured.\<close>

definition after_write :: spi_globals where
  "after_write = \<lparr>current_drv = Some SPI_BUS_0, current_spi_id = 12, current_npcs = 0,
     current_internal_mode = DMA, current_spi_cfg = \<lparr>dlybs = 1, dlybct = 10, dlybcs = 0, mode_val = 2,
     frequency = 8256000\<rparr>, bus_0_active = True, bus_1_active = True, bus_0_aic_configured = True,
     bus_1_aic_configured = True, tx_finished = True, rx_finished = False,
     current_internal_reception = WRITE_ONLY, next_internal_reception = WRITE_ONLY,
     user_callback_bus_0 = 1, user_args_bus_0 = 0, user_callback_bus_1 = 0, user_args_bus_1 = 0,
     spi0 = idle_spi, spi1 = idle_spi, aic_enabled = {12}, callbacks_run = []\<rparr>"

theorem spi_callback_once_witness:
  "let h = spi_irq_handler SPI_BUS_0 0xc0 IDLE after_write in
    callbacks_run h = callbacks_run after_write \<or>
    (\<exists>s c a. callbacks_run h = callbacks_run after_write @ [(SPI_BUS_0, s, c, a)]) \<and>
      spi_id SPI_BUS_0 \<notin> aic_enabled h \<and> \<not> TXTEN (spi_regs SPI_BUS_0 h) \<and> \<not> RXTEN (spi_regs SPI_BUS_0 h)"
  unfolding Let_def
  by (rule spi_callback_once, rule irq_taken [OF irq_none]) (simp add: after_write_def AT91C_ID_SPI0_def)

text \<open>
  Starting a transfer succeeds exactly for a buffer, a length, a chip select and a configured
  bus; otherwise it returns -1 or -3 and changes nothing. It never returns -2: the registers that
  would show an ongoing transfer are cleared before they are looked at, so that such a transfer is
  overwritten.
\<close>
theorem spi_transfer_never_busy:
  "let (r, g') = at91_spi_non_blocking_transfer mck bus npcs send_buf recv_buf len cb args start g in
   (transfer_allowed bus npcs send_buf len g \<longrightarrow> r = 0 \<and> SPI_TPR (spi_regs bus g') = send_buf \<and>
      SPI_TCR (spi_regs bus g') = len \<and> SPI_TNCR (spi_regs bus g') = 0) \<and>
   (\<not> transfer_allowed bus npcs send_buf len g \<longrightarrow> r \<in> {- 1, - 3} \<and> g' = g)"
proof -
  have regs: "spi_regs bus (at91_start_non_blocking_transfer (Some bus) h)
      = (spi_regs bus h)\<lparr>TXTEN := True, RXTEN := True\<rparr>" for h
    by (simp add: at91_start_non_blocking_transfer_def Let_def)
  have idle: "SPI_TNCR (spi_regs bus (transfer_prepared mck bus npcs reception cb args g)) = 0" for reception
    by (simp add: transfer_prepared_def Let_def reset_dma_regs_def)
  show ?thesis
    by (simp add: transfer_result regs set_first_transfer_def Let_def idle)
qed

theorem spi_transfer_never_busy_witness:
  "let (r, g') = at91_spi_non_blocking_transfer 1000 SPI_BUS_0 0 (USER_BUF 1) NULL 4 1 0 True after_write
   in r = 0"
  using spi_transfer_never_busy [of 1000 SPI_BUS_0 0 "USER_BUF 1" NULL 4 1 0 True after_write]
  by (auto simp: transfer_allowed_def after_write_def)

text \<open>
  A transfer that both writes and reads, started alone after one whose second part only wrote, is
  reported as successful as soon as everything has been sent, with the reception still going on: the
  interrupt takes over the reception mode of the earlier transfer, and the handler stops the
  receiving DMA and runs the callback.
\<close>
theorem spi_stale_reception:
  assumes "next_internal_reception g = WRITE_ONLY" and "transfer_allowed bus npcs send_buf len g"
    and "recv_buf \<noteq> NULL" and "cb \<noteq> 0"
    and "flag_set status AT91C_SPI_ENDTX" and "flag_set status AT91C_SPI_TXBUFE"
    and "\<not> flag_set status AT91C_SPI_RXBUFF" and "\<not> flag_set status AT91C_SPI_MODF"
  shows "let (_, g1) = at91_spi_non_blocking_transfer mck bus npcs send_buf recv_buf len cb args True g;
             g2 = spi_irq_handler bus status st g1
         in callbacks_run g2 = callbacks_run g @ [(bus, SPI_SUCCESS, cb, args)] \<and>
            \<not> rx_finished g2 \<and> \<not> RXTEN (spi_regs bus g2)"
proof -
  define p where "p = transfer_prepared mck bus npcs WRITE_AND_READ cb args g"
  define g1 where "g1 = at91_start_non_blocking_transfer (Some bus)
    (set_regs bus (set_first_transfer send_buf recv_buf len WRITE_AND_READ) p)"
  have r: "at91_spi_non_blocking_transfer mck bus npcs send_buf recv_buf len cb args True g = (0, g1)"
    using assms(2,3) by (simp add: transfer_result g1_def p_def)
  note ps = prepared_state [where mck = mck and bus = bus and npcs = npcs and reception = WRITE_AND_READ
      and cb = cb and args = args and g = g, folded p_def]
  have s1: "callbacks_run g1 = callbacks_run g" "next_internal_reception g1 = WRITE_ONLY"
      "\<not> rx_finished g1" "\<not> tx_finished g1" "bus_callback bus g1 = (cb, args)"
    using ps assms(1) by (cases bus; simp add: g1_def bus_callback_def)+
  have "irq_errors status st = (st, False)" using assms(6,8) by (simp add: irq_errors_def)
  moreover note irq_prefix_keeps [of status bus g1]
  ultimately have "irq_decision (snd (irq_errors status st)) (fst (irq_errors status st))
      (irq_finished_flags status (irq_endrx status bus (irq_endtx status bus g1))) = (True, SPI_SUCCESS)"
    using assms(5,6) s1 by (simp add: irq_decision_def)
  from handler_runs_callback [OF this s1(5) assms(4)] show ?thesis
    using r s1 irq_prefix_keeps(5) [of status bus g1] assms(7) by (simp add: Let_def)
qed

theorem spi_stale_reception_witness:
  "let (_, g1) = at91_spi_non_blocking_transfer 1000 SPI_BUS_0 0 (USER_BUF 1) (USER_BUF 2) 4 1 0 True after_write;
       g2 = spi_irq_handler SPI_BUS_0 0xa0 IDLE g1
   in callbacks_run g2 = callbacks_run after_write @ [(SPI_BUS_0, SPI_SUCCESS, 1, 0)] \<and>
      \<not> rx_finished g2 \<and> \<not> RXTEN (spi_regs SPI_BUS_0 g2)"
  by (rule spi_stale_reception)
    (simp_all add: after_write_def transfer_allowed_def flag_set_def spi_bits)

end
