(* ===== verification/SpiBlocking.thy ===== *)
theory SpiBlocking
  imports At91Spi
begin

text \<open>
  The blocking transfer of \<open>bsp_sam9g20/common/At91SpiDriver.c\<close>: the processor polls the status
  register, with a limit on the number of polls, and moves the bytes itself. What the status
  register says, and what comes back for a byte, is up to the device on the bus.
\<close>

section \<open>The data registers\<close>

text \<open>
  \<open>begin_frame\<close> is the effect of selecting the chip on the device; reading the status or the received
  byte may change the state of the peripheral.
\<close>

record 'd spi_wire =
  begin_frame :: "'d \<Rightarrow> 'd"
  read_SR :: "'d \<Rightarrow> u32 \<times> 'd"
  read_RDR :: "'d \<Rightarrow> u32 \<times> 'd"
  write_TDR :: "u8 \<Rightarrow> 'd \<Rightarrow> 'd"

definition AT91C_SPI_RDRF :: u32 where "AT91C_SPI_RDRF = 0x1"
definition AT91C_SPI_TXEMPTY :: u32 where "AT91C_SPI_TXEMPTY = 0x200"

section \<open>The transfer\<close>

text \<open>
  \<open>while((SPI_SR & flag) == 0) { block_limit_idx++; if(block_limit_idx == max_block_cycles) return -2; }\<close>:
  the counter afterwards, or \<open>None\<close> for the return. The counter is a 32 bit word, so a limit of 0 is
  reached when it wraps.
\<close>

function wait_flag :: "'d spi_wire \<Rightarrow> u32 \<Rightarrow> u32 \<Rightarrow> u32 \<Rightarrow> 'd \<Rightarrow> u32 option \<times> 'd" where
  "wait_flag w max_block_cycles flag block_limit_idx d =
     (case read_SR w d of
        (sr, d) \<Rightarrow>
          if sr AND flag \<noteq> 0 then (Some block_limit_idx, d)
          else if block_limit_idx + 1 = max_block_cycles then (None, d)
          else wait_flag w max_block_cycles flag (block_limit_idx + 1) d)"
  by pat_completeness auto

termination
  by (relation "measure (\<lambda>(w, m, flag, i, d). unat (m - i - 1))") (use word_count_down [where 'a = 32] in auto)

declare wait_flag.simps [simp del]

text \<open>The loop over the bytes: what was received, and the return value.\<close>

primrec blocking_turns ::
    "'d spi_wire \<Rightarrow> u32 \<Rightarrow> bytes \<Rightarrow> u32 \<Rightarrow> 'd \<Rightarrow> (int \<times> bytes) \<times> 'd" where
  "blocking_turns w max_block_cycles [] block_limit_idx d = ((0, []), d)"
| "blocking_turns w max_block_cycles (b # bs) block_limit_idx d =
     (case wait_flag w max_block_cycles AT91C_SPI_RDRF block_limit_idx (write_TDR w b d) of
        (None, d) \<Rightarrow> ((- 2, []), d)
      | (Some _, d) \<Rightarrow>
          (case read_RDR w d of
             (r, d) \<Rightarrow>
               (case blocking_turns w max_block_cycles bs 0 d of
                  ((result, rs), d) \<Rightarrow> ((result, ucast r # rs), d))))"

text \<open>From the wait for an empty transmitter on; the received byte of an earlier transfer is discarded.\<close>

definition blocking_data :: "'d spi_wire \<Rightarrow> u32 \<Rightarrow> bytes \<Rightarrow> 'd \<Rightarrow> (int \<times> bytes) \<times> 'd" where
  "blocking_data w max_block_cycles bs d =
     (case wait_flag w max_block_cycles AT91C_SPI_TXEMPTY 0 (begin_frame w d) of
        (None, d) \<Rightarrow> ((- 2, []), d)
      | (Some block_limit_idx, d) \<Rightarrow>
          blocking_turns w max_block_cycles bs block_limit_idx (snd (read_RDR w d)))"

text \<open>
  A null buffer is \<open>None\<close>; a null receive buffer stands for the first byte of the dummy buffer. The
  result \<open>None\<close> is a call with a buffer shorter than the transfer.
\<close>

definition at91_spi_blocking_transfer_non_interrupt ::
    "u32 \<Rightarrow> 'd spi_wire \<Rightarrow> u32 \<Rightarrow> At91SpiBuses \<Rightarrow> nat \<Rightarrow> bytes option \<Rightarrow> bytes option \<Rightarrow> u32 \<Rightarrow>
      spi_globals \<times> 'd \<Rightarrow> ((int \<times> bytes option) \<times> spi_globals \<times> 'd) option" where
  "at91_spi_blocking_transfer_non_interrupt mck w max_block_cycles spi_bus npcs send_buf recv_buf transfer_len s =
     (case s of (g, d) \<Rightarrow>
        if send_buf = None \<or> transfer_len = 0 then Some ((- 1, recv_buf), g, d)
        else if spi_bus = SPI_BUS_0 \<and> \<not> bus_0_active g then Some ((- 3, recv_buf), g, d)
        else if spi_bus = SPI_BUS_1 \<and> \<not> bus_1_active g then Some ((- 3, recv_buf), g, d)
        else case at91_get_drv_handle spi_bus npcs of
          Inl retval \<Rightarrow> Some ((retval, recv_buf), g, d)
        | Inr (drv, pid) \<Rightarrow>
            let g = (if current_internal_mode g = DMA
                     then (at91_internal_spi_reset mck drv npcs g)\<lparr>current_internal_mode := BLOCKING\<rparr> else g);
                g = at91_select_npcs drv npcs g; n = unat transfer_len
            in if length (the send_buf) < n \<or> (case recv_buf of None \<Rightarrow> False | Some r \<Rightarrow> length r < n)
               then None
               else (case blocking_data w max_block_cycles (take n (the send_buf)) d of
                 ((result, rs), d) \<Rightarrow> Some ((result, map_option (\<lambda>r. buf_write r 0 rs) recv_buf), g, d)))"

section \<open>The number of polls\<close>

text \<open>The same device, with the number of times the status register was read.\<close>

definition counted :: "'d spi_wire \<Rightarrow> ('d \<times> nat) spi_wire" where
  "counted w = \<lparr>begin_frame = (\<lambda>(d, n). (begin_frame w d, n)),
     read_SR = (\<lambda>(d, n). case read_SR w d of (sr, d) \<Rightarrow> (sr, d, n + 1)),
     read_RDR = (\<lambda>(d, n). case read_RDR w d of (r, d) \<Rightarrow> (r, d, n)),
     write_TDR = (\<lambda>b (d, n). (write_TDR w b d, n))\<rparr>"

lemma unat_Suc_word: "unat (i :: u32) < unat (m :: u32) \<Longrightarrow> unat (i + 1) = unat i + 1"
proof -
  assume "unat i < unat m"
  moreover have "unat m < 2 ^ 32" by (rule order_less_le_trans [OF unsigned_less]) simp
  ultimately show ?thesis by (simp add: unat_plus_if')
qed

text \<open>A wait that starts below the limit polls at most as often as is left up to the limit.\<close>

lemma wait_flag_polls:
  "wait_flag (counted w) m flag i (d, n) = (r, d', n') \<Longrightarrow> unat i < unat m \<Longrightarrow>
    n' \<le> n + (unat m - unat i) \<and>
    (\<forall>j. r = Some j \<longrightarrow> unat i \<le> unat j \<and> unat j < unat m \<and> n' = n + (unat j - unat i) + 1)"
proof (induction "counted w" m flag i "(d, n)" arbitrary: d n rule: wait_flag.induct)
  case (1 m flag i d n)
  obtain sr d1 where sr: "read_SR w d = (sr, d1)" by (metis prod.exhaust)
  then have csr: "read_SR (counted w) (d, n) = (sr, d1, n + 1)" by (simp add: counted_def)
  consider "sr AND flag \<noteq> 0" | "sr AND flag = 0" "i + 1 = m" | "sr AND flag = 0" "i + 1 \<noteq> m" by blast
  then show ?case
  proof cases
    case 3
    have lt: "unat (i + 1) < unat m"
      using 3(2) 1(3) unat_Suc_word [OF 1(3)] by (metis Suc_eq_plus1 Suc_lessI word_unat_eq_iff)
    have "wait_flag (counted w) m flag (i + 1) (d1, n + 1) = (r, d', n')"
      using 1(2) 3 csr by (simp add: wait_flag.simps [of _ _ _ i])
    from "1.hyps" [OF csr [symmetric] _ 3(2) this lt] 3 show ?thesis
      using unat_Suc_word [OF 1(3)] 1(3) by auto
  qed (use 1(2,3) csr in \<open>auto simp: wait_flag.simps [of _ _ _ i] split: if_splits\<close>)
qed

lemma blocking_turns_polls:
  "blocking_turns (counted w) m bs i (d, n) = (x, d', n') \<Longrightarrow> unat i < unat m \<Longrightarrow>
    n' \<le> n + length bs * unat m - (if bs = [] then 0 else unat i)"
proof (induction bs arbitrary: i d n x d' n')
  case (Cons b bs)
  obtain r d1 n1 where wf: "wait_flag (counted w) m AT91C_SPI_RDRF i (write_TDR w b d, n) = (r, d1, n1)"
    by (metis prod.exhaust)
  note p = wait_flag_polls [OF wf Cons.prems(2)]
  have wt: "write_TDR (counted w) b (d, n) = (write_TDR w b d, n)" by (simp add: counted_def)
  have z: "unat (0 :: u32) < unat m" using Cons.prems(2) by simp
  show ?case
  proof (cases r)
    case None
    then have "n' = n1" using Cons.prems(1) wf wt by simp
    moreover have "n1 \<le> n + (unat m - unat i)" using p by blast
    moreover have "length (b # bs) * unat m = unat m + length bs * unat m" by simp
    ultimately show ?thesis using Cons.prems(2) by (simp only: list.simps if_False)
  next
    case (Some j)
    obtain rd d2 where rd: "read_RDR (counted w) (d1, n1) = (rd, d2, n1)"
      by (cases "read_RDR w d1") (simp add: counted_def)
    obtain y d3 n3 where y: "blocking_turns (counted w) m bs 0 (d2, n1) = (y, d3, n3)" by (metis prod.exhaust)
    have "n' = n3" using Cons.prems(1) wf wt rd y Some by (auto split: prod.splits)
    moreover have "n3 \<le> n1 + length bs * unat m" using Cons.IH [OF y z] by (simp split: if_splits)
    moreover have "n1 \<le> n + (unat m - unat i)" using p by blast
    moreover have "length (b # bs) * unat m = unat m + length bs * unat m" by simp
    ultimately show ?thesis using Cons.prems(2) by (simp only: list.simps if_False)
  qed
qed simp


lemma blocking_data_polls:
  assumes "blocking_data (counted w) m bs (d, n) = (x, d', n')" and "0 < m" and "bs \<noteq> []"
  shows "n' \<le> n + length bs * unat m + 1"
proof -
  have z: "unat (0 :: u32) < unat m" using assms(2) by (simp add: word_less_nat_alt)
  have le: "unat m \<le> length bs * unat m" using assms(3) by (cases bs) simp_all
  obtain r d1 n1 where wf: "wait_flag (counted w) m AT91C_SPI_TXEMPTY 0 (begin_frame w d, n) = (r, d1, n1)"
    by (metis prod.exhaust)
  then have e: "wait_flag (counted w) m AT91C_SPI_TXEMPTY 0 (begin_frame (counted w) (d, n)) = (r, d1, n1)"
    by (simp add: counted_def)
  note p = wait_flag_polls [OF wf z]
  show ?thesis
  proof (cases r)
    case None
    then have "n' = n1" using assms(1) e by (simp add: blocking_data_def)
    moreover have "n1 \<le> n + unat m" using p by simp
    ultimately show ?thesis using le by linarith
  next
    case (Some j)
    obtain d2 where d2: "snd (read_RDR (counted w) (d1, n1)) = (d2, n1)"
      by (cases "read_RDR w d1") (simp add: counted_def)
    have "blocking_turns (counted w) m bs j (d2, n1) = (x, d', n')"
      using assms(1) e Some d2 by (simp add: blocking_data_def)
    from blocking_turns_polls [OF this] p Some
    have "n' \<le> n1 + length bs * unat m - unat j" "unat j < unat m" "n1 = n + unat j + 1"
      using assms(3) by auto
    then show ?thesis using le by linarith
  qed
qed

lemma blocking_transfer_polls:
  assumes "at91_spi_blocking_transfer_non_interrupt mck (counted w) m bus npcs send recv len (g, d, n)
      = Some (x, g', d', n')"
    and "0 < m"
  shows "n' \<le> n + unat len * unat m + 1"
proof (cases "n' = n")
  case False
  then obtain buf y where b: "unat len \<le> length buf" "len \<noteq> 0"
      "blocking_data (counted w) m (take (unat len) buf) (d, n) = (y, d', n')"
    using assms(1)
    by (auto simp: at91_spi_blocking_transfer_non_interrupt_def Let_def not_less split: if_splits sum.splits prod.splits)
  then have l: "length (take (unat len) buf) = unat len" "take (unat len) buf \<noteq> []"
    by (auto simp: unat_eq_zero)
  show ?thesis using blocking_data_polls [OF b(3) assms(2) l(2)] l(1) by simp
qed simp

section \<open>Devices that answer\<close>

text \<open>
  \<open>ready_after w flag k d\<close>: the first \<open>k\<close> polls find the flag clear, the next one finds it set. A slave
  shifts a byte out for each it gets (\<open>exch\<close>) and is ready again within \<open>lat\<close> polls.
\<close>

fun ready_after :: "'d spi_wire \<Rightarrow> u32 \<Rightarrow> nat \<Rightarrow> 'd \<Rightarrow> 'd option" where
  "ready_after w flag 0 d = (case read_SR w d of (sr, d) \<Rightarrow> if sr AND flag \<noteq> 0 then Some d else None)"
| "ready_after w flag (Suc k) d =
     (case read_SR w d of (sr, d) \<Rightarrow> if sr AND flag \<noteq> 0 then None else ready_after w flag k d)"

lemma wait_flag_ready:
  "ready_after w flag k d = Some d' \<Longrightarrow> unat i + k < unat m \<Longrightarrow>
    wait_flag w m flag i d = (Some (i + word_of_nat k), d')"
proof (induction k arbitrary: d i)
  case 0
  then show ?case by (auto simp: wait_flag.simps [of _ _ _ i] split: prod.splits if_splits)
next
  case (Suc k)
  obtain sr d1 where sr: "read_SR w d = (sr, d1)" "sr AND flag = 0" "ready_after w flag k d1 = Some d'"
    using Suc.prems(1) by (auto split: prod.splits if_splits)
  have u: "unat (i + 1) = unat i + 1" using Suc.prems(2) by (intro unat_Suc_word [of _ m]) simp
  then have "i + 1 \<noteq> m" using Suc.prems(2) by auto
  then show ?case
    using Suc.IH [OF sr(3), of "i + 1"] Suc.prems(2) sr u
    by (simp add: wait_flag.simps [of _ _ _ i] add.assoc)
qed

fun exchanges :: "(u8 \<Rightarrow> 'c \<Rightarrow> u8 \<times> 'c) \<Rightarrow> bytes \<Rightarrow> 'c \<Rightarrow> bytes \<times> 'c" where
  "exchanges exch [] c = ([], c)"
| "exchanges exch (b # bs) c =
     (case exch b c of (r, c) \<Rightarrow> (case exchanges exch bs c of (rs, c) \<Rightarrow> (r # rs, c)))"

locale spi_slave =
  fixes w :: "'d spi_wire" and exch :: "u8 \<Rightarrow> 'c \<Rightarrow> u8 \<times> 'c" and sel :: "'c \<Rightarrow> 'c"
    and view :: "'d \<Rightarrow> 'c" and idle :: "'d \<Rightarrow> bool" and lat :: nat
  assumes selected: "idle d \<Longrightarrow> idle (begin_frame w d) \<and> view (begin_frame w d) = sel (view d)"
    and empty: "idle d \<Longrightarrow> \<exists>k d'. k \<le> lat \<and> ready_after w AT91C_SPI_TXEMPTY k d = Some d' \<and> idle d' \<and> view d' = view d"
    and discard: "idle d \<Longrightarrow> idle (snd (read_RDR w d)) \<and> view (snd (read_RDR w d)) = view d"
    and answer: "idle d \<Longrightarrow> \<exists>k d' r d''. k \<le> lat \<and> ready_after w AT91C_SPI_RDRF k (write_TDR w b d) = Some d' \<and>
      read_RDR w d' = (r, d'') \<and> idle d'' \<and> exch b (view d) = (ucast r, view d'')"
begin

lemma turns:
  "idle d \<Longrightarrow> unat i + lat < unat m \<Longrightarrow>
    \<exists>d'. blocking_turns w m bs i d = ((0, fst (exchanges exch bs (view d))), d') \<and> idle d' \<and>
      view d' = snd (exchanges exch bs (view d))"
proof (induction bs arbitrary: i d)
  case (Cons b bs)
  obtain k d1 r d2 where k: "k \<le> lat" "ready_after w AT91C_SPI_RDRF k (write_TDR w b d) = Some d1"
      "read_RDR w d1 = (r, d2)" "idle d2" "exch b (view d) = (ucast r, view d2)"
    using answer [OF Cons.prems(1)] by metis
  have wf: "wait_flag w m AT91C_SPI_RDRF i (write_TDR w b d) = (Some (i + word_of_nat k), d1)"
    using k(1,2) Cons.prems(2) by (intro wait_flag_ready) simp_all
  have "unat (0 :: u32) + lat < unat m" using Cons.prems(2) by simp
  from Cons.IH [OF k(4) this] show ?case using wf k by (auto split: prod.split)
qed simp

lemma data_exchanged:
  assumes "idle d" and "2 * lat < unat m"
  shows "\<exists>d'. blocking_data w m bs d = ((0, fst (exchanges exch bs (sel (view d)))), d') \<and> idle d' \<and>
      view d' = snd (exchanges exch bs (sel (view d)))"
proof -
  note sd = selected [OF assms(1)]
  obtain k d1 where k: "k \<le> lat" "ready_after w AT91C_SPI_TXEMPTY k (begin_frame w d) = Some d1"
      "idle d1" "view d1 = view (begin_frame w d)"
    using empty [of "begin_frame w d"] sd by blast
  have lt: "unat (0 :: u32) + k < unat m" using k(1) assms(2) by simp
  have wf: "wait_flag w m AT91C_SPI_TXEMPTY 0 (begin_frame w d) = (Some (word_of_nat k), d1)"
    using wait_flag_ready [OF k(2) lt] by simp
  have "unat m < 2 ^ 32" by (rule order_less_le_trans [OF unsigned_less]) simp
  then have "unat (word_of_nat k :: u32) + lat < unat m"
    using k(1) assms(2) by (simp add: unat_of_nat take_bit_nat_eq_self)
  from turns [OF _ this, of "snd (read_RDR w d1)" bs] show ?thesis
    using discard [OF k(3)] k(4) sd wf by (simp add: blocking_data_def)
qed

end

end
