(* ===== verification/FramNoOs.thy ===== *)
theory FramNoOs
  imports FramApi At91Spi
begin

text \<open>
  The FRAM driver of the bootloader, \<open>bsp_sam9g20/common/fram/FRAMNoOs.c\<close> (its polling functions),
  and the API over it, \<open>FRAMApiNoOs.c\<close>. The SPI peripheral is a parameter: selecting the chip, and
  exchanging one byte. The chip of the documented command set (CY15B104QI: opcode, three address
  bytes, data) is given as a definition, and on it the driver is an interpretation of the locale
  \<open>fram_device\<close>.
\<close>

section \<open>The driver\<close>

text \<open>
  \<open>spi_select\<close> is the sequence of \<open>at91_select_npcs\<close> and \<open>at91_internal_spi_reset\<close>, which starts a
  new frame; \<open>spi_exchange\<close> is a write to \<open>SPI_TDR\<close> and the byte that is then in \<open>SPI_RDR\<close>.
\<close>

record 'd spi_bus =
  spi_select :: "'d \<Rightarrow> 'd"
  spi_exchange :: "u8 \<Rightarrow> 'd \<Rightarrow> u8 \<times> 'd"

definition WRITE_ENB_LATCH :: u8 where "WRITE_ENB_LATCH = 0x06"
definition WRITE_CFG :: u8 where "WRITE_CFG = 0x01"
definition WRITE_OP_REG :: u8 where "WRITE_OP_REG = 0x02"
definition READ_OP_REG :: u8 where "READ_OP_REG = 0x03"

definition fram_command :: "u8 \<Rightarrow> u32 \<Rightarrow> bytes" where
  "fram_command opcode address =
     [opcode, ucast (drop_bit 16 address AND 0xff), ucast (drop_bit 8 address AND 0xff),
      ucast (address AND 0xff)]"

text \<open>The turns \<open>idx\<close> to \<open>len + 3\<close> of the two loops; \<open>todo\<close> counts the turns left.\<close>

fun read_turns :: "'d spi_bus \<Rightarrow> bytes \<Rightarrow> nat \<Rightarrow> nat \<Rightarrow> 'd \<Rightarrow> bytes \<times> 'd" where
  "read_turns spi cmd_buf idx 0 d = ([], d)"
| "read_turns spi cmd_buf idx (Suc todo) d =
     (if idx < 4
      then (case spi_exchange spi (cmd_buf ! idx) d of
        (_, d) \<Rightarrow> read_turns spi cmd_buf (idx + 1) todo d)
      else (case spi_exchange spi 0 d of
        (b, d) \<Rightarrow> (case read_turns spi cmd_buf (idx + 1) todo d of (bs, d) \<Rightarrow> (b # bs, d))))"

fun write_turns :: "'d spi_bus \<Rightarrow> bytes \<Rightarrow> bytes \<Rightarrow> nat \<Rightarrow> nat \<Rightarrow> 'd \<Rightarrow> 'd" where
  "write_turns spi cmd_buf send_buf idx 0 d = d"
| "write_turns spi cmd_buf send_buf idx (Suc todo) d =
     (if idx < 4
      then write_turns spi cmd_buf send_buf (idx + 1) todo (snd (spi_exchange spi (cmd_buf ! idx) d))
      else write_turns spi cmd_buf (tl send_buf) (idx + 1) todo
             (snd (spi_exchange spi (hd send_buf) d)))"

definition fram_read_no_os_blocking ::
    "'d spi_bus \<Rightarrow> u32 \<Rightarrow> bytes \<Rightarrow> 'd \<Rightarrow> (int \<times> bytes) \<times> 'd" where
  "fram_read_no_os_blocking spi address rec_buf d =
     (let cmd_buf = fram_command READ_OP_REG address in
      case read_turns spi cmd_buf 0 (length rec_buf + 4) (spi_select spi d) of
        (bs, d) \<Rightarrow> ((0, bs), d))"

definition fram_write_no_os_blocking :: "'d spi_bus \<Rightarrow> bytes \<Rightarrow> u32 \<Rightarrow> 'd \<Rightarrow> int \<times> 'd" where
  "fram_write_no_os_blocking spi send_buf address d =
     (let cmd_buf = fram_command WRITE_OP_REG address;
          d = spi_select spi d;
          d = snd (spi_exchange spi WRITE_ENB_LATCH d);
          d = spi_select spi d
      in (0, write_turns spi cmd_buf send_buf 0 (length send_buf + 4) d))"

section \<open>Start\<close>

text \<open>
  \<open>fram_start_no_os_no_interrupt\<close> returns before it sets \<open>fram_started\<close>, which therefore is no part
  of its result.
\<close>

definition fram_start_no_os_no_interrupt :: "u32 \<Rightarrow> spi_globals \<Rightarrow> int \<times> spi_globals" where
  "fram_start_no_os_no_interrupt mck g =
     at91_spi_configure_driver mck SPI_BUS_0 0 SPI_MODE_0 8256000 20 1 0xff g"

section \<open>The bootloader's API\<close>

definition fram_no_os_blocking_read_bootloader_block ::
    "'d spi_bus \<Rightarrow> bytes \<Rightarrow> 'd \<Rightarrow> (int \<times> bytes) \<times> 'd" where
  "fram_no_os_blocking_read_bootloader_block spi bl_info =
     fram_read_no_os_blocking spi BL_GROUP_ADDR bl_info"

definition fram_no_os_blocking_increment_img_reboot_counter ::
    "'d spi_bus \<Rightarrow> SlotType \<Rightarrow> u16 \<Rightarrow> 'd \<Rightarrow> int \<times> 'd" where
  "fram_no_os_blocking_increment_img_reboot_counter spi slotType new_reboot_counter =
     fram_write_no_os_blocking spi (u16_bytes new_reboot_counter) (determine_img_reboot_counter_addr slotType)"

definition fram_no_os_blocking_read_img_reboot_counter ::
    "'d spi_bus \<Rightarrow> SlotType \<Rightarrow> u16 option \<Rightarrow> 'd \<Rightarrow> (int \<times> u16 option) \<times> 'd" where
  "fram_no_os_blocking_read_img_reboot_counter spi slotType reboot_counter d =
     (case reboot_counter of
        None \<Rightarrow> ((- 3, None), d)
      | Some old \<Rightarrow>
          (case fram_read_no_os_blocking spi (determine_img_reboot_counter_addr slotType) (u16_bytes old) d of
            ((result, bs), d) \<Rightarrow> ((result, Some (bytes_u16 bs)), d)))"

text \<open>\<open>Inr\<close> is the address; the clamped size is a local variable and is lost.\<close>

definition fram_no_os_read_ham_checks :: "SlotType \<Rightarrow> u32 \<Rightarrow> u32 \<Rightarrow> u32 \<Rightarrow> int + u32" where
  "fram_no_os_read_ham_checks slotType max_buffer current_offset size_to_read =
     (let address_loc = determine_ham_code_address slotType in
      if address_loc = 0 then Inl (- 4)
      else if size_to_read = 0 then Inl (- 4)
      else if clamp_ham_size slotType current_offset size_to_read > max_buffer then Inl (- 5)
      else Inr address_loc)"

text \<open>\<open>None\<close> is a write outside \<open>buffer\<close>.\<close>

definition fram_no_os_blocking_read_ham_code ::
    "'d spi_bus \<Rightarrow> SlotType \<Rightarrow> bytes \<Rightarrow> u32 \<Rightarrow> u32 \<Rightarrow> u32 \<Rightarrow> 'd \<Rightarrow> ((int \<times> bytes) \<times> 'd) option" where
  "fram_no_os_blocking_read_ham_code spi slotType buffer max_buffer current_offset size_to_read d =
     (case fram_no_os_read_ham_checks slotType max_buffer current_offset size_to_read of
        Inl retval \<Rightarrow> Some ((retval, buffer), d)
      | Inr address \<Rightarrow>
          let off = unat current_offset; n = unat size_to_read in
          if length buffer < off + n then None
          else (case fram_read_no_os_blocking spi address (buf_read buffer off n) d of
            ((result, bs), d) \<Rightarrow> Some ((result, buf_write buffer off bs), d)))"

section \<open>The chip\<close>

text \<open>
  A frame is the bytes received since the chip was selected. \<open>WREN\<close> sets the write enable latch
  when its frame ends, a \<open>WRITE\<close> frame clears it; \<open>READ\<close> and \<open>WRITE\<close> work on consecutive
  addresses, which wrap at the end of the memory.
\<close>

record fram_chip =
  chip_mem :: bytes
  chip_wel :: bool
  chip_frame :: bytes

definition CHIP_SIZE :: nat where "CHIP_SIZE = 0x80000"

definition frame_address :: "bytes \<Rightarrow> nat" where
  "frame_address fr = (unat (fr ! 1) * 65536 + unat (fr ! 2) * 256 + unat (fr ! 3)) + (length fr - 4)"

definition chip_select :: "fram_chip \<Rightarrow> fram_chip" where
  "chip_select c =
     c\<lparr>chip_wel := (if chip_frame c = [] then chip_wel c
                    else if hd (chip_frame c) = 0x06 then True
                    else if hd (chip_frame c) = 0x02 then False
                    else chip_wel c),
       chip_frame := []\<rparr>"

definition chip_exchange :: "u8 \<Rightarrow> fram_chip \<Rightarrow> u8 \<times> fram_chip" where
  "chip_exchange b c =
     (let fr = chip_frame c; a = frame_address fr mod CHIP_SIZE; c' = c\<lparr>chip_frame := fr @ [b]\<rparr> in
      if 4 \<le> length fr \<and> hd fr = 0x03 then (chip_mem c ! a, c')
      else if 4 \<le> length fr \<and> hd fr = 0x02 \<and> chip_wel c
      then (0, c'\<lparr>chip_mem := (chip_mem c)[a := b]\<rparr>)
      else (0, c'))"

definition chip_bus :: "fram_chip spi_bus" where
  "chip_bus = \<lparr>spi_select = chip_select, spi_exchange = chip_exchange\<rparr>"

definition chip_valid :: "fram_chip \<Rightarrow> bool" where
  "chip_valid c \<longleftrightarrow> length (chip_mem c) = CHIP_SIZE"

definition no_os_hal :: "'d spi_bus \<Rightarrow> 'd fram_hal" where
  "no_os_hal spi = \<lparr>FRAM_read = fram_read_no_os_blocking spi,
                    FRAM_writeAndVerify = fram_write_no_os_blocking spi\<rparr>"

section \<open>The driver on the chip\<close>

lemma ucast_and_ff: "ucast (w AND 0xff :: u32) = (ucast w :: u8)"
proof (rule bit_eqI)
  fix n
  have "bit (0xff :: u32) n \<longleftrightarrow> n < 8" if "n < 32"
    using bit_mask_iff [of 8 n, where ?'a = u32] that by (simp add: mask_eq_exp_minus_1)
  then show "bit (ucast (w AND 0xff) :: u8) n = bit (ucast w :: u8) n"
    by (cases "n < 8") (auto simp: bit_ucast_iff bit_and_iff)
qed

lemma three_bytes:
  assumes "n < (2 :: nat) ^ 24"
  shows "n div 2 ^ 16 mod 256 * 65536 + n div 2 ^ 8 mod 256 * 256 + n mod 256 = n"
proof -
  have "n div 2 ^ 16 < 256" using assms by (simp add: less_mult_imp_div_less)
  then have "n div 2 ^ 16 mod 256 = n div 2 ^ 16" by simp
  moreover have "n div 2 ^ 8 = n div 2 ^ 16 * 256 + n div 2 ^ 8 mod 256"
    using div_mult_mod_eq [of "n div 2 ^ 8" 256] by (simp flip: div_mult2_eq)
  moreover have "n = n div 2 ^ 8 * 256 + n mod 256" by simp
  ultimately show ?thesis by linarith
qed

lemma command_address:
  assumes "unat a < 2 ^ 24"
  shows "frame_address (fram_command opc a @ bs) = unat a + length bs"
proof -
  have self: "take_bit 32 (unat a) = unat a"
    using assms by (intro take_bit_nat_eq_self) simp
  have b: "unat (ucast (drop_bit k a) :: u8) = unat a div 2 ^ k mod 256" for k
  proof -
    have "unat (ucast (drop_bit k a) :: u8) = take_bit 8 (drop_bit k (take_bit 32 (unat a)))"
      by (simp add: unsigned_ucast_eq unsigned_drop_bit_eq)
    then show ?thesis by (simp only: self) (simp add: take_bit_eq_mod drop_bit_eq_div)
  qed
  have "frame_address (fram_command opc a @ bs)
      = unat a div 2 ^ 16 mod 256 * 65536 + unat a div 2 ^ 8 mod 256 * 256 + unat a mod 256 + length bs"
    using b [of 16] b [of 8] b [of 0]
    by (simp add: frame_address_def fram_command_def ucast_and_ff)
  also have "\<dots> = unat a + length bs"
    using three_bytes assms by simp
  finally show ?thesis .
qed


lemma read_turns_command:
  "read_turns spi cmd 0 (n + 4) d
    = read_turns spi cmd 4 n (fold (\<lambda>b d. snd (spi_exchange spi b d)) [cmd ! 0, cmd ! 1, cmd ! 2, cmd ! 3] d)"
proof -
  have "n + 4 = Suc (Suc (Suc (Suc n)))" by simp
  then show ?thesis by (simp add: case_prod_beta numeral_eq_Suc)
qed

lemma write_turns_command:
  "write_turns spi cmd bs 0 (n + 4) d
    = write_turns spi cmd bs 4 n (fold (\<lambda>b d. snd (spi_exchange spi b d)) [cmd ! 0, cmd ! 1, cmd ! 2, cmd ! 3] d)"
proof -
  have "n + 4 = Suc (Suc (Suc (Suc n)))" by simp
  then show ?thesis by (simp add: numeral_eq_Suc)
qed

text \<open>The command bytes only fill the frame.\<close>

lemma chip_command:
  assumes "chip_frame c = []"
  shows "fold (\<lambda>b d. snd (chip_exchange b d)) [fram_command opc a ! 0, fram_command opc a ! 1,
      fram_command opc a ! 2, fram_command opc a ! 3] c = c\<lparr>chip_frame := fram_command opc a\<rparr>"
  using assms by (simp add: fram_command_def chip_exchange_def Let_def numeral_2_eq_2 numeral_3_eq_3)

lemma chip_read_turns:
  assumes "unat a < 2 ^ 24" "chip_frame c = fram_command READ_OP_REG a @ bs"
    and "unat a + length bs + n \<le> CHIP_SIZE" "4 \<le> idx" "length (chip_mem c) = CHIP_SIZE"
  shows "\<exists>fr. read_turns chip_bus cmd idx n c
    = (buf_read (chip_mem c) (unat a + length bs) n, c\<lparr>chip_frame := fr\<rparr>)
      \<and> hd fr = READ_OP_REG \<and> fr \<noteq> []"
  using assms(2-)
proof (induction n arbitrary: bs c idx)
  case 0
  then show ?case
    by (intro exI [of _ "chip_frame c"]) (simp add: buf_read_def fram_command_def)
next
  case (Suc n)
  have adr: "frame_address (chip_frame c) = unat a + length bs"
    by (simp only: Suc.prems(1) command_address [OF assms(1)])
  let ?c = "c\<lparr>chip_frame := fram_command READ_OP_REG a @ bs @ [0]\<rparr>"
  have x: "chip_exchange 0 c = (chip_mem c ! (unat a + length bs), ?c)"
    using Suc.prems adr by (simp add: chip_exchange_def Let_def fram_command_def READ_OP_REG_def)
  obtain fr where fr: "read_turns chip_bus cmd (Suc idx) n ?c
      = (buf_read (chip_mem c) (unat a + length (bs @ [0])) n, ?c\<lparr>chip_frame := fr\<rparr>)"
      "hd fr = READ_OP_REG \<and> fr \<noteq> []"
    using Suc.IH [of ?c "bs @ [0]" "Suc idx"] Suc.prems by auto
  have "buf_read (chip_mem c) (unat a + length bs) (Suc n)
      = chip_mem c ! (unat a + length bs) # buf_read (chip_mem c) (unat a + length (bs @ [0])) n"
    using Suc.prems by (simp add: buf_read_def flip: Cons_nth_drop_Suc)
  then show ?case using x fr Suc.prems(3)
    by (intro exI [of _ fr]) (simp add: chip_bus_def)
qed

lemma buf_write_Cons:
  assumes "off < length m"
  shows "buf_write (m[off := b]) (Suc off) bs = buf_write m off (b # bs)"
  using assms by (simp add: buf_write_def take_Suc_conv_app_nth)

lemma chip_write_turns:
  assumes "unat a < 2 ^ 24" "chip_frame c = fram_command WRITE_OP_REG a @ bs" "chip_wel c"
    and "unat a + length bs + length send \<le> CHIP_SIZE" "4 \<le> idx" "length (chip_mem c) = CHIP_SIZE"
  shows "\<exists>fr. write_turns chip_bus cmd send idx (length send) c
    = c\<lparr>chip_mem := buf_write (chip_mem c) (unat a + length bs) send, chip_frame := fr\<rparr>"
  using assms(2-)
proof (induction send arbitrary: bs c idx)
  case Nil
  then show ?case by (intro exI [of _ "chip_frame c"]) (simp add: buf_write_def)
next
  case (Cons b send)
  have adr: "frame_address (chip_frame c) = unat a + length bs"
    by (simp only: Cons.prems(1) command_address [OF assms(1)])
  let ?p = "unat a + length bs"
  let ?c = "c\<lparr>chip_frame := fram_command WRITE_OP_REG a @ bs @ [b], chip_mem := (chip_mem c)[?p := b]\<rparr>"
  have x: "snd (chip_exchange b c) = ?c"
    using Cons.prems adr by (simp add: chip_exchange_def Let_def fram_command_def WRITE_OP_REG_def)
  obtain fr where fr: "write_turns chip_bus cmd send (Suc idx) (length send) ?c
      = ?c\<lparr>chip_mem := buf_write (chip_mem ?c) (unat a + length (bs @ [b])) send, chip_frame := fr\<rparr>"
    using Cons.IH [of ?c "bs @ [b]" "Suc idx"] Cons.prems by auto
  then show ?case using x Cons.prems
    by (intro exI [of _ fr]) (simp add: chip_bus_def buf_write_Cons)
qed

lemma chip_select_frame [simp]: "chip_frame (chip_select c) = []" "chip_mem (chip_select c) = chip_mem c"
  by (simp_all add: chip_select_def)

lemma no_os_read:
  assumes "chip_valid c" "unat a + length b \<le> CHIP_SIZE"
  shows "\<exists>c'. fram_read_no_os_blocking chip_bus a b c = ((0, buf_read (chip_mem c) (unat a) (length b)), c')
    \<and> chip_mem c' = chip_mem c"
proof -
  have a: "unat a < 2 ^ 24" using assms(2) by (simp add: CHIP_SIZE_def)
  let ?c = "(chip_select c)\<lparr>chip_frame := fram_command READ_OP_REG a\<rparr>"
  have "read_turns chip_bus (fram_command READ_OP_REG a) 0 (length b + 4) (chip_select c)
      = read_turns chip_bus (fram_command READ_OP_REG a) 4 (length b) ?c"
    using read_turns_command [of chip_bus "fram_command READ_OP_REG a" "length b" "chip_select c"]
      chip_command [of "chip_select c" READ_OP_REG a] by (simp add: chip_bus_def)
  moreover obtain fr where "read_turns chip_bus (fram_command READ_OP_REG a) 4 (length b) ?c
      = (buf_read (chip_mem c) (unat a) (length b), ?c\<lparr>chip_frame := fr\<rparr>)"
    using chip_read_turns [OF a, of ?c "[]" "length b" 4] assms by (auto simp: chip_valid_def)
  ultimately show ?thesis by (simp add: fram_read_no_os_blocking_def Let_def chip_bus_def)
qed

lemma no_os_write:
  assumes "chip_valid c" "unat a + length b \<le> CHIP_SIZE"
  shows "\<exists>c'. fram_write_no_os_blocking chip_bus b a c = (0, c')
    \<and> chip_mem c' = buf_write (chip_mem c) (unat a) b"
proof -
  have a: "unat a < 2 ^ 24" using assms(2) by (simp add: CHIP_SIZE_def)
  let ?w = "chip_select (snd (chip_exchange WRITE_ENB_LATCH (chip_select c)))"
  have w: "chip_wel ?w" "chip_mem ?w = chip_mem c"
    by (simp_all add: chip_select_def chip_exchange_def Let_def WRITE_ENB_LATCH_def)
  let ?c = "?w\<lparr>chip_frame := fram_command WRITE_OP_REG a\<rparr>"
  have "write_turns chip_bus (fram_command WRITE_OP_REG a) b 0 (length b + 4) ?w
      = write_turns chip_bus (fram_command WRITE_OP_REG a) b 4 (length b) ?c"
    using write_turns_command [of chip_bus "fram_command WRITE_OP_REG a" b "length b" ?w]
      chip_command [of ?w WRITE_OP_REG a] by (simp add: chip_bus_def)
  moreover obtain fr where "write_turns chip_bus (fram_command WRITE_OP_REG a) b 4 (length b) ?c
      = ?c\<lparr>chip_mem := buf_write (chip_mem c) (unat a) b, chip_frame := fr\<rparr>"
    using chip_write_turns [OF a, of ?c "[]" b 4] assms w by (auto simp: chip_valid_def)
  ultimately show ?thesis by (simp add: fram_write_no_os_blocking_def Let_def chip_bus_def)
qed

interpretation noos: fram_reliable "no_os_hal chip_bus" chip_mem chip_valid
proof unfold_locales
  fix d a b r b' d'
  show "chip_valid d \<Longrightarrow> unat FRAM_END_ADDR < length (chip_mem d)"
    by (simp add: chip_valid_def CHIP_SIZE_def FRAM_END_ADDR_def)
  show "chip_valid d' \<and> chip_mem d' = chip_mem d \<and> length b' = length b \<and>
      (r = 0 \<longrightarrow> b' = buf_read (chip_mem d) (unat a) (length b))"
    if "chip_valid d" "unat a + length b \<le> length (chip_mem d)"
      "FRAM_read (no_os_hal chip_bus) a b d = ((r, b'), d')"
    using no_os_read [of d a b] that by (auto simp: no_os_hal_def chip_valid_def buf_simps)
  show "chip_valid d' \<and> (\<exists>b'. length b' = length b \<and> chip_mem d' = buf_write (chip_mem d) (unat a) b'
      \<and> (r = 0 \<longrightarrow> b' = b))"
    if "chip_valid d" "unat a + length b \<le> length (chip_mem d)"
      "FRAM_writeAndVerify (no_os_hal chip_bus) b a d = (r, d')"
    using no_os_write [of d a b] that by (auto simp: no_os_hal_def chip_valid_def buf_simps)
  show "fst (fst (FRAM_read (no_os_hal chip_bus) a b d)) = 0"
    if "chip_valid d" "unat a + length b \<le> length (chip_mem d)"
    using no_os_read [of d a b] that by (auto simp: no_os_hal_def chip_valid_def)
  show "fst (FRAM_writeAndVerify (no_os_hal chip_bus) b a d) = 0"
    if "chip_valid d" "unat a + length b \<le> length (chip_mem d)"
    using no_os_write [of d a b] that by (auto simp: no_os_hal_def chip_valid_def)
qed

end
