(* ===== verification/FramDma.thy ===== *)
theory FramDma
  imports FramNoOs SpiBlocking
begin

text \<open>
  The interrupt driven part of the FRAM driver (\<open>FRAMNoOs.c\<close>) and of its API (\<open>FRAMApiNoOs.c\<close>): start
  with blocking transfers, then reads and writes as two DMA transfers, the command and the data. The
  buffers of the callers are pointers here, since the data arrives after the functions have returned.
\<close>

section \<open>The driver\<close>

record 'd fram_driver =
  user_fram_callback :: nat
  callback_user_args :: nat
  fram_started :: bool
  cmd_buf :: bytes
  spi_g :: spi_globals
  wire_dev :: 'd

text \<open>The pointers of the driver: its command buffer, and \<open>internal_cb\<close> as callback.\<close>

definition CMD_BUF :: spi_ptr where "CMD_BUF = USER_BUF 0"
definition internal_cb :: nat where "internal_cb = 1"
definition AT91C_AIC_PRIOR_HIGHEST :: u8 where "AT91C_AIC_PRIOR_HIGHEST = 7"

definition fram_assign_callback :: "nat \<Rightarrow> nat \<Rightarrow> 'd fram_driver \<Rightarrow> 'd fram_driver" where
  "fram_assign_callback callback args s = s\<lparr>user_fram_callback := callback, callback_user_args := args\<rparr>"

definition internal_fram_callback ::
    "At91SpiBuses \<Rightarrow> At91TransferStates \<Rightarrow> nat \<Rightarrow> 'd fram_driver \<Rightarrow> (nat \<times> At91SpiBuses \<times> At91TransferStates \<times> nat) option" where
  "internal_fram_callback bus state args s =
     (if user_fram_callback s \<noteq> 0 then Some (user_fram_callback s, bus, state, args) else None)"

text \<open>A blocking transfer on the bus of the FRAM; the received bytes are not used.\<close>

definition fram_blocking ::
    "u32 \<Rightarrow> 'd spi_wire \<Rightarrow> u32 \<Rightarrow> bytes \<Rightarrow> 'd fram_driver \<Rightarrow> (int \<times> 'd fram_driver) option" where
  "fram_blocking mck w max_block_cycles bs s =
     (case at91_spi_blocking_transfer_non_interrupt mck w max_block_cycles SPI_BUS_0 0 (Some bs)
             (Some (replicate (length bs) 0)) (word_of_nat (length bs)) (spi_g s, wire_dev s) of
        None \<Rightarrow> None
      | Some ((retval, _), g, d) \<Rightarrow> Some (retval, s\<lparr>spi_g := g, wire_dev := d\<rparr>))"

definition enable_writes ::
    "u32 \<Rightarrow> 'd spi_wire \<Rightarrow> u32 \<Rightarrow> 'd fram_driver \<Rightarrow> (int \<times> 'd fram_driver) option" where
  "enable_writes mck w max_block_cycles = fram_blocking mck w max_block_cycles [WRITE_ENB_LATCH]"

definition fram_start_no_os ::
    "u32 \<Rightarrow> 'd spi_wire \<Rightarrow> u32 \<Rightarrow> nat \<Rightarrow> nat \<Rightarrow> u8 \<Rightarrow> 'd fram_driver \<Rightarrow> (int \<times> 'd fram_driver) option" where
  "fram_start_no_os mck w max_block_cycles callback callback_args interrupt_priority s =
     (if callback = 0 then Some (- 1, s)
      else if interrupt_priority > AT91C_AIC_PRIOR_HIGHEST then Some (- 1, s)
      else case at91_spi_configure_driver mck SPI_BUS_0 0 SPI_MODE_0 8256000 10 1 0 (spi_g s) of
        (retval, g) \<Rightarrow>
          if retval \<noteq> 0 then Some (retval, s\<lparr>spi_g := g\<rparr>)
          else case at91_spi_configure_non_blocking_driver SPI_BUS_0 g of
            (retval, g) \<Rightarrow>
              if retval \<noteq> 0 then Some (retval, s\<lparr>spi_g := g\<rparr>)
              else case enable_writes mck w max_block_cycles (s\<lparr>spi_g := g\<rparr>) of
                None \<Rightarrow> None
              | Some (retval, s) \<Rightarrow>
                  if retval \<noteq> 0 then Some (retval, s)
                  else case fram_blocking mck w max_block_cycles [WRITE_CFG, 0] s of
                    None \<Rightarrow> None
                  | Some (retval, s) \<Rightarrow>
                      if retval \<noteq> 0 then Some (- 2, s)
                      else Some (0, (fram_assign_callback callback callback_args s)\<lparr>fram_started := True\<rparr>))"

text \<open>The command and then the data: \<open>send\<close> and \<open>recv\<close> are the pointers of the second transfer.\<close>

definition fram_two_transfers ::
    "u32 \<Rightarrow> bytes \<Rightarrow> spi_ptr \<Rightarrow> spi_ptr \<Rightarrow> u32 \<Rightarrow> 'd fram_driver \<Rightarrow> int \<times> 'd fram_driver" where
  "fram_two_transfers mck command send recv len s =
     (case at91_spi_non_blocking_transfer mck SPI_BUS_0 0 CMD_BUF NULL 4 internal_cb
             (callback_user_args s) False (spi_g s) of
        (retval, g) \<Rightarrow>
          let s = s\<lparr>cmd_buf := command, spi_g := g\<rparr> in
          if retval \<noteq> 0 then (retval, s)
          else (0, s\<lparr>spi_g := at91_add_second_transfer send recv len g\<rparr>))"

definition fram_read_no_os ::
    "u32 \<Rightarrow> spi_ptr \<Rightarrow> u32 \<Rightarrow> u32 \<Rightarrow> 'd fram_driver \<Rightarrow> int \<times> 'd fram_driver" where
  "fram_read_no_os mck rec_buf address len s =
     (if address + len > FRAM_END_ADDR \<or> \<not> fram_started s then (- 1, s)
      else fram_two_transfers mck (fram_command READ_OP_REG address) NULL rec_buf len s)"

definition fram_write_no_os ::
    "u32 \<Rightarrow> 'd spi_wire \<Rightarrow> u32 \<Rightarrow> spi_ptr \<Rightarrow> u32 \<Rightarrow> u32 \<Rightarrow> 'd fram_driver \<Rightarrow> (int \<times> 'd fram_driver) option" where
  "fram_write_no_os mck w max_block_cycles send_buf address len s =
     (if address + len > FRAM_END_ADDR then Some (- 1, s)
      else case enable_writes mck w max_block_cycles s of
        None \<Rightarrow> None
      | Some (retval, s) \<Rightarrow>
          if retval \<noteq> 0 then Some (retval, s)
          else Some (fram_two_transfers mck (fram_command WRITE_OP_REG address) send_buf NULL len s))"

definition fram_stop_no_os :: "'d fram_driver \<Rightarrow> int \<times> 'd fram_driver" where
  "fram_stop_no_os s = (case at91_stop_driver SPI_BUS_0 (spi_g s) of (retval, g) \<Rightarrow> (retval, s\<lparr>spi_g := g\<rparr>))"

section \<open>The API\<close>

text \<open>A result pointer of the caller is \<open>NULL\<close> where the code tests for it.\<close>

definition fram_no_os_read_critical_block ::
    "u32 \<Rightarrow> spi_ptr \<Rightarrow> u32 \<Rightarrow> 'd fram_driver \<Rightarrow> int \<times> 'd fram_driver" where
  "fram_no_os_read_critical_block mck buffer max_size s =
     (if max_size < word_of_nat (struct_size CriticalDataBlock) then (- 3, s)
      else fram_read_no_os mck buffer CRITICAL_BLOCK_START_ADDR (word_of_nat (struct_size CriticalDataBlock)) s)"

definition fram_no_os_read_bootloader_block_raw ::
    "u32 \<Rightarrow> spi_ptr \<Rightarrow> u32 \<Rightarrow> 'd fram_driver \<Rightarrow> int \<times> 'd fram_driver" where
  "fram_no_os_read_bootloader_block_raw mck buff max_size s =
     (if max_size > word_of_nat (struct_size BootloaderGroup) then (- 1, s)
      else fram_read_no_os mck buff BL_GROUP_ADDR (word_of_nat (struct_size BootloaderGroup)) s)"

definition fram_no_os_read_bootloader_block ::
    "u32 \<Rightarrow> spi_ptr \<Rightarrow> 'd fram_driver \<Rightarrow> int \<times> 'd fram_driver" where
  "fram_no_os_read_bootloader_block mck bl_info =
     fram_read_no_os mck bl_info BL_GROUP_ADDR (word_of_nat (struct_size BootloaderGroup))"

definition fram_no_os_increment_img_reboot_counter ::
    "u32 \<Rightarrow> 'd spi_wire \<Rightarrow> u32 \<Rightarrow> SlotType \<Rightarrow> spi_ptr \<Rightarrow> 'd fram_driver \<Rightarrow> (int \<times> 'd fram_driver) option" where
  "fram_no_os_increment_img_reboot_counter mck w max_block_cycles slotType new_reboot_counter =
     fram_write_no_os mck w max_block_cycles new_reboot_counter (determine_img_reboot_counter_addr slotType) 2"

definition fram_no_os_read_img_reboot_counter ::
    "u32 \<Rightarrow> SlotType \<Rightarrow> spi_ptr \<Rightarrow> 'd fram_driver \<Rightarrow> int \<times> 'd fram_driver" where
  "fram_no_os_read_img_reboot_counter mck slotType reboot_counter s =
     (if reboot_counter = NULL then (- 3, s)
      else fram_read_no_os mck reboot_counter (determine_img_reboot_counter_addr slotType) 2 s)"

definition fram_no_os_read_binary_size ::
    "u32 \<Rightarrow> SlotType \<Rightarrow> spi_ptr \<Rightarrow> 'd fram_driver \<Rightarrow> int \<times> 'd fram_driver" where
  "fram_no_os_read_binary_size mck slotType binary_size s =
     (if binary_size = NULL then (- 4, s)
      else let address = determine_binary_size_address slotType in
        if address = 0 then (- 4, s) else fram_read_no_os mck binary_size address 4 s)"

definition fram_no_os_read_ham_size ::
    "u32 \<Rightarrow> SlotType \<Rightarrow> spi_ptr \<Rightarrow> 'd fram_driver \<Rightarrow> int \<times> 'd fram_driver" where
  "fram_no_os_read_ham_size mck slotType ham_size s =
     (if ham_size = NULL then (- 3, s)
      else let ham_size_addr = determine_ham_size_address slotType in
        if ham_size_addr = 0 then (- 4, s) else fram_read_no_os mck ham_size ham_size_addr 4 s)"

text \<open>\<open>buffer\<close> is the address of the caller's buffer.\<close>

definition fram_no_os_read_ham_code ::
    "u32 \<Rightarrow> SlotType \<Rightarrow> nat \<Rightarrow> u32 \<Rightarrow> u32 \<Rightarrow> u32 \<Rightarrow> 'd fram_driver \<Rightarrow> int \<times> 'd fram_driver" where
  "fram_no_os_read_ham_code mck slotType buffer max_buffer current_offset size_to_read s =
     (case fram_no_os_read_ham_checks slotType max_buffer current_offset size_to_read of
        Inl retval \<Rightarrow> (retval, s)
      | Inr address \<Rightarrow> fram_read_no_os mck (USER_BUF (buffer + unat current_offset)) address size_to_read s)"


section \<open>The chip behind the wire\<close>

text \<open>
  The chip with a peripheral that needs three polls for a byte. It is a slave as the blocking
  transfer expects it.
\<close>

record chip_wire =
  wchip :: fram_chip
  wrdr :: u8
  wfull :: bool
  wbusy :: nat

definition chip_spi :: "chip_wire spi_wire" where
  "chip_spi = \<lparr>begin_frame = (\<lambda>d. d\<lparr>wchip := chip_select (wchip d)\<rparr>),
     read_SR = (\<lambda>d. if wbusy d > 0 then (0, d\<lparr>wbusy := wbusy d - 1\<rparr>)
       else (if wfull d then AT91C_SPI_TXEMPTY OR AT91C_SPI_RDRF else AT91C_SPI_TXEMPTY, d)),
     read_RDR = (\<lambda>d. (ucast (wrdr d), d\<lparr>wfull := False\<rparr>)),
     write_TDR = (\<lambda>b d. case chip_exchange b (wchip d) of
       (r, c) \<Rightarrow> d\<lparr>wchip := c, wrdr := r, wfull := True, wbusy := 3\<rparr>)\<rparr>"

lemma chip_flags:
  "AT91C_SPI_TXEMPTY AND AT91C_SPI_TXEMPTY \<noteq> 0" "(AT91C_SPI_TXEMPTY OR AT91C_SPI_RDRF) AND AT91C_SPI_TXEMPTY \<noteq> 0"
  "(AT91C_SPI_TXEMPTY OR AT91C_SPI_RDRF) AND AT91C_SPI_RDRF \<noteq> 0"
  by (simp_all add: AT91C_SPI_TXEMPTY_def AT91C_SPI_RDRF_def)

lemma ucast_u32_u8: "ucast (ucast r :: u32) = (r :: u8)"
  by (rule bit_eqI) (simp add: bit_ucast_iff)

interpretation chip: spi_slave chip_spi chip_exchange chip_select wchip "\<lambda>d. wbusy d = 0" 3
proof unfold_locales
  fix d :: chip_wire and b :: u8
  assume i: "wbusy d = 0"
  show "wbusy (begin_frame chip_spi d) = 0 \<and> wchip (begin_frame chip_spi d) = chip_select (wchip d)"
    using i by (simp add: chip_spi_def)
  show "\<exists>k d'. k \<le> 3 \<and> ready_after chip_spi AT91C_SPI_TXEMPTY k d = Some d' \<and> wbusy d' = 0 \<and> wchip d' = wchip d"
    using i chip_flags by (intro exI [of _ 0] exI [of _ d]) (simp add: chip_spi_def)
  show "wbusy (snd (read_RDR chip_spi d)) = 0 \<and> wchip (snd (read_RDR chip_spi d)) = wchip d"
    using i by (simp add: chip_spi_def)
  obtain r c where x: "chip_exchange b (wchip d) = (r, c)" by (metis prod.exhaust)
  let ?d = "d\<lparr>wchip := c, wrdr := r, wfull := True, wbusy := 0\<rparr>"
  have "ready_after chip_spi AT91C_SPI_RDRF 3 (write_TDR chip_spi b d) = Some ?d"
    using chip_flags x by (simp add: chip_spi_def numeral_3_eq_3)
  moreover have "read_RDR chip_spi ?d = (ucast r, ?d\<lparr>wfull := False\<rparr>)" by (simp add: chip_spi_def)
  ultimately show "\<exists>k d' r d''. k \<le> 3 \<and> ready_after chip_spi AT91C_SPI_RDRF k (write_TDR chip_spi b d) = Some d' \<and>
      read_RDR chip_spi d' = (r, d'') \<and> wbusy d'' = 0 \<and> chip_exchange b (wchip d) = (ucast r, wchip d'')"
    using x ucast_u32_u8 [of r]
    by - (rule exI [of _ 3], rule exI [of _ ?d], rule exI [of _ "ucast r"], rule exI [of _ "?d\<lparr>wfull := False\<rparr>"], simp)
qed

section \<open>Start and read\<close>

definition frame :: "(u8 \<Rightarrow> 'c \<Rightarrow> u8 \<times> 'c) \<Rightarrow> ('c \<Rightarrow> 'c) \<Rightarrow> bytes \<Rightarrow> 'c \<Rightarrow> 'c" where
  "frame exch sel bs c = snd (exchanges exch bs (sel c))"

text \<open>What a blocking transfer leaves of the state of the driver.\<close>

definition bus_ready :: "spi_globals \<Rightarrow> bool" where
  "bus_ready g \<longleftrightarrow> bus_0_active g \<and> bus_0_aic_configured g"

lemma fram_blocking_ok:
  assumes "spi_slave w exch sel view idle lat" "idle (wire_dev s)" "2 * lat < unat m"
    and "bus_ready (spi_g s)" "bs \<noteq> []" "length bs < 2 ^ 32"
  shows "\<exists>g d. fram_blocking mck w m bs s = Some (0, s\<lparr>spi_g := g, wire_dev := d\<rparr>) \<and>
    idle d \<and> view d = frame exch sel bs (view (wire_dev s)) \<and> bus_ready g"
proof -
  have n: "(word_of_nat (length bs) :: u32) \<noteq> 0" "unat (word_of_nat (length bs) :: u32) = length bs"
    using assms(5,6) by (auto simp: unat_of_nat take_bit_nat_eq_self unat_eq_zero [symmetric])
  obtain d where d: "blocking_data w m bs (wire_dev s) = ((0, fst (exchanges exch bs (sel (view (wire_dev s))))), d)"
      "idle d" "view d = frame exch sel bs (view (wire_dev s))"
    using spi_slave.data_exchanged [OF assms(1-3)] by (metis frame_def)
  let ?g0 = "spi_g s"
  let ?g1 = "if current_internal_mode ?g0 = DMA
    then (at91_internal_spi_reset mck SPI_BUS_0 0 ?g0)\<lparr>current_internal_mode := BLOCKING\<rparr> else ?g0"
  let ?g = "at91_select_npcs SPI_BUS_0 0 ?g1"
  have "bus_ready ?g" using assms(4)
    by (simp add: bus_ready_def at91_select_npcs_def at91_internal_spi_reset_def Let_def)
  moreover have "fram_blocking mck w m bs s = Some (0, s\<lparr>spi_g := ?g, wire_dev := d\<rparr>)"
    using assms(4) n d(1)
    by (simp add: fram_blocking_def at91_spi_blocking_transfer_non_interrupt_def bus_ready_def
        at91_get_drv_handle_def Let_def)
  ultimately show ?thesis using d by blast
qed

lemma configure_ready:
  "fst (at91_spi_configure_driver mck SPI_BUS_0 0 SPI_MODE_0 f a b c g) = 0"
  "bus_0_active (snd (at91_spi_configure_driver mck SPI_BUS_0 0 SPI_MODE_0 f a b c g))"
  "bus_0_active g \<Longrightarrow> fst (at91_spi_configure_non_blocking_driver SPI_BUS_0 g) = 0"
  "bus_0_active g \<Longrightarrow> bus_ready (snd (at91_spi_configure_non_blocking_driver SPI_BUS_0 g))"
  by (simp_all add: at91_spi_configure_driver_def at91_get_drv_handle_def set_csr_def Let_def
      at91_spi_configure_non_blocking_driver_def bus_ready_def)

lemma fram_start_ok:
  assumes "spi_slave w exch sel view idle lat" "idle (wire_dev s)" "2 * lat < unat m"
    and "callback \<noteq> 0" "prio \<le> AT91C_AIC_PRIOR_HIGHEST"
  shows "\<exists>s'. fram_start_no_os mck w m callback args prio s = Some (0, s') \<and>
    idle (wire_dev s') \<and>
    view (wire_dev s') = frame exch sel [WRITE_CFG, 0] (frame exch sel [WRITE_ENB_LATCH] (view (wire_dev s))) \<and>
    bus_ready (spi_g s') \<and> fram_started s' \<and> user_fram_callback s' = callback \<and> callback_user_args s' = args"
proof -
  obtain g1 where g1: "at91_spi_configure_driver mck SPI_BUS_0 0 SPI_MODE_0 8256000 10 1 0 (spi_g s) = (0, g1)"
      "bus_0_active g1"
    using configure_ready(1,2) by (metis prod.collapse)
  obtain g2 where g2: "at91_spi_configure_non_blocking_driver SPI_BUS_0 g1 = (0, g2)" "bus_ready g2"
    using configure_ready(3,4) [OF g1(2)] by (metis prod.collapse)
  let ?s = "s\<lparr>spi_g := g2\<rparr>"
  have st: "idle (wire_dev ?s)" "bus_ready (spi_g ?s)" using assms(2) g2 by simp_all
  obtain g3 d3 where e: "fram_blocking mck w m [WRITE_ENB_LATCH] ?s = Some (0, ?s\<lparr>spi_g := g3, wire_dev := d3\<rparr>)"
      "idle d3" "view d3 = frame exch sel [WRITE_ENB_LATCH] (view (wire_dev s))" "bus_ready g3"
    using fram_blocking_ok [OF assms(1) st(1) assms(3) st(2), of "[WRITE_ENB_LATCH]" mck] by auto
  let ?t = "?s\<lparr>spi_g := g3, wire_dev := d3\<rparr>"
  have tt: "idle (wire_dev ?t)" "bus_ready (spi_g ?t)" using e by simp_all
  obtain g4 d4 where f: "fram_blocking mck w m [WRITE_CFG, 0] ?t = Some (0, ?t\<lparr>spi_g := g4, wire_dev := d4\<rparr>)"
      "idle d4" "view d4 = frame exch sel [WRITE_CFG, 0] (view d3)" "bus_ready g4"
    using fram_blocking_ok [OF assms(1) tt(1) assms(3) tt(2), of "[WRITE_CFG, 0]" mck] by auto
  show ?thesis
    using assms(4,5) g1(1) g2(1) e f
    by (simp add: fram_start_no_os_def enable_writes_def fram_assign_callback_def not_less)
qed

text \<open>The registers of two queued transfers.\<close>

definition two_transfers_queued :: "spi_ptr \<Rightarrow> spi_ptr \<Rightarrow> u32 \<Rightarrow> spi_globals \<Rightarrow> bool" where
  "two_transfers_queued send recv len g \<longleftrightarrow>
     SPI_TPR (spi0 g) = CMD_BUF \<and> SPI_TCR (spi0 g) = 4 \<and> SPI_RPR (spi0 g) = DUMMY_BUF \<and> SPI_RCR (spi0 g) = 4 \<and>
     SPI_TNPR (spi0 g) = (if send = NULL then DUMMY_BUF else send) \<and>
     SPI_TNCR (spi0 g) = (if send = NULL then min len SPI_DUMMY_BUFFER_SIZE else len) \<and>
     SPI_RNPR (spi0 g) = (if recv = NULL then DUMMY_BUF else recv) \<and>
     SPI_RNCR (spi0 g) = (if recv = NULL then min len SPI_DUMMY_BUFFER_SIZE else len) \<and>
     TXTEN (spi0 g) \<and> RXTEN (spi0 g) \<and> AT91C_ID_SPI0 \<in> aic_enabled g \<and>
     user_callback_bus_0 g = internal_cb"

lemma fram_two_transfers_ok:
  assumes "bus_ready (spi_g s)"
  shows "\<exists>g. fram_two_transfers mck cmd send recv len s = (0, s\<lparr>cmd_buf := cmd, spi_g := g\<rparr>) \<and>
    two_transfers_queued send recv len g \<and> user_args_bus_0 g = callback_user_args s"
proof -
  obtain g1 where nb: "at91_spi_non_blocking_transfer mck SPI_BUS_0 0 CMD_BUF NULL 4 internal_cb
      (callback_user_args s) False (spi_g s) = (0, g1)"
      "current_drv g1 = Some SPI_BUS_0" "current_spi_id g1 = AT91C_ID_SPI0"
      "SPI_TPR (spi0 g1) = CMD_BUF" "SPI_TCR (spi0 g1) = 4" "SPI_RPR (spi0 g1) = DUMMY_BUF" "SPI_RCR (spi0 g1) = 4"
      "user_callback_bus_0 g1 = internal_cb" "user_args_bus_0 g1 = callback_user_args s"
    using assms
    by (simp add: at91_spi_non_blocking_transfer_def bus_ready_def CMD_BUF_def at91_get_drv_handle_def Let_def
        at91_select_npcs_def at91_internal_spi_reset_def set_first_transfer_def SPI_DUMMY_BUFFER_SIZE_def
        reset_dma_regs_def)
  let ?g = "at91_add_second_transfer send recv len g1"
  have "two_transfers_queued send recv len ?g \<and> user_args_bus_0 ?g = callback_user_args s"
    using nb(2-)
    by (auto simp: two_transfers_queued_def at91_add_second_transfer_def at91_start_non_blocking_transfer_def Let_def
        AT91C_ID_SPI0_def min_def)
  then show ?thesis using nb(1) by (intro exI [of _ ?g]) (simp add: fram_two_transfers_def)
qed


section \<open>Properties\<close>

text \<open>
  C27. A blocking transfer ends, whatever the device does: with a limit of \<open>m > 0\<close> polls, a transfer of
  \<open>n\<close> bytes reads the status register at most \<open>n * m + 1\<close> times.
\<close>
theorem spi_blocking_polls_bounded:
  assumes "at91_spi_blocking_transfer_non_interrupt mck (counted w) m bus npcs send recv len (g, d, n)
      = Some (x, g', d', n')"
    and "0 < m"
  shows "n' \<le> n + unat len * unat m + 1"
  using assms by (rule blocking_transfer_polls)

definition demo_wire :: chip_wire where
  "demo_wire = \<lparr>wchip = \<lparr>chip_mem = [], chip_wel = False, chip_frame = []\<rparr>, wrdr = 0, wfull = False, wbusy = 2\<rparr>"

theorem spi_blocking_polls_bounded_witness:
  "\<exists>x g' d' n'. at91_spi_blocking_transfer_non_interrupt 1 (counted chip_spi) 2 SPI_BUS_0 0 (Some [6]) None 1
      (after_write\<lparr>bus_0_active := True\<rparr>, demo_wire, 0) = Some (x, g', d', n') \<and> n' \<le> 0 + unat (1 :: u32) * unat (2 :: u32) + 1"
proof -
  obtain x g' d' n' where e: "at91_spi_blocking_transfer_non_interrupt 1 (counted chip_spi) 2 SPI_BUS_0 0 (Some [6]) None 1
      (after_write\<lparr>bus_0_active := True\<rparr>, demo_wire, 0) = Some (x, g', d', n')"
    by (cases "blocking_data (counted chip_spi) 2 [6] (demo_wire, 0)")
      (auto simp: at91_spi_blocking_transfer_non_interrupt_def at91_get_drv_handle_def Let_def)
  moreover from spi_blocking_polls_bounded [OF e] have "n' \<le> 0 + unat (1 :: u32) * unat (2 :: u32) + 1" by simp
  ultimately show ?thesis by blast
qed

text \<open>
  C26. Start and read with DMA, on any device that answers within half the limit of polls: the start
  succeeds, and the device has seen one frame that enables writes and one that clears the block
  protection; then every read inside the FRAM is accepted, with the command queued from the command
  buffer and the data into the buffer of the caller, zeros being shifted out in portions of the dummy
  buffer, and the interrupt of the SPI enabled.
\<close>
theorem fram_start_and_read:
  assumes "spi_slave w exch sel view idle lat" and "idle (wire_dev s)" and "2 * lat < unat max_cycles"
    and "callback \<noteq> 0" and "prio \<le> AT91C_AIC_PRIOR_HIGHEST" and "address + len \<le> FRAM_END_ADDR"
  shows "\<exists>s' s''. fram_start_no_os mck w max_cycles callback args prio s = Some (0, s') \<and>
    view (wire_dev s') = frame exch sel [WRITE_CFG, 0] (frame exch sel [WRITE_ENB_LATCH] (view (wire_dev s))) \<and>
    fram_read_no_os mck (USER_BUF rec) address len s' = (0, s'') \<and>
    cmd_buf s'' = fram_command READ_OP_REG address \<and>
    two_transfers_queued NULL (USER_BUF rec) len (spi_g s'') \<and> user_args_bus_0 (spi_g s'') = args"
proof -
  obtain s' where s': "fram_start_no_os mck w max_cycles callback args prio s = Some (0, s')"
      "view (wire_dev s') = frame exch sel [WRITE_CFG, 0] (frame exch sel [WRITE_ENB_LATCH] (view (wire_dev s)))"
      "bus_ready (spi_g s')" "fram_started s'" "callback_user_args s' = args"
    using fram_start_ok [where args = args and mck = mck, OF assms(1-5)] by blast
  obtain g where "fram_two_transfers mck (fram_command READ_OP_REG address) NULL (USER_BUF rec) len s'
      = (0, s'\<lparr>cmd_buf := fram_command READ_OP_REG address, spi_g := g\<rparr>)"
      "two_transfers_queued NULL (USER_BUF rec) len g" "user_args_bus_0 g = args"
    using fram_two_transfers_ok [OF s'(3)] s'(5) by metis
  then show ?thesis using s' assms(6) by (simp add: fram_read_no_os_def not_less)
qed

theorem fram_start_and_read_witness:
  "\<exists>s' s''. fram_start_no_os 1 chip_spi 7 5 9 6 \<lparr>user_fram_callback = 0, callback_user_args = 0, fram_started = False,
      cmd_buf = [], spi_g = after_write, wire_dev = demo_wire\<lparr>wbusy := 0\<rparr>\<rparr> = Some (0, s') \<and>
    fram_read_no_os 1 (USER_BUF 3) 0x3ff00 0xff s' = (0, s'') \<and>
    two_transfers_queued NULL (USER_BUF 3) 0xff (spi_g s'')"
proof -
  let ?s = "\<lparr>user_fram_callback = 0, callback_user_args = 0, fram_started = False,
      cmd_buf = [], spi_g = after_write, wire_dev = demo_wire\<lparr>wbusy := 0\<rparr>\<rparr>"
  have "wbusy (wire_dev ?s) = 0" "2 * 3 < unat (7 :: u32)" "(5 :: nat) \<noteq> 0" "(6 :: u8) \<le> AT91C_AIC_PRIOR_HIGHEST"
      "(0x3ff00 :: u32) + 0xff \<le> FRAM_END_ADDR"
    by (simp_all add: AT91C_AIC_PRIOR_HIGHEST_def FRAM_END_ADDR_def)
  from fram_start_and_read [OF chip.spi_slave_axioms this, of 1 9 3] show ?thesis by blast
qed

end
