(* ===== verification/FramSpec.thy ===== *)
theory FramSpec
  imports FramNoOs
begin

text \<open>
  Properties of the FRAM API (\<open>FRAMApi.c\<close>), of the bootloader's driver (\<open>FRAMNoOs.c\<close>) and of its
  API (\<open>FRAMApiNoOs.c\<close>). The device is any one that obeys the laws of \<open>fram_device\<close>; the instances
  are the driver on the chip.
\<close>

section \<open>Hamming codes in FRAM\<close>

text \<open>A chip to state instances on: erased, but for one byte.\<close>

definition erased_chip :: fram_chip where
  "erased_chip = \<lparr>chip_mem = replicate CHIP_SIZE 0xff, chip_wel = False, chip_frame = []\<rparr>"

lemma erased_chip_valid: "chip_valid erased_chip"
  by (simp add: chip_valid_def erased_chip_def)

context fram_device
begin

lemma clamp_zero_offset: "unat (clamp_ham_size s 0 n) \<le> ham_area_size s"
  by (auto simp: clamp_ham_size_def ham_area_size_def word_le_nat_alt word_less_nat_alt)

lemma ham_area_in_mem:
  assumes "valid d" "determine_ham_code_address s \<noteq> 0" "k \<le> ham_area_size s"
  shows "unat (determine_ham_code_address s) + k \<le> length (mem d)"
proof -
  let ?n = "if s = BOOTLOADER_0 then BOOTLOADER_HAMMING_RESERVED_SIZE else IMAGES_HAMMING_RESERVED_SIZE"
  have "determine_ham_code_address_with_sizecheck s ?n = Inr (determine_ham_code_address s)"
    using assms(2) by (simp add: determine_ham_code_address_with_sizecheck_def Let_def)
  from ham_code_address_bounds [OF this] show ?thesis
    using mem_size [OF assms(1)] assms(3) by (simp add: ham_area_size_def)
qed

lemma ham_size_value_reads:
  assumes "valid d" "fram_read_ham_size_value hal s old d = ((r, v), d')"
  shows "valid d' \<and> mem d' = mem d"
proof -
  have "determine_ham_size_address s = 0 \<or>
      (\<exists>f. determine_ham_size_address s = word_of_nat (cdb_offset f) \<and> cdb_size f = 4)"
    by (cases s)
      (auto simp: determine_ham_size_address_def intro: exI [of _ F_nor_flash_hamming_code_size]
        exI [of _ F_sdc0_image_slot0_hamming_size] exI [of _ F_sdc0_image_slot1_hamming_size]
        exI [of _ F_sdc1_image_slot0_hamming_size] exI [of _ F_sdc1_image_slot1_hamming_size]
        exI [of _ F_bootloader_hamming_code_size])
  then show ?thesis
  proof (elim disjE exE conjE)
    fix f
    assume f: "determine_ham_size_address s = word_of_nat (cdb_offset f)" "cdb_size f = 4"
    obtain r1 b1 d1 where rd: "FRAM_read hal (word_of_nat (cdb_offset f)) (u32_bytes old) d = ((r1, b1), d1)"
      by (metis prod.exhaust)
    show ?thesis
      using read_field [OF assms(1) rd] assms f rd
      by (auto simp: fram_read_ham_size_value_def Let_def length_u32_bytes split: if_splits)
  qed (use assms in \<open>auto simp: fram_read_ham_size_value_def\<close>)
qed

lemma read_ham_code:
  assumes "valid d" "determine_ham_code_address s \<noteq> 0" "unat mx \<le> length buffer"
  shows "\<exists>r b q d'. fram_read_ham_code hal s buffer mx 0 n p d = Some ((r, b, q), d') \<and>
    valid d' \<and> mem d' = mem d \<and> length b = length buffer \<and>
    (r = 0 \<longrightarrow> (\<exists>k \<le> ham_area_size s. (n \<noteq> 0 \<longrightarrow> k = min (unat n) (ham_area_size s)) \<and>
      b = buf_write buffer 0 (buf_read (mem d) (unat (determine_ham_code_address s)) k) \<and>
      q = map_option (\<lambda>_. word_of_nat k) p))"
proof -
  obtain r1 n1 d1 where one: "(if n = 0
      then (case fram_read_ham_size hal 0 s (Some n) None d of ((result, v, _), d) \<Rightarrow> ((result, the v), d))
      else ((0, n), d)) = ((r1, n1), d1)" by (metis prod.exhaust)
  have m1: "valid d1 \<and> mem d1 = mem d \<and> (n \<noteq> 0 \<longrightarrow> n1 = n)"
    using one assms(1) ham_size_value_reads [OF assms(1)]
    by (auto simp: fram_read_ham_size_def split: if_splits prod.splits)
  let ?c = "clamp_ham_size s 0 n1" and ?a = "determine_ham_code_address s"
  have k: "unat ?c \<le> ham_area_size s" by (rule clamp_zero_offset)
  have kn: "n \<noteq> 0 \<longrightarrow> unat ?c = min (unat n) (ham_area_size s)"
    using m1 by (auto simp: clamp_ham_size_def ham_area_size_def word_less_nat_alt)
  show ?thesis
  proof (cases "r1 \<noteq> 0 \<or> ?c > mx")
    case True
    then show ?thesis
      using m1 assms(2) one
      by (auto simp: fram_read_ham_code_def Let_def simp del: split_paired_Ex split: if_splits)
  next
    case False
    then have fits: "unat ?c \<le> length buffer" using assms(3) by (simp add: word_less_nat_alt)
    obtain r2 b2 d2 where rd: "FRAM_read hal ?a (buf_read buffer 0 (unat ?c)) d1 = ((r2, b2), d2)"
      by (metis prod.exhaust)
    have m2: "valid d2 \<and> mem d2 = mem d \<and> length b2 = unat ?c
        \<and> (r2 = 0 \<longrightarrow> b2 = buf_read (mem d) (unat ?a) (unat ?c))"
      using read_law [OF _ _ rd] m1 ham_area_in_mem [OF _ assms(2) k, of d1] fits
      by (auto simp: buf_simps)
    have "fram_read_ham_code hal s buffer mx 0 n p d = Some ((r2, buf_write buffer 0 b2,
        if r2 = 0 then map_option (\<lambda>_. ?c) p else p), d2)"
      using False assms(2) fits one rd by (auto simp: fram_read_ham_code_def Let_def)
    moreover have "(if r2 = 0 then map_option (\<lambda>_. ?c) p else p)
        = (if r2 = 0 then map_option (\<lambda>_. word_of_nat (unat ?c)) p else p)" by simp
    ultimately have res: "fram_read_ham_code hal s buffer mx 0 n p d = Some ((r2, buf_write buffer 0 b2,
        if r2 = 0 then map_option (\<lambda>_. word_of_nat (unat ?c)) p else p), d2)" by (simp only:)
    have len: "length (buf_write buffer 0 b2) = length buffer" using m2 fits by (simp add: buf_simps)
    have "\<exists>k \<le> ham_area_size s. (n \<noteq> 0 \<longrightarrow> k = min (unat n) (ham_area_size s)) \<and>
        buf_write buffer 0 b2 = buf_write buffer 0 (buf_read (mem d) (unat ?a) k) \<and>
        (if r2 = 0 then map_option (\<lambda>_. word_of_nat (unat ?c)) p else p) = map_option (\<lambda>_. word_of_nat k) p"
      if "r2 = 0"
      using k by (rule_tac x = "unat ?c" in exI, intro conjI) (use kn m2 that in \<open>simp_all\<close>)
    then show ?thesis
      unfolding res using m2 len by blast
  qed
qed

end


text \<open>
  C14. Reading the Hamming code of a slot, from the start of the buffer: for every size (0 means the
  stored size) and every outcome of the device, the read stays inside the buffer and leaves the FRAM
  as it is; on success the buffer starts with the code bytes of that slot, at most as many as are
  reserved for it, and the size is reported.
\<close>
theorem fram_read_ham_code_safe:
  assumes "fram_device hal mem valid" and "valid d" and "determine_ham_code_address s \<noteq> 0"
    and "unat max_buffer \<le> length buffer"
  shows "\<exists>r b q d'. fram_read_ham_code hal s buffer max_buffer 0 n p d = Some ((r, b, q), d') \<and>
    valid d' \<and> mem d' = mem d \<and> length b = length buffer \<and>
    (r = 0 \<longrightarrow> (\<exists>k \<le> ham_area_size s. (n \<noteq> 0 \<longrightarrow> k = min (unat n) (ham_area_size s)) \<and>
      b = buf_write buffer 0 (buf_read (mem d) (unat (determine_ham_code_address s)) k) \<and>
      q = map_option (\<lambda>_. word_of_nat k) p))"
  using assms by (rule fram_device.read_ham_code)

theorem fram_read_ham_code_safe_witness:
  "\<exists>r b q d'. fram_read_ham_code (no_os_hal chip_bus) SDC_0_SL_1 (replicate 8 0) 8 0 5 (Some 0) erased_chip
      = Some ((r, b, q), d') \<and>
    chip_valid d' \<and> chip_mem d' = chip_mem erased_chip \<and> length b = length (replicate 8 (0 :: u8)) \<and>
    (r = 0 \<longrightarrow> (\<exists>k \<le> ham_area_size SDC_0_SL_1. ((5 :: u32) \<noteq> 0 \<longrightarrow> k = min (unat (5 :: u32)) (ham_area_size SDC_0_SL_1)) \<and>
      b = buf_write (replicate 8 0) 0
        (buf_read (chip_mem erased_chip) (unat (determine_ham_code_address SDC_0_SL_1)) k) \<and>
      q = map_option (\<lambda>_. word_of_nat k) (Some 0)))"
  using fram_read_ham_code_safe [OF noos.fram_device_axioms erased_chip_valid,
    of SDC_0_SL_1 8 "replicate 8 0" 5 "Some 0"]
  by (simp add: determine_ham_code_address_def hamming_addresses)

text \<open>
  With an offset the check of the buffer size does not protect the buffer: a request that needs
  no clamping and passes \<open>size_to_read > max_buffer\<close> writes outside the buffer exactly when offset
  plus size exceed its length.
\<close>
theorem fram_read_ham_code_offset:
  assumes "determine_ham_code_address s \<noteq> 0" and "n \<noteq> 0" and "n \<le> max_buffer"
    and "unat n + unat off \<le> ham_area_size s"
  shows "fram_read_ham_code hal s buffer max_buffer off n p d = None \<longleftrightarrow>
    length buffer < unat off + unat n"
proof -
  have small: "ham_area_size s < 2 ^ 32"
    by (simp add: ham_area_size_def BOOTLOADER_HAMMING_RESERVED_SIZE_def IMAGES_HAMMING_RESERVED_SIZE_def)
  then have "unat (n + off) = unat n + unat off"
    using assms(4) by (simp add: unat_plus_if')
  then have "clamp_ham_size s off n = n"
    using assms(4) by (auto simp: clamp_ham_size_def ham_area_size_def word_less_nat_alt)
  then show ?thesis
    using assms(1-3)
    by (auto simp: fram_read_ham_code_def Let_def not_less split: prod.splits)
qed

theorem fram_read_ham_code_offset_witness:
  "fram_read_ham_code (no_os_hal chip_bus) FLASH_SLOT (replicate 8 0) 8 4 8 None erased_chip = None \<longleftrightarrow>
    length (replicate 8 (0 :: u8)) < unat (4 :: u32) + unat (8 :: u32)"
  by (rule fram_read_ham_code_offset)
    (simp_all add: determine_ham_code_address_def hamming_addresses ham_area_size_def IMAGES_HAMMING_RESERVED_SIZE_def)

section \<open>Flags and counters\<close>

text \<open>
  C16. When \<open>fram_zero_out_default_zero_fields\<close> returns 0, the members of the critical data block are:
  the flags, sizes and image counters zero, the reboot counter zero if it was erased, the software
  update marked as none but in volume 0, the uninitialised stack byte in the flag of volume 1, and
  every other member, the preferred SD card among them, as it was. On a device whose calls do not
  fail it returns 0.
\<close>
theorem zero_out_default_fields:
  assumes "fram_device hal mem valid" and "valid d" and "length raw = 3"
  shows "(fram_zero_out_default_zero_fields hal raw d = (0, d') \<longrightarrow>
     field_bytes (mem d') f =
     (if f \<in> set zero_fields \<or> f = F_software_update_available then replicate (cdb_size f) 0
      else if f = F_software_update_in_volume_0 then [1]
      else if f = F_software_update_in_volume_1 then [raw ! 2]
      else if f = F_reboot_counter \<and> bytes_u32 (field_bytes (mem d) f) = 0xffffffff then u32_bytes 0
      else field_bytes (mem d) f)) \<and>
    (fram_reliable hal mem valid \<longrightarrow> (\<exists>d'. fram_zero_out_default_zero_fields hal raw d = (0, d')))"
  using fram_device.zero_out_fields [OF assms] fram_reliable.zero_out_succeeds [of hal mem valid d raw] assms(2,3)
  by blast

theorem zero_out_default_fields_witness:
  "\<exists>d'. fram_zero_out_default_zero_fields (no_os_hal chip_bus) [7, 8, 9] erased_chip = (0, d') \<and>
    field_bytes (chip_mem d') F_bootloader_faulty = replicate 4 0 \<and>
    field_bytes (chip_mem d') F_software_update_in_volume_1 = [9]"
proof -
  note t = zero_out_default_fields [OF noos.fram_device_axioms erased_chip_valid, of "[7, 8, 9]"]
  obtain d' where d': "fram_zero_out_default_zero_fields (no_os_hal chip_bus) [7, 8, 9] erased_chip = (0, d')"
    using t noos.fram_reliable_axioms by auto
  then show ?thesis
    using t [of d' F_bootloader_faulty] t [of d' F_software_update_in_volume_1]
    by (auto simp: zero_fields_def)
qed

text \<open>
  C15. Incrementing the reboot counter of an image adds 1 to the 16 bit counter of that image (it
  wraps) and reports the new value; whatever the device returns, no other member changes.
\<close>
theorem increment_img_reboot_counter_spec:
  assumes "fram_device hal mem valid" and "valid d" and "s \<noteq> BOOTLOADER_0" and "s \<noteq> BOOTLOADER_1"
    and "fram_increment_img_reboot_counter hal s p d = ((r, q), d')"
  shows "valid d' \<and> (\<forall>g. g \<noteq> img_counter_field s \<longrightarrow> field_bytes (mem d') g = field_bytes (mem d) g) \<and>
    (r = 0 \<longrightarrow> (let n = bytes_u16 (field_bytes (mem d) (img_counter_field s)) + 1 in
      field_bytes (mem d') (img_counter_field s) = u16_bytes n \<and> q = map_option (\<lambda>_. n) p))"
  using assms by (rule fram_device.increment_img_counter)

theorem increment_img_reboot_counter_spec_witness:
  "\<exists>r q d'. fram_increment_img_reboot_counter (no_os_hal chip_bus) SDC_1_SL_0 (Some 3) erased_chip = ((r, q), d')
    \<and> chip_valid d' \<and> field_bytes (chip_mem d') F_sdc1_image_slot1_reboot_counter
      = field_bytes (chip_mem erased_chip) F_sdc1_image_slot1_reboot_counter"
proof -
  obtain r q d' where e: "fram_increment_img_reboot_counter (no_os_hal chip_bus) SDC_1_SL_0 (Some 3) erased_chip
      = ((r, q), d')" by (metis prod.exhaust)
  from increment_img_reboot_counter_spec [OF noos.fram_device_axioms erased_chip_valid _ _ e] e
  show ?thesis by (auto simp: img_counter_field_def)
qed

text \<open>
  Setting the preferred SD card stores the volume and clears the neighbouring global Hamming
  flag, because four bytes are written to a member of two; every other member is kept.
\<close>
theorem set_preferred_clears_hamming_flag:
  assumes "fram_device hal mem valid" and "valid d" and "fram_set_preferred_sd_card hal v d = (0, d')"
  shows "valid d' \<and> field_bytes (mem d') F_preferred_sd_card = u16_bytes (ucast (VolumeId_value v)) \<and>
    field_bytes (mem d') F_global_hamming_flag = [0, 0] \<and>
    (\<forall>g. g \<noteq> F_preferred_sd_card \<longrightarrow> g \<noteq> F_global_hamming_flag \<longrightarrow>
      field_bytes (mem d') g = field_bytes (mem d) g)"
  using assms by (rule fram_device.set_preferred)

theorem set_preferred_clears_hamming_flag_witness:
  "\<exists>d'. fram_set_preferred_sd_card (no_os_hal chip_bus) SD_CARD_1 erased_chip = (0, d') \<and>
    field_bytes (chip_mem d') F_global_hamming_flag = [0, 0]"
proof -
  obtain d' where "fram_set_preferred_sd_card (no_os_hal chip_bus) SD_CARD_1 erased_chip = (0, d')"
    by (simp add: fram_set_preferred_sd_card_def no_os_hal_def fram_write_no_os_blocking_def Let_def)
  then show ?thesis
    using set_preferred_clears_hamming_flag [OF noos.fram_device_axioms erased_chip_valid] by blast
qed

text \<open>
  A requested software update is found again, with its volume, by the next query, and only by
  that one, if the stack byte that \<open>fram_set_to_load_softwareupdate\<close> leaves uninitialised is zero;
  otherwise both volumes are flagged and the query reports that there is no update.
\<close>
theorem software_update_request:
  assumes "fram_device hal mem valid" and "valid d" and "length raw = 3"
    and "fram_set_to_load_softwareupdate hal raw True v d = (0, d1)" and "length raw' = 3"
    and "fram_get_to_load_softwareupdate hal raw' (Some e) (Some w) d1 = ((0, e', w'), d2)"
  shows "(let other = (if v = SD_CARD_0 then raw ! 2 else raw ! 1) in
      if other = 0 then e' = Some True \<and> w' = Some v else e' = Some False \<and> w' = Some w)
    \<and> valid d2 \<and> field_bytes (mem d2) F_software_update_available = [0]"
  using assms by (rule fram_device.software_update_query)

theorem software_update_request_witness:
  "\<exists>d1 d2. fram_set_to_load_softwareupdate (no_os_hal chip_bus) [0, 0, 0xa5] True SD_CARD_0 erased_chip = (0, d1) \<and>
    fram_get_to_load_softwareupdate (no_os_hal chip_bus) [1, 1, 1] (Some True) (Some SD_CARD_1) d1
      = ((0, Some False, Some SD_CARD_1), d2)"
proof -
  have w0: "\<exists>d'. FRAM_writeAndVerify (no_os_hal chip_bus) b a d = (0, d')" for a b d
    by (simp add: no_os_hal_def fram_write_no_os_blocking_def Let_def)
  have r0: "\<exists>x d'. FRAM_read (no_os_hal chip_bus) a b d = ((0, x), d')" for a b d
    by (simp add: no_os_hal_def fram_read_no_os_blocking_def Let_def split: prod.split)
  obtain d1 where d1: "fram_set_to_load_softwareupdate (no_os_hal chip_bus) [0, 0, 0xa5] True SD_CARD_0 erased_chip
      = (0, d1)"
    using w0 [of "[1, 1, 0xa5]" 64 erased_chip]
    by (auto simp: fram_set_to_load_softwareupdate_def Let_def bool_u8_def)
  obtain x d where x: "FRAM_read (no_os_hal chip_bus) 64 [1, 1, 1] d1 = ((0, x), d)" using r0 by blast
  obtain d' where "FRAM_writeAndVerify (no_os_hal chip_bus) [0, 0, 0] 64 d = (0, d')" using w0 by blast
  with x have "\<exists>e w d2. fram_get_to_load_softwareupdate (no_os_hal chip_bus) [1, 1, 1] (Some True)
      (Some SD_CARD_1) d1 = ((0, e, w), d2)"
    by (simp add: fram_get_to_load_softwareupdate_def Let_def)
  then obtain e w d2 where d2: "fram_get_to_load_softwareupdate (no_os_hal chip_bus) [1, 1, 1] (Some True)
      (Some SD_CARD_1) d1 = ((0, e, w), d2)" by blast
  from software_update_request [OF noos.fram_device_axioms erased_chip_valid _ d1 _ d2] d1 d2
  show ?thesis by auto
qed

text \<open>
  C17. The polling driver on the chip: what \<open>fram_write_no_os_blocking\<close> writes at an address, a later
  \<open>fram_read_no_os_blocking\<close> returns, and a read of any range that does not overlap it returns what
  was there before.
\<close>
theorem no_os_write_read:
  assumes "chip_valid c" and "unat a + length b \<le> CHIP_SIZE" and "unat p + length buf \<le> CHIP_SIZE"
    and "(p = a \<and> length buf = length b) \<or> unat p + length buf \<le> unat a \<or> unat a + length b \<le> unat p"
  shows "\<exists>c' c''. fram_write_no_os_blocking chip_bus b a c = (0, c') \<and> chip_valid c' \<and>
    fram_read_no_os_blocking chip_bus p buf c'
      = ((0, if p = a \<and> length buf = length b then b else buf_read (chip_mem c) (unat p) (length buf)), c'')"
proof -
  obtain c' where w: "fram_write_no_os_blocking chip_bus b a c = (0, c')"
      "chip_mem c' = buf_write (chip_mem c) (unat a) b"
    using no_os_write [OF assms(1,2)] by blast
  then have v: "chip_valid c'" using assms by (simp add: chip_valid_def buf_simps)
  obtain c'' where r: "fram_read_no_os_blocking chip_bus p buf c'
      = ((0, buf_read (chip_mem c') (unat p) (length buf)), c'')"
    using no_os_read [OF v assms(3)] by blast
  have "buf_read (chip_mem c') (unat p) (length buf)
      = (if p = a \<and> length buf = length b then b else buf_read (chip_mem c) (unat p) (length buf))"
    using assms w(2) buf_read_write_same [of "unat a" b "chip_mem c"]
    by (auto simp: chip_valid_def buf_read_write_other)
  then show ?thesis using w v r by auto
qed

theorem no_os_write_read_witness:
  "\<exists>c' c''. fram_write_no_os_blocking chip_bus [1, 2, 3] 0x3fffe erased_chip = (0, c') \<and> chip_valid c' \<and>
    fram_read_no_os_blocking chip_bus 0x3fffe [0, 0, 0] c'
      = ((0, if (0x3fffe :: u32) = 0x3fffe \<and> length [0, 0, 0 :: u8] = length [1, 2, 3 :: u8] then [1, 2, 3]
             else buf_read (chip_mem erased_chip) (unat (0x3fffe :: u32)) (length [0, 0, 0 :: u8])), c'')"
  by (rule no_os_write_read [OF erased_chip_valid]) (simp_all add: CHIP_SIZE_def)

end
