(* ===== verification/SdCard.thy ===== *)
theory SdCard
  imports FramApi "HOL-Library.State_Monad"
begin

text \<open>
  The SD card API of \<open>bsp_sam9g20/common/SDCardApi.c\<close>. The HCC FAT library is closed source: its
  functions are the members of a record, its state is a type variable, and the code is a state
  transformer. A ledger of open files and of the file system is kept beside that state to show which
  functions give back what they take.
\<close>

section \<open>The library\<close>

record F_FIND =
  find_name :: string
  find_pos :: nat

record 'h hcc =
  F_ERR_NOTFORMATTED :: int
  F_ERR_DUPLICATED :: int
  F_ERR_NOTEMPTY :: int
  F_ERR_NOTFOUND :: int
  F_ERR_LOCKED :: int
  F_ATTR_READONLY :: u8
  hcc_mem_init :: "('h, unit) state"
  hcc_mem_delete :: "('h, int) state"
  fs_init :: "('h, int) state"
  fs_delete :: "('h, int) state"
  f_enterFS :: "('h, int) state"
  f_releaseFS :: "('h, unit) state"
  f_initvolume :: "VolumeId \<Rightarrow> ('h, int) state"
  f_format :: "('h, int) state"
  f_delvolume :: "VolumeId \<Rightarrow> ('h, int) state"
  f_chdir :: "string \<Rightarrow> ('h, int) state"
  f_mkdir :: "string \<Rightarrow> ('h, int) state"
  f_rmdir :: "string \<Rightarrow> ('h, int) state"
  f_delete :: "string \<Rightarrow> ('h, int) state"
  f_open :: "string \<Rightarrow> string \<Rightarrow> ('h, nat option) state"
  f_getlasterror :: "('h, int) state"
  f_filelength :: "string \<Rightarrow> ('h, int) state"
  f_read :: "nat option \<Rightarrow> nat \<Rightarrow> ('h, bytes) state"
  f_write :: "nat option \<Rightarrow> bytes \<Rightarrow> ('h, nat) state"
  f_close :: "nat option \<Rightarrow> ('h, int) state"
  f_findfirst :: "string \<Rightarrow> F_FIND \<Rightarrow> ('h, int \<times> F_FIND) state"
  f_findnext :: "F_FIND \<Rightarrow> ('h, int \<times> F_FIND) state"
  f_getattr :: "string \<Rightarrow> ('h, int \<times> u8) state"
  f_setattr :: "string \<Rightarrow> u8 \<Rightarrow> ('h, int) state"
  f_gettimedate :: "string \<Rightarrow> ('h, int \<times> u16 \<times> u16) state"

text \<open>\<open>F_NO_ERROR\<close> is 0, as the comments of the header of the API say.\<close>

abbreviation (input) ret :: "'a \<Rightarrow> ('s, 'a) state" where
  "ret \<equiv> State_Monad.return"

section \<open>File system and volumes\<close>

definition open_filesystem :: "'h hcc \<Rightarrow> ('h, int) state" where
  "open_filesystem L = do { _ \<leftarrow> hcc_mem_init L; result \<leftarrow> fs_init L; ret result }"

text \<open>The part of \<open>select_sd_card\<close> after \<open>f_enterFS\<close>.\<close>

definition init_volume :: "'h hcc \<Rightarrow> VolumeId \<Rightarrow> ('h, int) state" where
  "init_volume L volumeId = do {
     result \<leftarrow> f_initvolume L volumeId;
     if result \<noteq> 0 \<and> result \<noteq> F_ERR_NOTFORMATTED L then ret result
     else if result = F_ERR_NOTFORMATTED L then do {
       result \<leftarrow> f_format L;
       if result \<noteq> 0 then ret result else ret 0 }
     else ret 0 }"

definition select_sd_card :: "'h hcc \<Rightarrow> VolumeId \<Rightarrow> bool \<Rightarrow> ('h, int) state" where
  "select_sd_card L volumeId enterFs =
     (if enterFs then do {
        result \<leftarrow> f_enterFS L;
        if result \<noteq> 0 then ret result else init_volume L volumeId }
      else init_volume L volumeId)"

definition close_filesystem :: "'h hcc \<Rightarrow> bool \<Rightarrow> bool \<Rightarrow> VolumeId \<Rightarrow> ('h, int) state" where
  "close_filesystem L releaseFs delVolume volumeId = do {
     _ \<leftarrow> (if delVolume then f_delvolume L volumeId else ret 0);
     _ \<leftarrow> (if releaseFs then f_releaseFS L else ret ());
     result \<leftarrow> fs_delete L;
     if result \<noteq> 0 then ret result else hcc_mem_delete L }"

definition switch_sd_card :: "'h hcc \<Rightarrow> VolumeId \<Rightarrow> ('h, int) state" where
  "switch_sd_card L volumeId = do {
     let oldVolumeId = (if volumeId = SD_CARD_0 then SD_CARD_1 else SD_CARD_0);
     _ \<leftarrow> f_delvolume L oldVolumeId;
     select_sd_card L volumeId False }"

section \<open>Directories\<close>

definition change_directory :: "'h hcc \<Rightarrow> string \<Rightarrow> bool \<Rightarrow> ('h, int) state" where
  "change_directory L repository_path from_root = do {
     _ \<leftarrow> (if from_root then f_chdir L ''/'' else ret 0);
     result \<leftarrow> f_chdir L repository_path;
     ret result }"

text \<open>\<open>if(repository_path != NULL) { result = change_directory(...); if(result != F_NO_ERROR) ... }\<close>\<close>

definition enter_repository :: "'h hcc \<Rightarrow> string option \<Rightarrow> ('h, int) state" where
  "enter_repository L repository_path =
     (case repository_path of None \<Rightarrow> ret 0 | Some p \<Rightarrow> change_directory L p True)"

definition leave_repository :: "'h hcc \<Rightarrow> string option \<Rightarrow> ('h, int) state" where
  "leave_repository L repository_path =
     (case repository_path of None \<Rightarrow> ret 0 | Some _ \<Rightarrow> f_chdir L ''/'')"

definition create_directory :: "'h hcc \<Rightarrow> string option \<Rightarrow> string \<Rightarrow> ('h, int) state" where
  "create_directory L repository_path dirname = do {
     result \<leftarrow> enter_repository L repository_path;
     if result \<noteq> 0 then ret result else do {
       result \<leftarrow> f_mkdir L dirname;
       _ \<leftarrow> leave_repository L repository_path;
       ret result } }"

definition delete_directory :: "'h hcc \<Rightarrow> string option \<Rightarrow> string \<Rightarrow> ('h, int) state" where
  "delete_directory L repository_path dirname = do {
     result \<leftarrow> enter_repository L repository_path;
     if result \<noteq> 0 then ret result else do {
       result \<leftarrow> f_rmdir L dirname;
       _ \<leftarrow> leave_repository L repository_path;
       ret result } }"

section \<open>Files\<close>

text \<open>
  The bytes read go to the local array \<open>filecontent\<close>; the caller's \<open>buffer\<close> is never written, so
  it is no argument here. The return value is the number of bytes read.
\<close>

definition read_whole_file :: "'h hcc \<Rightarrow> string option \<Rightarrow> string \<Rightarrow> nat \<Rightarrow> ('h, int) state" where
  "read_whole_file L repository_path file_name max_buffer_size = do {
     result \<leftarrow> enter_repository L repository_path;
     if result \<noteq> 0 then ret 0 else do {
       file \<leftarrow> f_open L file_name ''r'';
       err \<leftarrow> f_getlasterror L;
       if err \<noteq> 0 then ret 0 else do {
         filesize \<leftarrow> f_filelength L file_name;
         if filesize = - 1 then ret 0 else do {
           filecontent \<leftarrow> (if nat filesize > max_buffer_size then f_read L file max_buffer_size
                          else f_read L file (nat filesize));
           _ \<leftarrow> f_close L file;
           ret (int (length filecontent)) } } } }"

definition create_file ::
    "'h hcc \<Rightarrow> string option \<Rightarrow> string \<Rightarrow> bytes option \<Rightarrow> F_FIND \<Rightarrow> ('h, int) state" where
  "create_file L repository_path filename initial_data exists_find = do {
     result \<leftarrow> enter_repository L repository_path;
     if result \<noteq> 0 then ret (- 2) else do {
       (result, _) \<leftarrow> f_findfirst L filename exists_find;
       if result = 0 then ret (- 1) else do {
         file \<leftarrow> f_open L filename ''w'';
         result \<leftarrow> f_getlasterror L;
         if result \<noteq> 0 then ret result else do {
           bytes_written \<leftarrow> (case initial_data of
              Some bs \<Rightarrow> if file \<noteq> None then f_write L file bs else ret 0
            | None \<Rightarrow> ret 0);
           _ \<leftarrow> f_close L file;
           _ \<leftarrow> leave_repository L repository_path;
           ret (int bytes_written) } } } }"

definition delete_file :: "'h hcc \<Rightarrow> string option \<Rightarrow> string \<Rightarrow> ('h, int) state" where
  "delete_file L repository_path filename = do {
     result \<leftarrow> enter_repository L repository_path;
     if result \<noteq> 0 then ret result else f_delete L filename }"

definition lock_file :: "'h hcc \<Rightarrow> string option \<Rightarrow> string \<Rightarrow> ('h, int) state" where
  "lock_file L repository_path filename = do {
     result \<leftarrow> enter_repository L repository_path;
     if result \<noteq> 0 then ret result else do {
       (result, current_attribute) \<leftarrow> f_getattr L filename;
       if result \<noteq> 0 then ret result
       else f_setattr L filename (current_attribute OR F_ATTR_READONLY L) } }"

definition unlock_file :: "'h hcc \<Rightarrow> string option \<Rightarrow> string \<Rightarrow> ('h, int) state" where
  "unlock_file L repository_path filename = do {
     result \<leftarrow> enter_repository L repository_path;
     if result \<noteq> 0 then ret result else do {
       (result, current_attribute) \<leftarrow> f_getattr L filename;
       if result \<noteq> 0 then ret result
       else f_setattr L filename (current_attribute AND NOT (F_ATTR_READONLY L)) } }"

text \<open>
  The outputs are the size, the lock state if \<open>want_locked\<close> and the date and time if \<open>want_time\<close>;
  \<open>None\<close> is an output that is not written. The file is opened and not closed.
\<close>

definition get_file_info ::
    "'h hcc \<Rightarrow> string option \<Rightarrow> string \<Rightarrow> bool \<Rightarrow> bool \<Rightarrow>
      ('h, int \<times> int option \<times> bool option \<times> (u16 \<times> u16) option) state" where
  "get_file_info L repository_path filename want_locked want_time = do {
     result \<leftarrow> enter_repository L repository_path;
     if result \<noteq> 0 then ret (result, None, None, None) else do {
       _ \<leftarrow> f_open L filename ''r'';
       result \<leftarrow> f_getlasterror L;
       if result \<noteq> 0 then ret (result, None, None, None) else do {
         filesize \<leftarrow> f_filelength L filename;
         (result, attribute) \<leftarrow> (if want_locked then f_getattr L filename else ret (0, 0));
         if result \<noteq> 0 then ret (result, Some filesize, None, None) else do {
           let locked = (if want_locked then Some (attribute AND F_ATTR_READONLY L = F_ATTR_READONLY L)
                         else None);
           if want_time then do {
             (result, cdate, ctime) \<leftarrow> f_gettimedate L filename;
             ret (result, Some filesize, locked, Some (cdate, ctime)) }
           else ret (result, Some filesize, locked, None) } } } }"

section \<open>Recursive deletion\<close>

text \<open>
  \<open>delete_directory_force\<close> and \<open>delete_file_system_object\<close> call each other; \<open>fuel\<close> bounds the depth
  (\<open>None\<close> when it runs out). The loop makes at most 255 turns, and from the second on fetches the
  next entry first. The flag \<open>delete_subfolder_recursively\<close> is not used by the source.
\<close>

fun delete_entries ::
    "'h hcc \<Rightarrow> (string \<Rightarrow> ('h, int option) state) \<Rightarrow> nat \<Rightarrow> bool \<Rightarrow> int \<Rightarrow> F_FIND \<Rightarrow> int \<Rightarrow> ('h, int option) state"
where
  "delete_entries L del 0 first file_found find_result status = ret (Some status)"
| "delete_entries L del (Suc n) first file_found find_result status = do {
     (file_found, find_result) \<leftarrow> (if first then ret (file_found, find_result) else f_findnext L find_result);
     if file_found \<noteq> 0 then ret (Some status) else do {
       result \<leftarrow> del (find_name find_result);
       case result of
         None \<Rightarrow> ret None
       | Some result \<Rightarrow>
           delete_entries L del n False file_found find_result (if result \<noteq> 0 then result else status) } }"

fun delete_directory_force ::
      "'h hcc \<Rightarrow> nat \<Rightarrow> string option \<Rightarrow> string \<Rightarrow> bool \<Rightarrow> ('h, int option) state"
  and delete_file_system_object :: "'h hcc \<Rightarrow> nat \<Rightarrow> string \<Rightarrow> ('h, int option) state"
where
  "delete_directory_force L 0 repository_path dirname delete_subfolder_recursively = ret None"
| "delete_directory_force L (Suc fuel) repository_path dirname delete_subfolder_recursively = do {
     result \<leftarrow> delete_directory L repository_path dirname;
     if result = 0 then ret (Some result) else do {
       result \<leftarrow> enter_repository L repository_path;
       if result \<noteq> 0 then ret (Some result) else do {
         result \<leftarrow> change_directory L dirname False;
         if result \<noteq> 0 then ret (Some result) else do {
           (file_found, find_result) \<leftarrow> f_findfirst L ''*.*'' \<lparr>find_name = '''', find_pos = 0\<rparr>;
           if file_found \<noteq> 0 then ret (Some file_found) else do {
             (file_found, find_result) \<leftarrow>
               (if hd (find_name find_result @ [CHR 0x00]) = CHR ''.''
                then do { (_, fr) \<leftarrow> f_findnext L find_result; f_findnext L fr }
                else ret (file_found, find_result));
             status \<leftarrow> delete_entries L (delete_file_system_object L fuel) 255 True file_found find_result 0;
             case status of
               None \<Rightarrow> ret None
             | Some status \<Rightarrow> do {
                 _ \<leftarrow> change_directory L ''..'' False;
                 result \<leftarrow> delete_directory L None dirname;
                 _ \<leftarrow> leave_repository L repository_path;
                 ret (Some (if result \<noteq> 0 then result else status)) } } } } } }"
| "delete_file_system_object L 0 name = ret None"
| "delete_file_system_object L (Suc fuel) name = do {
     result \<leftarrow> change_directory L name False;
     if result = 0 then do {
       _ \<leftarrow> change_directory L ''..'' False;
       delete_directory_force L fuel None name True }
     else do { result \<leftarrow> delete_file L None name; ret (Some result) } }"

text \<open>The loop of \<open>clear_sd_card\<close> tests for the \<open>SYSTEM\<close> folder before it tests \<open>file_found\<close>.\<close>

fun clear_entries ::
    "'h hcc \<Rightarrow> nat \<Rightarrow> nat \<Rightarrow> bool \<Rightarrow> int \<Rightarrow> F_FIND \<Rightarrow> int \<Rightarrow> ('h, int option) state" where
  "clear_entries L fuel 0 first file_found find_result status = ret (Some status)"
| "clear_entries L fuel (Suc n) first file_found find_result status = do {
     (file_found, find_result) \<leftarrow> (if first then ret (file_found, find_result) else f_findnext L find_result);
     if take 6 (find_name find_result) = ''SYSTEM''
     then clear_entries L fuel n False file_found find_result status
     else if file_found \<noteq> 0 then ret (Some status)
     else do {
       result \<leftarrow> delete_file_system_object L fuel (find_name find_result);
       case result of
         None \<Rightarrow> ret None
       | Some result \<Rightarrow>
           clear_entries L fuel n False file_found find_result (if result \<noteq> 0 then result else status) } }"

definition clear_sd_card :: "'h hcc \<Rightarrow> nat \<Rightarrow> ('h, int option) state" where
  "clear_sd_card L fuel = do {
     _ \<leftarrow> f_chdir L ''/'';
     (file_found, find_result) \<leftarrow> f_findfirst L ''*.*'' \<lparr>find_name = '''', find_pos = 0\<rparr>;
     if file_found \<noteq> 0 then ret (Some 0) else do {
       (file_found, find_result) \<leftarrow>
         (if take 6 (find_name find_result) = ''SYSTEM'' then f_findnext L find_result
          else ret (file_found, find_result));
       clear_entries L fuel 255 True file_found find_result 0 } }"

section \<open>The ledger\<close>

text \<open>
  \<open>open_files\<close> are the handles that were opened and not closed, \<open>fs_sessions\<close> the successful
  calls of \<open>fs_init\<close> less those of \<open>fs_delete\<close>, \<open>fs_tasks\<close> the successful calls of \<open>f_enterFS\<close> less those of
  \<open>f_releaseFS\<close>.
\<close>

record ledger =
  open_files :: "nat list"
  fs_sessions :: int
  fs_tasks :: int

definition noted :: "('a \<Rightarrow> ledger \<Rightarrow> ledger) \<Rightarrow> ('h, 'a) state \<Rightarrow> ('h \<times> ledger, 'a) state" where
  "noted upd m = State (\<lambda>(h, l). case run_state m h of (a, h') \<Rightarrow> (a, (h', upd a l)))"

abbreviation unnoted :: "('h, 'a) state \<Rightarrow> ('h \<times> ledger, 'a) state" where
  "unnoted \<equiv> noted (\<lambda>_ l. l)"

definition note_open :: "nat option \<Rightarrow> ledger \<Rightarrow> ledger" where
  "note_open f l = (case f of None \<Rightarrow> l | Some x \<Rightarrow> l\<lparr>open_files := x # open_files l\<rparr>)"

definition note_close :: "nat option \<Rightarrow> ledger \<Rightarrow> ledger" where
  "note_close f l = (case f of None \<Rightarrow> l | Some x \<Rightarrow> l\<lparr>open_files := remove1 x (open_files l)\<rparr>)"

definition traced :: "'h hcc \<Rightarrow> ('h \<times> ledger) hcc" where
  "traced L = \<lparr>F_ERR_NOTFORMATTED = F_ERR_NOTFORMATTED L, F_ERR_DUPLICATED = F_ERR_DUPLICATED L,
     F_ERR_NOTEMPTY = F_ERR_NOTEMPTY L, F_ERR_NOTFOUND = F_ERR_NOTFOUND L, F_ERR_LOCKED = F_ERR_LOCKED L,
     F_ATTR_READONLY = F_ATTR_READONLY L,
     hcc_mem_init = unnoted (hcc_mem_init L), hcc_mem_delete = unnoted (hcc_mem_delete L),
     fs_init = noted (\<lambda>r l. if r = 0 then l\<lparr>fs_sessions := fs_sessions l + 1\<rparr> else l) (fs_init L),
     fs_delete = noted (\<lambda>_ l. l\<lparr>fs_sessions := fs_sessions l - 1\<rparr>) (fs_delete L),
     f_enterFS = noted (\<lambda>r l. if r = 0 then l\<lparr>fs_tasks := fs_tasks l + 1\<rparr> else l) (f_enterFS L),
     f_releaseFS = noted (\<lambda>_ l. l\<lparr>fs_tasks := fs_tasks l - 1\<rparr>) (f_releaseFS L),
     f_initvolume = (\<lambda>v. unnoted (f_initvolume L v)), f_format = unnoted (f_format L),
     f_delvolume = (\<lambda>v. unnoted (f_delvolume L v)), f_chdir = (\<lambda>d. unnoted (f_chdir L d)),
     f_mkdir = (\<lambda>d. unnoted (f_mkdir L d)), f_rmdir = (\<lambda>d. unnoted (f_rmdir L d)),
     f_delete = (\<lambda>d. unnoted (f_delete L d)),
     f_open = (\<lambda>n m. noted note_open (f_open L n m)), f_getlasterror = unnoted (f_getlasterror L),
     f_filelength = (\<lambda>n. unnoted (f_filelength L n)), f_read = (\<lambda>f n. unnoted (f_read L f n)),
     f_write = (\<lambda>f b. unnoted (f_write L f b)),
     f_close = (\<lambda>f. noted (\<lambda>_. note_close f) (f_close L f)),
     f_findfirst = (\<lambda>n f. unnoted (f_findfirst L n f)), f_findnext = (\<lambda>f. unnoted (f_findnext L f)),
     f_getattr = (\<lambda>n. unnoted (f_getattr L n)), f_setattr = (\<lambda>n a. unnoted (f_setattr L n a)),
     f_gettimedate = (\<lambda>n. unnoted (f_gettimedate L n))\<rparr>"

text \<open>\<open>f_open\<close> returns a null pointer exactly when it leaves an error behind.\<close>

definition open_reports :: "'h hcc \<Rightarrow> bool" where
  "open_reports L \<longleftrightarrow> (\<forall>n m h. case run_state (f_open L n m) h of (f, h') \<Rightarrow>
     (fst (run_state (f_getlasterror L) h') = 0 \<longleftrightarrow> f \<noteq> None))"

lemma run_noted:
  "run_state (noted upd m) (h, l) = (fst (run_state m h), snd (run_state m h), upd (fst (run_state m h)) l)"
  by (simp add: noted_def split: prod.split)

lemma open_reports_traced:
  assumes "open_reports L" and "run_state (f_open (traced L) n m) (h, l) = (f, h', l')"
  shows "l' = note_open f l \<and> (fst (run_state (f_getlasterror (traced L)) (h', l')) = 0 \<longleftrightarrow> f \<noteq> None)"
proof -
  obtain g h1 where g: "run_state (f_open L n m) h = (g, h1)" by (metis prod.exhaust)
  have "case run_state (f_open L n m) h of (f, h') \<Rightarrow>
      (fst (run_state (f_getlasterror L) h') = 0 \<longleftrightarrow> f \<noteq> None)"
    using assms(1) [unfolded open_reports_def, rule_format, of n m h] .
  then have r: "fst (run_state (f_getlasterror L) h1) = 0 \<longleftrightarrow> g \<noteq> None" using g by simp
  have "f = g \<and> h' = h1 \<and> l' = note_open f l"
    using assms(2) g by (auto simp: traced_def run_noted)
  then show ?thesis using r by (simp add: traced_def run_noted)
qed

text \<open>\<open>keeps m\<close>: the ledger after \<open>m\<close> is the ledger before.\<close>

definition keeps :: "('h \<times> ledger, 'a) state \<Rightarrow> bool" where
  "keeps m \<longleftrightarrow> (\<forall>s. snd (snd (run_state m s)) = snd s)"

named_theorems keeps_intros \<open>calls that leave the ledger alone\<close>

lemma keeps_unnoted [keeps_intros]: "keeps (unnoted m)"
  by (auto simp: keeps_def noted_def split: prod.split)

lemma keeps_return [keeps_intros]: "keeps (ret x)"
  by (simp add: keeps_def)

lemma keeps_bind [keeps_intros]: "keeps m \<Longrightarrow> (\<And>x. keeps (f x)) \<Longrightarrow> keeps (m \<bind> f)"
  by (auto simp: keeps_def split: prod.split) (metis prod.collapse snd_conv)

lemma keeps_if [keeps_intros]: "(b \<Longrightarrow> keeps m) \<Longrightarrow> (\<not> b \<Longrightarrow> keeps n) \<Longrightarrow> keeps (if b then m else n)"
  by simp

lemma keeps_option [keeps_intros]:
  "(x = None \<Longrightarrow> keeps m) \<Longrightarrow> (\<And>y. x = Some y \<Longrightarrow> keeps (f y)) \<Longrightarrow>
    keeps (case x of None \<Rightarrow> m | Some y \<Rightarrow> f y)"
  by (cases x) auto

lemma keeps_prod [keeps_intros]: "(\<And>a b. x = (a, b) \<Longrightarrow> keeps (f a b)) \<Longrightarrow> keeps (case x of (a, b) \<Rightarrow> f a b)"
  by (cases x) auto

lemma keeps_calls [keeps_intros]:
  "keeps (f_chdir (traced L) d)" "keeps (f_getlasterror (traced L))" "keeps (f_filelength (traced L) d)"
  "keeps (f_read (traced L) f n)" "keeps (f_write (traced L) f b)" "keeps (f_findfirst (traced L) d fr)"
  "keeps (f_findnext (traced L) fr)" "keeps (f_getattr (traced L) d)" "keeps (f_setattr (traced L) d a)"
  "keeps (f_gettimedate (traced L) d)" "keeps (f_delete (traced L) d)" "keeps (f_mkdir (traced L) d)"
  "keeps (f_rmdir (traced L) d)" "keeps (f_initvolume (traced L) v)" "keeps (f_format (traced L))"
  "keeps (f_delvolume (traced L) v)" "keeps (hcc_mem_init (traced L))" "keeps (hcc_mem_delete (traced L))"
  by (simp_all add: traced_def keeps_intros)

lemma keeps_directory [keeps_intros]:
  "keeps (change_directory (traced L) p b)" "keeps (enter_repository (traced L) r)"
  "keeps (leave_repository (traced L) r)" "keeps (create_directory (traced L) r d)"
  "keeps (delete_directory (traced L) r d)" "keeps (delete_file (traced L) r d)"
  "keeps (lock_file (traced L) r d)" "keeps (unlock_file (traced L) r d)"
  by (auto simp: change_directory_def enter_repository_def leave_repository_def create_directory_def
      delete_directory_def delete_file_def lock_file_def unlock_file_def intro!: keeps_intros)

lemma keeps_run: "keeps m \<Longrightarrow> run_state m (h, l) = (a, h', l') \<Longrightarrow> l' = l"
  unfolding keeps_def by (metis snd_conv)

text \<open>Recursive deletion touches no file handle.\<close>

lemma keeps_delete_entries:
  "(\<And>n. keeps (del n)) \<Longrightarrow> keeps (delete_entries (traced L) del n first ff fr st)"
  by (induction "traced L" del n first ff fr st rule: delete_entries.induct)
    (auto intro!: keeps_intros)

lemma keeps_delete [keeps_intros]:
  "keeps (delete_directory_force (traced L) fuel r d b)"
  "keeps (delete_file_system_object (traced L) fuel d)"
proof (induction fuel arbitrary: r d b)
  case 0
  {
    case 1 show ?case by (simp add: keeps_intros)
  next
    case 2 show ?case by (simp add: keeps_intros)
  }
next
  case (Suc fuel)
  {
    case 1 show ?case
      by (auto intro!: keeps_intros keeps_delete_entries Suc.IH)
  next
    case 2 show ?case by (auto intro!: keeps_intros Suc.IH)
  }
qed

text \<open>\<open>closes f m\<close>: the call \<open>m\<close> closes the file \<open>f\<close> and does nothing else to the ledger.\<close>

definition closes :: "nat option \<Rightarrow> ('h \<times> ledger, 'a) state \<Rightarrow> bool" where
  "closes f m \<longleftrightarrow> (\<forall>s. snd (snd (run_state m s)) = note_close f (snd s))"

named_theorems closes_intros \<open>calls that close a file\<close>

lemma closes_close [closes_intros]:
  "(\<And>x. keeps (k x)) \<Longrightarrow> closes f (f_close (traced L) f \<bind> k)"
  by (auto simp: closes_def keeps_def traced_def noted_def split: prod.split)

lemma closes_bind [closes_intros]: "keeps m \<Longrightarrow> (\<And>x. closes f (k x)) \<Longrightarrow> closes f (m \<bind> k)"
  by (auto simp: closes_def keeps_def split: prod.split) (metis prod.collapse snd_conv)

lemma closes_if [closes_intros]:
  "(b \<Longrightarrow> closes f m) \<Longrightarrow> (\<not> b \<Longrightarrow> closes f n) \<Longrightarrow> closes f (if b then m else n)"
  by simp

lemma keeps_open:
  assumes "open_reports L" and "\<And>e. keeps (err e)" and "\<And>f. closes f (body f)"
  shows "keeps (f_open (traced L) n m \<bind> (\<lambda>f. f_getlasterror (traced L) \<bind> (\<lambda>e.
    if e \<noteq> 0 then err e else body f)))"
  unfolding keeps_def
proof
  fix s :: "'a \<times> ledger"
  obtain h l where s: "s = (h, l)" by (cases s)
  obtain f h' l' where o: "run_state (f_open (traced L) n m) (h, l) = (f, h', l')" by (metis prod.exhaust)
  obtain e h'' l'' where g: "run_state (f_getlasterror (traced L)) (h', l') = (e, h'', l'')"
    by (metis prod.exhaust)
  have l: "l' = note_open f l" "e = 0 \<longleftrightarrow> f \<noteq> None" "l'' = l'"
    using open_reports_traced [OF assms(1) o] g keeps_run [OF keeps_calls(2) g] by auto
  have "snd (snd (run_state (body f) (h'', l''))) = note_close f l''" "snd (snd (run_state (err e) (h'', l''))) = l''"
    using assms(2) [of e] assms(3) [of f] by (simp_all add: closes_def keeps_def)
  then show "snd (snd (run_state (f_open (traced L) n m \<bind> (\<lambda>f. f_getlasterror (traced L) \<bind> (\<lambda>e.
    if e \<noteq> 0 then err e else body f))) s)) = snd s"
    using s o g l by (cases f) (auto simp: note_open_def note_close_def)
qed

lemma keeps_create_file: "open_reports L \<Longrightarrow> keeps (create_file (traced L) r d b fr)"
  unfolding create_file_def
  by (rule keeps_open | rule closes_intros | rule keeps_intros | assumption)+

lemma keeps_read_whole_file:
  assumes "open_reports L" and "\<And>s. fst (run_state (f_filelength (traced L) d) s) \<noteq> - 1"
  shows "keeps (read_whole_file (traced L) r d n)"
proof -
  have len: "closes f (f_filelength (traced L) d \<bind> (\<lambda>x. if x = - 1 then ret 0 else k x))"
    if "\<And>x. closes f (k x)" for f and k :: "int \<Rightarrow> ('a \<times> ledger, int) state"
    using assms(2) that keeps_calls(3) [of L d]
    by (auto simp: closes_def keeps_def split: prod.split) (metis fst_conv prod.collapse snd_conv)+
  show ?thesis
    unfolding read_whole_file_def
    by (rule keeps_open | rule assms(1) | rule len | rule closes_intros | rule keeps_intros | assumption)+
qed

lemma open_leaks:
  assumes "open_reports L" and "\<And>f. keeps (body f)"
    and "run_state (f_open (traced L) n m \<bind> (\<lambda>f. f_getlasterror (traced L) \<bind> (\<lambda>e.
      if e \<noteq> 0 then ret (err e) else body f))) (h, l) = (a, h', l')"
  shows "(l' = l \<and> (\<exists>e. e \<noteq> 0 \<and> a = err e)) \<or>
    (\<exists>x s. l' = note_open (Some x) l \<and> a = fst (run_state (body (Some x)) s))"
proof -
  obtain f h1 l1 where o: "run_state (f_open (traced L) n m) (h, l) = (f, h1, l1)" by (metis prod.exhaust)
  obtain e h2 l2 where g: "run_state (f_getlasterror (traced L)) (h1, l1) = (e, h2, l2)"
    by (metis prod.exhaust)
  have l: "l1 = note_open f l" "e = 0 \<longleftrightarrow> f \<noteq> None" "l2 = l1"
    using open_reports_traced [OF assms(1) o] g keeps_run [OF keeps_calls(2) g] by auto
  show ?thesis
  proof (cases f)
    case None
    then show ?thesis using assms(3) o g l by (auto simp: note_open_def)
  next
    case (Some x)
    then have b: "run_state (body (Some x)) (h2, l2) = (a, h', l')" using assms(3) o g l by simp
    then have "l' = l2" by (rule keeps_run [OF assms(2)])
    then show ?thesis using b l Some by (metis fst_conv)
  qed
qed

section \<open>Properties\<close>


text \<open>A small library to state instances on: every file exists and is empty.\<close>

definition empty_files :: "unit hcc" where
  "empty_files = \<lparr>F_ERR_NOTFORMATTED = 1, F_ERR_DUPLICATED = 6, F_ERR_NOTEMPTY = 14, F_ERR_NOTFOUND = 4,
     F_ERR_LOCKED = 5, F_ATTR_READONLY = 1, hcc_mem_init = ret (), hcc_mem_delete = ret 0,
     fs_init = ret 0, fs_delete = ret 0, f_enterFS = ret 0, f_releaseFS = ret (),
     f_initvolume = (\<lambda>_. ret 0), f_format = ret 0, f_delvolume = (\<lambda>_. ret 0), f_chdir = (\<lambda>_. ret 0),
     f_mkdir = (\<lambda>_. ret 0), f_rmdir = (\<lambda>_. ret 0), f_delete = (\<lambda>_. ret 0),
     f_open = (\<lambda>_ _. ret (Some 3)), f_getlasterror = ret 0, f_filelength = (\<lambda>_. ret 0),
     f_read = (\<lambda>_ _. ret []), f_write = (\<lambda>_ b. ret (length b)), f_close = (\<lambda>_. ret 0),
     f_findfirst = (\<lambda>_ f. ret (4, f)), f_findnext = (\<lambda>f. ret (4, f)), f_getattr = (\<lambda>_. ret (0, 0)),
     f_setattr = (\<lambda>_ _. ret 0), f_gettimedate = (\<lambda>_. ret (0, 0, 0))\<rparr>"

definition no_files :: ledger where
  "no_files = \<lparr>open_files = [], fs_sessions = 0, fs_tasks = 0\<rparr>"

lemma empty_files_reports: "open_reports empty_files"
  by (simp add: open_reports_def empty_files_def)


text \<open>
  \<open>get_file_info\<close> loses a handle: whenever it reports a size, the file it opened to check its
  existence is still open, whatever else is asked for.
\<close>
theorem get_file_info_leaks:
  assumes "open_reports L"
    and "run_state (get_file_info (traced L) repo name want_locked want_time) (h, l)
      = ((result, filesize, locked, time), h', l')"
  shows "(filesize = None \<longrightarrow> l' = l) \<and>
    (filesize \<noteq> None \<longrightarrow> (\<exists>x. l' = l\<lparr>open_files := x # open_files l\<rparr>))"
proof -
  define body where "body = (\<lambda>_ :: nat option. f_filelength (traced L) name \<bind> (\<lambda>filesize.
     (if want_locked then f_getattr (traced L) name else ret (0, 0)) \<bind> (\<lambda>(result, attribute).
       if result \<noteq> 0 then ret (result, Some filesize, None, None) else
       (let locked = (if want_locked then Some (attribute AND F_ATTR_READONLY (traced L) = F_ATTR_READONLY (traced L))
                      else None) in
        if want_time then f_gettimedate (traced L) name \<bind> (\<lambda>(result, cdate, ctime).
          ret (result, Some filesize, locked, Some (cdate, ctime)))
        else ret (result, Some filesize, locked, None)))))"
  define rest where "rest = f_open (traced L) name ''r'' \<bind> (\<lambda>f. f_getlasterror (traced L) \<bind> (\<lambda>e.
        if e \<noteq> 0 then ret (e, None :: int option, None :: bool option, None :: (u16 \<times> u16) option) else body f))"
  have code: "get_file_info (traced L) repo name want_locked want_time
      = enter_repository (traced L) repo \<bind> (\<lambda>r. if r \<noteq> 0 then ret (r, None, None, None) else rest)"
    by (simp only: get_file_info_def rest_def body_def)
  obtain r0 h0 l0 where e: "run_state (enter_repository (traced L) repo) (h, l) = (r0, h0, l0)"
    by (metis prod.exhaust)
  have l0: "l0 = l" by (rule keeps_run [OF keeps_directory(2) e])
  have size: "fst (snd (fst (run_state (body f) s))) \<noteq> None" for f s
    unfolding body_def by (auto simp: Let_def split: prod.splits)
  have kb: "keeps (body f)" for f
    unfolding Let_def body_def by (rule keeps_intros)+
  show ?thesis
  proof (cases "r0 = 0")
    case True
    then have r: "run_state rest (h0, l) = ((result, filesize, locked, time), h', l')"
      using assms(2) e l0 by (simp add: code)
    show ?thesis
      using open_leaks [OF assms(1) kb r [unfolded rest_def]]
    proof (elim disjE conjE exE)
      fix x st
      assume "(result, filesize, locked, time) = fst (run_state (body (Some x)) st)"
        and x: "l' = note_open (Some x) l"
      then have "filesize \<noteq> None" using size [of "Some x" st] by (metis fst_conv snd_conv)
      then show ?thesis using x by (auto simp: note_open_def)
    qed simp
  next
    case False
    then show ?thesis using assms(2) e l0 by (simp add: code)
  qed
qed

lemma empty_files_calls:
  "f_open (traced empty_files) n m = noted note_open (ret (Some 3))"
  "f_getlasterror (traced empty_files) = unnoted (ret 0)"
  "f_filelength (traced empty_files) n = unnoted (ret 0)"
  by (simp_all add: traced_def empty_files_def)

lemma empty_files_info:
  "run_state (get_file_info (traced empty_files) None name False False) ((), l)
    = ((0, Some 0, None, None), (), note_open (Some 3) l)"
  by (simp add: get_file_info_def enter_repository_def empty_files_calls run_noted Let_def)

theorem get_file_info_leaks_witness:
  "\<exists>x. note_open (Some 3) no_files = no_files\<lparr>open_files := x # open_files no_files\<rparr>"
  using get_file_info_leaks [OF empty_files_reports empty_files_info [of "''a''" no_files]] by simp

end
