(* ===== verification/BootLogic.thy ===== *)
theory BootLogic
  imports FramNoOs
begin

text \<open>
  Which image the bootloader starts, and the reboot counters by which it decides:
  \<open>bootloader/iobc/norflash/boot_logic.c\<close> and \<open>fram_logic.c\<close>, for the configuration of
  \<open>bootloaderConfig.h.in\<close> (no FreeRTOS, FRAM driver without interrupts). The decision is shown
  equivalent to a search through the list of candidate images.
\<close>

section \<open>The bootloader group\<close>

record bl_group =
  preferred_sd_card :: u16
  global_hamming_flag :: u16
  nor_flash_hamming_flag :: u16
  sdc0_image_slot0_hamming_flag :: u16
  sdc0_image_slot1_hamming_flag :: u16
  sdc1_image_slot0_hamming_flag :: u16
  sdc1_image_slot1_hamming_flag :: u16
  nor_flash_reboot_counter :: u16
  sdc0_image_slot0_reboot_counter :: u16
  sdc0_image_slot1_reboot_counter :: u16
  sdc1_image_slot0_reboot_counter :: u16
  sdc1_image_slot1_reboot_counter :: u16
  nor_flash_binary_size :: u32
  nor_flash_hamming_code_size :: u32
  software_update_available :: u8
  software_update_in_volume_0 :: u8
  software_update_in_volume_1 :: u8

text \<open>The structure as the 56 bytes that are read into it.\<close>

definition bl_u16 :: "bytes \<Rightarrow> cdb_field \<Rightarrow> u16" where
  "bl_u16 b f = bytes_u16 (buf_read b (offset_of BootloaderGroup f) 2)"

definition bl_u32 :: "bytes \<Rightarrow> cdb_field \<Rightarrow> u32" where
  "bl_u32 b f = bytes_u32 (buf_read b (offset_of BootloaderGroup f) 4)"

definition bl_u8 :: "bytes \<Rightarrow> cdb_field \<Rightarrow> u8" where
  "bl_u8 b f = b ! offset_of BootloaderGroup f"

definition parse_bl_group :: "bytes \<Rightarrow> bl_group" where
  "parse_bl_group b = \<lparr>
     preferred_sd_card = bl_u16 b F_preferred_sd_card,
     global_hamming_flag = bl_u16 b F_global_hamming_flag,
     nor_flash_hamming_flag = bl_u16 b F_nor_flash_hamming_flag,
     sdc0_image_slot0_hamming_flag = bl_u16 b F_sdc0_image_slot0_hamming_flag,
     sdc0_image_slot1_hamming_flag = bl_u16 b F_sdc0_image_slot1_hamming_flag,
     sdc1_image_slot0_hamming_flag = bl_u16 b F_sdc1_image_slot0_hamming_flag,
     sdc1_image_slot1_hamming_flag = bl_u16 b F_sdc1_image_slot1_hamming_flag,
     nor_flash_reboot_counter = bl_u16 b F_nor_flash_reboot_counter,
     sdc0_image_slot0_reboot_counter = bl_u16 b F_sdc0_image_slot0_reboot_counter,
     sdc0_image_slot1_reboot_counter = bl_u16 b F_sdc0_image_slot1_reboot_counter,
     sdc1_image_slot0_reboot_counter = bl_u16 b F_sdc1_image_slot0_reboot_counter,
     sdc1_image_slot1_reboot_counter = bl_u16 b F_sdc1_image_slot1_reboot_counter,
     nor_flash_binary_size = bl_u32 b F_nor_flash_binary_size,
     nor_flash_hamming_code_size = bl_u32 b F_nor_flash_hamming_code_size,
     software_update_available = bl_u8 b F_software_update_available,
     software_update_in_volume_0 = bl_u8 b F_software_update_in_volume_0,
     software_update_in_volume_1 = bl_u8 b F_software_update_in_volume_1\<rparr>"

section \<open>Boot selection\<close>

datatype BootSelect = BOOT_SD_CARD_0_SLOT_0 | BOOT_SD_CARD_0_SLOT_1 | BOOT_SD_CARD_1_SLOT_0
  | BOOT_SD_CARD_1_SLOT_1 | BOOT_NOR_FLASH

definition BOOTLOADER_MAX_REBOOT_COUNTER :: u16 where "BOOTLOADER_MAX_REBOOT_COUNTER = 5"

text \<open>
  \<open>FRAM_TRUE\<close> is a 32 bit 1; the members are promoted for the comparison. The output pointer
  \<open>use_hamming\<close> is \<open>None\<close> when it is null; a result \<open>None\<close> is a write through a null pointer.
\<close>

text \<open>After the update check: the NOR flash image, the preferred SD card, the other one.\<close>

definition other_sd_card :: "bl_group \<Rightarrow> BootSelect \<Rightarrow> bool option \<Rightarrow> BootSelect \<times> bool option" where
  "other_sd_card bl curr_boot_select use_hamming =
     (if curr_boot_select = BOOT_SD_CARD_0_SLOT_0
      then if sdc0_image_slot0_reboot_counter bl \<ge> BOOTLOADER_MAX_REBOOT_COUNTER
        then (BOOT_NOR_FLASH, map_option (\<lambda>_. False) use_hamming)
        else (curr_boot_select, use_hamming)
      else if sdc1_image_slot0_reboot_counter bl \<ge> BOOTLOADER_MAX_REBOOT_COUNTER
        then (BOOT_NOR_FLASH, map_option (\<lambda>_. False) use_hamming)
        else (curr_boot_select, use_hamming))"

definition flash_or_sd_card :: "bl_group \<Rightarrow> BootSelect \<Rightarrow> bool option \<Rightarrow> BootSelect \<times> bool option" where
  "flash_or_sd_card bl curr_boot_select use_hamming =
     (if nor_flash_reboot_counter bl \<ge> BOOTLOADER_MAX_REBOOT_COUNTER
      then let curr_boot_select =
             (if preferred_sd_card bl = 0xff \<or> preferred_sd_card bl = 1 \<or> preferred_sd_card bl = 0
              then BOOT_SD_CARD_0_SLOT_0 else BOOT_SD_CARD_1_SLOT_0)
        in if curr_boot_select = BOOT_SD_CARD_0_SLOT_0
           then if sdc0_image_slot0_reboot_counter bl \<ge> BOOTLOADER_MAX_REBOOT_COUNTER
             then other_sd_card bl BOOT_SD_CARD_1_SLOT_0 use_hamming
             else (curr_boot_select, use_hamming)
           else if sdc1_image_slot0_reboot_counter bl \<ge> BOOTLOADER_MAX_REBOOT_COUNTER
             then other_sd_card bl BOOT_SD_CARD_0_SLOT_0 use_hamming
             else (curr_boot_select, use_hamming)
      else (curr_boot_select, use_hamming))"

definition determine_boot_select ::
    "bool \<Rightarrow> bl_group \<Rightarrow> bool option \<Rightarrow> (BootSelect \<times> bool option) option" where
  "determine_boot_select fram_faulty bl use_hamming =
     (if fram_faulty
      then (case use_hamming of None \<Rightarrow> None | Some _ \<Rightarrow> Some (BOOT_NOR_FLASH, Some False))
      else
        let use_hamming = map_option (\<lambda>_. global_hamming_flag bl = 1) use_hamming in
        Some (
          if software_update_available bl = 1
          then if software_update_in_volume_0 bl = 1
            then if sdc0_image_slot1_reboot_counter bl \<ge> BOOTLOADER_MAX_REBOOT_COUNTER
              then flash_or_sd_card bl BOOT_NOR_FLASH use_hamming
              else (BOOT_SD_CARD_0_SLOT_1, use_hamming)
            else if software_update_in_volume_1 bl = 1
            then if sdc1_image_slot1_reboot_counter bl \<ge> BOOTLOADER_MAX_REBOOT_COUNTER
              then flash_or_sd_card bl BOOT_NOR_FLASH use_hamming
              else (BOOT_SD_CARD_1_SLOT_1, use_hamming)
            else flash_or_sd_card bl BOOT_NOR_FLASH use_hamming
          else flash_or_sd_card bl BOOT_NOR_FLASH use_hamming))"

definition local_hamming_flag_check :: "bl_group \<Rightarrow> BootSelect \<Rightarrow> bool" where
  "local_hamming_flag_check bl boot_select =
     (if boot_select = BOOT_NOR_FLASH then nor_flash_hamming_flag bl = 1
      else if boot_select = BOOT_SD_CARD_0_SLOT_0 then sdc0_image_slot0_hamming_flag bl = 1
      else if boot_select = BOOT_SD_CARD_0_SLOT_1 then sdc0_image_slot1_hamming_flag bl = 1
      else if boot_select = BOOT_SD_CARD_1_SLOT_0 then sdc1_image_slot0_hamming_flag bl = 1
      else if boot_select = BOOT_SD_CARD_1_SLOT_1 then sdc1_image_slot1_hamming_flag bl = 1
      else False)"

section \<open>Counters\<close>

definition cached_reboot_counter :: "bl_group \<Rightarrow> SlotType \<Rightarrow> u16" where
  "cached_reboot_counter bl slot_type =
     (if slot_type = FLASH_SLOT then nor_flash_reboot_counter bl
      else if slot_type = SDC_0_SL_0 then sdc0_image_slot0_reboot_counter bl
      else if slot_type = SDC_0_SL_1 then sdc0_image_slot1_reboot_counter bl
      else if slot_type = SDC_1_SL_0 then sdc1_image_slot0_reboot_counter bl
      else if slot_type = SDC_1_SL_1 then sdc1_image_slot1_reboot_counter bl
      else 0)"

definition increment_reboot_counter_no_os ::
    "'d spi_bus \<Rightarrow> bl_group \<Rightarrow> SlotType \<Rightarrow> u16 option \<Rightarrow> 'd \<Rightarrow> (int \<times> u16 option) \<times> 'd" where
  "increment_reboot_counter_no_os spi bl slot_type new_reboot_counter d =
     (let new_reboot_counter_loc = cached_reboot_counter bl slot_type;
          new_reboot_counter_loc = (if new_reboot_counter_loc = 0xff then 0 else new_reboot_counter_loc);
          new_reboot_counter_loc = new_reboot_counter_loc + 1
      in (case fram_no_os_blocking_increment_img_reboot_counter spi slot_type new_reboot_counter_loc d of
           (result, d) \<Rightarrow> ((result, map_option (\<lambda>_. new_reboot_counter_loc) new_reboot_counter), d)))"

definition sdc_slot :: "BootSelect \<Rightarrow> SlotType" where
  "sdc_slot boot_select =
     (if boot_select = BOOT_SD_CARD_0_SLOT_0 then SDC_0_SL_0
      else if boot_select = BOOT_SD_CARD_0_SLOT_1 then SDC_0_SL_1
      else if boot_select = BOOT_SD_CARD_1_SLOT_0 then SDC_1_SL_0
      else if boot_select = BOOT_SD_CARD_1_SLOT_1 then SDC_1_SL_1
      else SDC_0_SL_0)"

definition increment_sdc_loc_reboot_counter ::
    "'d spi_bus \<Rightarrow> bl_group \<Rightarrow> BootSelect \<Rightarrow> u16 option \<Rightarrow> 'd \<Rightarrow> (int \<times> u16 option) \<times> 'd" where
  "increment_sdc_loc_reboot_counter spi bl boot_select curr_reboot_counter =
     increment_reboot_counter_no_os spi bl (sdc_slot boot_select) curr_reboot_counter"

text \<open>
  The handlers of a failed copy increment the counter and then call \<open>restart()\<close>, which does not
  return; their value is the device at the restart.
\<close>

definition handle_problematic_norflash_copy_result :: "'d spi_bus \<Rightarrow> bl_group \<Rightarrow> 'd \<Rightarrow> 'd" where
  "handle_problematic_norflash_copy_result spi bl d =
     snd (increment_reboot_counter_no_os spi bl FLASH_SLOT (Some 0) d)"

definition handle_problematic_sdc_copy_result :: "'d spi_bus \<Rightarrow> bl_group \<Rightarrow> BootSelect \<Rightarrow> 'd \<Rightarrow> 'd" where
  "handle_problematic_sdc_copy_result spi bl boot_select d =
     snd (increment_sdc_loc_reboot_counter spi bl boot_select (Some 0) d)"

section \<open>The specification of the decision\<close>

text \<open>The candidates in the order of preference; the first whose counter is below the limit is taken.\<close>

fun boot_slot :: "BootSelect \<Rightarrow> SlotType" where
  "boot_slot BOOT_NOR_FLASH = FLASH_SLOT"
| "boot_slot BOOT_SD_CARD_0_SLOT_0 = SDC_0_SL_0"
| "boot_slot BOOT_SD_CARD_0_SLOT_1 = SDC_0_SL_1"
| "boot_slot BOOT_SD_CARD_1_SLOT_0 = SDC_1_SL_0"
| "boot_slot BOOT_SD_CARD_1_SLOT_1 = SDC_1_SL_1"

definition boot_candidates :: "bl_group \<Rightarrow> BootSelect list" where
  "boot_candidates bl =
     (if software_update_available bl = 1 \<and> software_update_in_volume_0 bl = 1 then [BOOT_SD_CARD_0_SLOT_1]
      else if software_update_available bl = 1 \<and> software_update_in_volume_1 bl = 1 then [BOOT_SD_CARD_1_SLOT_1]
      else []) @
     [BOOT_NOR_FLASH] @
     (if preferred_sd_card bl \<in> {0, 1, 0xff} then [BOOT_SD_CARD_0_SLOT_0, BOOT_SD_CARD_1_SLOT_0]
      else [BOOT_SD_CARD_1_SLOT_0, BOOT_SD_CARD_0_SLOT_0])"

definition bootable :: "bl_group \<Rightarrow> BootSelect \<Rightarrow> bool" where
  "bootable bl b \<longleftrightarrow> cached_reboot_counter bl (boot_slot b) < BOOTLOADER_MAX_REBOOT_COUNTER"

definition boot_choice :: "bl_group \<Rightarrow> BootSelect \<times> bool" where
  "boot_choice bl =
     (case List.find (bootable bl) (boot_candidates bl) of
        Some b \<Rightarrow> (b, global_hamming_flag bl = 1)
      | None \<Rightarrow> (BOOT_NOR_FLASH, False))"

lemma bootable_simps:
  "bootable bl BOOT_NOR_FLASH \<longleftrightarrow> \<not> BOOTLOADER_MAX_REBOOT_COUNTER \<le> nor_flash_reboot_counter bl"
  "bootable bl BOOT_SD_CARD_0_SLOT_0 \<longleftrightarrow> \<not> BOOTLOADER_MAX_REBOOT_COUNTER \<le> sdc0_image_slot0_reboot_counter bl"
  "bootable bl BOOT_SD_CARD_0_SLOT_1 \<longleftrightarrow> \<not> BOOTLOADER_MAX_REBOOT_COUNTER \<le> sdc0_image_slot1_reboot_counter bl"
  "bootable bl BOOT_SD_CARD_1_SLOT_0 \<longleftrightarrow> \<not> BOOTLOADER_MAX_REBOOT_COUNTER \<le> sdc1_image_slot0_reboot_counter bl"
  "bootable bl BOOT_SD_CARD_1_SLOT_1 \<longleftrightarrow> \<not> BOOTLOADER_MAX_REBOOT_COUNTER \<le> sdc1_image_slot1_reboot_counter bl"
  by (simp_all add: bootable_def cached_reboot_counter_def not_le)

definition card_candidates :: "bl_group \<Rightarrow> BootSelect list" where
  "card_candidates bl = BOOT_NOR_FLASH #
     (if preferred_sd_card bl \<in> {0, 1, 0xff} then [BOOT_SD_CARD_0_SLOT_0, BOOT_SD_CARD_1_SLOT_0]
      else [BOOT_SD_CARD_1_SLOT_0, BOOT_SD_CARD_0_SLOT_0])"

lemma flash_or_sd_card_find:
  "flash_or_sd_card bl BOOT_NOR_FLASH h =
    (case List.find (bootable bl) (card_candidates bl) of
       Some b \<Rightarrow> (b, h) | None \<Rightarrow> (BOOT_NOR_FLASH, map_option (\<lambda>_. False) h))"
proof -
  have p: "preferred_sd_card bl = 0xff \<or> preferred_sd_card bl = 1 \<or> preferred_sd_card bl = 0
      \<longleftrightarrow> preferred_sd_card bl \<in> {0, 1, 0xff}" by blast
  show ?thesis
    unfolding flash_or_sd_card_def other_sd_card_def card_candidates_def p
    by (cases "preferred_sd_card bl \<in> {0, 1, 0xff}";
        cases "BOOTLOADER_MAX_REBOOT_COUNTER \<le> nor_flash_reboot_counter bl";
        cases "BOOTLOADER_MAX_REBOOT_COUNTER \<le> sdc0_image_slot0_reboot_counter bl";
        cases "BOOTLOADER_MAX_REBOOT_COUNTER \<le> sdc1_image_slot0_reboot_counter bl";
        simp only: if_True if_False bootable_simps Let_def find.simps option.case simp_thms BootSelect.distinct)
qed

lemma boot_choice_eq:
  "determine_boot_select False bl (Some h) = Some (fst (boot_choice bl), Some (snd (boot_choice bl)))"
proof -
  have c: "boot_candidates bl =
     (if software_update_available bl = 1 \<and> software_update_in_volume_0 bl = 1 then [BOOT_SD_CARD_0_SLOT_1]
      else if software_update_available bl = 1 \<and> software_update_in_volume_1 bl = 1 then [BOOT_SD_CARD_1_SLOT_1]
      else []) @ card_candidates bl"
    by (simp add: boot_candidates_def card_candidates_def)
  show ?thesis
    by (cases "List.find (bootable bl) (card_candidates bl)")
      (simp_all add: determine_boot_select_def flash_or_sd_card_find boot_choice_def c bootable_simps Let_def)
qed

lemma sdc_slot_boot_slot: "b \<noteq> BOOT_NOR_FLASH \<Longrightarrow> sdc_slot b = boot_slot b"
  by (cases b) (simp_all add: sdc_slot_def)

section \<open>Properties\<close>

text \<open>
  C3. The decision of the bootloader is the first image, in the order update slot (if an update is
  flagged), NOR flash, preferred SD card, other SD card, whose reboot counter is below the limit,
  checked with Hamming codes if the global flag is 1; if every counter has reached the limit, the NOR
  flash is booted without the check. A faulty FRAM leads to the NOR flash without the check.
\<close>
theorem determine_boot_select_first_candidate:
  "determine_boot_select fram_faulty bl (Some h) =
    Some (if fram_faulty then (BOOT_NOR_FLASH, Some False)
          else (fst (boot_choice bl), Some (snd (boot_choice bl))))"
proof (cases fram_faulty)
  case True
  then show ?thesis by (simp add: determine_boot_select_def)
next
  case False
  then show ?thesis using boot_choice_eq by simp
qed

end
