(* ===== verification/Bootloader.thy ===== *)
theory Bootloader
  imports BootLogic Hamming Crc SdCard
begin

text \<open>
  The bootloader of the iOBC: checking itself (\<open>main_norflash.c\<close>), copying an image from the NOR
  flash (\<open>main_norflash.c\<close>) or an SD card (\<open>boot_sd.c\<close>) to the SDRAM, correcting it with its
  Hamming codes (\<open>hamming_logic.c\<close>), reporting in the SRAM (\<open>SRAMApi.c\<close>), and the core operation
  (\<open>iobc_common.c\<close>) that ends in a jump or a restart.
\<close>

section \<open>State\<close>

text \<open>
  The FRAM behind the SPI, the state of the FAT library, the memories (the SDRAM from
  \<open>SDRAM_DESTINATION\<close> on, the two parts of the NOR flash, the status field of the SRAM), and the
  globals of the program.
\<close>

record ('d, 'h) obc =
  fram_dev :: 'd
  fat_state :: 'h
  spi_state :: spi_globals
  sdram :: bytes
  nor_bootloader :: bytes
  nor_image :: bytes
  sram0_status :: int
  hamming_code_buf :: bytes
  bl_fram_block :: bl_group
  fram_faulty :: bool

text \<open>How a part of the program ends: an access outside the memories, a restart, a jump, a return.\<close>

datatype 's flow = Fault | Restarted 's | Jumped 's | Returned int 's

section \<open>SRAM status\<close>

definition SRAM_OK :: int where "SRAM_OK = 0"
definition SRAM_HAMMING_ERROR_SINGLE_BIT :: int where "SRAM_HAMMING_ERROR_SINGLE_BIT = 1"
definition SRAM_HAMMING_ERROR_ECC :: int where "SRAM_HAMMING_ERROR_ECC = 2"
definition SRAM_HAMMING_ERROR_MULTIBIT :: int where "SRAM_HAMMING_ERROR_MULTIBIT = 3"
definition SRAM_FRAM_ISSUES :: int where "SRAM_FRAM_ISSUES = 4"
definition SRAM_BOOTLOADER_INVALID :: int where "SRAM_BOOTLOADER_INVALID = 5"

lemmas sram_defs = SRAM_OK_def SRAM_HAMMING_ERROR_SINGLE_BIT_def SRAM_HAMMING_ERROR_ECC_def
  SRAM_HAMMING_ERROR_MULTIBIT_def SRAM_FRAM_ISSUES_def SRAM_BOOTLOADER_INVALID_def

definition set_sram0_status_field :: "int \<Rightarrow> ('d, 'h) obc \<Rightarrow> ('d, 'h) obc" where
  "set_sram0_status_field status s = s\<lparr>sram0_status := status\<rparr>"

definition get_sram0_status_field :: "('d, 'h) obc \<Rightarrow> int" where
  "get_sram0_status_field s = sram0_status s"

section \<open>The Hamming check of an image\<close>

definition memset_sdram :: "nat \<Rightarrow> u8 \<Rightarrow> nat \<Rightarrow> ('d, 'h) obc \<Rightarrow> ('d, 'h) obc option" where
  "memset_sdram off b n s =
     (if off + n \<le> length (sdram s) then Some (s\<lparr>sdram := buf_write (sdram s) off (replicate n b)\<rparr>) else None)"

definition memcpy_sdram :: "nat \<Rightarrow> bytes \<Rightarrow> ('d, 'h) obc \<Rightarrow> ('d, 'h) obc option" where
  "memcpy_sdram off bs s =
     (if off + length bs \<le> length (sdram s) then Some (s\<lparr>sdram := buf_write (sdram s) off bs\<rparr>) else None)"

definition read_hamming_code ::
    "'d spi_bus \<Rightarrow> SlotType \<Rightarrow> u32 \<Rightarrow> ('d, 'h) obc \<Rightarrow> (int \<times> ('d, 'h) obc) option" where
  "read_hamming_code spi slotType ham_code_size s =
     (case fram_no_os_blocking_read_ham_code spi slotType (hamming_code_buf s)
             IMAGES_HAMMING_RESERVED_SIZE 0 ham_code_size (fram_dev s) of
        None \<Rightarrow> None
      | Some ((result, buf), d) \<Rightarrow>
          Some (if result \<noteq> 0 then - 1 else 0, s\<lparr>fram_dev := d, hamming_code_buf := buf\<rparr>))"

definition fill_amount :: "u32 \<Rightarrow> u32" where
  "fill_amount image_size =
     (let mod_rest = image_size mod 256 in if mod_rest \<noteq> 0 then 256 - mod_rest else 0)"

definition pad_image :: "u32 \<Rightarrow> ('d, 'h) obc \<Rightarrow> ('d, 'h) obc option" where
  "pad_image image_size s =
     (if fill_amount image_size > 0
      then memset_sdram (unat image_size) 0 (unat (fill_amount image_size)) s
      else Some s)"

definition hamming_check_value :: "u8 \<Rightarrow> int" where
  "hamming_check_value hamming_result =
     (if hamming_result = Hamming_ERROR_SINGLEBIT then 1
      else if hamming_result = Hamming_ERROR_ECC then 2
      else if hamming_result = Hamming_ERROR_MULTIPLEBITS then 3
      else 0)"

definition handle_hamming_code_check ::
    "'d spi_bus \<Rightarrow> SlotType \<Rightarrow> u32 \<Rightarrow> u32 \<Rightarrow> ('d, 'h) obc \<Rightarrow> (int \<times> ('d, 'h) obc) option" where
  "handle_hamming_code_check spi slotType image_size ham_code_size s =
     (if slotType = BOOTLOADER_0 then Some (- 1, s)
      else case read_hamming_code spi slotType ham_code_size s of
        None \<Rightarrow> None
      | Some (result, s) \<Rightarrow>
          if result \<noteq> 0 then Some (result, s)
          else case pad_image image_size s of
            None \<Rightarrow> None
          | Some s \<Rightarrow>
              (case Hamming_Verify256x (sdram s) (image_size + fill_amount image_size) (hamming_code_buf s) of
                 None \<Rightarrow> None
               | Some (data, hamming_result) \<Rightarrow>
                   Some (hamming_check_value hamming_result, s\<lparr>sdram := data\<rparr>)))"

definition handle_hamming_code_result :: "int \<Rightarrow> ('d, 'h) obc \<Rightarrow> int \<times> ('d, 'h) obc" where
  "handle_hamming_code_result result s =
     (if result = 0 then (result, set_sram0_status_field SRAM_OK s)
      else if result = - 1 then (0, set_sram0_status_field SRAM_FRAM_ISSUES s)
      else if result = 1 then (0, set_sram0_status_field SRAM_HAMMING_ERROR_SINGLE_BIT s)
      else if result = 2 then (0, set_sram0_status_field SRAM_HAMMING_ERROR_ECC s)
      else if result = 3 then (- 1, set_sram0_status_field SRAM_HAMMING_ERROR_MULTIBIT s)
      else (0, s))"

section \<open>Copying from the NOR flash\<close>

definition copy_norflash_binary_to_sdram ::
    "'d spi_bus \<Rightarrow> nat \<Rightarrow> bool \<Rightarrow> ('d, 'h) obc \<Rightarrow> (int \<times> ('d, 'h) obc) option" where
  "copy_norflash_binary_to_sdram spi copy_size use_hamming s =
     (let ham_size = nor_flash_hamming_code_size (bl_fram_block s);
          use_hamming = (use_hamming \<and> \<not> (ham_size = 0 \<or> ham_size = 0xff))
      in if length (nor_image s) < copy_size then None
         else case memcpy_sdram 0 (take copy_size (nor_image s)) s of
           None \<Rightarrow> None
         | Some s \<Rightarrow>
             if use_hamming
             then let image_size = nor_flash_binary_size (bl_fram_block s);
                      ham_code_size = nor_flash_hamming_code_size (bl_fram_block s)
               in if image_size = 0 \<or> image_size = 0xffffffff then Some (0, s)
                  else if ham_code_size = 0 \<or> ham_code_size = 0xffffffff then Some (0, s)
                  else (case handle_hamming_code_check spi FLASH_SLOT image_size ham_code_size s of
                    None \<Rightarrow> None
                  | Some (check_result, s) \<Rightarrow> Some (handle_hamming_code_result check_result s))
             else Some (0, s))"

section \<open>Copying from an SD card\<close>

definition SW_REPOSITORY :: string where "SW_REPOSITORY = ''BIN/OBSW''"
definition SW_SLOT_0_NAME :: string where "SW_SLOT_0_NAME = ''obsw_sl0.bin''"
definition SW_SLOT_1_NAME :: string where "SW_SLOT_1_NAME = ''obsw_sl1.bin''"

definition boot_volume :: "BootSelect \<Rightarrow> VolumeId" where
  "boot_volume boot_select =
     (if boot_select = BOOT_SD_CARD_1_SLOT_1 \<or> boot_select = BOOT_SD_CARD_1_SLOT_0 then SD_CARD_1 else SD_CARD_0)"

text \<open>The condition names \<open>BOOT_SD_CARD_0_SLOT_1\<close> twice.\<close>

definition boot_slot_name :: "BootSelect \<Rightarrow> string" where
  "boot_slot_name boot_select =
     (if boot_select = BOOT_SD_CARD_0_SLOT_1 \<or> boot_select = BOOT_SD_CARD_0_SLOT_1
      then SW_SLOT_1_NAME else SW_SLOT_0_NAME)"

text \<open>
  \<open>copy_with_hcc_lib\<close>: the return value, the image size if it was set, and the bytes that \<open>f_read\<close>
  stored at \<open>SDRAM_DESTINATION\<close>. \<open>copy_from_file\<close> is the part with the open file.
\<close>

definition copy_from_file ::
    "'h hcc \<Rightarrow> VolumeId \<Rightarrow> string \<Rightarrow> nat option \<Rightarrow> ('h, int \<times> u32 option \<times> bytes) state" where
  "copy_from_file L current_volume slot_name file = do {
     filelength \<leftarrow> f_filelength L slot_name;
     if filelength \<le> 0 then do {
       _ \<leftarrow> f_close L file; _ \<leftarrow> close_filesystem L True True current_volume; ret (- 1, None, []) }
     else do {
       content \<leftarrow> f_read L file (nat filelength);
       if int (length content) \<noteq> filelength then do {
         _ \<leftarrow> f_close L file; _ \<leftarrow> close_filesystem L True True current_volume;
         ret (- 1, Some (word_of_int filelength), content) }
       else do {
         _ \<leftarrow> f_close L file; _ \<leftarrow> close_filesystem L True True current_volume;
         ret (0, Some (word_of_int filelength), content) } } }"

definition copy_with_hcc_lib :: "'h hcc \<Rightarrow> BootSelect \<Rightarrow> ('h, int \<times> u32 option \<times> bytes) state" where
  "copy_with_hcc_lib L boot_select = do {
     let current_volume = boot_volume boot_select;
     let slot_name = boot_slot_name boot_select;
     result \<leftarrow> open_filesystem L;
     if result \<noteq> 0 then do { _ \<leftarrow> hcc_mem_delete L; ret (- 1, None, []) }
     else do {
       result \<leftarrow> select_sd_card L current_volume True;
       if result \<noteq> 0 then do { _ \<leftarrow> close_filesystem L True True current_volume; ret (- 1, None, []) }
       else do {
         result \<leftarrow> change_directory L SW_REPOSITORY True;
         if result \<noteq> 0 then do { _ \<leftarrow> close_filesystem L True True current_volume; ret (- 1, None, []) }
         else do {
           file \<leftarrow> f_open L slot_name ''r'';
           result \<leftarrow> f_getlasterror L;
           if result \<noteq> 0 then do { _ \<leftarrow> close_filesystem L True True current_volume; ret (- 1, None, []) }
           else copy_from_file L current_volume slot_name file } } } }"

text \<open>
  \<open>boot_sd.c\<close> declares \<open>handle_hamming_code_check\<close> with two parameters; the third, the size of the
  code, is then whatever the register holds, \<open>stale\<close>.
\<close>

definition copy_sdcard_binary_to_sdram ::
    "'d spi_bus \<Rightarrow> 'h hcc \<Rightarrow> u32 \<Rightarrow> BootSelect \<Rightarrow> bool \<Rightarrow> ('d, 'h) obc \<Rightarrow> (int \<times> ('d, 'h) obc) option" where
  "copy_sdcard_binary_to_sdram spi L stale boot_select use_hamming s =
     (if boot_select = BOOT_NOR_FLASH then Some (- 1, s)
      else case run_state (copy_with_hcc_lib L boot_select) (fat_state s) of
        ((result, image_size, content), h) \<Rightarrow>
          (case memcpy_sdram 0 content (s\<lparr>fat_state := h\<rparr>) of
             None \<Rightarrow> None
           | Some s \<Rightarrow>
               if result \<noteq> 0 then Some (result, s)
               else if \<not> use_hamming then Some (result, s)
               else (case handle_hamming_code_check spi (boot_slot boot_select)
                            (case image_size of None \<Rightarrow> 0 | Some n \<Rightarrow> n) stale s of
                       None \<Rightarrow> None
                     | Some (result, s) \<Rightarrow> Some (handle_hamming_code_result result s))))"

section \<open>The core operation\<close>

definition perform_iobc_copy_operation_to_sdram ::
    "'d spi_bus \<Rightarrow> 'h hcc \<Rightarrow> u32 \<Rightarrow> nat \<Rightarrow> ('d, 'h) obc \<Rightarrow> ('d, 'h) obc flow" where
  "perform_iobc_copy_operation_to_sdram spi L stale reserved_size s =
     (case (if fram_faulty s then Some (BOOT_NOR_FLASH, Some False)
            else determine_boot_select (fram_faulty s) (bl_fram_block s) (Some False)) of
        None \<Rightarrow> Fault
      | Some (boot_select, use_hamming) \<Rightarrow>
          let use_hamming = (the use_hamming \<and> local_hamming_flag_check (bl_fram_block s) boot_select)
          in if boot_select = BOOT_NOR_FLASH
             then (case copy_norflash_binary_to_sdram spi reserved_size use_hamming s of
                     None \<Rightarrow> Fault
                   | Some (result, s) \<Rightarrow>
                       if result \<noteq> 0
                       then Restarted (s\<lparr>fram_dev :=
                              handle_problematic_norflash_copy_result spi (bl_fram_block s) (fram_dev s)\<rparr>)
                       else (case increment_reboot_counter_no_os spi (bl_fram_block s) FLASH_SLOT None (fram_dev s) of
                               ((result, _), d) \<Rightarrow> Returned result (s\<lparr>fram_dev := d\<rparr>)))
             else (case copy_sdcard_binary_to_sdram spi L stale boot_select use_hamming s of
                     None \<Rightarrow> Fault
                   | Some (result, s) \<Rightarrow>
                       if result \<noteq> 0
                       then Restarted (s\<lparr>fram_dev := handle_problematic_sdc_copy_result spi (bl_fram_block s)
                              boot_select (fram_dev s)\<rparr>)
                       else (case increment_sdc_loc_reboot_counter spi (bl_fram_block s) boot_select None (fram_dev s) of
                               ((result, _), d) \<Rightarrow> Returned result (s\<lparr>fram_dev := d\<rparr>))))"

text \<open>
  The size and the CRC of the bootloader stand in the last six bytes of its part of the NOR flash;
  the CRC is computed over the flash from its start, and a size beyond its end is a fault.
\<close>

definition perform_bootloader_check :: "nat \<Rightarrow> ('d, 'h) obc \<Rightarrow> ('d, 'h) obc flow" where
  "perform_bootloader_check reserved_size s =
     (let n = length (nor_bootloader s);
          bootloader_size = bytes_u32 (buf_read (nor_bootloader s) (n - 6) 4);
          written_crc16 = bytes_u16 (buf_read (nor_bootloader s) (n - 2) 2)
      in if written_crc16 \<noteq> 0x00 \<or> written_crc16 \<noteq> 0xff
         then (case crc16ccitt_default_start_crc (nor_bootloader s @ nor_image s) bootloader_size of
                 None \<Rightarrow> Fault
               | Some calculated_crc \<Rightarrow>
                   if written_crc16 \<noteq> calculated_crc
                   then if length (nor_image s) < reserved_size then Fault
                     else (case memcpy_sdram 0 (take reserved_size (nor_image s)) s of
                       None \<Rightarrow> Fault
                     | Some s \<Rightarrow> Jumped (set_sram0_status_field SRAM_BOOTLOADER_INVALID s))
                   else Returned 0 s)
         else Returned 0 s)"

definition initialize_all_iobc_peripherals :: "'d spi_bus \<Rightarrow> u32 \<Rightarrow> ('d, 'h) obc \<Rightarrow> ('d, 'h) obc" where
  "initialize_all_iobc_peripherals spi mck s =
     (case fram_start_no_os_no_interrupt mck (spi_state s) of
        (retval, g) \<Rightarrow>
          let s = s\<lparr>spi_state := g, fram_faulty := fram_faulty s \<or> retval \<noteq> 0\<rparr> in
          (case fram_no_os_blocking_read_bootloader_block spi (replicate 56 0) (fram_dev s) of
             ((retval, bs), d) \<Rightarrow>
               s\<lparr>fram_dev := d, bl_fram_block := parse_bl_group bs,
                 fram_faulty := fram_faulty s \<or> retval \<noteq> 0\<rparr>))"

definition perform_bootloader_core_operation ::
    "'d spi_bus \<Rightarrow> 'h hcc \<Rightarrow> u32 \<Rightarrow> nat \<Rightarrow> ('d, 'h) obc \<Rightarrow> ('d, 'h) obc flow" where
  "perform_bootloader_core_operation spi L stale reserved_size s =
     (case perform_bootloader_check reserved_size s of
        Returned _ s \<Rightarrow>
          (case perform_iobc_copy_operation_to_sdram spi L stale reserved_size s of
             Returned _ s \<Rightarrow> Jumped s
           | f \<Rightarrow> f)
      | f \<Rightarrow> f)"

text \<open>A reset initialises the globals of the program; the memories and devices stay.\<close>

definition reset_globals :: "('d, 'h) obc \<Rightarrow> ('d, 'h) obc" where
  "reset_globals s = s\<lparr>hamming_code_buf := replicate (unat IMAGES_HAMMING_RESERVED_SIZE) 0,
     bl_fram_block := parse_bl_group (replicate 56 0), fram_faulty := False\<rparr>"

definition boot_iobc_from_norflash ::
    "'d spi_bus \<Rightarrow> 'h hcc \<Rightarrow> u32 \<Rightarrow> u32 \<Rightarrow> nat \<Rightarrow> ('d, 'h) obc \<Rightarrow> ('d, 'h) obc flow" where
  "boot_iobc_from_norflash spi L mck stale reserved_size s =
     perform_bootloader_core_operation spi L stale reserved_size
       (initialize_all_iobc_peripherals spi mck (reset_globals s))"

text \<open>The minimal variant: the image is copied in ten buckets and a rest.\<close>

definition copy_bucket :: "nat \<Rightarrow> nat \<Rightarrow> ('d, 'h) obc option \<Rightarrow> ('d, 'h) obc option" where
  "copy_bucket off n r =
     Option.bind r (\<lambda>s. if off + n \<le> length (nor_image s)
       then memcpy_sdram off (buf_read (nor_image s) off n) s else None)"

definition simple_bootloader :: "nat \<Rightarrow> ('d, 'h) obc \<Rightarrow> ('d, 'h) obc flow" where
  "simple_bootloader copy_size s =
     (let bucket_size = copy_size div 10; bucket_rest = copy_size mod 10;
          r = for_range 10 (\<lambda>idx. copy_bucket (idx * bucket_size) bucket_size) (Some s)
      in (case copy_bucket (bucket_size * 10) bucket_rest r of None \<Rightarrow> Fault | Some s \<Rightarrow> Jumped s))"

end
