(* ===== verification/BootSpec.thy ===== *)
theory BootSpec
  imports Bootloader
begin

text \<open>
  Properties of the bootloader: the self check, the correction of an image on its way to the SDRAM,
  the bookkeeping of restarts, and the file handles of the SD card path.
\<close>

section \<open>Reading Hamming codes through the driver\<close>

lemma ham_code_slot_bounds:
  assumes "determine_ham_code_address slot \<noteq> 0" "n \<le> ham_area_size slot"
  shows "unat (determine_ham_code_address slot) + n \<le> CHIP_SIZE"
proof -
  let ?n = "if slot = BOOTLOADER_0 then BOOTLOADER_HAMMING_RESERVED_SIZE else IMAGES_HAMMING_RESERVED_SIZE"
  have "determine_ham_code_address_with_sizecheck slot ?n = Inr (determine_ham_code_address slot)"
    using assms(1) by (simp add: determine_ham_code_address_with_sizecheck_def Let_def)
  from ham_code_address_bounds [OF this] show ?thesis
    using assms(2) by (simp add: ham_area_size_def CHIP_SIZE_def FRAM_END_ADDR_def)
qed

lemma unat_images_reserved: "unat IMAGES_HAMMING_RESERVED_SIZE = 0x2A00"
  by (simp add: IMAGES_HAMMING_RESERVED_SIZE_def)

lemma read_hamming_code_chip:
  fixes s :: "(fram_chip, 'h) obc"
  assumes "chip_valid (fram_dev s)" "determine_ham_code_address slot \<noteq> 0" "slot \<noteq> BOOTLOADER_0"
    and "n \<noteq> 0" "unat n \<le> 0x2A00" "length (hamming_code_buf s) = 0x2A00"
  shows "\<exists>c. read_hamming_code chip_bus slot n s = Some (0, s\<lparr>fram_dev := c,
      hamming_code_buf := buf_write (hamming_code_buf s) 0
        (buf_read (chip_mem (fram_dev s)) (unat (determine_ham_code_address slot)) (unat n))\<rparr>)
    \<and> chip_mem c = chip_mem (fram_dev s)"
proof -
  let ?a = "determine_ham_code_address slot"
  have clamp: "clamp_ham_size slot 0 n = n"
    using assms(3,5) by (simp add: clamp_ham_size_def word_less_nat_alt unat_images_reserved)
  have checks: "fram_no_os_read_ham_checks slot IMAGES_HAMMING_RESERVED_SIZE 0 n = Inr ?a"
    using assms by (simp add: fram_no_os_read_ham_checks_def Let_def clamp word_less_nat_alt
        unat_images_reserved)
  have l: "length (buf_read (hamming_code_buf s) 0 (unat n)) = unat n"
    using assms by (simp add: buf_simps)
  have "unat ?a + unat n \<le> CHIP_SIZE"
    using ham_code_slot_bounds [OF assms(2)] assms(3,5)
    by (simp add: ham_area_size_def unat_images_reserved)
  then obtain c where c: "fram_read_no_os_blocking chip_bus ?a (buf_read (hamming_code_buf s) 0 (unat n)) (fram_dev s)
      = ((0, buf_read (chip_mem (fram_dev s)) (unat ?a) (unat n)), c)" "chip_mem c = chip_mem (fram_dev s)"
    using no_os_read [OF assms(1), of ?a "buf_read (hamming_code_buf s) 0 (unat n)"] l by auto
  show ?thesis
    using assms c by (auto simp: read_hamming_code_def fram_no_os_blocking_read_ham_code_def checks Let_def)
qed

section \<open>The Hamming check corrects\<close>

lemma fill_amount_padding:
  assumes "unat img + k < 2 ^ 32" "k < 256" "256 dvd unat img + k"
  shows "unat (fill_amount img) = k"
proof -
  have m: "unat (img mod 256) = unat img mod 256" by (simp add: unat_mod)
  obtain q where q: "unat img + k = 256 * q" using assms(3) by (elim dvdE)
  show ?thesis
  proof (cases "k = 0")
    case True
    then have "unat img mod 256 = 0" using q by simp
    then have "img mod 256 = 0" using m by (metis unat_eq_zero)
    then show ?thesis using True by (simp add: fill_amount_def Let_def)
  next
    case False
    have "unat img = 256 * (q - 1) + (256 - k)" using q assms(2) False by (cases q) auto
    then have r: "unat img mod 256 = 256 - k"
      using assms(2) False by (metis add.commute diff_less mod_less mod_mult_self2 zero_less_numeral neq0_conv)
    then have "img mod 256 \<noteq> 0" using m assms(2) by (metis unat_0 zero_less_diff less_numeral_extra(3))
    moreover have "unat (256 - img mod 256) = 256 - (256 - k)"
      using m r by (simp add: unat_sub_if')
    ultimately show ?thesis using assms(2) by (simp add: fill_amount_def Let_def)
  qed
qed

text \<open>The Hamming check of a whole buffer, with more data and more code bytes behind.\<close>

lemma Verify256x_corrects_longer:
  assumes "list_all2 at_most_one_flip blocks received" and "256 * length blocks < 2 ^ 32"
  shows "Hamming_Verify256x (concat received @ rest) (word_of_nat (256 * length blocks))
      (concat (map Compute256 blocks) @ crest) =
    Some (concat blocks @ rest, if received = blocks then 0 else Hamming_ERROR_SINGLEBIT)"
  using Verify256x_blocks [OF assms(1), of 0 "[]" rest "[]" crest 0] assms(2)
  by (simp add: Hamming_Verify256x_def Verify256x_loop.simps [of _ _ 0] mult.commute del: of_nat_mult)

lemma length_concat_blocks: "list_all2 at_most_one_flip bs bs' \<Longrightarrow>
    length (concat bs') = 256 * length bs \<and> length (concat bs) = 256 * length bs"
  by (induction rule: list_all2_induct) (auto dest: at_most_one_flip_length)

lemma buf_write_append: "length d = length a \<Longrightarrow> buf_write (a @ b) 0 d = d @ b"
  by (simp add: buf_write_def)

text \<open>
  The check of an image, padded with zeros to \<open>k\<close> whole blocks, against \<open>k\<close> codes in the FRAM:
  what \<open>Hamming_Verify256x\<close> makes of them is what is in the SDRAM afterwards.
\<close>

lemma handle_hamming_code_check_runs:
  fixes s :: "(fram_chip, 'h) obc"
  assumes "chip_valid (fram_dev s)" "determine_ham_code_address slot \<noteq> 0" "slot \<noteq> BOOTLOADER_0"
    and "0 < k" "3 * k \<le> 0x2A00" "unat img + pad = 256 * k" "pad < 256"
    and "received = take (unat img) (sdram s) @ replicate pad 0" "256 * k \<le> length (sdram s)"
    and "buf_read (chip_mem (fram_dev s)) (unat (determine_ham_code_address slot)) (3 * k) = codes"
    and "length codes = 3 * k" "length (hamming_code_buf s) = 0x2A00"
    and "\<And>rest crest. Hamming_Verify256x (received @ rest) (word_of_nat (256 * k)) (codes @ crest)
      = Some (out @ rest, e)"
  shows "\<exists>c b. handle_hamming_code_check chip_bus slot img (word_of_nat (3 * k)) s =
      Some (hamming_check_value e,
        s\<lparr>fram_dev := c, hamming_code_buf := b, sdram := out @ drop (256 * k) (sdram s)\<rparr>)
    \<and> chip_mem c = chip_mem (fram_dev s) \<and> length b = 0x2A00"
proof -
  let ?n = "word_of_nat (3 * k) :: u32"
  have u: "unat ?n = 3 * k" using assms(5) by (simp only: unat_of_nat) simp
  then have n0: "?n \<noteq> 0" using assms(4) by (auto simp del: of_nat_mult)
  obtain c where c: "read_hamming_code chip_bus slot ?n s = Some (0, s\<lparr>fram_dev := c,
      hamming_code_buf := buf_write (hamming_code_buf s) 0 codes\<rparr>)" "chip_mem c = chip_mem (fram_dev s)"
    using read_hamming_code_chip [OF assms(1-3) n0 _ assms(12)] u assms(5,10) by auto
  let ?b = "buf_write (hamming_code_buf s) 0 codes"
  have b: "?b = codes @ drop (3 * k) (hamming_code_buf s)" "length ?b = 0x2A00"
    using assms(5,11,12) by (simp_all add: buf_write_def)
  have fa: "unat (fill_amount img) = pad"
    using fill_amount_padding [of img pad] assms(5-7) by simp
  have sz: "img + fill_amount img = word_of_nat (256 * k)"
  proof -
    have "img + fill_amount img = word_of_nat (unat img) + word_of_nat (unat (fill_amount img))"
      by (simp add: fa [symmetric] del: of_nat_add)
    also have "\<dots> = word_of_nat (unat img + pad)" by (simp only: fa of_nat_add)
    finally show ?thesis by (simp only: assms(6))
  qed
  let ?mem = "received @ drop (256 * k) (sdram s)"
  have sd: "buf_write (sdram s) (unat img) (replicate pad 0) = ?mem"
    using assms(6,8,9) by (simp add: buf_write_def)
  have fz: "fill_amount img > 0 \<longleftrightarrow> pad > 0"
    using fa by (simp add: word_less_nat_alt)
  have mem: "pad_image img t = Some (t\<lparr>sdram := ?mem\<rparr>)"
    if "sdram t = sdram s" for t :: "(fram_chip, 'h) obc"
  proof (cases "pad = 0")
    case True
    then have e: "?mem = sdram s" using sd by (simp add: buf_write_def)
    have "t\<lparr>sdram := sdram s\<rparr> = t" using that [symmetric] by simp
    then show ?thesis unfolding e using True fz by (simp add: pad_image_def)
  next
    case False
    then show ?thesis using fz that assms(6,9) sd fa by (simp add: pad_image_def memset_sdram_def)
  qed
  let ?s1 = "s\<lparr>fram_dev := c, hamming_code_buf := ?b\<rparr>"
  let ?s2 = "?s1\<lparr>sdram := ?mem\<rparr>"
  have m1: "pad_image img ?s1 = Some ?s2" by (rule mem) simp
  have v2: "Hamming_Verify256x (sdram ?s2) (img + fill_amount img) (hamming_code_buf ?s2)
    = Some (out @ drop (256 * k) (sdram s), e)"
    using assms(13) [of "drop (256 * k) (sdram s)" "drop (3 * k) (hamming_code_buf s)"] b(1) sz
    by (simp del: of_nat_mult)
  have "handle_hamming_code_check chip_bus slot img ?n s =
      Some (hamming_check_value e, ?s2\<lparr>sdram := out @ drop (256 * k) (sdram s)\<rparr>)"
    unfolding handle_hamming_code_check_def c(1)
    by (simp only: assms(3) if_False option.case prod.case m1 v2 simp_thms)
  then show ?thesis using c(2) b(2) by (intro exI [of _ c] exI [of _ ?b]) simp
qed

lemma copy_norflash_runs:
  fixes s :: "(fram_chip, 'h) obc"
  defines "bl \<equiv> bl_fram_block s"
  assumes "chip_valid (fram_dev s)" "0 < k" "3 * k \<le> 0x2A00" "3 * k \<noteq> 0xff"
    and "unat (nor_flash_binary_size bl) + pad = 256 * k" "pad < 256"
    and "nor_flash_hamming_code_size bl = word_of_nat (3 * k)"
    and "received = take (unat (nor_flash_binary_size bl)) (nor_image s) @ replicate pad 0"
    and "buf_read (chip_mem (fram_dev s)) (unat NOR_FLASH_HAMMING_ADDR) (3 * k) = codes" "length codes = 3 * k"
    and "unat (nor_flash_binary_size bl) \<le> n" "n \<le> length (nor_image s)" "n \<le> length (sdram s)"
    and "256 * k \<le> length (sdram s)" "length (hamming_code_buf s) = 0x2A00"
    and "\<And>rest crest. Hamming_Verify256x (received @ rest) (word_of_nat (256 * k)) (codes @ crest)
      = Some (out @ rest, e)"
  shows "\<exists>c b. copy_norflash_binary_to_sdram chip_bus n True s =
      Some (handle_hamming_code_result (hamming_check_value e) (s\<lparr>fram_dev := c, hamming_code_buf := b,
        sdram := out @ drop (256 * k) (buf_write (sdram s) 0 (take n (nor_image s)))\<rparr>))
    \<and> chip_mem c = chip_mem (fram_dev s)"
proof -
  let ?h = "word_of_nat (3 * k) :: u32"
  let ?img = "nor_flash_binary_size bl"
  have uh: "unat ?h = 3 * k" using assms(4) by (simp only: unat_of_nat) simp
  have h: "?h \<noteq> 0" "?h \<noteq> 0xff" "?h \<noteq> 0xffffffff"
    using uh assms(3-5) by (auto simp: unat_eq_zero dest!: arg_cong [where f = unat] simp del: of_nat_mult)
  have i: "?img \<noteq> 0" "?img \<noteq> 0xffffffff"
    using assms(3,4,6,7) by (auto dest!: arg_cong [where f = unat])
  let ?t = "s\<lparr>sdram := buf_write (sdram s) 0 (take n (nor_image s))\<rparr>"
  have l: "length (take n (nor_image s)) = n" using assms(13) by simp
  have cp: "memcpy_sdram 0 (take n (nor_image s)) s = Some ?t" using assms(14) l by (simp add: memcpy_sdram_def)
  have tk: "take (unat ?img) (sdram ?t) = take (unat ?img) (nor_image s)"
    using assms(12-14) by (simp add: buf_write_def min_absorb1)
  have addr: "determine_ham_code_address FLASH_SLOT = NOR_FLASH_HAMMING_ADDR"
    by (simp add: determine_ham_code_address_def)
  have a0: "determine_ham_code_address FLASH_SLOT \<noteq> 0" by (simp add: addr hamming_addresses)
  have hyps: "chip_valid (fram_dev ?t)" "FLASH_SLOT \<noteq> BOOTLOADER_0"
      "received = take (unat ?img) (sdram ?t) @ replicate pad 0" "256 * k \<le> length (sdram ?t)"
      "buf_read (chip_mem (fram_dev ?t)) (unat (determine_ham_code_address FLASH_SLOT)) (3 * k) = codes"
      "length (hamming_code_buf ?t) = 0x2A00"
    using assms(2,9,10,14-16) l tk addr by (simp_all add: buf_simps)
  obtain c b where cb: "handle_hamming_code_check chip_bus FLASH_SLOT ?img ?h ?t =
      Some (hamming_check_value e, ?t\<lparr>fram_dev := c, hamming_code_buf := b,
          sdram := out @ drop (256 * k) (sdram ?t)\<rparr>)"
      "chip_mem c = chip_mem (fram_dev s)" "length b = 0x2A00"
    using handle_hamming_code_check_runs [OF hyps(1) a0 hyps(2) assms(3,4,6,7) hyps(3-5) assms(11) hyps(6) assms(17)]
    by auto
  have "copy_norflash_binary_to_sdram chip_bus n True s =
    Some (handle_hamming_code_result (hamming_check_value e) (?t\<lparr>fram_dev := c,
      hamming_code_buf := b, sdram := out @ drop (256 * k) (sdram ?t)\<rparr>))"
    using assms(8,13) h i cp cb(1) by (simp add: copy_norflash_binary_to_sdram_def Let_def bl_def del: of_nat_mult)
  then show ?thesis using cb(2,3) by (intro exI [of _ c] exI [of _ b]) simp
qed

section \<open>The self check\<close>

text \<open>The size and CRC the bootloader finds for itself.\<close>

definition stored_bl_size :: "bytes \<Rightarrow> u32" where
  "stored_bl_size nb = bytes_u32 (buf_read nb (length nb - 6) 4)"

definition stored_bl_crc :: "bytes \<Rightarrow> u16" where
  "stored_bl_crc nb = bytes_u16 (buf_read nb (length nb - 2) 2)"

definition bootloader_intact :: "bytes \<Rightarrow> bool" where
  "bootloader_intact nb \<longleftrightarrow> 6 \<le> length nb \<and> unat (stored_bl_size nb) \<le> length nb - 6 \<and>
     crc16ccitt_default_start_crc nb (stored_bl_size nb) = Some (stored_bl_crc nb)"

lemma crc_default_append:
  "unat n \<le> length xs \<Longrightarrow> crc16ccitt_default_start_crc (xs @ ys) n = crc16ccitt_default_start_crc xs n"
  by (simp add: crc16ccitt_default_start_crc_def crc16ccitt_is_division_raw)

lemma bootloader_check_eq:
  "perform_bootloader_check n s =
    (case crc16ccitt_default_start_crc (nor_bootloader s @ nor_image s) (stored_bl_size (nor_bootloader s)) of
       None \<Rightarrow> Fault
     | Some crc \<Rightarrow>
         if stored_bl_crc (nor_bootloader s) = crc then Returned 0 s
         else if length (nor_image s) < n then Fault
         else (case memcpy_sdram 0 (take n (nor_image s)) s of
           None \<Rightarrow> Fault | Some s \<Rightarrow> Jumped (set_sram0_status_field SRAM_BOOTLOADER_INVALID s)))"
  by (auto simp: perform_bootloader_check_def Let_def stored_bl_size_def stored_bl_crc_def split: option.split)

lemma stored_fields_update:
  assumes "Suc i < length nb - 6"
  shows "stored_bl_size (nb[i := a, Suc i := b]) = stored_bl_size nb"
    "stored_bl_crc (nb[i := a, Suc i := b]) = stored_bl_crc nb"
  using assms by (simp_all add: stored_bl_size_def stored_bl_crc_def buf_read_def drop_update_cancel)

lemma split_two:
  assumes "Suc i < length xs"
  shows "xs = take i xs @ [xs ! i, xs ! Suc i] @ drop (Suc (Suc i)) xs"
  using assms by (simp add: Cons_nth_drop_Suc)

lemma crc_two_changed:
  assumes "Suc i < unat n" "unat n \<le> length nb" "(a, b) \<noteq> (nb ! i, nb ! Suc i)"
  shows "crc16ccitt_default_start_crc (nb[i := a, Suc i := b]) n \<noteq> crc16ccitt_default_start_crc nb n"
proof -
  let ?m = "take (unat n) nb"
  have t: "crc16ccitt_default_start_crc xs n = crc16ccitt_default_start_crc (take (unat n) xs) n"
    if "unat n \<le> length xs" for xs
    using that by (simp add: crc16ccitt_default_start_crc_def crc16ccitt_is_division_raw)
  have lm: "length ?m = unat n" using assms(2) by simp
  then have i: "Suc i < length ?m" using assms(1) by simp
  have m: "?m = take i ?m @ [nb ! i, nb ! Suc i] @ drop (Suc (Suc i)) ?m"
    using split_two [OF i] assms(1) by simp
  have m': "take (unat n) (nb[i := a, Suc i := b]) = take i ?m @ [a, b] @ drop (Suc (Suc i)) ?m"
    using split_two [of i "take (unat n) (nb[i := a, Suc i := b])"] assms(1,2)
    by (simp add: take_update_swap list_update_beyond)
  have "crc16ccitt_default_start_crc (take i ?m @ [nb ! i, nb ! Suc i] @ drop (Suc (Suc i)) ?m) n
      \<noteq> crc16ccitt_default_start_crc (take i ?m @ [a, b] @ drop (Suc (Suc i)) ?m) n"
    by (rule crc_detects_burst_raw) (use assms(3) m lm in auto)
  then show ?thesis using t [of nb] t [of "nb[i := a, Suc i := b]"] assms(2) m m' by simp
qed

section \<open>Ledger of the SD card path\<close>

text \<open>\<open>quiet\<close>: files and sessions as before; \<open>ends\<close>: one session less; the variant with the file.\<close>

definition quiet :: "('h \<times> ledger, 'a) state \<Rightarrow> bool" where
  "quiet m \<longleftrightarrow> (\<forall>s. open_files (snd (snd (run_state m s))) = open_files (snd s) \<and>
     fs_sessions (snd (snd (run_state m s))) = fs_sessions (snd s))"

definition ends :: "('h \<times> ledger, 'a) state \<Rightarrow> bool" where
  "ends m \<longleftrightarrow> (\<forall>s. open_files (snd (snd (run_state m s))) = open_files (snd s) \<and>
     fs_sessions (snd (snd (run_state m s))) = fs_sessions (snd s) - 1)"

definition closes_ends :: "nat option \<Rightarrow> ('h \<times> ledger, 'a) state \<Rightarrow> bool" where
  "closes_ends f m \<longleftrightarrow> (\<forall>s. open_files (snd (snd (run_state m s))) = open_files (note_close f (snd s)) \<and>
     fs_sessions (snd (snd (run_state m s))) = fs_sessions (snd s) - 1)"

lemma quiet_keeps: "keeps m \<Longrightarrow> quiet m"
  by (simp add: quiet_def keeps_def)

lemma quiet_bind: "quiet m \<Longrightarrow> (\<And>x. quiet (k x)) \<Longrightarrow> quiet (m \<bind> k)"
  by (auto simp: quiet_def split: prod.split) (metis prod.collapse snd_conv)+

lemma ends_bind: "quiet m \<Longrightarrow> (\<And>x. ends (k x)) \<Longrightarrow> ends (m \<bind> k)"
  by (auto simp: quiet_def ends_def split: prod.split) (metis prod.collapse snd_conv)+

lemma ends_if: "(b \<Longrightarrow> ends m) \<Longrightarrow> (\<not> b \<Longrightarrow> ends n) \<Longrightarrow> ends (if b then m else n)"
  by simp

lemma closes_ends_bind: "keeps m \<Longrightarrow> (\<And>x. closes_ends f (k x)) \<Longrightarrow> closes_ends f (m \<bind> k)"
  by (auto simp: keeps_def closes_ends_def split: prod.split) (metis prod.collapse snd_conv)+

lemma closes_ends_if: "(b \<Longrightarrow> closes_ends f m) \<Longrightarrow> (\<not> b \<Longrightarrow> closes_ends f n) \<Longrightarrow> closes_ends f (if b then m else n)"
  by simp

lemma closes_ends_close: "(\<And>x. ends (k x)) \<Longrightarrow> closes_ends f (f_close (traced L) f \<bind> k)"
proof -
  assume k: "\<And>x. ends (k x)"
  have "snd (snd (run_state (f_close (traced L) f) s)) = note_close f (snd s)" for s
    by (auto simp: traced_def noted_def split: prod.split)
  moreover have "fs_sessions (note_close f l) = fs_sessions l" for l
    by (simp add: note_close_def split: option.split)
  ultimately show ?thesis
    using k by (auto simp: closes_ends_def ends_def split: prod.split) (metis prod.collapse snd_conv)+
qed

lemma quiet_release: "quiet (f_releaseFS (traced L))" "quiet (f_enterFS (traced L))"
  by (auto simp: quiet_def traced_def noted_def split: prod.split)

lemma quiet_if: "(b \<Longrightarrow> quiet m) \<Longrightarrow> (\<not> b \<Longrightarrow> quiet n) \<Longrightarrow> quiet (if b then m else n)"
  by simp

lemma ends_fs_delete: "(\<And>x. quiet (k x)) \<Longrightarrow> ends (fs_delete (traced L) \<bind> k)"
proof -
  assume k: "\<And>x. quiet (k x)"
  show ?thesis
    unfolding ends_def
  proof
    fix s
    obtain a s' where r: "run_state (fs_delete (traced L)) s = (a, s')" by (metis prod.exhaust)
    then have "snd s' = (snd s)\<lparr>fs_sessions := fs_sessions (snd s) - 1\<rparr>"
      by (auto simp: traced_def noted_def split: prod.splits)
    then show "open_files (snd (snd (run_state (fs_delete (traced L) \<bind> k) s))) = open_files (snd s) \<and>
        fs_sessions (snd (snd (run_state (fs_delete (traced L) \<bind> k) s))) = fs_sessions (snd s) - 1"
      using spec [OF k [of a, unfolded quiet_def], of s'] r by (simp del: split_paired_All)
  qed
qed

lemma ends_close_filesystem: "(\<And>x. quiet (k x)) \<Longrightarrow> ends (close_filesystem (traced L) True True v \<bind> k)"
proof -
  assume k: "\<And>x. quiet (k x)"
  have e: "close_filesystem (traced L) True True v \<bind> k =
      f_delvolume (traced L) v \<bind> (\<lambda>_. f_releaseFS (traced L) \<bind> (\<lambda>_. fs_delete (traced L) \<bind> (\<lambda>r.
        (if r \<noteq> 0 then ret r else hcc_mem_delete (traced L)) \<bind> k)))"
    by (simp add: close_filesystem_def)
  show ?thesis
    unfolding e
    by (intro ends_bind quiet_keeps keeps_calls quiet_release ends_fs_delete quiet_bind quiet_if k keeps_return)
qed

lemma ends_copy_file: "closes_ends file (copy_from_file (traced L) v name file)"
  unfolding copy_from_file_def
  by (intro closes_ends_bind closes_ends_if closes_ends_close ends_close_filesystem keeps_calls
      quiet_keeps keeps_return)

lemma ends_open_copy:
  assumes "open_reports L"
  shows "ends (f_open (traced L) n m \<bind> (\<lambda>file. f_getlasterror (traced L) \<bind> (\<lambda>e.
    if e \<noteq> 0 then close_filesystem (traced L) True True v \<bind> (\<lambda>_. ret x)
    else copy_from_file (traced L) v n file)))"
  unfolding ends_def
proof
  fix s :: "'a \<times> ledger"
  obtain h l where s: "s = (h, l)" by (cases s)
  obtain f h' l' where o: "run_state (f_open (traced L) n m) (h, l) = (f, h', l')" by (metis prod.exhaust)
  obtain e h'' l'' where g: "run_state (f_getlasterror (traced L)) (h', l') = (e, h'', l'')"
    by (metis prod.exhaust)
  have l: "l' = note_open f l" "e = 0 \<longleftrightarrow> f \<noteq> None" "l'' = l'"
    using open_reports_traced [OF assms o] g keeps_run [OF keeps_calls(2) g] by auto
  let ?R = "run_state (f_open (traced L) n m \<bind> (\<lambda>file. f_getlasterror (traced L) \<bind> (\<lambda>e.
    if e \<noteq> 0 then close_filesystem (traced L) True True v \<bind> (\<lambda>_. ret x)
    else copy_from_file (traced L) v n file))) s"
  show "open_files (snd (snd ?R)) = open_files (snd s) \<and> fs_sessions (snd (snd ?R)) = fs_sessions (snd s) - 1"
  proof (cases f)
    case None
    have "ends (close_filesystem (traced L) True True v \<bind> (\<lambda>_. ret x))"
      by (intro ends_close_filesystem quiet_keeps keeps_return)
    moreover have "?R = run_state (close_filesystem (traced L) True True v \<bind> (\<lambda>_. ret x)) (h'', l'')"
      using s o g l None by simp
    ultimately show ?thesis using l None s by (simp only: ends_def) (simp add: note_open_def)
  next
    case (Some y)
    have "?R = run_state (copy_from_file (traced L) v n f) (h'', l'')"
      using s o g l Some by simp
    then show ?thesis using l Some s ends_copy_file [of f L v n]
      by (simp only: closes_ends_def) (simp add: note_open_def note_close_def)
  qed
qed

lemma open_then_ends:
  assumes "\<And>r. r = 0 \<Longrightarrow> ends (k r)" "\<And>r. r \<noteq> 0 \<Longrightarrow> quiet (k r)"
  shows "quiet (open_filesystem (traced L) \<bind> k)"
  unfolding quiet_def
proof
  fix s :: "'a \<times> ledger"
  obtain x s1 where m: "run_state (hcc_mem_init (traced L)) s = (x, s1)" by (metis prod.exhaust)
  have s1: "snd s1 = snd s" 
    using keeps_run [OF keeps_calls(17), of L "fst s" "snd s" x "fst s1" "snd s1"] m by simp
  obtain r s2 where i: "run_state (fs_init (traced L)) s1 = (r, s2)" by (metis prod.exhaust)
  then have s2: "snd s2 = (if r = 0 then (snd s1)\<lparr>fs_sessions := fs_sessions (snd s1) + 1\<rparr> else snd s1)"
    by (auto simp: traced_def noted_def split: prod.splits)
  have e: "run_state (open_filesystem (traced L) \<bind> k) s = run_state (k r) s2"
    by (simp add: open_filesystem_def m i)
  show "open_files (snd (snd (run_state (open_filesystem (traced L) \<bind> k) s))) = open_files (snd s) \<and>
      fs_sessions (snd (snd (run_state (open_filesystem (traced L) \<bind> k) s))) = fs_sessions (snd s)"
    unfolding e
  proof (cases "r = 0")
    case True
    then show "open_files (snd (snd (run_state (k r) s2))) = open_files (snd s) \<and>
      fs_sessions (snd (snd (run_state (k r) s2))) = fs_sessions (snd s)"
      using assms(1) [OF True] s1 s2 by (simp only: ends_def) simp
  next
    case False
    then show "open_files (snd (snd (run_state (k r) s2))) = open_files (snd s) \<and>
      fs_sessions (snd (snd (run_state (k r) s2))) = fs_sessions (snd s)"
      using assms(2) [OF False] s1 s2 by (simp only: quiet_def) simp
  qed
qed

lemma quiet_select: "quiet (select_sd_card (traced L) v b)"
  unfolding select_sd_card_def init_volume_def
  by (intro quiet_if quiet_bind quiet_release quiet_keeps keeps_calls keeps_return)

lemma copy_with_hcc_lib_quiet:
  assumes "open_reports L"
  shows "quiet (copy_with_hcc_lib (traced L) boot_select)"
  unfolding copy_with_hcc_lib_def Let_def
  by (rule open_then_ends)
    (simp_all, (intro ends_bind ends_if quiet_select ends_close_filesystem quiet_keeps keeps_return
      keeps_directory ends_open_copy [OF assms] quiet_bind keeps_calls)+)

end
