(* ===== verification/BootProps.thy ===== *)
theory BootProps
  imports BootSpec FramSpec
begin

text \<open>
  The properties of the bootloader as a whole: what an image looks like in the SDRAM, how often an
  image is tried, when the bootloader distrusts itself, and what is left open on the SD card.
\<close>

section \<open>The bootloader group in the FRAM\<close>

text \<open>What \<open>initialize_all_iobc_peripherals\<close> reads from the chip.\<close>

definition bl_of :: "fram_chip \<Rightarrow> bl_group" where
  "bl_of c = parse_bl_group (buf_read (chip_mem c) (unat BL_GROUP_ADDR) 56)"

lemma bl_group_field:
  assumes "f \<in> fst ` set BootloaderGroup"
  shows "buf_read (buf_read m 12 56) (offset_of BootloaderGroup f) (cdb_size f) = field_bytes m f"
proof -
  have "offset_of BootloaderGroup f + cdb_size f \<le> 56 \<and> cdb_offset f = 12 + offset_of BootloaderGroup f"
    using assms by (cases f) (simp_all add: BootloaderGroup_def)
  then show ?thesis by (simp add: field_bytes_def buf_read_def take_drop add.commute)
qed

lemma bl_u16_field: "f \<in> fst ` set BootloaderGroup \<Longrightarrow> cdb_size f = 2 \<Longrightarrow>
    bl_u16 (buf_read m 12 56) f = bytes_u16 (field_bytes m f)"
  using bl_group_field [of f m] by (simp add: bl_u16_def)

lemma bl_u32_field: "f \<in> fst ` set BootloaderGroup \<Longrightarrow> cdb_size f = 4 \<Longrightarrow>
    bl_u32 (buf_read m 12 56) f = bytes_u32 (field_bytes m f)"
  using bl_group_field [of f m] by (simp add: bl_u32_def)

lemma bl_u8_field:
  assumes "f \<in> fst ` set BootloaderGroup" "cdb_size f = 1" "89 \<le> length m"
  shows "bl_u8 (buf_read m 12 56) f = hd (field_bytes m f)"
proof -
  have b: "offset_of BootloaderGroup f < 56" using assms(1,2) by (cases f) (simp_all add: BootloaderGroup_def)
  then have "buf_read m 12 56 ! offset_of BootloaderGroup f
      = hd (buf_read (buf_read m 12 56) (offset_of BootloaderGroup f) 1)"
    using assms(3) by (simp add: buf_read_def hd_drop_conv_nth hd_take)
  then show ?thesis using bl_group_field [OF assms(1), of m] assms(2) by (simp add: bl_u8_def)
qed

lemmas bl_fields = bl_u16_field bl_u32_field bl_u8_field

lemma bl_of_fields:
  assumes "chip_valid c"
  shows "bl_of c = \<lparr>
     preferred_sd_card = bytes_u16 (field_bytes (chip_mem c) F_preferred_sd_card),
     global_hamming_flag = bytes_u16 (field_bytes (chip_mem c) F_global_hamming_flag),
     nor_flash_hamming_flag = bytes_u16 (field_bytes (chip_mem c) F_nor_flash_hamming_flag),
     sdc0_image_slot0_hamming_flag = bytes_u16 (field_bytes (chip_mem c) F_sdc0_image_slot0_hamming_flag),
     sdc0_image_slot1_hamming_flag = bytes_u16 (field_bytes (chip_mem c) F_sdc0_image_slot1_hamming_flag),
     sdc1_image_slot0_hamming_flag = bytes_u16 (field_bytes (chip_mem c) F_sdc1_image_slot0_hamming_flag),
     sdc1_image_slot1_hamming_flag = bytes_u16 (field_bytes (chip_mem c) F_sdc1_image_slot1_hamming_flag),
     nor_flash_reboot_counter = bytes_u16 (field_bytes (chip_mem c) F_nor_flash_reboot_counter),
     sdc0_image_slot0_reboot_counter = bytes_u16 (field_bytes (chip_mem c) F_sdc0_image_slot0_reboot_counter),
     sdc0_image_slot1_reboot_counter = bytes_u16 (field_bytes (chip_mem c) F_sdc0_image_slot1_reboot_counter),
     sdc1_image_slot0_reboot_counter = bytes_u16 (field_bytes (chip_mem c) F_sdc1_image_slot0_reboot_counter),
     sdc1_image_slot1_reboot_counter = bytes_u16 (field_bytes (chip_mem c) F_sdc1_image_slot1_reboot_counter),
     nor_flash_binary_size = bytes_u32 (field_bytes (chip_mem c) F_nor_flash_binary_size),
     nor_flash_hamming_code_size = bytes_u32 (field_bytes (chip_mem c) F_nor_flash_hamming_code_size),
     software_update_available = hd (field_bytes (chip_mem c) F_software_update_available),
     software_update_in_volume_0 = hd (field_bytes (chip_mem c) F_software_update_in_volume_0),
     software_update_in_volume_1 = hd (field_bytes (chip_mem c) F_software_update_in_volume_1)\<rparr>"
proof -
  have "89 \<le> length (chip_mem c)" using noos.block_in_mem [OF assms] .
  moreover have "unat BL_GROUP_ADDR = 12" by simp
  ultimately show ?thesis
    by (simp add: bl_of_def parse_bl_group_def bl_fields BootloaderGroup_def)
qed

text \<open>The increment of the counter of an image, as the next start sees it.\<close>

definition next_counter :: "u16 \<Rightarrow> u16" where
  "next_counter n = (if n = 0xff then 1 else n + 1)"

lemma counter_incremented:
  assumes "chip_valid c" "s \<noteq> BOOTLOADER_0" "s \<noteq> BOOTLOADER_1"
    and "increment_reboot_counter_no_os chip_bus bl s p c = ((r, q), c')"
  shows "r = 0 \<and> chip_valid c' \<and>
    field_bytes (chip_mem c') (img_counter_field s) = u16_bytes (next_counter (cached_reboot_counter bl s)) \<and>
    (\<forall>g. g \<noteq> img_counter_field s \<longrightarrow> field_bytes (chip_mem c') g = field_bytes (chip_mem c) g)"
proof -
  note a = noos.img_counter_addr [OF assms(2,3)]
  let ?n = "next_counter (cached_reboot_counter bl s)"
  have w: "FRAM_writeAndVerify (no_os_hal chip_bus) (u16_bytes ?n) (word_of_nat (cdb_offset (img_counter_field s))) c
      = (r, c')"
    using assms(4) a
    by (auto simp: increment_reboot_counter_no_os_def Let_def next_counter_def
        fram_no_os_blocking_increment_img_reboot_counter_def no_os_hal_def split: prod.splits if_splits)
  have "r = 0" using w by (simp add: no_os_hal_def fram_write_no_os_blocking_def Let_def)
  then show ?thesis using noos.write_field [OF assms(1) w] a by (simp add: length_u16_bytes)
qed

lemma flash_counter_incremented:
  assumes "chip_valid c" "increment_reboot_counter_no_os chip_bus (bl_of c) FLASH_SLOT p c0 = ((r, q), c')"
    and "chip_mem c0 = chip_mem c"
  shows "r = 0 \<and> chip_valid c' \<and>
    bl_of c' = (bl_of c)\<lparr>nor_flash_reboot_counter := next_counter (nor_flash_reboot_counter (bl_of c))\<rparr>"
proof -
  have v: "chip_valid c0" using assms(1,3) by (simp add: chip_valid_def)
  note i = counter_incremented [OF v _ _ assms(2)]
  have g: "g \<noteq> F_nor_flash_reboot_counter \<Longrightarrow> field_bytes (chip_mem c') g = field_bytes (chip_mem c) g" for g
    using i assms(3) by (simp add: img_counter_field_def)
  have n: "field_bytes (chip_mem c') F_nor_flash_reboot_counter
      = u16_bytes (next_counter (nor_flash_reboot_counter (bl_of c)))"
    using i by (simp add: img_counter_field_def cached_reboot_counter_def)
  have "chip_valid c'" using i by simp
  from bl_of_fields [OF this] bl_of_fields [OF assms(1)] show ?thesis
    using i n by (simp add: g)
qed


section \<open>Copying leaves the FRAM as it is\<close>

lemma read_hamming_code_keeps:
  fixes s :: "(fram_chip, 'h) obc"
  assumes "chip_valid (fram_dev s)" "slot \<noteq> BOOTLOADER_0" "length (hamming_code_buf s) = 0x2A00"
    and "read_hamming_code chip_bus slot n s = Some (r, s')"
  shows "chip_mem (fram_dev s') = chip_mem (fram_dev s) \<and> bl_fram_block s' = bl_fram_block s"
proof (cases "fram_no_os_read_ham_checks slot IMAGES_HAMMING_RESERVED_SIZE 0 n")
  case (Inl a)
  then show ?thesis using assms(4) by (auto simp: read_hamming_code_def fram_no_os_blocking_read_ham_code_def)
next
  case (Inr a)
  then have a: "a = determine_ham_code_address slot" "determine_ham_code_address slot \<noteq> 0"
    by (simp_all add: fram_no_os_read_ham_checks_def Let_def split: if_splits)
  have n: "unat n \<le> 0x2A00"
    using assms(3,4) Inr by (auto simp: read_hamming_code_def fram_no_os_blocking_read_ham_code_def Let_def split: if_splits)
  let ?b = "buf_read (hamming_code_buf s) 0 (unat n)"
  have "unat a + length ?b \<le> CHIP_SIZE"
    using ham_code_slot_bounds [OF a(2), of "unat n"] n assms(2,3) a(1)
    by (simp add: ham_area_size_def unat_images_reserved buf_simps)
  then obtain c where "fram_read_no_os_blocking chip_bus a ?b (fram_dev s)
      = ((0, buf_read (chip_mem (fram_dev s)) (unat a) (length ?b)), c)" "chip_mem c = chip_mem (fram_dev s)"
    using no_os_read [OF assms(1)] by blast
  then show ?thesis using assms(4) Inr
    by (auto simp: read_hamming_code_def fram_no_os_blocking_read_ham_code_def Let_def split: if_splits)
qed

lemma memory_keeps:
  "pad_image n s = Some s' \<Longrightarrow> fram_dev s' = fram_dev s \<and> bl_fram_block s' = bl_fram_block s"
  "memcpy_sdram off bs s = Some s' \<Longrightarrow> fram_dev s' = fram_dev s \<and> bl_fram_block s' = bl_fram_block s
    \<and> hamming_code_buf s' = hamming_code_buf s"
  by (auto simp: pad_image_def memset_sdram_def memcpy_sdram_def split: if_splits)

lemma hamming_check_keeps:
  fixes s :: "(fram_chip, 'h) obc"
  assumes "chip_valid (fram_dev s)" "length (hamming_code_buf s) = 0x2A00"
    and "handle_hamming_code_check chip_bus slot img n s = Some (r, s')"
  shows "chip_mem (fram_dev s') = chip_mem (fram_dev s) \<and> bl_fram_block s' = bl_fram_block s"
proof (cases "slot = BOOTLOADER_0")
  case False
  then obtain r1 s1 where r1: "read_hamming_code chip_bus slot n s = Some (r1, s1)"
    using assms(3) by (auto simp: handle_hamming_code_check_def split: option.splits)
  have k: "chip_mem (fram_dev s1) = chip_mem (fram_dev s) \<and> bl_fram_block s1 = bl_fram_block s"
    by (rule read_hamming_code_keeps [OF assms(1) False assms(2) r1])
  show ?thesis
    using assms(3) False r1 k memory_keeps(1) [of img s1]
    by (auto simp: handle_hamming_code_check_def split: if_splits option.splits)
qed (use assms(3) in \<open>simp add: handle_hamming_code_check_def\<close>)

lemma result_keeps:
  "handle_hamming_code_result x s = (r, s') \<Longrightarrow> fram_dev s' = fram_dev s \<and> bl_fram_block s' = bl_fram_block s"
  by (auto simp: handle_hamming_code_result_def set_sram0_status_field_def split: if_splits)

lemma copy_norflash_keeps:
  fixes s :: "(fram_chip, 'h) obc"
  assumes "chip_valid (fram_dev s)" "length (hamming_code_buf s) = 0x2A00"
    and "copy_norflash_binary_to_sdram chip_bus n h s = Some (r, s')"
  shows "chip_mem (fram_dev s') = chip_mem (fram_dev s) \<and> bl_fram_block s' = bl_fram_block s"
proof -
  obtain s1 where s1: "memcpy_sdram 0 (take n (nor_image s)) s = Some s1"
    using assms(3) by (auto simp: copy_norflash_binary_to_sdram_def Let_def split: if_splits option.splits)
  note m = memory_keeps(2) [OF s1]
  show ?thesis
    using assms s1 m
    by (auto simp: copy_norflash_binary_to_sdram_def Let_def dest!: result_keeps
        dest: hamming_check_keeps [of s1, rotated 2] split: if_splits option.splits)
qed

lemma norflash_boot_counts_raw:
  fixes s :: "(fram_chip, 'h) obc"
  assumes "chip_valid (fram_dev s)" "length (hamming_code_buf s) = 0x2A00"
    and "\<not> fram_faulty s" "bl_fram_block s = bl_of (fram_dev s)"
    and "fst (boot_choice (bl_fram_block s)) = BOOT_NOR_FLASH"
    and "perform_iobc_copy_operation_to_sdram chip_bus L stale n s \<in> {Restarted s', Returned r s'}"
  shows "chip_valid (fram_dev s') \<and> bl_of (fram_dev s') = (bl_fram_block s)
    \<lparr>nor_flash_reboot_counter := next_counter (nor_flash_reboot_counter (bl_fram_block s))\<rparr>"
proof -
  let ?h = "snd (boot_choice (bl_fram_block s)) \<and> local_hamming_flag_check (bl_fram_block s) BOOT_NOR_FLASH"
  obtain x s1 where c: "copy_norflash_binary_to_sdram chip_bus n ?h s = Some (x, s1)"
    using assms(3,5,6)
    by (auto simp: perform_iobc_copy_operation_to_sdram_def boot_choice_eq split: option.splits)
  note k = copy_norflash_keeps [OF assms(1,2) c]
  obtain y q c1 where i: "increment_reboot_counter_no_os chip_bus (bl_of (fram_dev s)) FLASH_SLOT
      (if x = 0 then None else Some 0) (fram_dev s1) = ((y, q), c1)" by (metis prod.exhaust)
  have "fram_dev s' = c1"
    using assms(3-6) c i k
    by (auto simp: perform_iobc_copy_operation_to_sdram_def boot_choice_eq
        handle_problematic_norflash_copy_result_def split: if_splits)
  then show ?thesis using flash_counter_incremented [OF assms(1) i] k assms(4) by simp
qed


section \<open>A series of starts\<close>

text \<open>
  Between two starts everything but the chip may change: the memories decay, the caches are set up
  again. \<open>norflash_boots n c c'\<close>: \<open>n\<close> starts in a row chose the NOR flash, failed or not.
\<close>

inductive norflash_boots :: "nat \<Rightarrow> fram_chip \<Rightarrow> fram_chip \<Rightarrow> bool" where
  no_boot: "norflash_boots 0 c c"
| one_more: "norflash_boots n c (fram_dev s) \<Longrightarrow> chip_valid (fram_dev s) \<Longrightarrow>
    length (hamming_code_buf s) = 0x2A00 \<Longrightarrow> \<not> fram_faulty s \<Longrightarrow>
    bl_fram_block s = bl_of (fram_dev s) \<Longrightarrow> fst (boot_choice (bl_fram_block s)) = BOOT_NOR_FLASH \<Longrightarrow>
    perform_iobc_copy_operation_to_sdram chip_bus (L :: unit hcc) stale k s \<in> {Restarted s', Returned r s'} \<Longrightarrow>
    norflash_boots (Suc n) c (fram_dev s')"

text \<open>While another candidate is left, the NOR flash is chosen only below the limit.\<close>

lemma choice_is_bootable:
  assumes "b \<in> set (boot_candidates bl)" "bootable bl b"
  shows "bootable bl (fst (boot_choice bl))"
  using assms by (auto simp: boot_choice_def find_None_iff find_Some_iff split: option.split)

lemma boot_candidates_counter:
  "boot_candidates (bl\<lparr>nor_flash_reboot_counter := n\<rparr>) = boot_candidates bl"
  "b \<noteq> BOOT_NOR_FLASH \<Longrightarrow> bootable (bl\<lparr>nor_flash_reboot_counter := n\<rparr>) b = bootable bl b"
  by (simp add: boot_candidates_def) (cases b; simp add: bootable_simps)

lemma next_counter_below:
  assumes "n < BOOTLOADER_MAX_REBOOT_COUNTER"
  shows "unat (next_counter n) = unat n + 1"
proof -
  have "unat n < 5" using assms by (simp add: BOOTLOADER_MAX_REBOOT_COUNTER_def word_less_nat_alt)
  then have "n \<noteq> 0xff" "unat (n + 1) = unat n + 1" by (auto simp: unat_plus_if')
  then show ?thesis by (simp add: next_counter_def)
qed

lemma norflash_boots_counter:
  assumes "norflash_boots n c c'" "chip_valid c"
    and "b \<noteq> BOOT_NOR_FLASH" "b \<in> set (boot_candidates (bl_of c))" "bootable (bl_of c) b"
  shows "chip_valid c' \<and> (\<exists>m. bl_of c' = (bl_of c)\<lparr>nor_flash_reboot_counter := m\<rparr> \<and>
    unat m = unat (nor_flash_reboot_counter (bl_of c)) + n \<and> (n \<noteq> 0 \<longrightarrow> unat m \<le> 5))"
  using assms
proof (induction rule: norflash_boots.induct)
  case (no_boot c)
  then show ?case by (intro conjI exI [of _ "nor_flash_reboot_counter (bl_of c)"]) simp_all
next
  case (one_more n c s L stale k s' r)
  obtain m where m: "bl_of (fram_dev s) = (bl_of c)\<lparr>nor_flash_reboot_counter := m\<rparr>"
      "unat m = unat (nor_flash_reboot_counter (bl_of c)) + n"
    using one_more by blast
  have "bootable (bl_of (fram_dev s)) BOOT_NOR_FLASH"
    using choice_is_bootable [of b "bl_of (fram_dev s)"] one_more.prems one_more.hyps m
    by (simp add: boot_candidates_counter)
  then have "m < BOOTLOADER_MAX_REBOOT_COUNTER" using m by (simp add: bootable_simps)
  then have "unat (next_counter m) = unat m + 1" "unat m < 5"
    by (simp_all add: next_counter_below BOOTLOADER_MAX_REBOOT_COUNTER_def word_less_nat_alt)
  moreover have "chip_valid (fram_dev s') \<and> bl_of (fram_dev s') = (bl_fram_block s)
      \<lparr>nor_flash_reboot_counter := next_counter (nor_flash_reboot_counter (bl_fram_block s))\<rparr>"
    by (rule norflash_boot_counts_raw) (use one_more in auto)
  ultimately show ?case using m one_more.hyps(5)
    by (intro conjI exI [of _ "next_counter m"]) simp_all
qed


section \<open>An image on its way from the NOR flash to the SDRAM\<close>

text \<open>
  The NOR flash image is chosen with the Hamming check, \<open>k\<close> codes are stored for it, and the
  memories are large enough for the \<open>n\<close> bytes that are copied.
\<close>

definition nor_image_ready :: "nat \<Rightarrow> nat \<Rightarrow> nat \<Rightarrow> bytes \<Rightarrow> (fram_chip, 'h) obc \<Rightarrow> bool" where
  "nor_image_ready k pad n codes s \<longleftrightarrow> (let bl = bl_fram_block s in
     chip_valid (fram_dev s) \<and> \<not> fram_faulty s \<and>
     boot_choice bl = (BOOT_NOR_FLASH, True) \<and> nor_flash_hamming_flag bl = 1 \<and>
     0 < k \<and> 3 * k \<le> 0x2A00 \<and> 3 * k \<noteq> 0xff \<and>
     unat (nor_flash_binary_size bl) + pad = 256 * k \<and> pad < 256 \<and>
     nor_flash_hamming_code_size bl = word_of_nat (3 * k) \<and>
     buf_read (chip_mem (fram_dev s)) (unat NOR_FLASH_HAMMING_ADDR) (3 * k) = codes \<and> length codes = 3 * k \<and>
     unat (nor_flash_binary_size bl) \<le> n \<and> n \<le> length (nor_image s) \<and> n \<le> length (sdram s) \<and>
     256 * k \<le> length (sdram s) \<and> length (hamming_code_buf s) = 0x2A00)"

definition padded_image :: "nat \<Rightarrow> ('d, 'h) obc \<Rightarrow> bytes" where
  "padded_image pad s = take (unat (nor_flash_binary_size (bl_fram_block s))) (nor_image s) @ replicate pad 0"

lemma nor_image_boot:
  fixes s :: "(fram_chip, 'h) obc"
  assumes "nor_image_ready k pad n codes s"
    and "\<And>rest crest. Hamming_Verify256x (padded_image pad s @ rest) (word_of_nat (256 * k)) (codes @ crest)
      = Some (out @ rest, e)"
    and "handle_hamming_code_result (hamming_check_value e) (s\<lparr>sdram := []\<rparr>) = (r, t)"
  shows "\<exists>s'. perform_iobc_copy_operation_to_sdram chip_bus L stale n s
      = (if r \<noteq> 0 then Restarted s' else Returned 0 s')
    \<and> sdram s' = out @ drop (256 * k) (buf_write (sdram s) 0 (take n (nor_image s)))
    \<and> sram0_status s' = sram0_status t"
proof -
  let ?bl = "bl_fram_block s"
  note ready = assms(1) [unfolded nor_image_ready_def Let_def]
  obtain c b where c: "copy_norflash_binary_to_sdram chip_bus n True s =
      Some (handle_hamming_code_result (hamming_check_value e) (s\<lparr>fram_dev := c, hamming_code_buf := b,
        sdram := out @ drop (256 * k) (buf_write (sdram s) 0 (take n (nor_image s)))\<rparr>))"
      "chip_mem c = chip_mem (fram_dev s)"
    using copy_norflash_runs [OF _ _ _ _ _ _ _ padded_image_def _ _ _ _ _ _ _ assms(2)] ready by blast
  let ?s = "s\<lparr>fram_dev := c, hamming_code_buf := b,
        sdram := out @ drop (256 * k) (buf_write (sdram s) 0 (take n (nor_image s)))\<rparr>"
  obtain s2 where s2: "handle_hamming_code_result (hamming_check_value e) ?s = (r, s2)"
      "sdram s2 = sdram ?s" "sram0_status s2 = sram0_status t" "fram_dev s2 = c" "bl_fram_block s2 = ?bl"
    using assms(3) by (auto simp: handle_hamming_code_result_def set_sram0_status_field_def split: if_splits)
  obtain y q c1 where i: "increment_reboot_counter_no_os chip_bus ?bl FLASH_SLOT
      (if r = 0 then None else Some 0) c = ((y, q), c1)" by (metis prod.exhaust)
  have "chip_valid c" using ready c(2) by (simp add: chip_valid_def)
  then have y: "y = 0" using counter_incremented [OF _ _ _ i] by simp
  have "nor_flash_hamming_flag ?bl = 1" using ready by blast
  then have h: "local_hamming_flag_check ?bl BOOT_NOR_FLASH" by (simp add: local_hamming_flag_check_def)
  have st: "\<not> fram_faulty s" "boot_choice ?bl = (BOOT_NOR_FLASH, True)" using ready by blast+
  have "perform_iobc_copy_operation_to_sdram chip_bus L stale n s
      = (if r \<noteq> 0 then Restarted (s2\<lparr>fram_dev := c1\<rparr>) else Returned 0 (s2\<lparr>fram_dev := c1\<rparr>))"
    using c(1) s2 i y h st
    by (cases "r = 0") (simp_all add: perform_iobc_copy_operation_to_sdram_def boot_choice_eq handle_problematic_norflash_copy_result_def)
  then show ?thesis using s2 by (intro exI [of _ "s2\<lparr>fram_dev := c1\<rparr>"]) simp
qed


lemma codes_append:
  assumes "concat received = padded_image pad s"
    and "list_all2 at_most_one_flip blocks received" "256 * length blocks < 2 ^ 32"
  shows "Hamming_Verify256x (padded_image pad s @ rest) (word_of_nat (256 * length blocks))
      (concat (map Compute256 blocks) @ crest)
    = Some (concat blocks @ rest, if received = blocks then 0 else Hamming_ERROR_SINGLEBIT)"
  using Verify256x_corrects_longer [OF assms(2,3)] assms(1) by simp

text \<open>
  C1. An image in the NOR flash with at most one flipped bit in every block of 256 bytes reaches the
  SDRAM as it was when its Hamming codes were computed; the copy succeeds, and the SRAM status tells
  whether anything had to be corrected.
\<close>
theorem norflash_boot_corrects:
  fixes s :: "(fram_chip, 'h) obc"
  assumes "nor_image_ready (length blocks) pad n (concat (map Compute256 blocks)) s"
    and "list_all2 at_most_one_flip blocks received" and "concat received = padded_image pad s"
  shows "\<exists>s'. perform_iobc_copy_operation_to_sdram chip_bus L stale n s = Returned 0 s' \<and>
    take (256 * length blocks) (sdram s') = concat blocks \<and>
    sram0_status s' = (if received = blocks then SRAM_OK else SRAM_HAMMING_ERROR_SINGLE_BIT)"
proof -
  have k: "256 * length blocks < 2 ^ 32" using assms(1) by (simp add: nor_image_ready_def Let_def)
  have l: "length (concat blocks) = 256 * length blocks" using length_concat_blocks [OF assms(2)] by simp
  let ?e = "if received = blocks then 0 else Hamming_ERROR_SINGLEBIT"
  have "handle_hamming_code_result (hamming_check_value ?e) (s\<lparr>sdram := []\<rparr>)
      = (0, s\<lparr>sdram := [], sram0_status := if received = blocks then SRAM_OK else SRAM_HAMMING_ERROR_SINGLE_BIT\<rparr>)"
    by (simp add: handle_hamming_code_result_def hamming_check_value_def Hamming_ERROR_defs set_sram0_status_field_def)
  from nor_image_boot [OF assms(1) codes_append [OF assms(3,2) k] this, of L stale] l
  show ?thesis by auto
qed

text \<open>
  C2. If a block of the image has two flipped bits, and those before it at most one, the image is not
  started: the bootloader restarts, with the multi-bit error in the SRAM status.
\<close>
theorem norflash_boot_rejects:
  fixes s :: "(fram_chip, 'h) obc"
  assumes "nor_image_ready (length before + Suc (length after)) pad n
      (concat (map Compute256 (before @ block # after))) s"
    and "list_all2 at_most_one_flip before before'" and "length block = 256"
    and "i < 256" and "t < 8" and "j < 256" and "u < 8" and "(i, t) \<noteq> (j, u)"
    and "bad = fst (flip_at (DataBit j u) (flip_at (DataBit i t) (block, Compute256 block)))"
    and "padded_image pad s = concat before' @ bad @ rest"
  shows "\<exists>s'. perform_iobc_copy_operation_to_sdram chip_bus L stale n s = Restarted s' \<and>
    sram0_status s' = SRAM_HAMMING_ERROR_MULTIBIT"
proof -
  let ?k = "length before + Suc (length after)"
  have k: "256 * ?k < 2 ^ 32" using assms(1) by (simp add: nor_image_ready_def Let_def)
  have v: "Verify256 bad (Compute256 block) = (bad, Hamming_ERROR_MULTIPLEBITS)"
    using Verify256_double_error_raw [OF assms(3), of "DataBit i t" "DataBit j u"] assms(4-9) by simp
  have lb: "length bad = 256" using assms(3,9) by simp
  have e: "Hamming_ERROR_MULTIPLEBITS \<noteq> 0" "Hamming_ERROR_MULTIPLEBITS \<noteq> Hamming_ERROR_SINGLEBIT"
    by (simp_all add: Hamming_ERROR_defs)
  have x: "Hamming_Verify256x (padded_image pad s @ r) (word_of_nat (256 * ?k))
      (concat (map Compute256 (before @ block # after)) @ crest)
    = Some ((concat before @ bad @ rest) @ r, Hamming_ERROR_MULTIPLEBITS)" for r crest
    using Verify256x_detects_raw [OF assms(2) lb v _ e k, of "rest @ r" "concat (map Compute256 after) @ crest"]
      assms(10) by (simp del: of_nat_mult of_nat_Suc of_nat_add mult_Suc mult_Suc_right)
  have "handle_hamming_code_result (hamming_check_value Hamming_ERROR_MULTIPLEBITS) (s\<lparr>sdram := []\<rparr>)
      = (- 1, s\<lparr>sdram := [], sram0_status := SRAM_HAMMING_ERROR_MULTIBIT\<rparr>)"
    by (simp add: handle_hamming_code_result_def hamming_check_value_def Hamming_ERROR_defs set_sram0_status_field_def)
  from nor_image_boot [OF assms(1) x this, of L stale] show ?thesis by auto
qed

text \<open>
  C4. Bounded retries: if an image other than the one in the NOR flash is a candidate below the
  reboot limit, then at most \<open>5 - c\<close> starts in a row choose the NOR flash, where \<open>c\<close> is its counter
  in the FRAM; each of them adds one to the counter, whether the copy fails or not, and changes no
  other member that the bootloader reads.
\<close>
theorem norflash_starts_bounded:
  assumes "norflash_boots n c c'" and "chip_valid c"
    and "b \<noteq> BOOT_NOR_FLASH" and "b \<in> set (boot_candidates (bl_of c))" and "bootable (bl_of c) b"
  shows "n \<le> 5 - unat (nor_flash_reboot_counter (bl_of c)) \<and>
    (\<exists>m. bl_of c' = (bl_of c)\<lparr>nor_flash_reboot_counter := m\<rparr> \<and>
      unat m = unat (nor_flash_reboot_counter (bl_of c)) + n)"
  using norflash_boots_counter [OF assms] by (cases "n = 0") auto


section \<open>Instances\<close>

text \<open>A zeroed chip with the codes of one zeroed block, and a state around a chip.\<close>

definition demo_chip :: fram_chip where
  "demo_chip = \<lparr>chip_mem = buf_write (replicate CHIP_SIZE 0) (unat NOR_FLASH_HAMMING_ADDR)
     (Compute256 (replicate 256 0)), chip_wel = False, chip_frame = []\<rparr>"

definition demo_bl :: bl_group where
  "demo_bl = (parse_bl_group (replicate 56 0))\<lparr>global_hamming_flag := 1, nor_flash_hamming_flag := 1,
     nor_flash_binary_size := 256, nor_flash_hamming_code_size := 3\<rparr>"

definition demo_obc :: "bytes \<Rightarrow> (fram_chip, unit) obc" where
  "demo_obc img = \<lparr>fram_dev = demo_chip, fat_state = (), spi_state = after_write, sdram = replicate 256 0xff,
     nor_bootloader = [], nor_image = img, sram0_status = 0, hamming_code_buf = replicate 0x2A00 0,
     bl_fram_block = demo_bl, fram_faulty = False\<rparr>"

lemma demo_chip_valid: "chip_valid demo_chip"
  by (simp add: demo_chip_def chip_valid_def buf_simps hamming_addresses CHIP_SIZE_def)

lemma demo_bl_fields:
  "global_hamming_flag demo_bl = 1" "nor_flash_hamming_flag demo_bl = 1" "nor_flash_binary_size demo_bl = 256"
  "nor_flash_hamming_code_size demo_bl = 3" "nor_flash_reboot_counter demo_bl = 0"
  "sdc0_image_slot0_reboot_counter demo_bl = 0" "software_update_available demo_bl = 0"
  by (simp_all add: demo_bl_def parse_bl_group_def bl_u16_def bl_u8_def buf_read_def bytes_u16_def BootloaderGroup_def)

lemma demo_choice: "boot_choice demo_bl = (BOOT_NOR_FLASH, True)"
  by (simp add: boot_choice_def boot_candidates_def demo_bl_fields bootable_simps BOOTLOADER_MAX_REBOOT_COUNTER_def)

lemma demo_ready:
  assumes "length img = 256"
  shows "nor_image_ready 1 0 256 (Compute256 (replicate 256 0)) (demo_obc img)"
proof -
  have "buf_read (chip_mem demo_chip) (unat NOR_FLASH_HAMMING_ADDR) (length (Compute256 (replicate 256 0)))
      = Compute256 (replicate 256 0)"
    unfolding demo_chip_def fram_chip.simps
    by (rule buf_read_write_same) (simp add: hamming_addresses CHIP_SIZE_def)
  then show ?thesis
    using assms demo_chip_valid demo_choice
    by (simp add: nor_image_ready_def demo_obc_def demo_bl_fields)
qed

lemma demo_padded: "length img = 256 \<Longrightarrow> padded_image 0 (demo_obc img) = img"
  by (simp add: padded_image_def demo_obc_def demo_bl_fields)

theorem norflash_boot_corrects_witness:
  "\<exists>s'. perform_iobc_copy_operation_to_sdram chip_bus empty_files 0 256 (demo_obc ((replicate 256 0)[7 := 1]))
      = Returned 0 s' \<and> take (256 * length [replicate 256 (0 :: u8)]) (sdram s') = concat [replicate 256 0] \<and>
    sram0_status s' = (if [(replicate 256 (0 :: u8))[7 := 1]] = [replicate 256 0] then SRAM_OK
      else SRAM_HAMMING_ERROR_SINGLE_BIT)"
proof (rule norflash_boot_corrects)
  show "nor_image_ready (length [replicate 256 (0 :: u8)]) 0 256 (concat (map Compute256 [replicate 256 0]))
      (demo_obc ((replicate 256 0)[7 := 1]))"
    using demo_ready [of "(replicate 256 0)[7 := 1]"] by simp
  have "(replicate 256 (0 :: u8))[7 := 1] = (replicate 256 0)[7 := replicate 256 0 ! 7 XOR push_bit 0 1]" by simp
  then have "one_flip (replicate 256 0) ((replicate 256 0)[7 := 1])"
    by (intro one_flip_def [THEN iffD2] exI [of _ 7] exI [of _ 0] conjI) simp_all
  then show "list_all2 at_most_one_flip [replicate 256 0] [(replicate 256 0)[7 := 1]]"
    by (simp add: at_most_one_flip_def)
  show "concat [(replicate 256 0)[7 := 1]] = padded_image 0 (demo_obc ((replicate 256 0)[7 := 1]))"
    by (simp add: demo_padded)
qed

theorem norflash_boot_rejects_witness:
  "\<exists>s'. perform_iobc_copy_operation_to_sdram chip_bus empty_files 0 256
      (demo_obc ((replicate 256 0)[7 := 1, 9 := 2])) = Restarted s' \<and>
    sram0_status s' = SRAM_HAMMING_ERROR_MULTIBIT"
proof (rule norflash_boot_rejects [of "[]" "[]" 0 256 "replicate 256 0" "demo_obc ((replicate 256 0)[7 := 1, 9 := 2])"
      "[]" 7 0 9 1 "(replicate 256 0)[7 := 1, 9 := 2]" "[]"])
  show "nor_image_ready (length ([] :: bytes list) + Suc (length ([] :: bytes list))) 0 256
      (concat (map Compute256 ([] @ replicate 256 0 # []))) (demo_obc ((replicate 256 0)[7 := 1, 9 := 2]))"
    using demo_ready [of "(replicate 256 0)[7 := 1, 9 := 2]"] by simp
qed (simp_all add: demo_padded)

text \<open>On the zeroed chip the bootloader chooses the NOR flash, and one start is counted.\<close>

lemma bl_of_demo_chip: "bl_of demo_chip = parse_bl_group (replicate 56 0)"
proof -
  have g: "field_bytes (chip_mem demo_chip) f = replicate (cdb_size f) 0" for f
  proof -
    have "cdb_offset f + cdb_size f \<le> 89" using cdb_in_block [of f] by simp
    then have "buf_read (chip_mem demo_chip) (cdb_offset f) (cdb_size f)
        = buf_read (replicate CHIP_SIZE 0) (cdb_offset f) (cdb_size f)"
      unfolding demo_chip_def fram_chip.simps
      by (intro buf_read_write_other) (simp_all add: hamming_addresses CHIP_SIZE_def)
    then show ?thesis using \<open>cdb_offset f + cdb_size f \<le> 89\<close>
      by (simp add: field_bytes_def buf_read_def CHIP_SIZE_def min_absorb1)
  qed
  show ?thesis
    by (simp add: bl_of_fields [OF demo_chip_valid] g parse_bl_group_def bl_u16_def bl_u32_def bl_u8_def buf_read_def
        BootloaderGroup_def)
qed

lemma demo_boot:
  "\<exists>s' r. norflash_boots 1 demo_chip (fram_dev s') \<and>
    perform_iobc_copy_operation_to_sdram chip_bus empty_files 0 0 ((demo_obc [])\<lparr>bl_fram_block := bl_of demo_chip\<rparr>)
      = Returned r (s' :: (fram_chip, unit) obc)"
proof -
  let ?s = "(demo_obc [])\<lparr>bl_fram_block := bl_of demo_chip\<rparr>"
  note b = bl_of_demo_chip
  have c: "boot_choice (bl_of demo_chip) = (BOOT_NOR_FLASH, False)"
    by (simp add: b parse_bl_group_def boot_choice_def boot_candidates_def bootable_simps BOOTLOADER_MAX_REBOOT_COUNTER_def
        bl_u16_def bl_u8_def bytes_u16_def buf_read_def BootloaderGroup_def)
  have "\<exists>r s'. perform_iobc_copy_operation_to_sdram chip_bus empty_files 0 0 ?s = Returned r s'"
    by (simp add: perform_iobc_copy_operation_to_sdram_def boot_choice_eq c demo_obc_def
        copy_norflash_binary_to_sdram_def memcpy_sdram_def Let_def split: prod.split)
  then obtain r s' where r: "perform_iobc_copy_operation_to_sdram chip_bus empty_files 0 0 ?s = Returned r s'" by blast
  have "norflash_boots (Suc 0) demo_chip (fram_dev s')"
    by (rule one_more [of 0 demo_chip ?s empty_files 0 0 s' r])
      (use r c demo_chip_valid no_boot in \<open>simp_all add: demo_obc_def\<close>)
  then show ?thesis using r by auto
qed


theorem norflash_starts_bounded_witness:
  "\<exists>c'. norflash_boots 1 demo_chip c' \<and> 1 \<le> 5 - unat (nor_flash_reboot_counter (bl_of demo_chip)) \<and>
    unat (nor_flash_reboot_counter (bl_of c')) = unat (nor_flash_reboot_counter (bl_of demo_chip)) + 1"
proof -
  obtain c' where c: "norflash_boots 1 demo_chip c'" using demo_boot by blast
  have b: "BOOT_SD_CARD_0_SLOT_0 \<noteq> BOOT_NOR_FLASH" by simp
  have m: "BOOT_SD_CARD_0_SLOT_0 \<in> set (boot_candidates (bl_of demo_chip))" by (simp add: boot_candidates_def)
  have l: "bootable (bl_of demo_chip) BOOT_SD_CARD_0_SLOT_0"
    by (simp add: bootable_simps bl_of_demo_chip BOOTLOADER_MAX_REBOOT_COUNTER_def parse_bl_group_def bl_u16_def
        bytes_u16_def buf_read_def BootloaderGroup_def)
  from norflash_starts_bounded [OF c demo_chip_valid b m l] c show ?thesis by auto
qed

section \<open>The self check\<close>

text \<open>
  C5. An intact bootloader passes its own check. If then any one or two neighbouring bytes that its
  CRC covers change, the check fails: the NOR flash image is copied to the SDRAM and started, with
  the invalid bootloader in the SRAM status.
\<close>
theorem bootloader_self_check:
  assumes "bootloader_intact (nor_bootloader s)" and "Suc i < unat (stored_bl_size (nor_bootloader s))"
    and "(a, b) \<noteq> (nor_bootloader s ! i, nor_bootloader s ! Suc i)"
    and "n \<le> length (nor_image s)" and "n \<le> length (sdram s)"
  shows "perform_bootloader_check n s = Returned 0 s \<and>
    perform_bootloader_check n (s\<lparr>nor_bootloader := (nor_bootloader s)[i := a, Suc i := b]\<rparr>)
      = Jumped (s\<lparr>nor_bootloader := (nor_bootloader s)[i := a, Suc i := b],
          sdram := buf_write (sdram s) 0 (take n (nor_image s)), sram0_status := SRAM_BOOTLOADER_INVALID\<rparr>)"
proof -
  let ?nb = "nor_bootloader s"
  note ok = assms(1) [unfolded bootloader_intact_def]
  have len: "unat (stored_bl_size ?nb) \<le> length ?nb" "Suc i < length ?nb - 6" using ok assms(2) by auto
  obtain c where c: "crc16ccitt_default_start_crc (?nb[i := a, Suc i := b]) (stored_bl_size ?nb) = Some c"
    using len(1) by (auto simp: crc16ccitt_default_start_crc_def crc16ccitt_is_division_raw)
  have "c \<noteq> stored_bl_crc ?nb"
    using crc_two_changed [OF assms(2) len(1) assms(3)] c ok by auto
  then show ?thesis
    using ok c assms(4,5) len
    by (auto simp: bootloader_check_eq crc_default_append stored_fields_update memcpy_sdram_def set_sram0_status_field_def)
qed

definition demo_bootloader :: bytes where
  "demo_bootloader = [1, 2, 3] @ u32_bytes 3 @ u16_bytes (the (crc16ccitt_default_start_crc [1, 2, 3] 3))"

lemma demo_bootloader_stored:
  "stored_bl_size demo_bootloader = 3" "bootloader_intact demo_bootloader" "demo_bootloader ! 0 = 1"
proof -
  obtain c where c: "crc16ccitt_default_start_crc [1, 2, 3] 3 = Some c"
    by (auto simp: crc16ccitt_default_start_crc_def crc16ccitt_is_division_raw)
  have d: "demo_bootloader = [1, 2, 3] @ u32_bytes 3 @ u16_bytes c" by (simp add: demo_bootloader_def c)
  have s: "stored_bl_size demo_bootloader = 3" "stored_bl_crc demo_bootloader = c"
    by (simp_all add: d stored_bl_size_def stored_bl_crc_def buf_read_def length_u32_bytes length_u16_bytes)
  show "stored_bl_size demo_bootloader = 3" by (rule s)
  show "bootloader_intact demo_bootloader"
    using c crc_default_append [of 3 "[1, 2, 3]" "u32_bytes 3 @ u16_bytes c"]
    by (simp add: bootloader_intact_def s) (simp add: d length_u32_bytes length_u16_bytes)
  show "demo_bootloader ! 0 = 1" by (simp add: d)
qed

theorem bootloader_self_check_witness:
  "\<exists>s'. perform_bootloader_check 2 ((demo_obc [5, 6])\<lparr>nor_bootloader := demo_bootloader[0 := 9, Suc 0 := 2]\<rparr>)
      = Jumped s' \<and> take 2 (sdram s') = [5, 6]"
  using bootloader_self_check [of "(demo_obc [5, 6])\<lparr>nor_bootloader := demo_bootloader\<rparr>" 0 9 2 2]
    demo_bootloader_stored
  by (simp add: demo_obc_def buf_write_def)

text \<open>
  The CRC of an erased flash is meant to be skipped, but no value is: with the last six bytes of
  the bootloader erased, the size that the check reads is \<open>0xffffffff\<close>, and the check leaves the
  memory.
\<close>
theorem erased_bootloader_faults:
  assumes "6 \<le> length (nor_bootloader s)"
    and "drop (length (nor_bootloader s) - 6) (nor_bootloader s) = replicate 6 0xff"
    and "length (nor_bootloader s) + length (nor_image s) < 2 ^ 32 - 1"
  shows "perform_bootloader_check n s = Fault"
proof -
  have "bytes_u32 (replicate 4 0xff) = 0xffffffff" by code_simp
  then have "stored_bl_size (nor_bootloader s) = 0xffffffff"
    using assms(2) by (simp add: stored_bl_size_def buf_read_def)
  then show ?thesis
    using assms(3) by (simp add: bootloader_check_eq crc16ccitt_default_start_crc_def crc16ccitt_is_division_raw)
qed

theorem erased_bootloader_faults_witness:
  "perform_bootloader_check 0 ((demo_obc [])\<lparr>nor_bootloader := replicate 8 0xff\<rparr>) = Fault"
  by (rule erased_bootloader_faults) (simp_all add: demo_obc_def)

section \<open>SD card images\<close>

text \<open>
  C21. Copying an image from an SD card closes the file and ends the session of the file system on
  every path, whatever the library returns, if \<open>f_getlasterror\<close> tells whether \<open>f_open\<close> worked.
\<close>
theorem sd_copy_closes:
  assumes "open_reports L" and "run_state (copy_with_hcc_lib (traced L) boot_select) (h, l) = (r, h', l')"
  shows "open_files l' = open_files l \<and> fs_sessions l' = fs_sessions l"
  using copy_with_hcc_lib_quiet [OF assms(1), of boot_select] assms(2)
  by (metis quiet_def snd_conv)

theorem sd_copy_closes_witness:
  "\<exists>r h' l'. run_state (copy_with_hcc_lib (traced empty_files) BOOT_SD_CARD_0_SLOT_1) ((), no_files) = (r, h', l')
    \<and> open_files l' = open_files no_files \<and> fs_sessions l' = fs_sessions no_files"
proof -
  obtain r h' l' where e: "run_state (copy_with_hcc_lib (traced empty_files) BOOT_SD_CARD_0_SLOT_1) ((), no_files)
      = (r, h', l')" by (metis prod.exhaust)
  then show ?thesis using sd_copy_closes [OF empty_files_reports e] by blast
qed

text \<open>
  Without the Hamming check, the image of slot 1 of SD card 1 is never loaded: choosing it gives
  what choosing slot 0 gives, because the condition for the name repeats SD card 0.
\<close>
theorem sd_card_1_slot_1_is_slot_0:
  "copy_sdcard_binary_to_sdram spi L stale BOOT_SD_CARD_1_SLOT_1 False s
    = copy_sdcard_binary_to_sdram spi L stale BOOT_SD_CARD_1_SLOT_0 False s"
proof -
  have "copy_with_hcc_lib L BOOT_SD_CARD_1_SLOT_1 = copy_with_hcc_lib L BOOT_SD_CARD_1_SLOT_0"
    unfolding copy_with_hcc_lib_def boot_volume_def boot_slot_name_def by simp
  then show ?thesis
    unfolding copy_sdcard_binary_to_sdram_def by (simp cong: option.case_cong prod.case_cong if_cong)
qed

text \<open>
  C25. A stored code size above the \<open>0x2A00\<close> bytes of the buffer is not stopped: the check clamps a
  copy of the size, and the read then overruns the buffer.
\<close>
theorem hamming_check_overrun:
  assumes "slot \<noteq> BOOTLOADER_0" and "determine_ham_code_address slot \<noteq> 0"
    and "length (hamming_code_buf s) = 0x2A00" and "0x2A00 < unat n"
  shows "handle_hamming_code_check spi slot img n s = None"
proof -
  have "clamp_ham_size slot 0 n = IMAGES_HAMMING_RESERVED_SIZE"
    using assms(1,4) by (simp add: clamp_ham_size_def word_less_nat_alt unat_images_reserved)
  then show ?thesis using assms
    by (auto simp: handle_hamming_code_check_def read_hamming_code_def fram_no_os_blocking_read_ham_code_def
        fram_no_os_read_ham_checks_def Let_def)
qed

theorem hamming_check_overrun_witness:
  "handle_hamming_code_check chip_bus FLASH_SLOT 256 0x2A01 (demo_obc []) = None"
  by (rule hamming_check_overrun)
    (simp_all add: demo_obc_def determine_ham_code_address_def hamming_addresses)

end
