(* ===== verification/NandModel.thy ===== *)
theory NandModel
  imports Prelude "HOL-Library.Monad_Syntax"
begin

text \<open>
  The descriptions of NAND flash chips (\<open>NandFlashModel.c\<close>, \<open>NandFlashModelList.c\<close>) and of the layout of
  their spare areas (\<open>NandSpareScheme.c\<close>). The library is compiled with or without \<open>OP_BOOTSTRAP_on\<close>,
  which is an argument of the functions that depend on it; \<open>at91/CMakeLists.txt\<close> defines it.
\<close>

section \<open>Constants of \<open>NandCommon.h\<close>\<close>

definition NandCommon_MAXPAGEDATASIZE :: nat where "NandCommon_MAXPAGEDATASIZE = 2048"
definition NandCommon_MAXPAGESPARESIZE :: nat where "NandCommon_MAXPAGESPARESIZE = 64"
definition NandCommon_MAXSPAREECCBYTES :: nat where "NandCommon_MAXSPAREECCBYTES = 24"
definition NandCommon_ERROR_OUTOFBOUNDS :: u8 where "NandCommon_ERROR_OUTOFBOUNDS = 3"
definition NandCommon_ERROR_CANNOTREAD :: u8 where "NandCommon_ERROR_CANNOTREAD = 6"
definition NandCommon_ERROR_CANNOTWRITE :: u8 where "NandCommon_ERROR_CANNOTWRITE = 7"
definition NandCommon_ERROR_UNKNOWNMODEL :: u8 where "NandCommon_ERROR_UNKNOWNMODEL = 8"
definition NandCommon_ERROR_CORRUPTEDDATA :: u8 where "NandCommon_ERROR_CORRUPTEDDATA = 9"
definition NandCommon_ERROR_BADBLOCK :: u8 where "NandCommon_ERROR_BADBLOCK = 12"
definition NandCommon_ERROR_CANNOTERASE :: u8 where "NandCommon_ERROR_CANNOTERASE = 13"
definition NandCommon_ERROR_CANNOTCOPY :: u8 where "NandCommon_ERROR_CANNOTCOPY = 14"

lemmas NandCommon_ERROR_defs =
  NandCommon_ERROR_OUTOFBOUNDS_def NandCommon_ERROR_CANNOTREAD_def NandCommon_ERROR_CANNOTWRITE_def
  NandCommon_ERROR_UNKNOWNMODEL_def NandCommon_ERROR_CORRUPTEDDATA_def NandCommon_ERROR_BADBLOCK_def
  NandCommon_ERROR_CANNOTERASE_def NandCommon_ERROR_CANNOTCOPY_def

section \<open>Spare areas\<close>

record NandSpareScheme =
  badBlockMarkerPosition :: u8
  numEccBytes :: u8
  eccBytesPositions :: "u8 list"
  numExtraBytes :: u8
  extraBytesPositions :: "u8 list"

definition nandSpareScheme256 :: NandSpareScheme where
  "nandSpareScheme256 = \<lparr>badBlockMarkerPosition = 5, numEccBytes = 3, eccBytesPositions = [0, 1, 2],
     numExtraBytes = 4, extraBytesPositions = [3, 4, 6, 7]\<rparr>"

definition nandSpareScheme512 :: NandSpareScheme where
  "nandSpareScheme512 = \<lparr>badBlockMarkerPosition = 5, numEccBytes = 6, eccBytesPositions = [0, 1, 2, 3, 6, 7],
     numExtraBytes = 8, extraBytesPositions = [8, 9, 10, 11, 12, 13, 14, 15]\<rparr>"

definition nandSpareScheme2048 :: NandSpareScheme where
  "nandSpareScheme2048 = \<lparr>badBlockMarkerPosition = 0, numEccBytes = 24,
     eccBytesPositions = [40, 41, 42, 43, 44, 45, 46, 47, 48, 49, 50, 51, 52, 53, 54, 55, 56, 57, 58,
       59, 60, 61, 62, 63],
     numExtraBytes = 38,
     extraBytesPositions = [2, 3, 4, 5, 6, 7, 8, 9, 10, 11, 12, 13, 14, 15, 16, 17, 18, 19, 20, 21,
       22, 23, 24, 25, 26, 27, 28, 29, 30, 31, 32, 33, 34, 35, 36, 37, 38, 39]\<rparr>"

definition NandSpareScheme_ReadBadBlockMarker :: "NandSpareScheme \<Rightarrow> bytes \<Rightarrow> u8 option" where
  "NandSpareScheme_ReadBadBlockMarker scheme spare = get_at spare (unat (badBlockMarkerPosition scheme))"

definition NandSpareScheme_WriteBadBlockMarker :: "NandSpareScheme \<Rightarrow> bytes \<Rightarrow> u8 \<Rightarrow> bytes option" where
  "NandSpareScheme_WriteBadBlockMarker scheme spare marker =
     put_at spare (unat (badBlockMarkerPosition scheme)) marker"

definition NandSpareScheme_ReadEcc :: "NandSpareScheme \<Rightarrow> bytes \<Rightarrow> bytes \<Rightarrow> bytes option" where
  "NandSpareScheme_ReadEcc scheme spare ecc =
     for_opt 0 (unat (numEccBytes scheme)) (\<lambda>i ecc. do {
       p \<leftarrow> get_at (eccBytesPositions scheme) i;
       x \<leftarrow> get_at spare (unat p);
       put_at ecc i x }) ecc"

definition NandSpareScheme_WriteEcc :: "NandSpareScheme \<Rightarrow> bytes \<Rightarrow> bytes \<Rightarrow> bytes option" where
  "NandSpareScheme_WriteEcc scheme spare ecc =
     for_opt 0 (unat (numEccBytes scheme)) (\<lambda>i spare. do {
       p \<leftarrow> get_at (eccBytesPositions scheme) i;
       x \<leftarrow> get_at ecc i;
       put_at spare (unat p) x }) spare"

text \<open>
  A failed \<open>ASSERT\<close> loops for ever, which is \<open>None\<close> like an access outside a buffer. \<open>size + offset\<close> is
  added as \<open>int\<close>.
\<close>

definition NandSpareScheme_ReadExtra :: "NandSpareScheme \<Rightarrow> bytes \<Rightarrow> bytes \<Rightarrow> u8 \<Rightarrow> u8 \<Rightarrow> bytes option" where
  "NandSpareScheme_ReadExtra scheme spare extra sz offset =
     (if unat sz + unat offset < unat (numExtraBytes scheme)
      then for_opt 0 (unat sz) (\<lambda>i extra. do {
        p \<leftarrow> get_at (extraBytesPositions scheme) (i + unat offset);
        x \<leftarrow> get_at spare (unat p);
        put_at extra i x }) extra
      else None)"

definition NandSpareScheme_WriteExtra :: "NandSpareScheme \<Rightarrow> bytes \<Rightarrow> bytes \<Rightarrow> u8 \<Rightarrow> u8 \<Rightarrow> bytes option" where
  "NandSpareScheme_WriteExtra scheme spare extra sz offset =
     (if unat sz + unat offset < unat (numExtraBytes scheme)
      then for_opt 0 (unat sz) (\<lambda>i spare. do {
        p \<leftarrow> get_at (extraBytesPositions scheme) (i + unat offset);
        x \<leftarrow> get_at extra i;
        put_at spare (unat p) x }) spare
      else None)"

section \<open>Models\<close>

record NandFlashModel =
  deviceId :: u8
  options :: u8
  pageSizeInBytes :: u16
  deviceSizeInMegaBytes :: u16
  blockSizeInKBytes :: u16
  model_scheme :: NandSpareScheme

definition NandFlashModel_DATABUS8 :: u8 where "NandFlashModel_DATABUS8 = 0"
definition NandFlashModel_DATABUS16 :: u8 where "NandFlashModel_DATABUS16 = 1"
definition NandFlashModel_COPYBACK :: u8 where "NandFlashModel_COPYBACK = 2"

text \<open>An entry of the list, in the order of its columns.\<close>

definition nand_model :: "u8 \<Rightarrow> u8 \<Rightarrow> u16 \<Rightarrow> u16 \<Rightarrow> u16 \<Rightarrow> NandSpareScheme \<Rightarrow> NandFlashModel" where
  "nand_model i opts page mega block s = \<lparr>deviceId = i, options = opts, pageSizeInBytes = page,
     deviceSizeInMegaBytes = mega, blockSizeInKBytes = block, model_scheme = s\<rparr>"

definition small8 :: "u8 \<Rightarrow> u16 \<Rightarrow> u16 \<Rightarrow> NandFlashModel" where
  "small8 i mega block = nand_model i NandFlashModel_DATABUS8 512 mega block nandSpareScheme512"

definition small16 :: "u8 \<Rightarrow> u16 \<Rightarrow> u16 \<Rightarrow> NandFlashModel" where
  "small16 i mega block = nand_model i NandFlashModel_DATABUS16 512 mega block nandSpareScheme512"

text \<open>\<open>OPTIONS\<close> of the list is \<open>NandFlashModel_COPYBACK\<close>; page and block size come from the chip.\<close>

definition large8 :: "u8 \<Rightarrow> u16 \<Rightarrow> NandFlashModel" where
  "large8 i mega = nand_model i (NandFlashModel_DATABUS8 OR NandFlashModel_COPYBACK) 0 mega 0 nandSpareScheme2048"

definition large16 :: "u8 \<Rightarrow> u16 \<Rightarrow> NandFlashModel" where
  "large16 i mega = nand_model i (NandFlashModel_DATABUS16 OR NandFlashModel_COPYBACK) 0 mega 0 nandSpareScheme2048"

definition nandFlashModelList :: "NandFlashModel list" where
  "nandFlashModelList =
    [nand_model 0x6e NandFlashModel_DATABUS8 256 1 4 nandSpareScheme256,
     nand_model 0x64 NandFlashModel_DATABUS8 256 2 4 nandSpareScheme256,
     small8 0x6b 4 8,
     nand_model 0xe8 NandFlashModel_DATABUS8 256 1 4 nandSpareScheme256,
     nand_model 0xec NandFlashModel_DATABUS8 256 1 4 nandSpareScheme256,
     nand_model 0xea NandFlashModel_DATABUS8 256 2 4 nandSpareScheme256,
     small8 0xd5 4 8, small8 0xe3 4 8, small8 0xe5 4 8, small8 0xd6 8 8,
     small8 0x39 8 8, small8 0xe6 8 8, small16 0x49 8 8, small16 0x59 8 8,
     small8 0x33 16 16, small8 0x73 16 16, small16 0x43 16 16, small16 0x53 16 16,
     small8 0x35 32 16, small8 0x75 32 16, small16 0x45 32 16, small16 0x55 32 16,
     small8 0x36 64 16, small8 0x76 64 16, small16 0x46 64 16, small16 0x56 64 16,
     small8 0x78 128 16, small8 0x39 128 16, small8 0x79 128 16, small16 0x72 128 16,
     small16 0x49 128 16, small16 0x74 128 16, small16 0x59 128 16,
     small8 0x71 256 16,
     large8 0xA2 64, large8 0xF2 64, large16 0xB2 64, large16 0xC2 64,
     large8 0xA1 128, large8 0xF1 128, large16 0xB1 128, large16 0xC1 128,
     large8 0xAA 256, large8 0xDA 256, large16 0xBA 256, large16 0xCA 256,
     large8 0xAC 512, large8 0xDC 512, large16 0xBC 512, large16 0xCC 512,
     large8 0xA3 1024, large8 0xD3 1024, large16 0xB3 1024, large16 0xC3 1024,
     large8 0xA5 2048, large8 0xD5 2048, large16 0xB5 2048, large16 0xC5 2048]"

text \<open>A C division: by zero there is no result.\<close>

definition c_div :: "u32 \<Rightarrow> u32 \<Rightarrow> u32 option" where
  "c_div a b = (if b = 0 then None else Some (a div b))"

text \<open>\<open>while (i < 32) { if (result == (input << i)) return i; i++; } return 0;\<close>\<close>

function CALPOW_loop :: "u32 \<Rightarrow> u32 \<Rightarrow> nat \<Rightarrow> u32" where
  "CALPOW_loop result input i =
     (if i < 32 then if result = push_bit i input then word_of_nat i else CALPOW_loop result input (i + 1)
      else 0)"
  by pat_completeness auto
termination by (relation "measure (\<lambda>(r, n, i). 32 - i)") auto

definition CALPOW :: "u32 \<Rightarrow> u32 \<Rightarrow> u32" where "CALPOW result input = CALPOW_loop result input 0"

text \<open>The division by repeated addition, which need not end.\<close>

partial_function (option) CALINT_loop :: "u32 \<Rightarrow> u32 \<Rightarrow> u32 \<Rightarrow> u32 \<Rightarrow> u32 option" where
  "CALINT_loop result input i tmpInput =
     (if tmpInput + input = result then Some (i + 1)
      else if tmpInput + input > result then Some (i + 1 - 1)
      else CALINT_loop result input (i + 1) (tmpInput + input))"

definition CALINT :: "u32 \<Rightarrow> u32 \<Rightarrow> u32 option" where "CALINT result input = CALINT_loop result input 0 0"

definition NandFlashModel_GetScheme :: "NandFlashModel \<Rightarrow> NandSpareScheme" where
  "NandFlashModel_GetScheme m = model_scheme m"

definition NandFlashModel_GetDeviceId :: "NandFlashModel \<Rightarrow> u8" where
  "NandFlashModel_GetDeviceId m = deviceId m"

definition NandFlashModel_GetDeviceSizeInBlocks :: "bool \<Rightarrow> NandFlashModel \<Rightarrow> u16 option" where
  "NandFlashModel_GetDeviceSizeInBlocks op_bootstrap m =
     (if op_bootstrap
      then Some (ucast (push_bit (unat (CALPOW (1024 * ucast (deviceSizeInMegaBytes m)) (ucast (blockSizeInKBytes m)))) (1 :: u32)))
      else do { q \<leftarrow> c_div 1024 (ucast (blockSizeInKBytes m)); Some (ucast (q * ucast (deviceSizeInMegaBytes m))) })"

definition NandFlashModel_GetBlockSizeInPages :: "bool \<Rightarrow> NandFlashModel \<Rightarrow> u16 option" where
  "NandFlashModel_GetBlockSizeInPages op_bootstrap m =
     (if op_bootstrap
      then Some (ucast (push_bit (unat (CALPOW (ucast (blockSizeInKBytes m) * 1024) (ucast (pageSizeInBytes m)))) (1 :: u32)))
      else do { q \<leftarrow> c_div (ucast (blockSizeInKBytes m) * 1024) (ucast (pageSizeInBytes m)); Some (ucast q) })"

definition NandFlashModel_GetDeviceSizeInPages :: "bool \<Rightarrow> NandFlashModel \<Rightarrow> u32 option" where
  "NandFlashModel_GetDeviceSizeInPages op_bootstrap m = do {
     blocks \<leftarrow> NandFlashModel_GetDeviceSizeInBlocks op_bootstrap m;
     pages \<leftarrow> NandFlashModel_GetBlockSizeInPages op_bootstrap m;
     Some (ucast blocks * ucast pages) }"

definition NandFlashModel_GetDeviceSizeInBytes :: "NandFlashModel \<Rightarrow> 64 word" where
  "NandFlashModel_GetDeviceSizeInBytes m = push_bit 20 (ucast (deviceSizeInMegaBytes m))"

definition NandFlashModel_GetBlockSizeInBytes :: "NandFlashModel \<Rightarrow> u32" where
  "NandFlashModel_GetBlockSizeInBytes m = ucast (blockSizeInKBytes m) * 1024"

definition NandFlashModel_GetPageDataSize :: "NandFlashModel \<Rightarrow> u16" where
  "NandFlashModel_GetPageDataSize m = pageSizeInBytes m"

definition NandFlashModel_GetPageSpareSize :: "NandFlashModel \<Rightarrow> u8" where
  "NandFlashModel_GetPageSpareSize m = ucast (drop_bit 5 (pageSizeInBytes m))"

definition NandFlashModel_GetDataBusWidth :: "NandFlashModel \<Rightarrow> u8" where
  "NandFlashModel_GetDataBusWidth m = (if options m AND NandFlashModel_DATABUS16 \<noteq> 0 then 16 else 8)"

definition NandFlashModel_HasSmallBlocks :: "NandFlashModel \<Rightarrow> bool" where
  "NandFlashModel_HasSmallBlocks m = (pageSizeInBytes m \<le> 512)"

definition NandFlashModel_SupportsCopyBack :: "NandFlashModel \<Rightarrow> bool" where
  "NandFlashModel_SupportsCopyBack m = (options m AND NandFlashModel_COPYBACK \<noteq> 0)"

text \<open>The parameters of a large block device, from the fourth byte of its identification.\<close>

definition fetch_id4 :: "bool \<Rightarrow> u8 \<Rightarrow> NandFlashModel \<Rightarrow> NandFlashModel" where
  "fetch_id4 op_bootstrap id4 m =
     (if op_bootstrap
      then m\<lparr>pageSizeInBytes := push_bit (unat (id4 AND 0x03)) 1024,
        blockSizeInKBytes := push_bit (unat (drop_bit 4 (id4 AND 0x30))) 64\<rparr>
      else
        let m = m\<lparr>pageSizeInBytes :=
          (if id4 AND 0x03 = 0x00 then 1024 else if id4 AND 0x03 = 0x01 then 2048
           else if id4 AND 0x03 = 0x02 then 4096 else 8192)\<rparr>
        in m\<lparr>blockSizeInKBytes :=
          (if id4 AND 0x30 = 0x00 then 64 else if id4 AND 0x30 = 0x10 then 128
           else if id4 AND 0x30 = 0x20 then 256 else 512)\<rparr>)"

text \<open>
  The code walks over the list and stops at the first model with the identifier; here the result is
  the model, or the error code. No caller passes a null pointer for the model.
\<close>

primrec NandFlashModel_Find :: "bool \<Rightarrow> NandFlashModel list \<Rightarrow> u32 \<Rightarrow> u8 + NandFlashModel" where
  "NandFlashModel_Find op_bootstrap [] chipId = Inl NandCommon_ERROR_UNKNOWNMODEL"
| "NandFlashModel_Find op_bootstrap (m # modelList) chipId =
     (let id2 = ucast (drop_bit 8 chipId); id4 = ucast (drop_bit 24 chipId) in
      if deviceId m = id2
      then Inr (if blockSizeInKBytes m = 0 \<or> pageSizeInBytes m = 0 then fetch_id4 op_bootstrap id4 m else m)
      else NandFlashModel_Find op_bootstrap modelList chipId)"

text \<open>
  Block, page and offset of an address, or the error code. The sum of address and size is a 32 bit
  word, compared as 64 bit word.
\<close>

definition NandFlashModel_TranslateAccess ::
    "bool \<Rightarrow> NandFlashModel \<Rightarrow> u32 \<Rightarrow> u32 \<Rightarrow> (u8 + u16 \<times> u16 \<times> u16) option" where
  "NandFlashModel_TranslateAccess op_bootstrap m address sz =
     (if \<not> op_bootstrap \<and> ucast (address + sz) > NandFlashModel_GetDeviceSizeInBytes m
      then Some (Inl NandCommon_ERROR_OUTOFBOUNDS)
      else
        let blockSize = NandFlashModel_GetBlockSizeInBytes m; pageSize = ucast (NandFlashModel_GetPageDataSize m);
            quotient = (if op_bootstrap then CALINT else c_div)
        in do {
          tmpBlock \<leftarrow> map_option ucast (quotient address blockSize);
          let address = address - ucast tmpBlock * blockSize;
          tmpPage \<leftarrow> map_option ucast (quotient address pageSize);
          let address = address - ucast tmpPage * pageSize;
          Some (Inr (tmpBlock, tmpPage, ucast address)) })"

section \<open>Spare schemes\<close>

lemma option_bind_eq: "Option.bind x f = (case x of None \<Rightarrow> None | Some y \<Rightarrow> f y)"
  by (cases x) simp_all

lemma ReadEcc_eq:
  assumes "unat (numEccBytes sch) = n" "n \<le> length (eccBytesPositions sch)" "n \<le> length ecc"
    and "\<forall>p \<in> set (eccBytesPositions sch). unat p < length spare"
  shows "NandSpareScheme_ReadEcc sch spare ecc =
    Some (map (\<lambda>p. spare ! unat p) (take n (eccBytesPositions sch)) @ drop n ecc)"
proof -
  let ?ps = "eccBytesPositions sch"
  let ?P = "\<lambda>i e. e = map (\<lambda>p. spare ! unat p) (take i ?ps) @ drop i ecc"
  have "\<exists>e'. for_opt 0 n (\<lambda>i ecc. do { p \<leftarrow> get_at ?ps i; x \<leftarrow> get_at spare (unat p); put_at ecc i x }) ecc = Some e' \<and>
      ?P (0 + n) e'"
  proof (rule for_opt_invariant)
    fix j e
    assume j: "j < 0 + n" and e: "?P j e"
    then have lt: "j < length ?ps" "j < length ecc" using assms(2,3) by simp_all
    then have "e[j := spare ! unat (?ps ! j)] = map (\<lambda>p. spare ! unat p) (take (Suc j) ?ps) @ drop (Suc j) ecc"
      using e by (simp add: list_update_append take_Suc_conv_app_nth Cons_nth_drop_Suc [symmetric])
    then show "\<exists>s'. (do { p \<leftarrow> get_at ?ps j; x \<leftarrow> get_at spare (unat p); put_at e j x }) = Some s' \<and> ?P (Suc j) s'"
      using lt e assms(4) by (simp add: get_at_def put_at_def)
  qed simp
  then show ?thesis using assms(1) by (simp add: NandSpareScheme_ReadEcc_def)
qed

text \<open>A loop that writes bytes at distinct positions.\<close>

definition written_at :: "u8 list \<Rightarrow> bytes \<Rightarrow> bytes \<Rightarrow> bytes \<Rightarrow> bool" where
  "written_at ps new old s \<longleftrightarrow> length s = length old \<and> (\<forall>i < length ps. s ! unat (ps ! i) = new ! i) \<and>
     (\<forall>q < length old. q \<notin> unat ` set ps \<longrightarrow> s ! q = old ! q)"

lemma write_positions:
  assumes "distinct ps" "n \<le> length ps" "n \<le> length new" "\<forall>p \<in> set ps. unat p < length old"
  shows "\<exists>s. for_opt 0 n (\<lambda>i s. do { p \<leftarrow> get_at ps i; x \<leftarrow> get_at new i; put_at s (unat p) x }) old = Some s \<and>
    written_at (take (0 + n) ps) new old s"
proof (rule for_opt_invariant)
  fix j s
  assume j: "j < 0 + n" and s: "written_at (take j ps) new old s"
  let ?s = "s[unat (ps ! j) := new ! j]"
  have lt: "j < length ps" "j < length new" "unat (ps ! j) < length old" using j assms by auto
  have ne: "i < j \<Longrightarrow> unat (ps ! i) \<noteq> unat (ps ! j)" for i
    using assms(1) lt by (simp add: distinct_conv_nth flip: word_unat_eq_iff)
  have "written_at (take (Suc j) ps) new old ?s"
    using s lt ne ne [symmetric]
    by (auto simp: written_at_def take_Suc_conv_app_nth nth_append less_Suc_eq nth_list_update)
  then show "\<exists>s'. (do { p \<leftarrow> get_at ps j; x \<leftarrow> get_at new j; put_at s (unat p) x }) = Some s' \<and>
      written_at (take (Suc j) ps) new old s'"
    using lt s by (simp add: get_at_def put_at_def written_at_def)
qed (simp add: written_at_def)

text \<open>A scheme that fits spare areas of \<open>n\<close> bytes with codes for \<open>blocks\<close> blocks of 256 bytes.\<close>

definition scheme_fits :: "NandSpareScheme \<Rightarrow> nat \<Rightarrow> nat \<Rightarrow> bool" where
  "scheme_fits sch n blocks \<longleftrightarrow>
     unat (badBlockMarkerPosition sch) < n \<and> unat (numEccBytes sch) = 3 * blocks \<and> 3 * blocks \<le> 24 \<and>
     length (eccBytesPositions sch) = 3 * blocks \<and> length (extraBytesPositions sch) = unat (numExtraBytes sch) \<and>
     distinct (badBlockMarkerPosition sch # eccBytesPositions sch @ extraBytesPositions sch) \<and>
     (\<forall>p \<in> set (eccBytesPositions sch @ extraBytesPositions sch). unat p < n)"

lemma schemes_fit:
  "scheme_fits nandSpareScheme256 8 1" "scheme_fits nandSpareScheme512 16 2" "scheme_fits nandSpareScheme2048 64 8"
  by (simp_all add: scheme_fits_def nandSpareScheme256_def nandSpareScheme512_def nandSpareScheme2048_def)

lemma WriteEcc_written:
  assumes "scheme_fits sch (length spare) blocks" "3 * blocks \<le> length ecc"
  shows "\<exists>s. NandSpareScheme_WriteEcc sch spare ecc = Some s \<and> written_at (eccBytesPositions sch) ecc spare s"
  using write_positions [of "eccBytesPositions sch" "3 * blocks" ecc spare] assms
  by (simp add: scheme_fits_def NandSpareScheme_WriteEcc_def)

lemma ReadEcc_written:
  assumes "scheme_fits sch (length s) blocks" "written_at (eccBytesPositions sch) ecc spare s"
    and "length ecc = 24" "length ecc' = 24"
  shows "NandSpareScheme_ReadEcc sch s ecc' = Some (take (3 * blocks) ecc @ drop (3 * blocks) ecc')"
proof -
  have u: "unat (numEccBytes sch) = 3 * blocks" using assms(1) by (simp add: scheme_fits_def)
  have "map (\<lambda>p. s ! unat p) (take (3 * blocks) (eccBytesPositions sch)) = take (3 * blocks) ecc"
    using assms by (intro nth_equalityI) (auto simp: scheme_fits_def written_at_def)
  then show ?thesis
    using ReadEcc_eq [OF u, of ecc' s] assms by (auto simp: scheme_fits_def)
qed

section \<open>Division by addition and by shifting\<close>

lemma CALINT_loop_div:
  "unat tmpInput = k * unat input \<Longrightarrow> k * unat input \<le> unat result \<Longrightarrow> 0 < input \<Longrightarrow>
    unat result + unat input < 2 ^ 32 \<Longrightarrow>
    CALINT_loop result input (word_of_nat k) tmpInput = Some (word_of_nat (unat result div unat input))"
proof (induction "unat result - k * unat input" arbitrary: k tmpInput rule: less_induct)
  case less
  let ?t = "tmpInput + input"
  have t: "unat ?t = Suc k * unat input"
    using less.prems by (subst unat_add_lem [THEN iffD1]) simp_all
  have pos: "0 < unat input" using less.prems(3) by (simp add: word_less_nat_alt)
  have w: "word_of_nat (Suc k) = (word_of_nat k + 1 :: u32)" by (simp add: add.commute)
  consider "Suc k * unat input < unat result" | "Suc k * unat input = unat result"
    | "unat result < Suc k * unat input" by linarith
  then show ?case
  proof cases
    case 1
    then have "\<not> ?t > result" "?t \<noteq> result" using t by (auto simp: word_less_nat_alt)
    moreover have "unat result - Suc k * unat input < unat result - k * unat input" using 1 pos by simp
    ultimately show ?thesis
      using less.hyps [of "Suc k" ?t] t 1 less.prems
      by (subst CALINT_loop.simps) (simp add: add.commute)
  next
    case 2
    then have "?t = result" using t by (simp add: word_unat_eq_iff)
    moreover have "unat result div unat input = Suc k" using 2 pos by (metis nonzero_mult_div_cancel_right less_not_refl2)
    ultimately show ?thesis using w by (subst CALINT_loop.simps) simp
  next
    case 3
    then have "?t \<noteq> result" "?t > result" using t by (auto simp: word_less_nat_alt)
    moreover have "unat result div unat input = k"
      using 3 less.prems(2) pos by (intro div_nat_eqI) (simp_all add: mult.commute)
    ultimately show ?thesis by (subst CALINT_loop.simps) simp
  qed
qed

lemma CALINT_div:
  assumes "0 < input" and "unat result + unat input < 2 ^ 32"
  shows "CALINT result input = Some (result div input)"
proof -
  have "CALINT result input = Some (word_of_nat (unat result div unat input))"
    using CALINT_loop_div [of 0 0 input result] assms by (simp add: CALINT_def)
  then show ?thesis by (simp flip: unat_div)
qed

section \<open>The chips of the list\<close>

definition large_entry :: "NandFlashModel \<Rightarrow> bool" where
  "large_entry m \<longleftrightarrow> blockSizeInKBytes m = 0 \<or> pageSizeInBytes m = 0"

lemma Find_from_list:
  "NandFlashModel_Find op_bootstrap l chipId = Inr m \<Longrightarrow>
    \<exists>e \<in> set l. m = (if large_entry e then fetch_id4 op_bootstrap (ucast (drop_bit 24 chipId)) e else e)"
  by (induction l) (auto simp: Let_def large_entry_def split: if_splits)

lemma id4_cases: "id4 AND 3 \<in> {0, 1, 2, 3 :: u8}" "id4 AND 0x30 \<in> {0, 0x10, 0x20, 0x30 :: u8}"
  by (cases "bit id4 0"; cases "bit id4 1"; simp add: u8_eq_iff bit_and_iff)
    (cases "bit id4 4"; cases "bit id4 5"; simp add: u8_eq_iff bit_and_iff)

definition id4_page :: "u8 \<Rightarrow> u16" where
  "id4_page x = (if x = 0 then 1024 else if x = 1 then 2048 else if x = 2 then 4096 else 8192)"

definition id4_block :: "u8 \<Rightarrow> u16" where
  "id4_block x = (if x = 0 then 64 else if x = 0x10 then 128 else if x = 0x20 then 256 else 512)"

lemma id4_shifts:
  "x \<in> {0, 1, 2, 3 :: u8} \<Longrightarrow> push_bit (unat x) 1024 = id4_page x"
  "x \<in> {0, 0x10, 0x20, 0x30 :: u8} \<Longrightarrow> push_bit (unat (drop_bit 4 x)) 64 = id4_block x"
  by (auto simp: id4_page_def id4_block_def)

lemma fetch_id4_eq:
  "fetch_id4 op_bootstrap id4 m =
    m\<lparr>pageSizeInBytes := id4_page (id4 AND 3), blockSizeInKBytes := id4_block (id4 AND 0x30)\<rparr>"
  unfolding fetch_id4_def Let_def id4_shifts(1) [OF id4_cases(1)] id4_shifts(2) [OF id4_cases(2)]
  by (simp add: id4_page_def id4_block_def)

lemma id4_values: "id4_page x \<in> {1024, 2048, 4096, 8192}" "id4_block x \<in> {64, 128, 256, 512}"
  by (simp_all add: id4_page_def id4_block_def)

definition small_geometries :: "(u16 \<times> u16 \<times> u16) list" where
  "small_geometries = [(256, 1, 4), (256, 2, 4), (512, 4, 8), (512, 8, 8), (512, 16, 16), (512, 32, 16), (512, 64, 16),
     (512, 128, 16), (512, 256, 16)]"

lemma list_entries:
  assumes "e \<in> set nandFlashModelList"
  shows "large_entry e \<and> model_scheme e = nandSpareScheme2048 \<and> deviceSizeInMegaBytes e \<in> {64, 128, 256, 512, 1024, 2048} \<or>
    \<not> large_entry e \<and> (pageSizeInBytes e, deviceSizeInMegaBytes e, blockSizeInKBytes e) \<in> set small_geometries \<and>
    model_scheme e = (if pageSizeInBytes e = 256 then nandSpareScheme256 else nandSpareScheme512)"
proof -
  have "list_all (\<lambda>e. large_entry e \<and> model_scheme e = nandSpareScheme2048 \<and> deviceSizeInMegaBytes e \<in> {64, 128, 256, 512, 1024, 2048} \<or>
    \<not> large_entry e \<and> (pageSizeInBytes e, deviceSizeInMegaBytes e, blockSizeInKBytes e) \<in> set small_geometries \<and>
    model_scheme e = (if pageSizeInBytes e = 256 then nandSpareScheme256 else nandSpareScheme512)) nandFlashModelList"
    unfolding nandFlashModelList_def
    by (simp add: small8_def small16_def large8_def large16_def nand_model_def large_entry_def small_geometries_def)
  with assms show ?thesis by (simp add: list_all_iff)
qed

definition large_chip :: "NandFlashModel \<Rightarrow> bool" where
  "large_chip m \<longleftrightarrow> pageSizeInBytes m \<in> {1024, 2048, 4096, 8192} \<and> blockSizeInKBytes m \<in> {64, 128, 256, 512} \<and>
     deviceSizeInMegaBytes m \<in> {64, 128, 256, 512, 1024, 2048} \<and> model_scheme m = nandSpareScheme2048"

definition small_chip :: "NandFlashModel \<Rightarrow> bool" where
  "small_chip m \<longleftrightarrow> (pageSizeInBytes m, deviceSizeInMegaBytes m, blockSizeInKBytes m) \<in> set small_geometries \<and>
     model_scheme m = (if pageSizeInBytes m = 256 then nandSpareScheme256 else nandSpareScheme512)"

lemma found_chip:
  assumes "NandFlashModel_Find op_bootstrap nandFlashModelList chipId = Inr m"
  shows "small_chip m \<or> large_chip m"
proof -
  obtain e where e: "e \<in> set nandFlashModelList"
      "m = (if large_entry e then fetch_id4 op_bootstrap (ucast (drop_bit 24 chipId)) e else e)"
    using Find_from_list [OF assms] by blast
  show ?thesis
  proof (cases "large_entry e")
    case True
    then have "large_chip m"
      using list_entries [OF e(1)] e(2) id4_values
      by (simp only: large_chip_def fetch_id4_eq NandFlashModel.simps if_True)
        (simp add: fetch_id4_eq)
    then show ?thesis ..
  next
    case False
    then have "small_chip m" using list_entries [OF e(1)] e(2) by (simp only: small_chip_def if_False simp_thms)
    then show ?thesis ..
  qed
qed

definition chip_pairs :: "(u16 \<times> u16) list" where
  "chip_pairs = [(256, 4), (512, 8), (512, 16)] @ List.product [1024, 2048, 4096, 8192] [64, 128, 256, 512]"

definition mega_pairs :: "(u16 \<times> u16) list" where
  "mega_pairs = [(1, 4), (2, 4), (4, 8), (8, 8), (16, 16), (32, 16), (64, 16), (128, 16), (256, 16)] @
     List.product [64, 128, 256, 512, 1024, 2048] [64, 128, 256, 512]"

lemma small_in_pairs:
  "list_all (\<lambda>(page, mega, block). (page, block) \<in> set chip_pairs \<and> (mega, block) \<in> set mega_pairs) small_geometries"
  by (simp add: small_geometries_def chip_pairs_def mega_pairs_def)

lemma chip_in_pairs:
  assumes "small_chip m \<or> large_chip m"
  shows "(pageSizeInBytes m, blockSizeInKBytes m) \<in> set chip_pairs \<and>
    (deviceSizeInMegaBytes m, blockSizeInKBytes m) \<in> set mega_pairs"
  using assms
proof
  assume "small_chip m"
  then show ?thesis using small_in_pairs by (auto simp only: small_chip_def list_all_iff split_paired_Ball_Sigma split: prod.splits)
next
  assume "large_chip m"
  then show ?thesis
    unfolding large_chip_def chip_pairs_def mega_pairs_def set_append set_product
    by (simp only: mem_Sigma_iff Un_iff list.set simp_thms)
qed

text \<open>Both variants of the sizes, for every chip of the list.\<close>

definition pages_ok :: "u16 \<times> u16 \<Rightarrow> bool" where
  "pages_ok = (\<lambda>(page, block). let n = unat block * 1024 div unat page in
     ucast (push_bit (unat (CALPOW (ucast block * 1024) (ucast page))) (1 :: u32)) = (word_of_nat n :: u16) \<and>
     ucast (ucast block * 1024 div ucast page :: u32) = (word_of_nat n :: u16) \<and>
     256 \<le> unat page \<and> n * unat page = unat block * 1024 \<and> 8 \<le> n \<and> n \<le> 512)"

definition blocks_ok :: "u16 \<times> u16 \<Rightarrow> bool" where
  "blocks_ok = (\<lambda>(mega, block). let n = unat mega * 1024 div unat block in
     ucast (push_bit (unat (CALPOW (1024 * ucast mega) (ucast block))) (1 :: u32)) = (word_of_nat n :: u16) \<and>
     ucast (1024 div ucast block * ucast mega :: u32) = (word_of_nat n :: u16) \<and>
     0 < unat block \<and> n * unat block = unat mega * 1024 \<and> 128 \<le> n \<and> n \<le> 32768 \<and> unat mega \<le> 2048)"

lemma all_pages_ok: "list_all pages_ok chip_pairs"
  by (simp add: chip_pairs_def pages_ok_def CALPOW_def CALPOW_loop.simps)

lemma all_blocks_ok: "list_all blocks_ok mega_pairs"
  by (simp add: mega_pairs_def blocks_ok_def CALPOW_def CALPOW_loop.simps)

text \<open>Blocks, pages and sizes as numbers.\<close>

definition nand_pages :: "NandFlashModel \<Rightarrow> nat" where
  "nand_pages m = unat (blockSizeInKBytes m) * 1024 div unat (pageSizeInBytes m)"

definition nand_blocks :: "NandFlashModel \<Rightarrow> nat" where
  "nand_blocks m = unat (deviceSizeInMegaBytes m) * 1024 div unat (blockSizeInKBytes m)"

definition nand_geometry :: "NandFlashModel \<Rightarrow> bool" where
  "nand_geometry m \<longleftrightarrow> (\<forall>op_bootstrap.
     NandFlashModel_GetBlockSizeInPages op_bootstrap m = Some (word_of_nat (nand_pages m)) \<and>
     NandFlashModel_GetDeviceSizeInBlocks op_bootstrap m = Some (word_of_nat (nand_blocks m))) \<and>
     256 \<le> unat (pageSizeInBytes m) \<and> nand_pages m * unat (pageSizeInBytes m) = unat (blockSizeInKBytes m) * 1024 \<and>
     8 \<le> nand_pages m \<and> nand_pages m \<le> 512 \<and>
     0 < unat (blockSizeInKBytes m) \<and> nand_blocks m * unat (blockSizeInKBytes m) = unat (deviceSizeInMegaBytes m) * 1024 \<and>
     128 \<le> nand_blocks m \<and> nand_blocks m \<le> 32768 \<and> unat (deviceSizeInMegaBytes m) \<le> 2048"

lemma u16_less: "unat (x :: u16) < 2 ^ 16"
  by (rule order_less_le_trans [OF unsigned_less]) simp

lemma u16_u32: "unat (ucast (x :: u16) :: u32) = unat x"
  using u16_less [of x] by (simp add: unsigned_ucast_eq take_bit_nat_eq_self)

lemma u16_u32_0: "(ucast (x :: u16) :: u32) = 0 \<longleftrightarrow> x = 0"
  using u16_u32 [of x] by (metis unat_eq_zero)

lemma u16_u64: "unat (ucast (x :: u16) :: 64 word) = unat x"
  using u16_less [of x] by (simp add: unsigned_ucast_eq take_bit_nat_eq_self)

lemma chip_geometry:
  assumes "small_chip m \<or> large_chip m"
  shows "nand_geometry m"
proof -
  have "pages_ok (pageSizeInBytes m, blockSizeInKBytes m)" "blocks_ok (deviceSizeInMegaBytes m, blockSizeInKBytes m)"
    using chip_in_pairs [OF assms] all_pages_ok all_blocks_ok unfolding list_all_iff by blast+
  moreover from this have "blockSizeInKBytes m \<noteq> 0" "pageSizeInBytes m \<noteq> 0"
    by (auto simp: pages_ok_def blocks_ok_def Let_def)
  ultimately show ?thesis
    by (simp add: nand_geometry_def nand_pages_def nand_blocks_def pages_ok_def blocks_ok_def Let_def
        NandFlashModel_GetBlockSizeInPages_def NandFlashModel_GetDeviceSizeInBlocks_def c_div_def
        u16_u32_0)
qed

lemma block_bytes:
  assumes "nand_geometry m"
  shows "unat (NandFlashModel_GetBlockSizeInBytes m) = nand_pages m * unat (pageSizeInBytes m)"
    "unat (NandFlashModel_GetDeviceSizeInBytes m) = nand_blocks m * nand_pages m * unat (pageSizeInBytes m)"
    "nand_blocks m * nand_pages m * unat (pageSizeInBytes m) \<le> 2 ^ 31"
proof -
  have b: "nand_pages m * unat (pageSizeInBytes m) = unat (blockSizeInKBytes m) * 1024"
      "nand_blocks m * unat (blockSizeInKBytes m) = unat (deviceSizeInMegaBytes m) * 1024"
      "unat (deviceSizeInMegaBytes m) \<le> 2048"
    using assms by (auto simp: nand_geometry_def)
  show "unat (NandFlashModel_GetBlockSizeInBytes m) = nand_pages m * unat (pageSizeInBytes m)"
    using b(1) u16_less [of "blockSizeInKBytes m"]
    by (simp add: NandFlashModel_GetBlockSizeInBytes_def unat_mult_lem [THEN iffD1] u16_u32)
  have e: "nand_blocks m * nand_pages m * unat (pageSizeInBytes m) = unat (deviceSizeInMegaBytes m) * 2 ^ 20"
    using b by (simp add: mult.assoc)
  then show "nand_blocks m * nand_pages m * unat (pageSizeInBytes m) \<le> 2 ^ 31" using b(3) by simp
  show "unat (NandFlashModel_GetDeviceSizeInBytes m) = nand_blocks m * nand_pages m * unat (pageSizeInBytes m)"
    using e b(3) by (simp add: NandFlashModel_GetDeviceSizeInBytes_def push_bit_eq_mult unat_mult_lem [THEN iffD1]
        u16_u64)
qed

lemma quotient_eq:
  assumes "b \<noteq> 0" "unat a + unat b < 2 ^ 32"
  shows "(if op_bootstrap then CALINT else c_div) a b = Some (a div b)"
  using assms by (cases op_bootstrap) (simp_all add: CALINT_div c_div_def word_gt_0)

lemma ucast_quotient:
  fixes a :: u32
  assumes "unat a < 2 ^ 16"
  shows "(ucast (ucast a :: u16) :: u32) = a" "(ucast a :: u16) = word_of_nat (unat a)"
proof -
  have "unat (ucast a :: u16) = unat a"
    using assms by (simp add: unsigned_ucast_eq unsigned_take_bit_eq take_bit_nat_eq_self)
  then show "(ucast (ucast a :: u16) :: u32) = a" "(ucast a :: u16) = word_of_nat (unat a)"
    using assms by (simp_all add: word_unat_eq_iff u16_u32 unat_of_nat take_bit_nat_eq_self)
qed

lemma TranslateAccess_inside:
  assumes "nand_geometry m" and "unat address \<le> unat (NandFlashModel_GetDeviceSizeInBytes m)"
    and "op_bootstrap \<or> unat address + unat sz \<le> unat (NandFlashModel_GetDeviceSizeInBytes m)"
  shows "NandFlashModel_TranslateAccess op_bootstrap m address sz = Some (Inr
    (word_of_nat (unat address div unat (NandFlashModel_GetBlockSizeInBytes m)),
     word_of_nat (unat address mod unat (NandFlashModel_GetBlockSizeInBytes m) div unat (pageSizeInBytes m)),
     word_of_nat (unat address mod unat (pageSizeInBytes m))))"
proof -
  let ?bs = "NandFlashModel_GetBlockSizeInBytes m" and ?ps = "ucast (pageSizeInBytes m) :: u32"
  note bb = block_bytes [OF assms(1)]
  have g: "256 \<le> unat (pageSizeInBytes m)" "8 \<le> nand_pages m" "nand_pages m \<le> 512" "nand_blocks m \<le> 32768"
    using assms(1) by (auto simp: nand_geometry_def)
  have bs: "unat ?bs = nand_pages m * unat (pageSizeInBytes m)" "unat ?bs \<le> 512 * 65535"
    using bb(1) mult_le_mono [OF g(3), of "unat (pageSizeInBytes m)" 65535] u16_less [of "pageSizeInBytes m"] by simp_all
  have nz: "?bs \<noteq> 0" "?ps \<noteq> 0" using bs(1) g by (auto simp: u16_u32_0)
  have A: "unat address \<le> nand_blocks m * unat ?bs" "unat address \<le> 2 ^ 31"
    using assms(2) bb bs(1) by (simp_all add: mult.assoc)
  have nz': "unat ?bs \<noteq> 0" using nz(1) by (simp add: unat_eq_zero)
  have "unat address div unat ?bs \<le> nand_blocks m"
    using div_le_mono [OF A(1), of "unat ?bs"] nonzero_mult_div_cancel_right [OF nz', of "nand_blocks m"] by metis
  then have q1: "unat (address div ?bs) < 2 ^ 16" using g(4) by (simp add: unat_div)
  let ?a = "address mod ?bs"
  have a: "unat ?a = unat address mod unat ?bs" "unat ?a < unat ?bs"
    using nz(1) by (simp_all add: unat_mod unat_gt_0)
  have q2: "unat (?a div ?ps) < 2 ^ 16"
    using a(2) bs(1) g(3) by (simp add: unat_div u16_u32 less_mult_imp_div_less order_less_le_trans)
  have dvd: "unat (pageSizeInBytes m) dvd unat ?bs" using bs(1) by simp
  have r: "unat (?a mod ?ps) = unat address mod unat (pageSizeInBytes m)"
    using a(1) dvd by (simp add: unat_mod u16_u32 mod_mod_cancel)
  have r16: "unat (?a mod ?ps) < 2 ^ 16"
    using r g(1) u16_less [of "pageSizeInBytes m"]
    by (metis mod_less_divisor order_less_trans order_less_le_trans zero_less_numeral)
  have d: "address - address div ?bs * ?bs = ?a" "?a - ?a div ?ps * ?ps = ?a mod ?ps"
    by (simp_all add: minus_div_mult_eq_mod)
  have c: "\<not> (\<not> op_bootstrap \<and> ucast (address + sz) > NandFlashModel_GetDeviceSizeInBytes m)"
  proof (cases op_bootstrap)
    case False
    then have "unat address + unat sz \<le> 2 ^ 31" using assms(3) bb by simp
    then have "unat (address + sz) = unat address + unat sz" by (intro unat_add_lem [THEN iffD1]) simp
    then have "unat (ucast (address + sz) :: 64 word) = unat address + unat sz"
      using \<open>unat address + unat sz \<le> 2 ^ 31\<close> by (simp add: unsigned_ucast_eq take_bit_nat_eq_self)
    then show ?thesis using assms(3) False by (simp add: word_less_nat_alt)
  qed simp
  have q: "(if op_bootstrap then CALINT else c_div) address ?bs = Some (address div ?bs)"
      "(if op_bootstrap then CALINT else c_div) ?a ?ps = Some (?a div ?ps)"
    using nz A(2) bs(2) a(2) u16_less [of "pageSizeInBytes m"]
    by (intro quotient_eq; simp add: u16_u32)+
  show ?thesis
    unfolding NandFlashModel_TranslateAccess_def if_not_P [OF c] Let_def
    using q d ucast_quotient [OF q1] ucast_quotient [OF q2] ucast_quotient [OF r16] r a(1)
    by (simp add: NandFlashModel_GetPageDataSize_def unat_div u16_u32)
qed

lemma TranslateAccess_outside:
  assumes "unat address + unat sz < 2 ^ 32" "unat (NandFlashModel_GetDeviceSizeInBytes m) < unat address + unat sz"
  shows "NandFlashModel_TranslateAccess False m address sz = Some (Inl NandCommon_ERROR_OUTOFBOUNDS)"
proof -
  have "unat (address + sz) = unat address + unat sz" using assms(1) by (intro unat_add_lem [THEN iffD1]) simp
  then have "unat (ucast (address + sz) :: 64 word) = unat address + unat sz"
    using assms(1) by (simp add: unsigned_ucast_eq take_bit_nat_eq_self)
  then show ?thesis using assms(2) by (simp add: NandFlashModel_TranslateAccess_def word_less_nat_alt)
qed

text \<open>Page and spare area fit the buffers of the driver, and the scheme fits the spare area.\<close>

definition nand_layout_ok :: "NandFlashModel \<Rightarrow> bool" where
  "nand_layout_ok m \<longleftrightarrow> (let n = unat (NandFlashModel_GetPageDataSize m); k = unat (NandFlashModel_GetPageSpareSize m) in
     n \<le> NandCommon_MAXPAGEDATASIZE \<and> k \<le> NandCommon_MAXPAGESPARESIZE \<and> 32 * k = n \<and>
     256 * (n div 256) = n \<and> scheme_fits (NandFlashModel_GetScheme m) k (n div 256))"

lemma layout_small: "small_chip m \<Longrightarrow> nand_layout_ok m \<and> pageSizeInBytes m \<in> {256, 512}"
  unfolding small_chip_def small_geometries_def
  by (auto simp: nand_layout_ok_def NandFlashModel_GetPageDataSize_def NandFlashModel_GetPageSpareSize_def
      NandFlashModel_GetScheme_def NandCommon_MAXPAGEDATASIZE_def NandCommon_MAXPAGESPARESIZE_def schemes_fit [simplified])

lemma layout_large: "large_chip m \<Longrightarrow> nand_layout_ok m \<longleftrightarrow> pageSizeInBytes m = 2048"
  unfolding large_chip_def
  by (auto simp: nand_layout_ok_def NandFlashModel_GetPageDataSize_def NandFlashModel_GetPageSpareSize_def
      NandFlashModel_GetScheme_def NandCommon_MAXPAGEDATASIZE_def NandCommon_MAXPAGESPARESIZE_def schemes_fit
      scheme_fits_def nandSpareScheme2048_def)

lemma large_page: "large_chip m \<Longrightarrow> pageSizeInBytes m \<notin> {256, 512}"
  by (auto simp: large_chip_def)

lemma Find_any_configuration: "NandFlashModel_Find op_bootstrap l chipId = NandFlashModel_Find op' l chipId"
  by (induction l) (auto simp: Let_def fetch_id4_eq)

section \<open>Properties\<close>

text \<open>
  C32. Whatever identifier a chip answers, if the driver finds it in its list, page and spare area fit
  the buffers of the driver and the scheme of the spare area has its bad block marker, three code
  bytes for each 256 bytes of data and its extra bytes at different places inside the spare area if and
  only if the page has 256, 512 or 2048 bytes; the result is the same in both configurations.
\<close>
theorem nand_found_layout:
  assumes "NandFlashModel_Find op_bootstrap nandFlashModelList chipId = Inr m"
  shows "(nand_layout_ok m \<longleftrightarrow> pageSizeInBytes m \<in> {256, 512, 2048}) \<and>
    NandFlashModel_Find (\<not> op_bootstrap) nandFlashModelList chipId = Inr m"
  using found_chip [OF assms] layout_small [of m] layout_large [of m] large_page [of m] assms
    Find_any_configuration [of "\<not> op_bootstrap" nandFlashModelList chipId op_bootstrap]
  by auto

theorem nand_found_layout_witness:
  "\<exists>m. NandFlashModel_Find False nandFlashModelList 0x2500DA20 = Inr m \<and>
    (nand_layout_ok m \<longleftrightarrow> pageSizeInBytes m \<in> {256, 512, 2048})"
proof -
  have "NandFlashModel_Find False nandFlashModelList 0x2500DA20 =
      Inr ((large8 0xDA 256)\<lparr>pageSizeInBytes := 2048, blockSizeInKBytes := 256\<rparr>)"
    by code_simp
  from nand_found_layout [OF this] this show ?thesis by blast
qed



end
