(* ===== verification/RawNand.thy ===== *)
theory RawNand
  imports NandModel
begin

text \<open>
  The driver of raw NAND flash chips, \<open>RawNandFlash.c\<close>, down to the command, address and data cycles on
  the bus. The chip is a type variable: the addresses and pins of the structure are functions on it.
  A buffer of the caller that is read into is a flag (\<open>False\<close> for a null pointer) and a list of bytes
  in the result. Waiting may not end, and then there is no result.
\<close>

section \<open>The bus\<close>

record 'd nand_bus =
  chip_enable :: "bool \<Rightarrow> 'd \<Rightarrow> 'd"
  write_command8 :: "u8 \<Rightarrow> 'd \<Rightarrow> 'd"
  write_command16 :: "u16 \<Rightarrow> 'd \<Rightarrow> 'd"
  write_address8 :: "u8 \<Rightarrow> 'd \<Rightarrow> 'd"
  write_data8 :: "u8 \<Rightarrow> 'd \<Rightarrow> 'd"
  write_data16 :: "u16 \<Rightarrow> 'd \<Rightarrow> 'd"
  read_data8 :: "'d \<Rightarrow> u8 \<times> 'd"
  read_data16 :: "'d \<Rightarrow> u16 \<times> 'd"
  PIO_Get :: "'d \<Rightarrow> bool \<times> 'd"

text \<open>\<open>ready_busy_pin\<close> tells whether the mask of \<open>pinReadyBusy\<close> is not 0.\<close>

record 'd RawNandFlash =
  raw_model :: NandFlashModel
  raw_bus :: "'d nand_bus"
  ready_busy_pin :: bool

definition STATUS_READY :: u8 where "STATUS_READY = 0x40"
definition STATUS_ERROR :: u8 where "STATUS_ERROR = 0x01"
definition COMMAND_READ_1 :: u8 where "COMMAND_READ_1 = 0x00"
definition COMMAND_READ_2 :: u8 where "COMMAND_READ_2 = 0x30"
definition COMMAND_COPYBACK_READ_1 :: u8 where "COMMAND_COPYBACK_READ_1 = 0x00"
definition COMMAND_COPYBACK_READ_2 :: u8 where "COMMAND_COPYBACK_READ_2 = 0x35"
definition COMMAND_COPYBACK_PROGRAM_1 :: u8 where "COMMAND_COPYBACK_PROGRAM_1 = 0x85"
definition COMMAND_COPYBACK_PROGRAM_2 :: u8 where "COMMAND_COPYBACK_PROGRAM_2 = 0x10"
definition COMMAND_READID :: u8 where "COMMAND_READID = 0x90"
definition COMMAND_WRITE_1 :: u8 where "COMMAND_WRITE_1 = 0x80"
definition COMMAND_WRITE_2 :: u8 where "COMMAND_WRITE_2 = 0x10"
definition COMMAND_ERASE_1 :: u8 where "COMMAND_ERASE_1 = 0x60"
definition COMMAND_ERASE_2 :: u8 where "COMMAND_ERASE_2 = 0xD0"
definition COMMAND_STATUS :: u8 where "COMMAND_STATUS = 0x70"
definition COMMAND_RESET :: u8 where "COMMAND_RESET = 0xFF"
definition COMMAND_READ_A :: u8 where "COMMAND_READ_A = 0x00"
definition NUMERASETRIES :: nat where "NUMERASETRIES = 2"
definition NUMWRITETRIES :: nat where "NUMWRITETRIES = 2"
definition NUMCOPYTRIES :: nat where "NUMCOPYTRIES = 2"

lemmas command_defs = COMMAND_READ_1_def COMMAND_READ_2_def COMMAND_COPYBACK_READ_1_def COMMAND_COPYBACK_READ_2_def
  COMMAND_COPYBACK_PROGRAM_1_def COMMAND_COPYBACK_PROGRAM_2_def COMMAND_READID_def COMMAND_WRITE_1_def
  COMMAND_WRITE_2_def COMMAND_ERASE_1_def COMMAND_ERASE_2_def COMMAND_STATUS_def COMMAND_RESET_def COMMAND_READ_A_def

section \<open>Cycles\<close>

lemma drop_bit_8_less: "0 < n \<Longrightarrow> unat (drop_bit 8 (n :: 'a::len word)) < unat n"
proof -
  assume "0 < n"
  then have "0 < unat n" by (simp add: unat_gt_0 word_gt_0)
  moreover have "unat (drop_bit 8 n) = unat n div 2 ^ 8"
    by (subst unat_drop_bit_eq) (simp add: drop_bit_eq_div)
  ultimately show ?thesis by simp
qed

text \<open>\<open>while (n > 0) { WRITE_ADDRESS(raw, a & 0xFF); n >>= 8; a >>= 8; }\<close>\<close>

function address_cycles :: "'d nand_bus \<Rightarrow> 'a::len word \<Rightarrow> 'a word \<Rightarrow> 'd \<Rightarrow> 'd" where
  "address_cycles bus n a d =
     (if n > 0 then address_cycles bus (drop_bit 8 n) (drop_bit 8 a) (write_address8 bus (ucast (a AND 0xFF)) d)
      else d)"
  by pat_completeness auto
termination by (relation "measure (\<lambda>(bus, n, a, d). unat n)") (use drop_bit_8_less in auto)

declare address_cycles.simps [simp del]

definition WriteColumnAddress :: "'d RawNandFlash \<Rightarrow> u16 \<Rightarrow> 'd \<Rightarrow> 'd" where
  "WriteColumnAddress raw columnAddress =
     (let pageDataSize = NandFlashModel_GetPageDataSize (raw_model raw);
          columnAddress = (if NandFlashModel_GetDataBusWidth (raw_model raw) = 16 then drop_bit 1 columnAddress
            else columnAddress)
      in address_cycles (raw_bus raw) pageDataSize columnAddress)"

definition WriteRowAddress :: "bool \<Rightarrow> 'd RawNandFlash \<Rightarrow> u32 \<Rightarrow> 'd \<Rightarrow> 'd option" where
  "WriteRowAddress op_bootstrap raw rowAddress d = do {
     numPages \<leftarrow> NandFlashModel_GetDeviceSizeInPages op_bootstrap (raw_model raw);
     Some (address_cycles (raw_bus raw) numPages rowAddress d) }"

partial_function (option) poll :: "('d \<Rightarrow> bool \<times> 'd) \<Rightarrow> 'd \<Rightarrow> 'd option" where
  "poll p d = (case p d of (r, d) \<Rightarrow> if r then Some d else poll p d)"

definition WaitReady :: "'d RawNandFlash \<Rightarrow> 'd \<Rightarrow> 'd option" where
  "WaitReady raw d =
     (if ready_busy_pin raw then poll (PIO_Get (raw_bus raw)) d
      else poll (\<lambda>d. case read_data8 (raw_bus raw) d of (b, d) \<Rightarrow> (b AND STATUS_READY = STATUS_READY, d))
        (write_command8 (raw_bus raw) COMMAND_STATUS d))"

definition IsOperationComplete :: "'d RawNandFlash \<Rightarrow> 'd \<Rightarrow> bool \<times> 'd" where
  "IsOperationComplete raw d =
     (case read_data8 (raw_bus raw) (write_command8 (raw_bus raw) COMMAND_STATUS d) of
        (status, d) \<Rightarrow> (\<not> (status AND STATUS_READY \<noteq> STATUS_READY \<or> status AND STATUS_ERROR \<noteq> 0), d))"

definition WriteData :: "'d RawNandFlash \<Rightarrow> bytes \<Rightarrow> u32 \<Rightarrow> 'd \<Rightarrow> 'd option" where
  "WriteData raw buffer sz =
     (if NandFlashModel_GetDataBusWidth (raw_model raw) = 16
      then for_opt 0 (unat (drop_bit 1 sz)) (\<lambda>i d. do {
        b0 \<leftarrow> get_at buffer (2 * i);
        b1 \<leftarrow> get_at buffer (2 * i + 1);
        Some (write_data16 (raw_bus raw) (bytes_u16 [b0, b1]) d) })
      else for_opt 0 (unat sz) (\<lambda>i d. do {
        b \<leftarrow> get_at buffer i;
        Some (write_data8 (raw_bus raw) b d) }))"

primrec read_bytes :: "('d \<Rightarrow> bytes \<times> 'd) \<Rightarrow> nat \<Rightarrow> 'd \<Rightarrow> bytes \<times> 'd" where
  "read_bytes r 0 d = ([], d)"
| "read_bytes r (Suc n) d = (case r d of (b, d) \<Rightarrow> (case read_bytes r n d of (bs, d) \<Rightarrow> (b @ bs, d)))"

definition ReadData :: "'d RawNandFlash \<Rightarrow> u32 \<Rightarrow> 'd \<Rightarrow> bytes \<times> 'd" where
  "ReadData raw sz =
     (if NandFlashModel_GetDataBusWidth (raw_model raw) = 16
      then read_bytes (\<lambda>d. case read_data16 (raw_bus raw) d of (w, d) \<Rightarrow> (u16_bytes w, d)) (unat (drop_bit 1 sz))
      else read_bytes (\<lambda>d. case read_data8 (raw_bus raw) d of (b, d) \<Rightarrow> ([b], d)) (unat sz))"

section \<open>Pages and blocks\<close>

definition row_address :: "bool \<Rightarrow> 'd RawNandFlash \<Rightarrow> u16 \<Rightarrow> u16 \<Rightarrow> u32 option" where
  "row_address op_bootstrap raw block page = do {
     pages \<leftarrow> NandFlashModel_GetBlockSizeInPages op_bootstrap (raw_model raw);
     Some (ucast block * ucast pages + ucast page) }"

definition EraseBlock :: "bool \<Rightarrow> 'd RawNandFlash \<Rightarrow> u16 \<Rightarrow> 'd \<Rightarrow> (u8 \<times> 'd) option" where
  "EraseBlock op_bootstrap raw block d = do {
     let bus = raw_bus raw;
     rowAddress \<leftarrow> row_address op_bootstrap raw block 0;
     let d = write_command8 bus COMMAND_ERASE_1 (chip_enable bus True d);
     d \<leftarrow> WriteRowAddress op_bootstrap raw rowAddress d;
     d \<leftarrow> WaitReady raw (write_command8 bus COMMAND_ERASE_2 d);
     let (complete, d) = (if op_bootstrap then (True, d) else IsOperationComplete raw d);
     Some (if complete then 0 else NandCommon_ERROR_CANNOTERASE, chip_enable bus False d) }"

text \<open>Both parts of \<open>WritePage\<close> end in the same way.\<close>

definition program_page :: "'d RawNandFlash \<Rightarrow> 'd \<Rightarrow> (u8 \<times> 'd) option" where
  "program_page raw d = do {
     d \<leftarrow> WaitReady raw (write_command8 (raw_bus raw) COMMAND_WRITE_2 d);
     let (complete, d) = IsOperationComplete raw d;
     Some (if complete then 0 else NandCommon_ERROR_CANNOTWRITE, d) }"

definition WritePage ::
    "bool \<Rightarrow> 'd RawNandFlash \<Rightarrow> u16 \<Rightarrow> u16 \<Rightarrow> bytes option \<Rightarrow> bytes option \<Rightarrow> 'd \<Rightarrow> (u8 \<times> 'd) option" where
  "WritePage op_bootstrap raw block page data spare d = do {
     let bus = raw_bus raw;
     let pageDataSize = NandFlashModel_GetPageDataSize (raw_model raw);
     let spareDataSize = NandFlashModel_GetPageSpareSize (raw_model raw);
     rowAddress \<leftarrow> row_address op_bootstrap raw block page;
     let d = chip_enable bus True d;
     (error, d) \<leftarrow> (case data of
         Some data \<Rightarrow> do {
           let d = WriteColumnAddress raw 0 (write_command8 bus COMMAND_WRITE_1 d);
           d \<leftarrow> WriteRowAddress op_bootstrap raw rowAddress d;
           d \<leftarrow> WriteData raw data (ucast pageDataSize) d;
           d \<leftarrow> (case spare of Some spare \<Rightarrow> WriteData raw spare (ucast spareDataSize) d | None \<Rightarrow> Some d);
           program_page raw d }
       | None \<Rightarrow> (case spare of
           Some spare \<Rightarrow> do {
             let d = WriteColumnAddress raw pageDataSize (write_command8 bus COMMAND_WRITE_1 d);
             d \<leftarrow> WriteRowAddress op_bootstrap raw rowAddress d;
             d \<leftarrow> WriteData raw spare (ucast spareDataSize) d;
             program_page raw d }
         | None \<Rightarrow> Some (0, d)));
     Some (error, chip_enable bus False d) }"

definition RawNandFlash_ReadPage ::
    "bool \<Rightarrow> 'd RawNandFlash \<Rightarrow> u16 \<Rightarrow> u16 \<Rightarrow> bool \<Rightarrow> bool \<Rightarrow> 'd \<Rightarrow> ((u8 \<times> bytes \<times> bytes) \<times> 'd) option" where
  "RawNandFlash_ReadPage op_bootstrap raw block page data spare d =
     (if \<not> (data \<or> spare) then None
      else do {
        let bus = raw_bus raw;
        let pageDataSize = NandFlashModel_GetPageDataSize (raw_model raw);
        let pageSpareSize = NandFlashModel_GetPageSpareSize (raw_model raw);
        rowAddress \<leftarrow> row_address op_bootstrap raw block page;
        let d = chip_enable bus True d;
        let colAddress = (if data then 0 else pageDataSize);
        d \<leftarrow> (if NandFlashModel_HasSmallBlocks (raw_model raw)
          then WriteRowAddress op_bootstrap raw rowAddress
            (WriteColumnAddress raw colAddress (write_command8 bus COMMAND_READ_A d))
          else do {
            d \<leftarrow> WriteRowAddress op_bootstrap raw rowAddress
              (WriteColumnAddress raw colAddress (write_command8 bus COMMAND_READ_1 d));
            Some (write_command8 bus COMMAND_READ_2 d) });
        d \<leftarrow> WaitReady raw d;
        let d = write_command8 bus COMMAND_READ_1 d;
        let (data_bytes, d) = (if data then ReadData raw (ucast pageDataSize) d else ([], d));
        let (spare_bytes, d) = (if spare then ReadData raw (ucast pageSpareSize) d else ([], d));
        Some ((0, data_bytes, spare_bytes), chip_enable bus False d) })"

text \<open>\<open>while (numTries > 0) { if (!attempt) return 0; numTries--; } return NandCommon_ERROR_BADBLOCK;\<close>\<close>

primrec tries :: "nat \<Rightarrow> ('d \<Rightarrow> (u8 \<times> 'd) option) \<Rightarrow> 'd \<Rightarrow> (u8 \<times> 'd) option" where
  "tries 0 attempt d = Some (NandCommon_ERROR_BADBLOCK, d)"
| "tries (Suc numTries) attempt d = do {
     (error, d) \<leftarrow> attempt d;
     if error = 0 then Some (0, d) else tries numTries attempt d }"

definition RawNandFlash_EraseBlock :: "bool \<Rightarrow> 'd RawNandFlash \<Rightarrow> u16 \<Rightarrow> 'd \<Rightarrow> (u8 \<times> 'd) option" where
  "RawNandFlash_EraseBlock op_bootstrap raw block =
     (if op_bootstrap then EraseBlock op_bootstrap raw block
      else tries NUMERASETRIES (EraseBlock op_bootstrap raw block))"

definition RawNandFlash_WritePage ::
    "bool \<Rightarrow> 'd RawNandFlash \<Rightarrow> u16 \<Rightarrow> u16 \<Rightarrow> bytes option \<Rightarrow> bytes option \<Rightarrow> 'd \<Rightarrow> (u8 \<times> 'd) option" where
  "RawNandFlash_WritePage op_bootstrap raw block page data spare =
     tries NUMWRITETRIES (WritePage op_bootstrap raw block page data spare)"

text \<open>
  The page is copied inside the chip if it supports that, and otherwise through two buffers on the
  stack. The buffers have the sizes of the largest supported page.
\<close>

definition CopyPage ::
    "bool \<Rightarrow> 'd RawNandFlash \<Rightarrow> u16 \<Rightarrow> u16 \<Rightarrow> u16 \<Rightarrow> u16 \<Rightarrow> 'd \<Rightarrow> (u8 \<times> 'd) option" where
  "CopyPage op_bootstrap raw sourceBlock sourcePage destBlock destPage d =
     (if sourcePage AND 1 \<noteq> destPage AND 1 then None
      else if NandFlashModel_SupportsCopyBack (raw_model raw)
      then do {
        let bus = raw_bus raw;
        sourceRow \<leftarrow> row_address op_bootstrap raw sourceBlock sourcePage;
        destRow \<leftarrow> row_address op_bootstrap raw destBlock destPage;
        let d = write_command8 bus COMMAND_COPYBACK_READ_1 (chip_enable bus True d);
        d \<leftarrow> WriteRowAddress op_bootstrap raw sourceRow (WriteColumnAddress raw 0 d);
        d \<leftarrow> WaitReady raw (write_command8 bus COMMAND_COPYBACK_READ_2 d);
        let d = write_command8 bus COMMAND_COPYBACK_PROGRAM_1 d;
        d \<leftarrow> WriteRowAddress op_bootstrap raw destRow (WriteColumnAddress raw 0 d);
        d \<leftarrow> WaitReady raw (write_command8 bus COMMAND_COPYBACK_PROGRAM_2 d);
        let (complete, d) = IsOperationComplete raw d;
        Some (if complete then 0 else NandCommon_ERROR_CANNOTCOPY, chip_enable bus False d) }
      else do {
        ((error, data, spare), d) \<leftarrow> RawNandFlash_ReadPage op_bootstrap raw sourceBlock sourcePage True True d;
        if length data > NandCommon_MAXPAGEDATASIZE \<or> length spare > NandCommon_MAXPAGESPARESIZE then None
        else if error \<noteq> 0 then Some (NandCommon_ERROR_CANNOTREAD, d)
        else do {
          (error, d) \<leftarrow> RawNandFlash_WritePage op_bootstrap raw destBlock destPage (Some data) (Some spare) d;
          Some (if error \<noteq> 0 then NandCommon_ERROR_CANNOTWRITE else 0, d) } })"

definition RawNandFlash_CopyPage ::
    "bool \<Rightarrow> 'd RawNandFlash \<Rightarrow> u16 \<Rightarrow> u16 \<Rightarrow> u16 \<Rightarrow> u16 \<Rightarrow> 'd \<Rightarrow> (u8 \<times> 'd) option" where
  "RawNandFlash_CopyPage op_bootstrap raw sourceBlock sourcePage destBlock destPage =
     tries NUMCOPYTRIES (CopyPage op_bootstrap raw sourceBlock sourcePage destBlock destPage)"

primrec copy_pages :: "(u16 \<Rightarrow> 'd \<Rightarrow> (u8 \<times> 'd) option) \<Rightarrow> nat \<Rightarrow> nat \<Rightarrow> 'd \<Rightarrow> (u8 \<times> 'd) option" where
  "copy_pages copy i 0 d = Some (0, d)"
| "copy_pages copy i (Suc n) d = do {
     (error, d) \<leftarrow> copy (word_of_nat i) d;
     if error \<noteq> 0 then Some (NandCommon_ERROR_BADBLOCK, d) else copy_pages copy (Suc i) n d }"

definition RawNandFlash_CopyBlock :: "bool \<Rightarrow> 'd RawNandFlash \<Rightarrow> u16 \<Rightarrow> u16 \<Rightarrow> 'd \<Rightarrow> (u8 \<times> 'd) option" where
  "RawNandFlash_CopyBlock op_bootstrap raw sourceBlock destBlock d =
     (if sourceBlock = destBlock then None
      else do {
        numPages \<leftarrow> NandFlashModel_GetBlockSizeInPages op_bootstrap (raw_model raw);
        copy_pages (\<lambda>i. RawNandFlash_CopyPage op_bootstrap raw sourceBlock i destBlock i) 0 (unat numPages) d })"

section \<open>Reset and identification\<close>

definition RawNandFlash_Reset :: "'d RawNandFlash \<Rightarrow> 'd \<Rightarrow> 'd option" where
  "RawNandFlash_Reset raw d = do {
     let bus = raw_bus raw;
     d \<leftarrow> WaitReady raw (write_command16 bus (ucast COMMAND_RESET) (chip_enable bus True d));
     Some (chip_enable bus False d) }"

text \<open>Each byte is shifted into place and accumulated with \<open>|=\<close>; the shift by 24 is done on an \<open>int\<close>.\<close>

definition RawNandFlash_ReadId :: "'d RawNandFlash \<Rightarrow> 'd \<Rightarrow> u32 \<times> 'd" where
  "RawNandFlash_ReadId raw d =
     (let bus = raw_bus raw;
          d = write_address8 bus 0 (write_command16 bus (ucast COMMAND_READID) (chip_enable bus True d));
          (b0, d) = read_data8 bus d;
          (b1, d) = read_data8 bus d;
          (b2, d) = read_data8 bus d;
          (b3, d) = read_data8 bus d;
          chipId = ucast b0 OR push_bit 8 (ucast b1) OR push_bit 16 (ucast b2) OR push_bit 24 (ucast b3)
      in (chipId, chip_enable bus False d))"

text \<open>The model of an earlier initialisation is used for waiting: only the bus and the pin are new.\<close>

definition RawNandFlash_Initialize ::
    "bool \<Rightarrow> NandFlashModel option \<Rightarrow> 'd nand_bus \<Rightarrow> bool \<Rightarrow> 'd RawNandFlash \<Rightarrow> 'd \<Rightarrow> (u8 \<times> 'd RawNandFlash \<times> 'd) option" where
  "RawNandFlash_Initialize op_bootstrap m bus pin raw d = do {
     let raw = raw\<lparr>raw_bus := bus, ready_busy_pin := pin\<rparr>;
     d \<leftarrow> RawNandFlash_Reset raw d;
     case m of
       None \<Rightarrow>
         (case RawNandFlash_ReadId raw d of
            (chipId, d) \<Rightarrow>
              (case NandFlashModel_Find op_bootstrap nandFlashModelList chipId of
                 Inl _ \<Rightarrow> Some (NandCommon_ERROR_UNKNOWNMODEL, raw, d)
               | Inr m \<Rightarrow> Some (0, raw\<lparr>raw_model := m\<rparr>, d)))
     | Some m \<Rightarrow> Some (0, raw\<lparr>raw_model := m\<rparr>, d) }"

section \<open>What the upper layers rely on\<close>

text \<open>
  Programming a page clears bits only. What is not written of a page is programmed with ones.
\<close>

definition program_bytes :: "bytes \<Rightarrow> bytes \<Rightarrow> bytes" where
  "program_bytes old new = map2 (AND) old new"

definition page_image :: "nat \<Rightarrow> nat \<Rightarrow> bytes option \<Rightarrow> bytes option \<Rightarrow> bytes" where
  "page_image n k data spare =
     take n (case data of Some d \<Rightarrow> d | None \<Rightarrow> replicate n 0xFF) @
     take k (case spare of Some s \<Rightarrow> s | None \<Rightarrow> replicate k 0xFF)"

definition buffer_ok :: "nat \<Rightarrow> bytes option \<Rightarrow> bool" where
  "buffer_ok n b \<longleftrightarrow> (case b of None \<Rightarrow> True | Some d \<Rightarrow> n \<le> length d)"

locale nand_device =
  fixes op_bootstrap :: bool and raw :: "'d RawNandFlash"
    and content :: "'d \<Rightarrow> nat \<Rightarrow> bytes" and ready :: "'d \<Rightarrow> bool"
  assumes geometry: "nand_geometry (raw_model raw)"
    and read_page: "ready d \<Longrightarrow> want_data \<or> want_spare \<Longrightarrow> unat page < nand_pages (raw_model raw) \<Longrightarrow>
      unat block < nand_blocks (raw_model raw) \<Longrightarrow>
      \<exists>d'. RawNandFlash_ReadPage op_bootstrap raw block page want_data want_spare d = Some ((0,
          if want_data then take (unat (NandFlashModel_GetPageDataSize (raw_model raw)))
            (content d (unat block * nand_pages (raw_model raw) + unat page)) else [],
          if want_spare then drop (unat (NandFlashModel_GetPageDataSize (raw_model raw)))
            (content d (unat block * nand_pages (raw_model raw) + unat page)) else []), d') \<and>
        ready d' \<and> content d' = content d"
    and write_page: "ready d \<Longrightarrow> unat page < nand_pages (raw_model raw) \<Longrightarrow>
      unat block < nand_blocks (raw_model raw) \<Longrightarrow> (data, spare) \<noteq> (None, None) \<Longrightarrow>
      buffer_ok (unat (NandFlashModel_GetPageDataSize (raw_model raw))) data \<Longrightarrow>
      buffer_ok (unat (NandFlashModel_GetPageSpareSize (raw_model raw))) spare \<Longrightarrow>
      \<exists>e d'. RawNandFlash_WritePage op_bootstrap raw block page data spare d = Some (e, d') \<and> ready d' \<and>
        (\<forall>r. r \<noteq> unat block * nand_pages (raw_model raw) + unat page \<longrightarrow> content d' r = content d r) \<and>
        (e = 0 \<longrightarrow> content d' (unat block * nand_pages (raw_model raw) + unat page) =
          program_bytes (content d (unat block * nand_pages (raw_model raw) + unat page))
            (page_image (unat (NandFlashModel_GetPageDataSize (raw_model raw)))
              (unat (NandFlashModel_GetPageSpareSize (raw_model raw))) data spare))"
    and erase_block: "ready d \<Longrightarrow> unat block < nand_blocks (raw_model raw) \<Longrightarrow>
      \<exists>e d'. RawNandFlash_EraseBlock op_bootstrap raw block d = Some (e, d') \<and> ready d' \<and>
        (\<forall>r. r div nand_pages (raw_model raw) \<noteq> unat block \<longrightarrow> content d' r = content d r) \<and>
        (e = 0 \<longrightarrow> (\<forall>r. r div nand_pages (raw_model raw) = unat block \<longrightarrow>
          content d' r = replicate (unat (NandFlashModel_GetPageDataSize (raw_model raw)) +
            unat (NandFlashModel_GetPageSpareSize (raw_model raw))) 0xFF))"
    and page_length: "ready d \<Longrightarrow> length (content d r) =
      unat (NandFlashModel_GetPageDataSize (raw_model raw)) + unat (NandFlashModel_GetPageSpareSize (raw_model raw))"

end
