(* ===== verification/NandChip.thy ===== *)
theory NandChip
  imports RawNand
begin

text \<open>
  A NAND flash chip with an 8 bit bus and large blocks, as the driver of \<open>RawNandFlash.c\<close> drives it:
  address cycles set the column and the row, a page register takes and gives data, an operation keeps
  the chip busy for a while. The driver on this chip is a device as the upper layers expect it.
\<close>

section \<open>The chip\<close>

record nand_chip =
  cpages :: "nat \<Rightarrow> bytes"
  cid :: bytes
  caddr :: bytes
  creg :: bytes
  cptr :: nat
  cstatus :: bool
  cbusy :: nat

fun le_value :: "bytes \<Rightarrow> nat" where
  "le_value [] = 0"
| "le_value (b # bs) = unat b + 256 * le_value bs"

abbreviation data_size :: "NandFlashModel \<Rightarrow> nat" where
  "data_size m \<equiv> unat (NandFlashModel_GetPageDataSize m)"

abbreviation spare_size :: "NandFlashModel \<Rightarrow> nat" where
  "spare_size m \<equiv> unat (NandFlashModel_GetPageSpareSize m)"

definition chip_row :: "nand_chip \<Rightarrow> nat" where "chip_row c = le_value (drop 2 (caddr c))"

definition erased :: "NandFlashModel \<Rightarrow> bytes" where "erased m = replicate (data_size m + spare_size m) 0xFF"

definition chip_command :: "NandFlashModel \<Rightarrow> u8 \<Rightarrow> nand_chip \<Rightarrow> nand_chip" where
  "chip_command m b c0 =
     (if b = COMMAND_STATUS then c0\<lparr>cstatus := True\<rparr>
      else let c = c0\<lparr>cstatus := False\<rparr> in
        if b = COMMAND_READ_1 \<or> b = COMMAND_COPYBACK_PROGRAM_1 \<or> b = COMMAND_ERASE_1 then c\<lparr>caddr := []\<rparr>
        else if b = COMMAND_READ_2 \<or> b = COMMAND_COPYBACK_READ_2 then c\<lparr>creg := cpages c (chip_row c), cbusy := 2\<rparr>
        else if b = COMMAND_WRITE_1 then c\<lparr>caddr := [], creg := erased m\<rparr>
        else if b = COMMAND_WRITE_2 then c\<lparr>cpages := (cpages c)(chip_row c := program_bytes (cpages c (chip_row c)) (creg c)),
          cbusy := 2\<rparr>
        else if b = COMMAND_ERASE_2 then c\<lparr>cpages := (\<lambda>r. if r div nand_pages m = le_value (caddr c) div nand_pages m
          then erased m else cpages c0 r), cbusy := 2\<rparr>
        else if b = COMMAND_READID then c\<lparr>caddr := [], creg := cid c\<rparr>
        else if b = COMMAND_RESET then c\<lparr>cbusy := 2\<rparr>
        else c)"

definition chip_read8 :: "nand_chip \<Rightarrow> u8 \<times> nand_chip" where
  "chip_read8 c =
     (if cstatus c then if cbusy c > 0 then (0, c\<lparr>cbusy := cbusy c - 1\<rparr>) else (STATUS_READY, c)
      else (creg c ! cptr c, c\<lparr>cptr := cptr c + 1\<rparr>))"

definition chip_write8 :: "u8 \<Rightarrow> nand_chip \<Rightarrow> nand_chip" where
  "chip_write8 b c = c\<lparr>creg := (creg c)[cptr c := b], cptr := cptr c + 1\<rparr>"

definition chip_bus :: "NandFlashModel \<Rightarrow> nand_chip nand_bus" where
  "chip_bus m = \<lparr>chip_enable = (\<lambda>_ c. c), write_command8 = chip_command m,
     write_command16 = (\<lambda>w. chip_command m (ucast w)),
     write_address8 = (\<lambda>b c. c\<lparr>caddr := caddr c @ [b], cptr := le_value (take 2 (caddr c @ [b]))\<rparr>),
     write_data8 = chip_write8,
     write_data16 = (\<lambda>w c. chip_write8 (ucast (drop_bit 8 w)) (chip_write8 (ucast w) c)),
     read_data8 = chip_read8,
     read_data16 = (\<lambda>c. case chip_read8 c of (b0, c) \<Rightarrow> (case chip_read8 c of (b1, c) \<Rightarrow> (bytes_u16 [b0, b1], c))),
     PIO_Get = (\<lambda>c. if cbusy c > 0 then (False, c\<lparr>cbusy := cbusy c - 1\<rparr>) else (True, c))\<rparr>"

definition chip_raw :: "NandFlashModel \<Rightarrow> bool \<Rightarrow> nand_chip RawNandFlash" where
  "chip_raw m pin = \<lparr>raw_model = m, raw_bus = chip_bus m, ready_busy_pin = pin\<rparr>"

lemma chip_raw_simps [simp]: "raw_model (chip_raw m pin) = m" "raw_bus (chip_raw m pin) = chip_bus m"
  "ready_busy_pin (chip_raw m pin) = pin"
  by (simp_all add: chip_raw_def)

lemma chip_bus_simps [simp]: "chip_enable (chip_bus m) on c = c" "write_command8 (chip_bus m) = chip_command m"
  "write_command16 (chip_bus m) w = chip_command m (ucast w)"
  "write_data8 (chip_bus m) = chip_write8" "read_data8 (chip_bus m) = chip_read8"
  by (simp_all add: chip_bus_def)

lemma chip_commands:
  "chip_command m COMMAND_STATUS c = c\<lparr>cstatus := True\<rparr>"
  "chip_command m COMMAND_READ_1 c = c\<lparr>cstatus := False, caddr := []\<rparr>"
  "chip_command m COMMAND_READ_2 c = c\<lparr>cstatus := False, creg := cpages c (chip_row c), cbusy := 2\<rparr>"
  "chip_command m COMMAND_WRITE_1 c = c\<lparr>cstatus := False, caddr := [], creg := erased m\<rparr>"
  "chip_command m COMMAND_WRITE_2 c = c\<lparr>cstatus := False,
     cpages := (cpages c)(chip_row c := program_bytes (cpages c (chip_row c)) (creg c)), cbusy := 2\<rparr>"
  "chip_command m COMMAND_ERASE_1 c = c\<lparr>cstatus := False, caddr := []\<rparr>"
  "chip_command m COMMAND_ERASE_2 c = c\<lparr>cstatus := False,
     cpages := (\<lambda>r. if r div nand_pages m = le_value (caddr c) div nand_pages m then erased m else cpages c r), cbusy := 2\<rparr>"
  "chip_command m COMMAND_READID c = c\<lparr>cstatus := False, caddr := [], creg := cid c\<rparr>"
  "chip_command m COMMAND_RESET c = c\<lparr>cstatus := False, cbusy := 2\<rparr>"
  by (simp_all add: chip_command_def command_defs chip_row_def Let_def)

section \<open>Addresses\<close>

function cycle_bytes :: "'a::len word \<Rightarrow> 'a word \<Rightarrow> bytes" where
  "cycle_bytes n a = (if n > 0 then ucast (a AND 0xFF) # cycle_bytes (drop_bit 8 n) (drop_bit 8 a) else [])"
  by pat_completeness auto
termination by (relation "measure (\<lambda>(n, a). unat n)") (use drop_bit_8_less in auto)

declare cycle_bytes.simps [simp del]

lemma address_cycles_chip:
  "address_cycles (chip_bus m) n a c =
    c\<lparr>caddr := caddr c @ cycle_bytes n a,
      cptr := (if n = 0 then cptr c else le_value (take 2 (caddr c @ cycle_bytes n a)))\<rparr>"
proof (induction "chip_bus m" n a c rule: address_cycles.induct)
  case (1 n a d)
  show ?case
  proof (cases "n > 0")
    case True
    have "drop_bit 8 n = 0 \<Longrightarrow> cycle_bytes (drop_bit 8 n) x = []" for x by (simp add: cycle_bytes.simps)
    then show ?thesis
      using 1 [OF True] True
      by (simp add: address_cycles.simps [of _ n] cycle_bytes.simps [of n] chip_bus_def word_gt_0 del: take_append)
  next
    case False
    then show ?thesis by (simp add: address_cycles.simps cycle_bytes.simps word_gt_0)
  qed
qed

lemma low_byte: "unat (ucast (a AND 0xFF) :: u8) = unat (a :: 'a::len word) mod 256"
proof -
  have m: "bit (0xFF :: 'a word) n \<longleftrightarrow> n < 8 \<and> n < LENGTH('a)" for n
    using bit_mask_iff [of 8 n, where 'a = "'a word"] by (auto simp: mask_eq_exp_minus_1 possible_bit_word)
  have "ucast (a AND 0xFF) = (ucast a :: u8)"
    by (intro bit_eqI) (simp only: bit_ucast_iff bit_and_iff m, auto dest: bit_imp_le_length)
  then show ?thesis by (simp add: unsigned_ucast_eq take_bit_eq_mod)
qed

lemma le_cycle_bytes: "a \<le> n \<Longrightarrow> le_value (cycle_bytes n (a :: 'a::len word)) = unat a"
proof (induction n a rule: cycle_bytes.induct)
  case (1 n a)
  show ?case
  proof (cases "n > 0")
    case True
    have d: "unat (drop_bit 8 x) = unat x div 256" for x :: "'a word"
      by (subst unat_drop_bit_eq) (simp add: drop_bit_eq_div)
    have "drop_bit 8 a \<le> drop_bit 8 n" using 1(2) by (simp add: word_le_nat_alt d div_le_mono)
    note ih = 1(1) [OF True this]
    show ?thesis using True ih d low_byte [of a] by (simp add: cycle_bytes.simps [of n])
  next
    case False
    then show ?thesis using 1(2) by (simp add: cycle_bytes.simps word_gt_0)
  qed
qed

text \<open>Column and row of an access: two column cycles, then as many row cycles as the device needs.\<close>

lemma column_cycles:
  assumes "256 \<le> unat (n :: u16)"
  shows "length (cycle_bytes n (a :: u16)) = 2"
proof -
  have d: "unat (drop_bit 8 x) = unat x div 256" for x :: u16
    by (subst unat_drop_bit_eq) (simp add: drop_bit_eq_div)
  have "unat n < 65536" using u16_less [of n] by simp
  then have "unat (drop_bit 8 n) > 0" "unat (drop_bit 8 (drop_bit 8 n)) = 0" using assms d by simp_all
  then have "drop_bit 8 n > 0" "\<not> drop_bit 8 (drop_bit 8 n) > 0" "n > 0"
    using assms by (auto simp: word_gt_0 unat_gt_0 unat_eq_zero)
  then show ?thesis by (simp add: cycle_bytes.simps)
qed

lemma device_pages:
  assumes "nand_geometry m"
  shows "\<exists>n. NandFlashModel_GetDeviceSizeInPages op_bootstrap m = Some n \<and> unat n = nand_blocks m * nand_pages m"
proof -
  have g: "nand_pages m \<le> 512" "nand_blocks m \<le> 32768" using assms by (auto simp: nand_geometry_def)
  then have "nand_blocks m * nand_pages m \<le> 32768 * 512" by (intro mult_le_mono)
  then have "unat (ucast (word_of_nat (nand_blocks m) :: u16) * ucast (word_of_nat (nand_pages m) :: u16) :: u32)
      = nand_blocks m * nand_pages m"
    using g by (subst unat_mult_lem [THEN iffD1]) (simp_all add: u16_u32 unat_of_nat take_bit_nat_eq_self)
  then show ?thesis using assms by (simp add: NandFlashModel_GetDeviceSizeInPages_def nand_geometry_def)
qed

lemma row_address_ok:
  assumes "nand_geometry (raw_model raw)" "unat page < nand_pages (raw_model raw)" "unat block < nand_blocks (raw_model raw)"
  shows "\<exists>r. row_address op_bootstrap raw block page = Some r \<and> unat r = unat block * nand_pages (raw_model raw) + unat page \<and>
    unat r < nand_blocks (raw_model raw) * nand_pages (raw_model raw)"
proof -
  let ?n = "nand_pages (raw_model raw)" and ?b = "nand_blocks (raw_model raw)"
  have g: "?n \<le> 512" "?b \<le> 32768" using assms(1) by (auto simp: nand_geometry_def)
  have le: "unat block * ?n + unat page < ?b * ?n"
    using assms(2) mult_le_mono1 [of "Suc (unat block)" ?b ?n] assms(3) by simp
  have "?b * ?n \<le> 32768 * 512" using g by (intro mult_le_mono)
  then have lt: "unat block * ?n + unat page < 2 ^ 32" "unat block * ?n < 2 ^ 32" using le by simp_all
  have n: "unat (ucast (word_of_nat ?n :: u16) :: u32) = ?n"
    using g by (simp add: u16_u32 unat_of_nat take_bit_nat_eq_self)
  have m: "unat (ucast block * ucast (word_of_nat ?n :: u16) :: u32) = unat block * ?n"
    using lt(2) n by (subst unat_mult_lem [THEN iffD1]) (simp_all add: u16_u32)
  have "unat (ucast block * ucast (word_of_nat ?n :: u16) + ucast page :: u32) = unat block * ?n + unat page"
    using lt(1) m by (subst unat_add_lem [THEN iffD1]) (simp_all add: u16_u32)
  then show ?thesis using assms(1) le by (simp add: row_address_def nand_geometry_def)
qed

section \<open>The driver on the chip\<close>

text \<open>Chips with an 8 bit bus and large blocks, whose pages fit the buffers of the driver.\<close>

definition chip_model :: "NandFlashModel \<Rightarrow> bool" where
  "chip_model m \<longleftrightarrow> nand_geometry m \<and> nand_layout_ok m \<and> NandFlashModel_GetDataBusWidth m = 8 \<and>
     \<not> NandFlashModel_HasSmallBlocks m"

lemma WriteRowAddress_chip:
  assumes "chip_model m" "unat r < nand_blocks m * nand_pages m"
  shows "\<exists>bs. WriteRowAddress op_bootstrap (chip_raw m pin) r c =
    Some (c\<lparr>caddr := caddr c @ bs, cptr := le_value (take 2 (caddr c @ bs))\<rparr>) \<and> le_value bs = unat r"
proof -
  obtain n where n: "NandFlashModel_GetDeviceSizeInPages op_bootstrap m = Some n" "unat n = nand_blocks m * nand_pages m"
    using device_pages assms(1) by (auto simp: chip_model_def)
  have "r \<le> n" "n \<noteq> 0" using n(2) assms(2) by (auto simp: word_le_nat_alt)
  then show ?thesis
    using n(1) le_cycle_bytes [of r n]
    by (intro exI [of _ "cycle_bytes n r"]) (simp add: WriteRowAddress_def address_cycles_chip)
qed

lemma send_address:
  assumes "chip_model m" "unat r < nand_blocks m * nand_pages m" "caddr c = []" "col \<le> NandFlashModel_GetPageDataSize m"
  shows "\<exists>as. WriteRowAddress op_bootstrap (chip_raw m pin) r (WriteColumnAddress (chip_raw m pin) col c) =
    Some (c\<lparr>caddr := as, cptr := unat col\<rparr>) \<and> le_value (drop 2 as) = unat r"
proof -
  let ?n = "NandFlashModel_GetPageDataSize m"
  have n: "256 \<le> unat ?n" using assms(1) by (simp add: chip_model_def nand_geometry_def NandFlashModel_GetPageDataSize_def)
  then have nz: "?n \<noteq> 0" by auto
  have cb: "length (cycle_bytes ?n col) = 2" "le_value (cycle_bytes ?n col) = unat col"
    using column_cycles [OF n] le_cycle_bytes [OF assms(4)] by simp_all
  have "WriteColumnAddress (chip_raw m pin) col c = c\<lparr>caddr := cycle_bytes ?n col, cptr := unat col\<rparr>"
    using assms(1,3) cb nz by (simp add: WriteColumnAddress_def Let_def chip_model_def address_cycles_chip)
  moreover obtain bs where "WriteRowAddress op_bootstrap (chip_raw m pin) r (c\<lparr>caddr := cycle_bytes ?n col, cptr := unat col\<rparr>)
      = Some (c\<lparr>caddr := cycle_bytes ?n col @ bs, cptr := le_value (take 2 (cycle_bytes ?n col @ bs))\<rparr>)" "le_value bs = unat r"
    using WriteRowAddress_chip [OF assms(1,2), of op_bootstrap pin "c\<lparr>caddr := cycle_bytes ?n col, cptr := unat col\<rparr>"] by auto
  ultimately show ?thesis using cb by (intro exI [of _ "cycle_bytes ?n col @ bs"]) simp
qed

lemma poll_pin: "poll (PIO_Get (chip_bus m)) c = Some (c\<lparr>cbusy := 0\<rparr>)"
proof (induction "cbusy c" arbitrary: c)
  case (Suc n)
  then show ?case using Suc.hyps(1) [of "c\<lparr>cbusy := n\<rparr>"] by (subst poll.simps) (simp add: chip_bus_def flip: Suc.hyps(2))
qed (subst poll.simps, simp add: chip_bus_def)

lemma poll_status:
  "cstatus c \<Longrightarrow> poll (\<lambda>d. case chip_read8 d of (b, d) \<Rightarrow> (b AND STATUS_READY = STATUS_READY, d)) c = Some (c\<lparr>cbusy := 0\<rparr>)"
proof (induction "cbusy c" arbitrary: c)
  case (Suc n)
  then show ?case using Suc.hyps(1) [of "c\<lparr>cbusy := n\<rparr>"]
    by (subst poll.simps) (simp add: chip_read8_def STATUS_READY_def flip: Suc.hyps(2))
qed (subst poll.simps, simp add: chip_read8_def)

lemma WaitReady_chip: "WaitReady (chip_raw m pin) c = Some (c\<lparr>cbusy := 0, cstatus := cstatus c \<or> \<not> pin\<rparr>)"
  using poll_pin [of m c] poll_status [of "c\<lparr>cstatus := True\<rparr>"] by (simp add: WaitReady_def chip_commands)

lemma IsOperationComplete_chip:
  "cbusy c = 0 \<Longrightarrow> IsOperationComplete (chip_raw m pin) c = (True, c\<lparr>cstatus := True\<rparr>)"
  by (simp add: IsOperationComplete_def chip_commands chip_read8_def STATUS_READY_def STATUS_ERROR_def)

lemma read_bytes_chip:
  "\<not> cstatus c \<Longrightarrow> cptr c + n \<le> length (creg c) \<Longrightarrow>
    read_bytes (\<lambda>d. case chip_read8 d of (b, d) \<Rightarrow> ([b], d)) n c = (take n (drop (cptr c) (creg c)), c\<lparr>cptr := cptr c + n\<rparr>)"
proof (induction n arbitrary: c)
  case (Suc n)
  then show ?case using Suc.IH [of "c\<lparr>cptr := cptr c + 1\<rparr>"]
    by (simp add: chip_read8_def Cons_nth_drop_Suc [symmetric])
qed simp

lemma ReadData_chip:
  assumes "chip_model m" "\<not> cstatus c" "cptr c + unat sz \<le> length (creg c)"
  shows "ReadData (chip_raw m pin) sz c = (take (unat sz) (drop (cptr c) (creg c)), c\<lparr>cptr := cptr c + unat sz\<rparr>)"
  using assms read_bytes_chip [of c "unat sz"] by (simp add: ReadData_def chip_model_def)

lemma WriteData_chip:
  assumes "chip_model m" "unat sz \<le> length b" "cptr c + unat sz \<le> length (creg c)"
  shows "WriteData (chip_raw m pin) b sz c =
    Some (c\<lparr>creg := buf_write (creg c) (cptr c) (take (unat sz) b), cptr := cptr c + unat sz\<rparr>)"
proof -
  let ?P = "\<lambda>i d. d = c\<lparr>creg := buf_write (creg c) (cptr c) (take i b), cptr := cptr c + i\<rparr>"
  have "\<exists>d. for_opt 0 (unat sz) (\<lambda>i d. do { b \<leftarrow> get_at b i; Some (chip_write8 b d) }) c = Some d \<and> ?P (0 + unat sz) d"
  proof (rule for_opt_invariant)
    fix j d
    assume j: "j < 0 + unat sz" and d: "?P j d"
    have l: "j < length b" "cptr c + j < length (creg c)" using j assms(2,3) by simp_all
    have "(buf_write (creg c) (cptr c) (take j b))[cptr c + j := b ! j] = buf_write (creg c) (cptr c) (take (Suc j) b)"
      using l by (intro nth_equalityI) (auto simp: buf_write_nth length_buf_write nth_list_update less_Suc_eq take_Suc_conv_app_nth nth_append)
    then show "\<exists>d'. (do { b \<leftarrow> get_at b j; Some (chip_write8 b d) }) = Some d' \<and> ?P (Suc j) d'"
      using l d by (simp add: get_at_def chip_write8_def)
  qed (simp add: buf_write_def)
  then show ?thesis using assms(1) by (simp add: WriteData_def chip_model_def)
qed

definition chip_ready :: "NandFlashModel \<Rightarrow> nand_chip \<Rightarrow> bool" where
  "chip_ready m c \<longleftrightarrow> (\<forall>r. length (cpages c r) = data_size m + spare_size m)"

lemma spare_32: "unat (ucast (x :: u8) :: u32) = unat x"
proof -
  have "unat x < 2 ^ 8" by (rule order_less_le_trans [OF unsigned_less]) simp
  then show ?thesis by (simp add: unsigned_ucast_eq take_bit_nat_eq_self)
qed

lemma ReadPage_chip:
  assumes m: "chip_model m" and c: "chip_ready m c" and "unat page < nand_pages m" "unat block < nand_blocks m" "data \<or> spare"
  shows "\<exists>c'. RawNandFlash_ReadPage op_bootstrap (chip_raw m pin) block page data spare c = Some ((0,
      if data then take (data_size m) (cpages c (unat block * nand_pages m + unat page)) else [],
      if spare then drop (data_size m) (cpages c (unat block * nand_pages m + unat page)) else []), c') \<and>
    cpages c' = cpages c"
proof -
  let ?row = "unat block * nand_pages m + unat page" and ?n = "data_size m" and ?k = "spare_size m"
  let ?col = "if data then 0 else NandFlashModel_GetPageDataSize m"
  obtain r where r: "row_address op_bootstrap (chip_raw m pin) block page = Some r" "unat r = ?row"
      "unat r < nand_blocks m * nand_pages m"
    using row_address_ok [of "chip_raw m pin" page block op_bootstrap] assms by (auto simp: chip_model_def)
  let ?c1 = "c\<lparr>cstatus := False, caddr := []\<rparr>"
  obtain as where as: "WriteRowAddress op_bootstrap (chip_raw m pin) r (WriteColumnAddress (chip_raw m pin) ?col ?c1) =
      Some (?c1\<lparr>caddr := as, cptr := unat ?col\<rparr>)" "le_value (drop 2 as) = ?row"
  proof -
    have col: "?col \<le> NandFlashModel_GetPageDataSize m" by simp
    from send_address [OF m r(3) _ col, of ?c1 op_bootstrap pin] r(2) that show thesis by auto
  qed
  let ?c2 = "c\<lparr>cstatus := False, caddr := [], creg := cpages c ?row, cbusy := 0, cptr := unat ?col\<rparr>"
  have w: "chip_command m COMMAND_READ_1 (the (WaitReady (chip_raw m pin) (chip_command m COMMAND_READ_2 (?c1\<lparr>caddr := as, cptr := unat ?col\<rparr>)))) = ?c2"
    using as(2) by (simp add: WaitReady_chip chip_commands chip_row_def)
  have len: "length (cpages c ?row) = ?n + ?k" using c by (simp add: chip_ready_def)
  have d: "data \<Longrightarrow> ReadData (chip_raw m pin) (ucast (NandFlashModel_GetPageDataSize m)) ?c2
      = (take ?n (cpages c ?row), ?c2\<lparr>cptr := ?n\<rparr>)"
    using ReadData_chip [OF m, of ?c2 "ucast (NandFlashModel_GetPageDataSize m)" pin] len by (simp add: u16_u32)
  have s: "ReadData (chip_raw m pin) (ucast (NandFlashModel_GetPageSpareSize m)) (?c2\<lparr>cptr := ?n\<rparr>)
      = (drop ?n (cpages c ?row), ?c2\<lparr>cptr := ?n + ?k\<rparr>)"
    using ReadData_chip [OF m, of "?c2\<lparr>cptr := ?n\<rparr>" "ucast (NandFlashModel_GetPageSpareSize m)" pin] len
    by (simp add: spare_32)
  have s': "\<not> data \<Longrightarrow> ?c2\<lparr>cptr := ?n\<rparr> = ?c2" by simp
  have b: "\<not> NandFlashModel_HasSmallBlocks m" using m by (simp add: chip_model_def)
  show ?thesis
    using assms(5) r(1) as(1) b w d s s'
    by (cases data; cases spare)
      (simp_all add: RawNandFlash_ReadPage_def Let_def WaitReady_chip chip_commands(2))
qed

lemma program_page_chip:
  "\<exists>c'. program_page (chip_raw m pin) c = Some (0, c') \<and>
    cpages c' = (cpages c)(chip_row c := program_bytes (cpages c (chip_row c)) (creg c))"
  using IsOperationComplete_chip [of "_\<lparr>cbusy := 0\<rparr>" m pin]
  by (simp add: program_page_def Let_def WaitReady_chip chip_commands IsOperationComplete_chip)

lemma image_written:
  assumes "buffer_ok n data" "buffer_ok k spare"
  shows "data = Some d \<Longrightarrow> spare = Some s \<Longrightarrow>
      buf_write (buf_write (replicate (n + k) 0xFF) 0 (take n d)) n (take k s) = page_image n k data spare"
    and "data = Some d \<Longrightarrow> spare = None \<Longrightarrow> buf_write (replicate (n + k) 0xFF) 0 (take n d) = page_image n k data spare"
    and "data = None \<Longrightarrow> spare = Some s \<Longrightarrow> buf_write (replicate (n + k) 0xFF) n (take k s) = page_image n k data spare"
  using assms by (simp_all add: buffer_ok_def page_image_def buf_write_def)

lemma WritePage_chip:
  assumes m: "chip_model m" and "unat page < nand_pages m" "unat block < nand_blocks m" "(data, spare) \<noteq> (None, None)"
    and b: "buffer_ok (data_size m) data" "buffer_ok (spare_size m) spare"
  shows "\<exists>c'. WritePage op_bootstrap (chip_raw m pin) block page data spare c = Some (0, c') \<and>
    cpages c' = (cpages c)(unat block * nand_pages m + unat page :=
      program_bytes (cpages c (unat block * nand_pages m + unat page)) (page_image (data_size m) (spare_size m) data spare))"
proof -
  let ?row = "unat block * nand_pages m + unat page" and ?n = "data_size m" and ?k = "spare_size m"
  let ?col = "if data = None then NandFlashModel_GetPageDataSize m else 0"
  obtain r where r: "row_address op_bootstrap (chip_raw m pin) block page = Some r" "unat r = ?row"
      "unat r < nand_blocks m * nand_pages m"
    using row_address_ok [of "chip_raw m pin" page block op_bootstrap] assms by (auto simp: chip_model_def)
  let ?c1 = "c\<lparr>cstatus := False, caddr := [], creg := replicate (?n + ?k) 0xFF\<rparr>"
  have c1: "chip_command m COMMAND_WRITE_1 c = ?c1" by (simp add: chip_commands erased_def)
  obtain as where as: "WriteRowAddress op_bootstrap (chip_raw m pin) r (WriteColumnAddress (chip_raw m pin) ?col ?c1) =
      Some (?c1\<lparr>caddr := as, cptr := unat ?col\<rparr>)" "le_value (drop 2 as) = ?row"
  proof -
    have col: "?col \<le> NandFlashModel_GetPageDataSize m" by simp
    from send_address [OF m r(3) _ col, of ?c1 op_bootstrap pin] r(2) that show thesis by auto
  qed
  let ?reg = "\<lambda>c' reg. chip_row c' = ?row \<and> cpages c' = cpages c \<and> creg c' = reg"
  have prog: "\<exists>c''. program_page (chip_raw m pin) c' = Some (0, c'') \<and>
      cpages c'' = (cpages c)(?row := program_bytes (cpages c ?row) reg)" if "?reg c' reg" for c' reg
    using program_page_chip [of m pin c'] that by simp
  have sz: "unat (ucast (NandFlashModel_GetPageDataSize m) :: u32) = ?n"
    "unat (ucast (NandFlashModel_GetPageSpareSize m) :: u32) = ?k" by (simp_all add: u16_u32 spare_32)
  note wd = WriteData_chip [OF m]
  show ?thesis
  proof (cases data)
    case (Some d)
    let ?c2 = "?c1\<lparr>caddr := as, cptr := 0\<rparr>"
    let ?c3 = "?c2\<lparr>creg := buf_write (replicate (?n + ?k) 0xFF) 0 (take ?n d), cptr := ?n\<rparr>"
    have d: "?n \<le> length d" using b(1) Some by (simp add: buffer_ok_def)
    have w: "WriteData (chip_raw m pin) d (ucast (NandFlashModel_GetPageDataSize m)) ?c2 = Some ?c3"
      using wd [of "ucast (NandFlashModel_GetPageDataSize m)" d ?c2 pin] d sz by simp
    show ?thesis
    proof (cases spare)
      case None
      then show ?thesis
        using r(1) as c1 Some w prog [of ?c3] image_written(2) [OF b Some None]
        by (auto simp: WritePage_def Let_def chip_row_def)
    next
      case (Some s)
      let ?c4 = "?c3\<lparr>creg := buf_write (creg ?c3) ?n (take ?k s), cptr := ?n + ?k\<rparr>"
      have s: "?k \<le> length s" using b(2) Some by (simp add: buffer_ok_def)
      have "length (creg ?c3) = ?n + ?k" using d by (simp add: length_buf_write)
      then have "WriteData (chip_raw m pin) s (ucast (NandFlashModel_GetPageSpareSize m)) ?c3 = Some ?c4"
        using wd [of "ucast (NandFlashModel_GetPageSpareSize m)" s ?c3 pin] s sz by simp
      then show ?thesis
        using r(1) as c1 \<open>data = Some d\<close> Some w prog [of ?c4] image_written(1) [OF b \<open>data = Some d\<close> Some]
        by (auto simp: WritePage_def Let_def chip_row_def)
    qed
  next
    case None
    then obtain s where s: "spare = Some s" using assms(4) by auto
    let ?c2 = "?c1\<lparr>caddr := as, cptr := ?n\<rparr>"
    let ?c3 = "?c2\<lparr>creg := buf_write (replicate (?n + ?k) 0xFF) ?n (take ?k s), cptr := ?n + ?k\<rparr>"
    have "?k \<le> length s" using b(2) s by (simp add: buffer_ok_def)
    then have "WriteData (chip_raw m pin) s (ucast (NandFlashModel_GetPageSpareSize m)) ?c2 = Some ?c3"
      using wd [of "ucast (NandFlashModel_GetPageSpareSize m)" s ?c2 pin] sz by simp
    then show ?thesis
      using r(1) as c1 None s prog [of ?c3] image_written(3) [OF b None s]
      by (auto simp: WritePage_def Let_def chip_row_def)
  qed
qed

lemma EraseBlock_chip:
  assumes m: "chip_model m" and "unat block < nand_blocks m"
  shows "\<exists>c'. EraseBlock op_bootstrap (chip_raw m pin) block c = Some (0, c') \<and>
    cpages c' = (\<lambda>r. if r div nand_pages m = unat block then erased m else cpages c r)"
proof -
  have p: "0 < nand_pages m" using m by (auto simp: chip_model_def nand_geometry_def)
  obtain r where r: "row_address op_bootstrap (chip_raw m pin) block 0 = Some r" "unat r = unat block * nand_pages m"
      "unat r < nand_blocks m * nand_pages m"
    using row_address_ok [of "chip_raw m pin" 0 block op_bootstrap] assms p by (auto simp: chip_model_def)
  obtain bs where bs: "WriteRowAddress op_bootstrap (chip_raw m pin) r (c\<lparr>cstatus := False, caddr := []\<rparr>) =
      Some (c\<lparr>cstatus := False, caddr := bs, cptr := le_value (take 2 bs)\<rparr>)" "le_value bs = unat r"
    using WriteRowAddress_chip [OF m r(3), of op_bootstrap pin "c\<lparr>cstatus := False, caddr := []\<rparr>"] by auto
  then show ?thesis
    using r(1,2) p
    by (simp add: EraseBlock_def Let_def chip_commands(6) IsOperationComplete_chip WaitReady_chip)
      (simp add: chip_commands(7) cong: if_cong)
qed

lemma tries_first: "attempt d = Some (0, d') \<Longrightarrow> tries (Suc n) attempt d = Some (0, d')"
  by simp

text \<open>The driver on the chip keeps the contract, in both configurations and with and without the pin.\<close>

lemma chip_device:
  assumes m: "chip_model m"
  shows "nand_device op_bootstrap (chip_raw m pin) cpages (chip_ready m)"
proof unfold_locales
  show "nand_geometry (raw_model (chip_raw m pin))" using m by (simp add: chip_model_def)
next
  fix c and want_data want_spare :: bool and page block :: u16
  assume "chip_ready m c" "want_data \<or> want_spare" "unat page < nand_pages (raw_model (chip_raw m pin))"
    "unat block < nand_blocks (raw_model (chip_raw m pin))"
  with ReadPage_chip [OF m, of c page block want_data want_spare op_bootstrap pin] show
    "\<exists>d'. RawNandFlash_ReadPage op_bootstrap (chip_raw m pin) block page want_data want_spare c = Some ((0,
        if want_data then take (unat (NandFlashModel_GetPageDataSize (raw_model (chip_raw m pin))))
          (cpages c (unat block * nand_pages (raw_model (chip_raw m pin)) + unat page)) else [],
        if want_spare then drop (unat (NandFlashModel_GetPageDataSize (raw_model (chip_raw m pin))))
          (cpages c (unat block * nand_pages (raw_model (chip_raw m pin)) + unat page)) else []), d') \<and>
      chip_ready m d' \<and> cpages d' = cpages c"
    by (auto simp: chip_ready_def)
next
  fix c and page block :: u16 and data spare
  assume a: "chip_ready m c" "unat page < nand_pages (raw_model (chip_raw m pin))"
    "unat block < nand_blocks (raw_model (chip_raw m pin))" "(data, spare) \<noteq> (None, None)"
    "buffer_ok (unat (NandFlashModel_GetPageDataSize (raw_model (chip_raw m pin)))) data"
    "buffer_ok (unat (NandFlashModel_GetPageSpareSize (raw_model (chip_raw m pin)))) spare"
  have "length (page_image (data_size m) (spare_size m) data spare) = data_size m + spare_size m"
    using a(5,6) by (auto simp: page_image_def buffer_ok_def split: option.splits)
  with WritePage_chip [OF m, of page block data spare op_bootstrap pin c] a show
    "\<exists>e d'. RawNandFlash_WritePage op_bootstrap (chip_raw m pin) block page data spare c = Some (e, d') \<and>
      chip_ready m d' \<and>
      (\<forall>r. r \<noteq> unat block * nand_pages (raw_model (chip_raw m pin)) + unat page \<longrightarrow> cpages d' r = cpages c r) \<and>
      (e = 0 \<longrightarrow> cpages d' (unat block * nand_pages (raw_model (chip_raw m pin)) + unat page) =
        program_bytes (cpages c (unat block * nand_pages (raw_model (chip_raw m pin)) + unat page))
          (page_image (unat (NandFlashModel_GetPageDataSize (raw_model (chip_raw m pin))))
            (unat (NandFlashModel_GetPageSpareSize (raw_model (chip_raw m pin)))) data spare))"
    by (auto simp: RawNandFlash_WritePage_def NUMWRITETRIES_def numeral_2_eq_2 chip_ready_def program_bytes_def)
next
  fix c and block :: u16
  assume "chip_ready m c" "unat block < nand_blocks (raw_model (chip_raw m pin))"
  with EraseBlock_chip [OF m, of block op_bootstrap pin c] show
    "\<exists>e d'. RawNandFlash_EraseBlock op_bootstrap (chip_raw m pin) block c = Some (e, d') \<and> chip_ready m d' \<and>
      (\<forall>r. r div nand_pages (raw_model (chip_raw m pin)) \<noteq> unat block \<longrightarrow> cpages d' r = cpages c r) \<and>
      (e = 0 \<longrightarrow> (\<forall>r. r div nand_pages (raw_model (chip_raw m pin)) = unat block \<longrightarrow>
        cpages d' r = replicate (unat (NandFlashModel_GetPageDataSize (raw_model (chip_raw m pin))) +
          unat (NandFlashModel_GetPageSpareSize (raw_model (chip_raw m pin)))) 0xFF))"
    by (auto simp: RawNandFlash_EraseBlock_def NUMERASETRIES_def numeral_2_eq_2 chip_ready_def erased_def)
next
  fix c r assume "chip_ready m c"
  then show "length (cpages c r) = unat (NandFlashModel_GetPageDataSize (raw_model (chip_raw m pin))) +
      unat (NandFlashModel_GetPageSpareSize (raw_model (chip_raw m pin)))"
    by (simp add: chip_ready_def)
qed

text \<open>A chip of the list: 256 MB in 2 KB pages and 128 KB blocks.\<close>

definition demo_model :: NandFlashModel where
  "demo_model = (large8 0xDA 256)\<lparr>pageSizeInBytes := 2048, blockSizeInKBytes := 128\<rparr>"

lemma demo_chip_model: "chip_model demo_model"
proof -
  have "large_chip demo_model" by (simp add: demo_model_def large8_def nand_model_def large_chip_def)
  moreover from this have "nand_geometry demo_model" by (intro chip_geometry disjI2)
  ultimately show ?thesis
    using layout_large [of demo_model]
    by (simp add: chip_model_def NandFlashModel_GetDataBusWidth_def NandFlashModel_HasSmallBlocks_def
        demo_model_def large8_def nand_model_def NandFlashModel_DATABUS16_def NandFlashModel_DATABUS8_def NandFlashModel_COPYBACK_def)
qed

interpretation chip_with_pin: nand_device op_bootstrap "chip_raw demo_model True" cpages "chip_ready demo_model" for op_bootstrap
  by (rule chip_device [OF demo_chip_model])

interpretation chip_with_status: nand_device op_bootstrap "chip_raw demo_model False" cpages "chip_ready demo_model" for op_bootstrap
  by (rule chip_device [OF demo_chip_model])

end
