(* ===== verification/NandFlash.thy ===== *)
theory NandFlash
  imports RawNand Hamming
begin

text \<open>
  Pages with error correction (\<open>EccNandFlash.c\<close>) and with bad block management (\<open>SkipBlockNandFlash.c\<close>), on
  the driver of raw chips. The buffers on the stack of these functions are an argument, since their
  bytes are not initialised; the same bytes stand for every call.
\<close>

section \<open>Error correction\<close>

record nand_stack =
  tmpData :: bytes
  tmpSpare :: bytes
  hamming :: bytes

definition stack_ok :: "nand_stack \<Rightarrow> bool" where
  "stack_ok u \<longleftrightarrow> length (tmpData u) = NandCommon_MAXPAGEDATASIZE \<and> length (tmpSpare u) = NandCommon_MAXPAGESPARESIZE \<and>
     length (hamming u) = NandCommon_MAXSPAREECCBYTES"

text \<open>A call that writes \<open>bs\<close> to the start of a buffer.\<close>

definition buf_into :: "bytes \<Rightarrow> bytes \<Rightarrow> bytes option" where
  "buf_into buf bs = (if length bs \<le> length buf then Some (buf_write buf 0 bs) else None)"

text \<open>What is written through the pointers \<open>data\<close> and \<open>spare\<close> is in the result.\<close>

definition EccNandFlash_ReadPage ::
    "bool \<Rightarrow> 'd RawNandFlash \<Rightarrow> nand_stack \<Rightarrow> u16 \<Rightarrow> u16 \<Rightarrow> bool \<Rightarrow> bool \<Rightarrow> 'd \<Rightarrow> ((u8 \<times> bytes \<times> bytes) \<times> 'd) option" where
  "EccNandFlash_ReadPage op_bootstrap ecc u block page data spare d = do {
     let pageDataSize = NandFlashModel_GetPageDataSize (raw_model ecc);
     let pageSpareSize = NandFlashModel_GetPageSpareSize (raw_model ecc);
     ((error, data_bytes, spare_bytes), d) \<leftarrow> RawNandFlash_ReadPage op_bootstrap ecc block page True True d;
     tmp_data \<leftarrow> buf_into (tmpData u) data_bytes;
     tmp_spare \<leftarrow> buf_into (tmpSpare u) spare_bytes;
     if error \<noteq> 0 then Some ((error, [], []), d)
     else do {
       ham \<leftarrow> NandSpareScheme_ReadEcc (NandFlashModel_GetScheme (raw_model ecc)) tmp_spare (hamming u);
       (tmp_data, error) \<leftarrow> Hamming_Verify256x tmp_data (ucast pageDataSize) ham;
       if error \<noteq> 0 \<and> error \<noteq> Hamming_ERROR_SINGLEBIT
       then Some ((NandCommon_ERROR_CORRUPTEDDATA, [], []), d)
       else Some ((0, if data then take (unat pageDataSize) tmp_data else [],
         if spare then take (unat pageSpareSize) tmp_spare else []), d) } }"

text \<open>The codes are written into the spare buffer of the caller, which is the second result.\<close>

definition EccNandFlash_WritePage ::
    "bool \<Rightarrow> 'd RawNandFlash \<Rightarrow> nand_stack \<Rightarrow> u16 \<Rightarrow> u16 \<Rightarrow> bytes option \<Rightarrow> bytes option \<Rightarrow> 'd \<Rightarrow>
      ((u8 \<times> bytes option) \<times> 'd) option" where
  "EccNandFlash_WritePage op_bootstrap ecc u block page data spare d =
     (if data = None \<and> spare = None then None
      else do {
        let pageDataSize = NandFlashModel_GetPageDataSize (raw_model ecc);
        let pageSpareSize = NandFlashModel_GetPageSpareSize (raw_model ecc);
        let ham = replicate NandCommon_MAXSPAREECCBYTES 0xFF;
        ham \<leftarrow> (case data of None \<Rightarrow> Some ham | Some b \<Rightarrow> Hamming_Compute256x b (ucast pageDataSize) ham);
        sp \<leftarrow> (case spare of Some s \<Rightarrow> Some s
          | None \<Rightarrow> buf_into (tmpSpare u) (replicate (unat pageSpareSize) 0xFF));
        sp \<leftarrow> NandSpareScheme_WriteEcc (NandFlashModel_GetScheme (raw_model ecc)) sp ham;
        (error, d) \<leftarrow> RawNandFlash_WritePage op_bootstrap ecc block page data (Some sp) d;
        Some ((error, map_option (\<lambda>_. sp) spare), d) })"

section \<open>Bad blocks\<close>

definition BADBLOCK :: u8 where "BADBLOCK = 255"
definition GOODBLOCK :: u8 where "GOODBLOCK = 254"
definition NandBlockStatus_BAD :: u8 where "NandBlockStatus_BAD = 0xBA"
definition SCRUB_ERASE :: u32 where "SCRUB_ERASE = 0x0000EA11"

text \<open>The marker in the spare area of a page of the block, or the error code of the read.\<close>

definition read_marker :: "bool \<Rightarrow> 'd RawNandFlash \<Rightarrow> nand_stack \<Rightarrow> u16 \<Rightarrow> u16 \<Rightarrow> 'd \<Rightarrow> ((u8 + u8) \<times> 'd) option" where
  "read_marker op_bootstrap skipBlock u block page d = do {
     ((error, _, spare_bytes), d) \<leftarrow> RawNandFlash_ReadPage op_bootstrap skipBlock block page False True d;
     spare \<leftarrow> buf_into (tmpSpare u) spare_bytes;
     if error \<noteq> 0 then Some (Inl error, d)
     else do {
       badBlockMarker \<leftarrow> NandSpareScheme_ReadBadBlockMarker (NandFlashModel_GetScheme (raw_model skipBlock)) spare;
       Some (Inr badBlockMarker, d) } }"

definition CheckBlock :: "bool \<Rightarrow> 'd RawNandFlash \<Rightarrow> nand_stack \<Rightarrow> u16 \<Rightarrow> 'd \<Rightarrow> (u8 \<times> 'd) option" where
  "CheckBlock op_bootstrap skipBlock u block d =
     (if op_bootstrap then Some (GOODBLOCK, d)
      else do {
        (marker, d) \<leftarrow> read_marker op_bootstrap skipBlock u block 0 d;
        case marker of
          Inl error \<Rightarrow> Some (error, d)
        | Inr badBlockMarker \<Rightarrow>
            if badBlockMarker \<noteq> 0xFF then Some (BADBLOCK, d)
            else do {
              (marker, d) \<leftarrow> read_marker op_bootstrap skipBlock u block 1 d;
              case marker of
                Inl error \<Rightarrow> Some (error, d)
              | Inr badBlockMarker \<Rightarrow> Some (if badBlockMarker \<noteq> 0xFF then BADBLOCK else GOODBLOCK, d) } })"

text \<open>The scan of all blocks at the start; its results are only printed.\<close>

primrec check_blocks :: "bool \<Rightarrow> 'd RawNandFlash \<Rightarrow> nand_stack \<Rightarrow> nat \<Rightarrow> nat \<Rightarrow> 'd \<Rightarrow> 'd option" where
  "check_blocks op_bootstrap skipBlock u block 0 d = Some d"
| "check_blocks op_bootstrap skipBlock u block (Suc n) d = do {
     (_, d) \<leftarrow> CheckBlock op_bootstrap skipBlock u (word_of_nat block) d;
     check_blocks op_bootstrap skipBlock u (Suc block) n d }"

text \<open>\<open>EccNandFlash_Initialize\<close> is \<open>RawNandFlash_Initialize\<close> on the same structure.\<close>

definition SkipBlockNandFlash_Initialize ::
    "bool \<Rightarrow> nand_stack \<Rightarrow> NandFlashModel option \<Rightarrow> 'd nand_bus \<Rightarrow> bool \<Rightarrow> 'd RawNandFlash \<Rightarrow> 'd \<Rightarrow>
      (u8 \<times> 'd RawNandFlash \<times> 'd) option" where
  "SkipBlockNandFlash_Initialize op_bootstrap u m bus pin skipBlock d = do {
     (error, skipBlock, d) \<leftarrow> RawNandFlash_Initialize op_bootstrap m bus pin skipBlock d;
     if op_bootstrap then Some (0, skipBlock, d)
     else if error \<noteq> 0 then Some (error, skipBlock, d)
     else do {
       numBlocks \<leftarrow> NandFlashModel_GetDeviceSizeInBlocks op_bootstrap (raw_model skipBlock);
       d \<leftarrow> check_blocks op_bootstrap skipBlock u 0 (unat numBlocks) d;
       Some (0, skipBlock, d) } }"

definition SkipBlockNandFlash_EraseBlock ::
    "bool \<Rightarrow> 'd RawNandFlash \<Rightarrow> nand_stack \<Rightarrow> u16 \<Rightarrow> u32 \<Rightarrow> 'd \<Rightarrow> (u8 \<times> 'd) option" where
  "SkipBlockNandFlash_EraseBlock op_bootstrap skipBlock u block eraseType d = do {
     (good, d) \<leftarrow> (if eraseType \<noteq> SCRUB_ERASE
       then do { (r, d) \<leftarrow> CheckBlock op_bootstrap skipBlock u block d; Some (r = GOODBLOCK, d) }
       else Some (True, d));
     if \<not> good then Some (NandCommon_ERROR_BADBLOCK, d)
     else do {
       (error, d) \<leftarrow> RawNandFlash_EraseBlock op_bootstrap skipBlock block d;
       if error \<noteq> 0
       then do {
         spare \<leftarrow> NandSpareScheme_WriteBadBlockMarker (NandFlashModel_GetScheme (raw_model skipBlock))
           (replicate NandCommon_MAXPAGESPARESIZE 0xFF) NandBlockStatus_BAD;
         RawNandFlash_WritePage op_bootstrap skipBlock block 0 None (Some spare) d }
       else Some (0, d) } }"

definition SkipBlockNandFlash_ReadPage ::
    "bool \<Rightarrow> 'd RawNandFlash \<Rightarrow> nand_stack \<Rightarrow> u16 \<Rightarrow> u16 \<Rightarrow> bool \<Rightarrow> bool \<Rightarrow> 'd \<Rightarrow> ((u8 \<times> bytes \<times> bytes) \<times> 'd) option" where
  "SkipBlockNandFlash_ReadPage op_bootstrap skipBlock u block page data spare d =
     (if op_bootstrap then RawNandFlash_ReadPage op_bootstrap skipBlock block page data spare d
      else do {
        (r, d) \<leftarrow> CheckBlock op_bootstrap skipBlock u block d;
        if r \<noteq> GOODBLOCK then Some ((NandCommon_ERROR_BADBLOCK, [], []), d)
        else EccNandFlash_ReadPage op_bootstrap skipBlock u block page data spare d })"

primrec read_pages ::
    "bool \<Rightarrow> 'd RawNandFlash \<Rightarrow> nand_stack \<Rightarrow> u16 \<Rightarrow> nat \<Rightarrow> nat \<Rightarrow> 'd \<Rightarrow> ((u8 \<times> bytes) \<times> 'd) option" where
  "read_pages op_bootstrap skipBlock u block i 0 d = Some ((0, []), d)"
| "read_pages op_bootstrap skipBlock u block i (Suc n) d = do {
     ((error, bs, _), d) \<leftarrow> EccNandFlash_ReadPage op_bootstrap skipBlock u block (word_of_nat i) True False d;
     if error \<noteq> 0 then Some ((error, bs), d)
     else do {
       ((error, rest), d) \<leftarrow> read_pages op_bootstrap skipBlock u block (Suc i) n d;
       Some ((error, bs @ rest), d) } }"

definition SkipBlockNandFlash_ReadBlock ::
    "bool \<Rightarrow> 'd RawNandFlash \<Rightarrow> nand_stack \<Rightarrow> u16 \<Rightarrow> 'd \<Rightarrow> ((u8 \<times> bytes) \<times> 'd) option" where
  "SkipBlockNandFlash_ReadBlock op_bootstrap skipBlock u block d = do {
     numPagesPerBlock \<leftarrow> NandFlashModel_GetBlockSizeInPages op_bootstrap (raw_model skipBlock);
     (r, d) \<leftarrow> CheckBlock op_bootstrap skipBlock u block d;
     if r \<noteq> GOODBLOCK then Some ((NandCommon_ERROR_BADBLOCK, []), d)
     else read_pages op_bootstrap skipBlock u block 0 (unat numPagesPerBlock) d }"

definition SkipBlockNandFlash_WritePage ::
    "bool \<Rightarrow> 'd RawNandFlash \<Rightarrow> nand_stack \<Rightarrow> u16 \<Rightarrow> u16 \<Rightarrow> bytes option \<Rightarrow> bytes option \<Rightarrow> 'd \<Rightarrow>
      ((u8 \<times> bytes option) \<times> 'd) option" where
  "SkipBlockNandFlash_WritePage op_bootstrap skipBlock u block page data spare d = do {
     (r, d) \<leftarrow> CheckBlock op_bootstrap skipBlock u block d;
     if r \<noteq> GOODBLOCK then Some ((NandCommon_ERROR_BADBLOCK, spare), d)
     else EccNandFlash_WritePage op_bootstrap skipBlock u block page data spare d }"

text \<open>\<open>data\<close> moves on by a page in each turn.\<close>

primrec write_pages ::
    "bool \<Rightarrow> 'd RawNandFlash \<Rightarrow> nand_stack \<Rightarrow> u16 \<Rightarrow> nat \<Rightarrow> nat \<Rightarrow> bytes \<Rightarrow> 'd \<Rightarrow> (u8 \<times> 'd) option" where
  "write_pages op_bootstrap skipBlock u block i 0 data d = Some (0, d)"
| "write_pages op_bootstrap skipBlock u block i (Suc n) data d = do {
     ((error, _), d) \<leftarrow> EccNandFlash_WritePage op_bootstrap skipBlock u block (word_of_nat i) (Some data) None d;
     if error \<noteq> 0 then Some (NandCommon_ERROR_CANNOTWRITE, d)
     else write_pages op_bootstrap skipBlock u block (Suc i) n
       (drop (unat (NandFlashModel_GetPageDataSize (raw_model skipBlock))) data) d }"

definition SkipBlockNandFlash_WriteBlock ::
    "bool \<Rightarrow> 'd RawNandFlash \<Rightarrow> nand_stack \<Rightarrow> u16 \<Rightarrow> bytes \<Rightarrow> 'd \<Rightarrow> (u8 \<times> 'd) option" where
  "SkipBlockNandFlash_WriteBlock op_bootstrap skipBlock u block data d = do {
     numPagesPerBlock \<leftarrow> NandFlashModel_GetBlockSizeInPages op_bootstrap (raw_model skipBlock);
     (r, d) \<leftarrow> CheckBlock op_bootstrap skipBlock u block d;
     if r \<noteq> GOODBLOCK then Some (NandCommon_ERROR_BADBLOCK, d)
     else write_pages op_bootstrap skipBlock u block 0 (unat numPagesPerBlock) data d }"

end
