(* ===== verification/NandSpec.thy ===== *)
theory NandSpec
  imports NandFlash NandChip
begin

text \<open>
  What the layers above the raw driver achieve on any device that keeps the contract of the raw driver:
  error correction over a page, and the recognition of bad blocks.
\<close>

section \<open>Codes in the spare area\<close>

text \<open>The spare area holds the codes of the blocks.\<close>

definition ecc_valid :: "NandSpareScheme \<Rightarrow> bytes list \<Rightarrow> bytes \<Rightarrow> bool" where
  "ecc_valid sch blocks sp \<longleftrightarrow> (\<forall>i < 3 * length blocks.
     sp ! unat (eccBytesPositions sch ! i) = concat (map Compute256 blocks) ! i)"

lemma ReadEcc_valid:
  assumes "scheme_fits sch (length sp) (length blocks)" "ecc_valid sch blocks sp" "length ecc = 24"
  shows "NandSpareScheme_ReadEcc sch (sp @ rest) ecc =
    Some (concat (map Compute256 blocks) @ drop (3 * length blocks) ecc)"
proof -
  let ?ps = "eccBytesPositions sch"
  have s: "unat (numEccBytes sch) = 3 * length blocks" "length ?ps = 3 * length blocks" "3 * length blocks \<le> 24"
      "\<forall>p \<in> set ?ps. unat p < length sp"
    using assms(1) by (auto simp: scheme_fits_def)
  have "map (\<lambda>p. (sp @ rest) ! unat p) (take (3 * length blocks) ?ps) = concat (map Compute256 blocks)"
    using s assms(2) by (intro nth_equalityI) (auto simp: concat_length_3 ecc_valid_def nth_append)
  moreover have "\<forall>p \<in> set ?ps. unat p < length (sp @ rest)" using s(4) by (simp add: trans_less_add1)
  ultimately show ?thesis using ReadEcc_eq [of sch "3 * length blocks" ecc "sp @ rest"] s assms(3) by simp
qed

lemma Verify256x_prefix:
  assumes "list_all2 at_most_one_flip blocks received" "256 * length blocks < 2 ^ 32"
  shows "Hamming_Verify256x (concat received @ post) (word_of_nat (256 * length blocks)) (concat (map Compute256 blocks) @ cpost) =
    Some (concat blocks @ post, if received = blocks then 0 else Hamming_ERROR_SINGLEBIT)"
  using Verify256x_blocks [OF assms(1), of 0 "[]" post "[]" cpost 0] assms(2)
  by (simp add: Hamming_Verify256x_def Verify256x_loop.simps [of _ _ 0] mult.commute del: of_nat_mult)

lemma scheme_fits_mono: "scheme_fits sch n blocks \<Longrightarrow> n \<le> n' \<Longrightarrow> scheme_fits sch n' blocks"
  by (force simp: scheme_fits_def)

lemma page_size_word:
  "256 * length blocks = data_size m \<Longrightarrow> (ucast (NandFlashModel_GetPageDataSize m) :: u32) = word_of_nat (256 * length blocks)"
  using u16_less [of "NandFlashModel_GetPageDataSize m"]
  by (simp add: word_unat_eq_iff u16_u32 unat_of_nat take_bit_nat_eq_self del: of_nat_mult)

lemma program_erased: "length new = n \<Longrightarrow> program_bytes (replicate n 0xFF) new = new"
  by (rule nth_equalityI) (simp_all add: program_bytes_def u8_eq_iff bit_and_iff)

lemma concat_blocks_length: "\<forall>b \<in> set bs. length b = 256 \<Longrightarrow> length (concat bs) = 256 * length bs"
  by (induction bs) auto

lemma flips_length:
  "list_all2 at_most_one_flip blocks received \<Longrightarrow>
    length (concat received) = 256 * length blocks \<and> length (concat blocks) = 256 * length blocks"
  by (induction rule: list_all2_induct) (auto dest: at_most_one_flip_length)

lemma layout_facts:
  assumes "nand_layout_ok m" "stack_ok u" "256 * length blocks = data_size m"
  shows "data_size m \<le> length (tmpData u)" "spare_size m \<le> length (tmpSpare u)"
    "scheme_fits (model_scheme m) (spare_size m) (length blocks)" "length (hamming u) = 24" "length (tmpSpare u) = 64"
proof -
  have "data_size m div 256 = length blocks" using assms(3) [symmetric] by simp
  then show "data_size m \<le> length (tmpData u)" "spare_size m \<le> length (tmpSpare u)"
    "scheme_fits (model_scheme m) (spare_size m) (length blocks)" "length (hamming u) = 24" "length (tmpSpare u) = 64"
    using assms(1,2) by (auto simp: nand_layout_ok_def stack_ok_def Let_def NandFlashModel_GetScheme_def
        NandCommon_MAXSPAREECCBYTES_def NandCommon_MAXPAGESPARESIZE_def)
qed

section \<open>Pages\<close>

text \<open>A block is good when the markers in its first two pages are intact.\<close>

definition good_block :: "NandFlashModel \<Rightarrow> (nat \<Rightarrow> bytes) \<Rightarrow> u16 \<Rightarrow> bool" where
  "good_block m pages block \<longleftrightarrow> (\<forall>page < 2. pages (unat block * nand_pages m + page) !
     (data_size m + unat (badBlockMarkerPosition (model_scheme m))) = 0xFF)"

text \<open>
  A stored page holds \<open>img\<close> when its spare area has the codes of \<open>img\<close> and no block of 256 bytes has more
  than one flipped bit.
\<close>

definition holds_page :: "NandFlashModel \<Rightarrow> bytes \<Rightarrow> bytes \<Rightarrow> bool" where
  "holds_page m img old \<longleftrightarrow> (\<exists>blocks received sp. old = concat received @ sp \<and> img = concat blocks \<and>
     256 * length blocks = data_size m \<and> list_all2 at_most_one_flip blocks received \<and> ecc_valid (model_scheme m) blocks sp)"

context nand_device begin

abbreviation m where "m \<equiv> raw_model raw"
abbreviation row where "row block page \<equiv> unat block * nand_pages m + unat page"

lemma ecc_read:
  assumes "nand_layout_ok m" "stack_ok u" "ready d" "unat page < nand_pages m" "unat block < nand_blocks m"
    and "256 * length blocks = data_size m" "list_all2 at_most_one_flip blocks received"
    and "content d (row block page) = concat received @ sp" "ecc_valid (model_scheme m) blocks sp"
  shows "\<exists>d'. EccNandFlash_ReadPage op_bootstrap raw u block page want_data want_spare d =
    Some ((0, if want_data then concat blocks else [], if want_spare then sp else []), d') \<and>
    ready d' \<and> content d' = content d"
proof -
  let ?n = "data_size m" and ?k = "spare_size m"
  have lr: "length (concat received) = ?n" "length (concat blocks) = ?n"
    using flips_length [OF assms(7)] assms(6) by simp_all
  have ls: "length sp = ?k" using page_length [OF assms(3), of "row block page"] lr(1) assms(8) by simp
  note fit = layout_facts [OF assms(1,2,6)]
  have d: "buf_into (tmpData u) (concat received) = Some (concat received @ drop ?n (tmpData u))"
    "buf_into (tmpSpare u) sp = Some (sp @ drop ?k (tmpSpare u))"
    using fit(1,2) lr ls by (simp_all add: buf_into_def buf_write_def)
  obtain d' where r: "RawNandFlash_ReadPage op_bootstrap raw block page True True d = Some ((0, concat received, sp), d')"
      "ready d'" "content d' = content d"
    using read_page [OF assms(3) _ assms(4,5), of True True] assms(8) lr by auto
  have e: "NandSpareScheme_ReadEcc (model_scheme m) (sp @ drop ?k (tmpSpare u)) (hamming u) =
      Some (concat (map Compute256 blocks) @ drop (3 * length blocks) (hamming u))"
    using ReadEcc_valid [of "model_scheme m" sp blocks] fit(3,4) ls assms(9) by simp
  have lt: "256 * length blocks < 2 ^ 32" using assms(6) u16_less [of "NandFlashModel_GetPageDataSize m"] by simp
  show ?thesis
    using r d e Verify256x_prefix [OF assms(7) lt] lr ls
    by (simp add: EccNandFlash_ReadPage_def Let_def NandFlashModel_GetScheme_def page_size_word [OF assms(6)]
        Hamming_ERROR_defs del: of_nat_mult)
qed

lemma ecc_write:
  assumes "nand_layout_ok m" "stack_ok u" "ready d" "unat page < nand_pages m" "unat block < nand_blocks m"
    and "256 * length blocks = data_size m" "\<forall>b \<in> set blocks. length b = 256"
  shows "\<exists>e d' sp. EccNandFlash_WritePage op_bootstrap raw u block page (Some (concat blocks @ xs)) None d = Some ((e, None), d') \<and>
    ready d' \<and> (\<forall>r. r \<noteq> row block page \<longrightarrow> content d' r = content d r) \<and>
    (e = 0 \<longrightarrow> content d' (row block page) = program_bytes (content d (row block page)) (concat blocks @ sp)) \<and>
    length sp = spare_size m \<and> ecc_valid (model_scheme m) blocks sp \<and> sp ! unat (badBlockMarkerPosition (model_scheme m)) = 0xFF"
proof -
  let ?n = "data_size m" and ?k = "spare_size m" and ?sch = "model_scheme m"
  let ?ham = "concat (map Compute256 blocks) @ drop (3 * length blocks) (replicate 24 0xFF)"
  note fit = layout_facts [OF assms(1,2,6)]
  have lt: "length blocks * 256 < 2 ^ 32" using assms(6) u16_less [of "NandFlashModel_GetPageDataSize m"] by simp
  have sc: "3 * length blocks \<le> 24" "length (eccBytesPositions ?sch) = 3 * length blocks"
      "unat (badBlockMarkerPosition ?sch) < ?k" "badBlockMarkerPosition ?sch \<notin> set (eccBytesPositions ?sch)"
      "\<forall>p \<in> set (eccBytesPositions ?sch). unat p < ?k"
    using fit(3) by (auto simp: scheme_fits_def)
  have h: "Hamming_Compute256x (concat blocks @ xs) (ucast (NandFlashModel_GetPageDataSize m)) (replicate 24 0xFF) = Some ?ham"
    using Compute256x_blocks [OF assms(7) lt, of "replicate 24 0xFF" "[]" xs "[]"] sc(1)
    by (simp add: Hamming_Compute256x_def page_size_word [OF assms(6)] mult.commute del: of_nat_mult drop_replicate)
  let ?s0 = "replicate ?k 0xFF @ drop ?k (tmpSpare u)"
  have s0: "buf_into (tmpSpare u) (replicate ?k 0xFF) = Some ?s0" "length ?s0 = 64"
    using fit(2,5) by (simp_all add: buf_into_def buf_write_def)
  have lh: "length ?ham = 24" "3 * length blocks \<le> length ?ham" using sc(1) by (simp_all add: concat_length_3)
  have sf: "scheme_fits ?sch (length ?s0) (length blocks)"
    using fit(2,5) s0(2) by (intro scheme_fits_mono [OF fit(3)]) simp
  obtain s where s: "NandSpareScheme_WriteEcc ?sch ?s0 ?ham = Some s" "written_at (eccBytesPositions ?sch) ?ham ?s0 s"
    using WriteEcc_written [OF sf lh(2)] by blast
  let ?sp = "take ?k s"
  have ls: "length s = 64" using s(2) s0(2) by (simp add: written_at_def)
  have v: "ecc_valid ?sch blocks ?sp"
    using s(2) sc(2,5) by (auto simp: ecc_valid_def written_at_def nth_append concat_length_3)
  have "s ! unat (badBlockMarkerPosition ?sch) = ?s0 ! unat (badBlockMarkerPosition ?sch)"
  proof -
    have "unat (badBlockMarkerPosition ?sch) \<notin> unat ` set (eccBytesPositions ?sch)"
      using sc(4) by (auto simp: image_iff simp flip: word_unat_eq_iff)
    moreover have "unat (badBlockMarkerPosition ?sch) < length ?s0" using sc(3) s0(2) fit(2,5) by simp
    ultimately show ?thesis using s(2) unfolding written_at_def by blast
  qed
  then have mk: "?sp ! unat (badBlockMarkerPosition ?sch) = 0xFF" using sc(3) by (simp add: nth_append)
  have "buffer_ok ?n (Some (concat blocks @ xs))" "buffer_ok ?k (Some s)"
    using concat_blocks_length [OF assms(7)] assms(6) ls fit(2,5) by (simp_all add: buffer_ok_def)
  moreover have "page_image ?n ?k (Some (concat blocks @ xs)) (Some s) = concat blocks @ ?sp"
    using concat_blocks_length [OF assms(7)] assms(6) by (simp add: page_image_def)
  ultimately obtain e d' where w: "RawNandFlash_WritePage op_bootstrap raw block page (Some (concat blocks @ xs)) (Some s) d = Some (e, d')"
      "ready d'" "\<forall>r. r \<noteq> row block page \<longrightarrow> content d' r = content d r"
      "e = 0 \<longrightarrow> content d' (row block page) = program_bytes (content d (row block page)) (concat blocks @ ?sp)"
    using write_page [OF assms(3,4,5), of "Some (concat blocks @ xs)" "Some s"] by auto
  have "EccNandFlash_WritePage op_bootstrap raw u block page (Some (concat blocks @ xs)) None d = Some ((e, None), d')"
    using h s0(1) s(1) w(1)
    by (simp add: EccNandFlash_WritePage_def Let_def NandFlashModel_GetScheme_def NandCommon_MAXSPAREECCBYTES_def)
  then show ?thesis using w(2-4) v mk ls fit(2,5) by (intro exI [of _ e] exI [of _ d'] exI [of _ ?sp]) simp
qed

lemma read_marker_ok:
  assumes "nand_layout_ok m" "stack_ok u" "ready d" "unat page < nand_pages m" "unat block < nand_blocks m"
  shows "\<exists>d'. read_marker op_bootstrap raw u block page d =
      Some (Inr (content d (row block page) ! (data_size m + unat (badBlockMarkerPosition (model_scheme m)))), d') \<and>
    ready d' \<and> content d' = content d"
proof -
  let ?n = "data_size m" and ?k = "spare_size m" and ?p = "unat (badBlockMarkerPosition (model_scheme m))"
  have fit: "?k \<le> length (tmpSpare u)" "?p < ?k"
    using assms(1,2) by (auto simp: nand_layout_ok_def stack_ok_def Let_def NandFlashModel_GetScheme_def scheme_fits_def)
  note len = page_length [OF assms(3), of "row block page"]
  obtain d' where "RawNandFlash_ReadPage op_bootstrap raw block page False True d = Some ((0, [], drop ?n (content d (row block page))), d')"
      "ready d'" "content d' = content d"
    using read_page [OF assms(3) _ assms(4,5), of False True] by auto
  then show ?thesis
    using fit len
    by (simp add: read_marker_def buf_into_def buf_write_def NandSpareScheme_ReadBadBlockMarker_def get_at_def nth_append
        NandFlashModel_GetScheme_def)
qed

lemma CheckBlock_ok:
  assumes "nand_layout_ok m" "stack_ok u" "ready d" "unat block < nand_blocks m"
  shows "\<exists>d'. CheckBlock op_bootstrap raw u block d =
      Some (if op_bootstrap \<or> good_block m (content d) block then GOODBLOCK else BADBLOCK, d') \<and> ready d' \<and> content d' = content d"
proof (cases op_bootstrap)
  case False
  have p: "unat (0 :: u16) < nand_pages m" "unat (1 :: u16) < nand_pages m"
    using geometry by (simp_all add: nand_geometry_def)
  obtain d1 where d1: "read_marker op_bootstrap raw u block 0 d =
      Some (Inr (content d (row block 0) ! (data_size m + unat (badBlockMarkerPosition (model_scheme m)))), d1)"
      "ready d1" "content d1 = content d"
    using read_marker_ok [OF assms(1-3) p(1) assms(4)] by auto
  obtain d2 where d2: "read_marker op_bootstrap raw u block 1 d1 =
      Some (Inr (content d (row block 1) ! (data_size m + unat (badBlockMarkerPosition (model_scheme m)))), d2)"
      "ready d2" "content d2 = content d"
    using read_marker_ok [OF assms(1,2) d1(2) p(2) assms(4)] d1(3) by auto
  show ?thesis
    using d1 d2 False by (auto simp: CheckBlock_def good_block_def numeral_2_eq_2 less_Suc_eq)
qed (use assms(3) in \<open>simp add: CheckBlock_def\<close>)

end

section \<open>Properties\<close>

text \<open>
  C30. A page written with error correction to an erased page of any chip that keeps the contract is read
  back as it was written, even if one bit in each block of 256 bytes has flipped since, or the write
  reports an error; other pages are not changed.
\<close>
theorem nand_ecc_roundtrip:
  assumes "nand_device op_bootstrap raw content ready" and "m = raw_model raw" and "nand_layout_ok m" and "stack_ok u"
    and "ready d" and "unat page < nand_pages m" and "unat block < nand_blocks m"
    and "r = unat block * nand_pages m + unat page" and "content d r = replicate (data_size m + spare_size m) 0xFF"
    and "\<forall>b \<in> set blocks. length b = 256" and "256 * length blocks = data_size m"
  shows "\<exists>e d1. EccNandFlash_WritePage op_bootstrap raw u block page (Some (concat blocks)) None d = Some ((e, None), d1) \<and>
    ready d1 \<and> (\<forall>r'. r' \<noteq> r \<longrightarrow> content d1 r' = content d r') \<and>
    (e = 0 \<longrightarrow> (\<forall>d2 received. ready d2 \<and> list_all2 at_most_one_flip blocks received \<and>
        content d2 r = concat received @ drop (data_size m) (content d1 r) \<longrightarrow>
      (\<exists>d3. EccNandFlash_ReadPage op_bootstrap raw u block page True False d2 = Some ((0, concat blocks, []), d3) \<and>
        ready d3 \<and> content d3 = content d2)))"
proof -
  obtain e d1 sp where w: "EccNandFlash_WritePage op_bootstrap raw u block page (Some (concat blocks)) None d = Some ((e, None), d1)"
      "ready d1" "\<forall>r'. r' \<noteq> r \<longrightarrow> content d1 r' = content d r'"
      "e = 0 \<longrightarrow> content d1 r = program_bytes (content d r) (concat blocks @ sp)" "length sp = spare_size m"
      "ecc_valid (model_scheme m) blocks sp"
    using nand_device.ecc_write [OF assms(1), folded assms(2), OF assms(3-7,11,10), of "[]", folded assms(8)] by auto
  have l: "length (concat blocks) = data_size m" using concat_blocks_length [OF assms(10)] assms(11) by simp
  have c: "e = 0 \<longrightarrow> content d1 r = concat blocks @ sp"
    using w(4,5) l program_erased [of "concat blocks @ sp" "data_size m + spare_size m"] assms(9) by simp
  have "\<exists>d3. EccNandFlash_ReadPage op_bootstrap raw u block page True False d2 = Some ((0, concat blocks, []), d3) \<and>
      ready d3 \<and> content d3 = content d2"
    if "e = 0" "ready d2" "list_all2 at_most_one_flip blocks received"
      "content d2 r = concat received @ drop (data_size m) (content d1 r)" for d2 received
  proof -
    have "content d2 r = concat received @ sp" using that c l by simp
    from nand_device.ecc_read [OF assms(1), folded assms(2), OF assms(3,4) that(2) assms(6,7,11) that(3), folded assms(8), OF this w(6),
        of True False] show ?thesis by simp
  qed
  then show ?thesis using w(1-3) by blast
qed

definition demo_stack :: nand_stack where
  "demo_stack = \<lparr>tmpData = replicate 2048 0, tmpSpare = replicate 64 0, hamming = replicate 24 0\<rparr>"

lemma demo_stack_ok: "stack_ok demo_stack"
  by (simp add: stack_ok_def demo_stack_def NandCommon_MAXPAGEDATASIZE_def NandCommon_MAXPAGESPARESIZE_def
      NandCommon_MAXSPAREECCBYTES_def)

lemma demo_sizes: "data_size demo_model = 2048" "spare_size demo_model = 64" "nand_pages demo_model = 64"
    "nand_blocks demo_model = 2048" "unat (NandFlashModel_GetBlockSizeInBytes demo_model) = 0x20000"
    "unat (NandFlashModel_GetDeviceSizeInBytes demo_model) = 0x10000000" "model_scheme demo_model = nandSpareScheme2048"
  by (simp_all add: demo_model_def large8_def nand_model_def NandFlashModel_GetPageDataSize_def NandFlashModel_GetPageSpareSize_def
      nand_pages_def nand_blocks_def NandFlashModel_GetBlockSizeInBytes_def NandFlashModel_GetDeviceSizeInBytes_def)

definition boot_chip :: "(nat \<Rightarrow> bytes) \<Rightarrow> nand_chip" where
  "boot_chip pages = \<lparr>cpages = pages, cid = [0x2C, 0xDA, 0x10, 0x15], caddr = [], creg = [], cptr = 0, cstatus = False, cbusy = 0\<rparr>"

theorem nand_ecc_roundtrip_witness:
  "\<exists>e d1. EccNandFlash_WritePage True (chip_raw demo_model True) demo_stack 3 5 (Some (concat (replicate 8 (replicate 256 7)))) None
      (boot_chip (\<lambda>_. replicate (data_size demo_model + spare_size demo_model) 0xFF)) = Some ((e, None), d1) \<and>
    chip_ready demo_model d1"
proof -
  let ?c = "boot_chip (\<lambda>_. replicate (data_size demo_model + spare_size demo_model) 0xFF)"
  have "nand_layout_ok demo_model" using demo_chip_model by (simp add: chip_model_def)
  moreover have "chip_ready demo_model ?c" by (simp add: chip_ready_def boot_chip_def)
  moreover have "unat (5 :: u16) < nand_pages demo_model" "unat (3 :: u16) < nand_blocks demo_model"
    "256 * length (replicate 8 (replicate 256 (7 :: u8))) = data_size demo_model" by (simp_all add: demo_sizes)
  ultimately show ?thesis
    using nand_ecc_roundtrip [OF chip_with_pin.nand_device_axioms _ _ demo_stack_ok, of demo_model ?c 5 3
        "unat (3 :: u16) * nand_pages demo_model + unat (5 :: u16)" "replicate 8 (replicate 256 7)" True]
    by (simp add: boot_chip_def) blast
qed

end
