(* ===== verification/NandBoot.thy ===== *)
theory NandBoot
  imports NandFlash
begin

text \<open>
  Booting from NAND flash (\<open>bootloader/at91/common/at91_boot_from_nand.c\<close>): an image is copied from the
  start of a block on to the SDRAM, page by page, and bad blocks are skipped. The bootloader is built
  without \<open>OP_BOOTSTRAP_on\<close>, unlike the library it calls. The set-up of the memory controller and the
  pins, the traces and the jump are left out.
\<close>

section \<open>State\<close>

text \<open>\<open>sdram\<close> starts at \<open>SDRAM_DESTINATION\<close>.\<close>

record 'd nand_boot =
  memSize :: u32
  blockSize :: u32
  numBlocks :: u16
  pageSize :: u16
  numPagesPerBlock :: u16
  nfBusWidth :: u8
  skipBlockNf :: "'d RawNandFlash"
  sdram :: bytes
  nand :: 'd

definition BOOT_NAND_SUCCESS :: int where "BOOT_NAND_SUCCESS = 0"
definition BOOT_NAND_ERROR_GP :: int where "BOOT_NAND_ERROR_GP = 2"

text \<open>The result of the initialisation is only printed.\<close>

definition NandInit :: "bool \<Rightarrow> nand_stack \<Rightarrow> 'd nand_bus \<Rightarrow> bool \<Rightarrow> 'd nand_boot \<Rightarrow> 'd nand_boot option" where
  "NandInit op_bootstrap u bus pin s = do {
     (_, raw, d) \<leftarrow> SkipBlockNandFlash_Initialize op_bootstrap u None bus pin (skipBlockNf s) (nand s);
     let m = raw_model raw;
     blocks \<leftarrow> NandFlashModel_GetDeviceSizeInBlocks op_bootstrap m;
     pages \<leftarrow> NandFlashModel_GetBlockSizeInPages op_bootstrap m;
     Some (s\<lparr>skipBlockNf := raw, nand := d, nfBusWidth := NandFlashModel_GetDataBusWidth m,
       memSize := ucast (NandFlashModel_GetDeviceSizeInBytes m), blockSize := NandFlashModel_GetBlockSizeInBytes m,
       numBlocks := blocks, pageSize := NandFlashModel_GetPageDataSize m, numPagesPerBlock := pages\<rparr>) }"

section \<open>The copy\<close>

definition sdram_write :: "bytes \<Rightarrow> nat \<Rightarrow> bytes \<Rightarrow> bytes option" where
  "sdram_write mem off bs =
     (if bs = [] then Some mem else if off + length bs \<le> length mem then Some (buf_write mem off bs) else None)"

text \<open>
  The loops run with the read of a page as argument. The inner loop goes on to the next block while
  the read reports a bad block and the page is the first one.
\<close>

type_synonym 'd page_read = "u16 \<Rightarrow> u16 \<Rightarrow> 'd \<Rightarrow> ((u8 \<times> bytes \<times> bytes) \<times> 'd) option"

function read_skipping ::
    "'d page_read \<Rightarrow> u16 \<Rightarrow> u16 \<Rightarrow> nat \<Rightarrow> u16 \<Rightarrow> bytes \<Rightarrow> 'd \<Rightarrow> ((u8 \<times> u16) \<times> bytes \<times> 'd) option" where
  "read_skipping rd blocks page ptr block mem d =
     (case rd block page d of
        None \<Rightarrow> None
      | Some ((error, bs, _), d) \<Rightarrow>
          (case sdram_write mem ptr bs of
             None \<Rightarrow> None
           | Some mem \<Rightarrow>
               if error = NandCommon_ERROR_BADBLOCK
               then if block + 1 < blocks \<and> page = 0 then read_skipping rd blocks page ptr (block + 1) mem d
                 else Some ((error, block + 1), mem, d)
               else Some ((error, block), mem, d)))"
  by pat_completeness auto
termination
  by (relation "measure (\<lambda>(rd, blocks, page, ptr, block, mem, d). unat (blocks - block - 1))")
    (use word_count_down [where 'a = 16] in auto)

declare read_skipping.simps [simp del]

lemma read_skipping_progress:
  "read_skipping rd blocks page ptr block mem d = Some ((0, block'), mem', d') \<Longrightarrow>
    unat (blocks - block' - 1) \<le> unat (blocks - block - 1)"
proof (induction rd blocks page ptr block mem d rule: read_skipping.induct)
  case (1 rd blocks page ptr block mem d)
  obtain error bs x d1 where r: "rd block page d = Some ((error, bs, x), d1)"
    using 1(2) by (auto simp: read_skipping.simps [of _ _ _ _ block] split: option.splits)
  obtain mem1 where w: "sdram_write mem ptr bs = Some mem1"
    using 1(2) r by (auto simp: read_skipping.simps [of _ _ _ _ block] split: option.splits)
  show ?case
  proof (cases "error = NandCommon_ERROR_BADBLOCK \<and> block + 1 < blocks \<and> page = 0")
    case True
    have "block + 1 \<noteq> blocks" using True by auto
    from 1(1) [OF r refl refl refl w] True 1(2) r w word_count_down [OF this] show ?thesis
      by (auto simp: read_skipping.simps [of _ _ _ _ block])
  next
    case False
    then show ?thesis
      using 1(2) r w by (auto simp: read_skipping.simps [of _ _ _ _ block] NandCommon_ERROR_BADBLOCK_def split: if_splits)
  qed
qed

lemma page_step: "(page :: u16) < pages \<Longrightarrow> unat (pages - (page + 1)) < unat (pages - page)"
proof -
  assume "page < pages"
  then have "pages - page \<noteq> 0" by auto
  then have "unat (pages - page - 1) < unat (pages - page)"
    by (metis unat_gt_0 unat_minus_one diff_less zero_less_one)
  then show ?thesis by (simp add: algebra_simps)
qed

lemma copy_progress:
  "read_skipping rd blocks page ptr block mem d = Some ((0, block'), mem', d') \<Longrightarrow> page < pages \<Longrightarrow>
    unat (blocks - block' - 1) < unat (blocks - block - 1) \<or>
    unat (blocks - block' - 1) = unat (blocks - block - 1) \<and> unat (pages - (page + 1)) < unat (pages - page)"
  using read_skipping_progress [of rd blocks page ptr block mem d block' mem' d'] page_step [of page pages] by auto

text \<open>
  \<open>while (block < numBlocks) { for (page = 0; page < numPagesPerBlock; page++) ...; if (bytes_read == 0)
  break; else block++; }\<close> from the middle of a block on.
\<close>

function copy_blocks ::
    "'d page_read \<Rightarrow> u16 \<Rightarrow> u16 \<Rightarrow> u16 \<Rightarrow> u16 \<Rightarrow> u16 \<Rightarrow> nat \<Rightarrow> u32 \<Rightarrow> bytes \<Rightarrow> 'd \<Rightarrow> (int \<times> bytes \<times> 'd) option" where
  "copy_blocks rd blocks pages page_size block page ptr bytes_read mem d =
     (if page < pages
      then
        (case read_skipping rd blocks page ptr block mem d of
           None \<Rightarrow> None
         | Some ((error, block), mem, d) \<Rightarrow>
             if error \<noteq> 0 then Some (BOOT_NAND_ERROR_GP, mem, d)
             else if bytes_read \<le> ucast page_size then Some (BOOT_NAND_SUCCESS, mem, d)
             else copy_blocks rd blocks pages page_size block (page + 1) (ptr + unat page_size)
               (bytes_read - ucast page_size) mem d)
      else if bytes_read = 0 then Some (BOOT_NAND_SUCCESS, mem, d)
      else if block + 1 < blocks then copy_blocks rd blocks pages page_size (block + 1) 0 ptr bytes_read mem d
      else Some (BOOT_NAND_SUCCESS, mem, d))"
  by pat_completeness auto
termination
  apply (relation "measures [\<lambda>(rd, blocks, pages, page_size, block, page, ptr, bytes_read, mem, d). unat (blocks - block - 1),
      \<lambda>(rd, blocks, pages, page_size, block, page, ptr, bytes_read, mem, d). unat (pages - page)]")

  subgoal by (rule wf_measures)
  subgoal for rd blocks pages page_size block page ptr bytes_read mem d x2 x y error block' mem' d'
    using copy_progress [of rd blocks page ptr block mem d block' mem' d' pages] by auto
  subgoal for rd blocks pages page_size block page using word_count_down [of block blocks] by simp
  done

declare copy_blocks.simps [simp del]

definition BOOT_NAND_CopyBin ::
    "bool \<Rightarrow> nand_stack \<Rightarrow> 'd nand_bus \<Rightarrow> bool \<Rightarrow> u32 \<Rightarrow> u32 \<Rightarrow> u32 \<Rightarrow> 'd nand_boot \<Rightarrow> (int \<times> 'd nand_boot) option" where
  "BOOT_NAND_CopyBin op_bootstrap u bus pin binary_offset binary_size target_offset s = do {
     s \<leftarrow> NandInit op_bootstrap u bus pin s;
     if binary_offset mod 4 \<noteq> 0 then Some (BOOT_NAND_ERROR_GP, s)
     else do {
       access \<leftarrow> NandFlashModel_TranslateAccess op_bootstrap (raw_model (skipBlockNf s)) binary_offset binary_size;
       case access of
         Inl _ \<Rightarrow> Some (BOOT_NAND_ERROR_GP, s)
       | Inr (block, page, offset) \<Rightarrow>
           if page \<noteq> 0 \<or> offset \<noteq> 0 then Some (BOOT_NAND_ERROR_GP, s)
           else if block < numBlocks s
           then do {
             (result, mem, d) \<leftarrow> copy_blocks
               (\<lambda>block page. SkipBlockNandFlash_ReadPage op_bootstrap (skipBlockNf s) u block page True False)
               (numBlocks s) (numPagesPerBlock s) (pageSize s) block 0 (unat target_offset) binary_size (sdram s) (nand s);
             Some (result, s\<lparr>sdram := mem, nand := d\<rparr>) }
           else Some (BOOT_NAND_SUCCESS, s) } }"

text \<open>The result of the copy is dropped.\<close>

definition copy_nandflash_image_to_sdram ::
    "bool \<Rightarrow> nand_stack \<Rightarrow> 'd nand_bus \<Rightarrow> bool \<Rightarrow> u32 \<Rightarrow> u32 \<Rightarrow> u32 \<Rightarrow> 'd nand_boot \<Rightarrow> (int \<times> 'd nand_boot) option" where
  "copy_nandflash_image_to_sdram op_bootstrap u bus pin source_offset image_size target_offset s = do {
     (_, s) \<leftarrow> BOOT_NAND_CopyBin op_bootstrap u bus pin source_offset image_size target_offset s;
     Some (0, s) }"

end
