(* ===== verification/NandBootSpec.thy ===== *)
theory NandBootSpec
  imports NandBoot NandSpec
begin

text \<open>
  The copy of an image from NAND flash, for any read of pages that delivers the pages of good blocks
  and reports bad blocks; then for the two configurations of the library.
\<close>

section \<open>Sources of pages\<close>

lemma u16_of_nat_less: "a < 2 ^ 16 \<Longrightarrow> b < 2 ^ 16 \<Longrightarrow> (word_of_nat a :: u16) < word_of_nat b \<longleftrightarrow> a < b"
  by (simp add: word_less_nat_alt unat_of_nat take_bit_nat_eq_self)

lemma u16_of_nat_0: "a < 2 ^ 16 \<Longrightarrow> (word_of_nat a :: u16) = 0 \<longleftrightarrow> a = 0"
  by (simp add: word_unat_eq_iff unat_of_nat take_bit_nat_eq_self)

lemma buf_write_Nil: "buf_write b off [] = b"
  by (simp add: buf_write_def)

lemma buf_write_twice:
  "off + length x + length y \<le> length b \<Longrightarrow> buf_write (buf_write b off x) (off + length x) y = buf_write b off (x @ y)"
  by (simp add: buf_write_def ac_simps)

locale page_source =
  fixes rd :: "'d page_read" and good :: "nat \<Rightarrow> bool" and pg :: "nat \<Rightarrow> nat \<Rightarrow> bytes" and ok :: "'d \<Rightarrow> bool"
    and B N n :: nat
  assumes bounds: "B \<le> 32768" "0 < N" "N \<le> 512" "0 < n" "n < 2 ^ 16"
    and read_good: "ok d \<Longrightarrow> b < B \<Longrightarrow> p < N \<Longrightarrow> good b \<Longrightarrow>
      \<exists>x d'. rd (word_of_nat b) (word_of_nat p) d = Some ((0, pg b p, x), d') \<and> ok d'"
    and read_bad: "ok d \<Longrightarrow> b < B \<Longrightarrow> p < N \<Longrightarrow> \<not> good b \<Longrightarrow>
      \<exists>x d'. rd (word_of_nat b) (word_of_nat p) d = Some ((NandCommon_ERROR_BADBLOCK, [], x), d') \<and> ok d'"
    and page_len: "b < B \<Longrightarrow> p < N \<Longrightarrow> good b \<Longrightarrow> length (pg b p) = n"
begin

lemma read_one:
  assumes "ok d" "b < B" "p < N" "good b" "ptr + n \<le> length mem"
  shows "\<exists>d'. read_skipping rd (word_of_nat B) (word_of_nat p) ptr (word_of_nat b) mem d =
    Some ((0, word_of_nat b), buf_write mem ptr (pg b p), d') \<and> ok d'"
proof -
  obtain x d' where "rd (word_of_nat b) (word_of_nat p) d = Some ((0, pg b p, x), d')" "ok d'"
    using read_good [OF assms(1-4)] by blast
  moreover have "sdram_write mem ptr (pg b p) = Some (buf_write mem ptr (pg b p))"
    using page_len [OF assms(2-4)] assms(5) bounds(4) by (auto simp: sdram_write_def)
  ultimately show ?thesis by (simp add: read_skipping.simps [of _ _ _ _ "word_of_nat b"] NandCommon_ERROR_BADBLOCK_def)
qed

lemma read_next_good:
  "ok d \<Longrightarrow> b \<le> g \<Longrightarrow> g < B \<Longrightarrow> good g \<Longrightarrow> (\<And>x. b \<le> x \<Longrightarrow> x < g \<Longrightarrow> \<not> good x) \<Longrightarrow> ptr + n \<le> length mem \<Longrightarrow>
    \<exists>d'. read_skipping rd (word_of_nat B) 0 ptr (word_of_nat b) mem d =
      Some ((0, word_of_nat g), buf_write mem ptr (pg g 0), d') \<and> ok d'"
proof (induction "g - b" arbitrary: b d)
  case 0
  then show ?case using read_one [of d b 0 ptr mem] bounds(2) by simp
next
  case (Suc k)
  then have lt: "b < g" "k = g - Suc b" by simp_all
  obtain x d1 where r: "rd (word_of_nat b) 0 d = Some ((NandCommon_ERROR_BADBLOCK, [], x), d1)" "ok d1"
    using read_bad [of d b 0] Suc.prems lt bounds(2) by auto
  have "(word_of_nat b + 1 :: u16) = word_of_nat (Suc b)" by (simp add: add.commute)
  moreover have "(word_of_nat (Suc b) :: u16) < word_of_nat B"
    using lt Suc.prems(3) bounds(1) by (subst u16_of_nat_less) simp_all
  moreover have "\<exists>d'. read_skipping rd (word_of_nat B) 0 ptr (word_of_nat (Suc b)) mem d1 =
      Some ((0, word_of_nat g), buf_write mem ptr (pg g 0), d') \<and> ok d'"
    using Suc.hyps(1) [OF lt(2) r(2)] Suc.prems lt by simp
  ultimately show ?case
    using r(1) by (subst read_skipping.simps) (simp add: sdram_write_def del: of_nat_Suc)
qed

definition pages_from where
  "pages_from b p = (if p = 0 then [] else map (Pair b) [p..<N]) @
     concat (map (\<lambda>g. map (Pair g) [0..<N]) (filter good [(if p = 0 then b else Suc b)..<B]))"

lemma pages_from_end: "pages_from b N = pages_from (Suc b) 0"
  using bounds(2) by (simp add: pages_from_def)

lemma pages_from_next: "0 < p \<Longrightarrow> p < N \<Longrightarrow> pages_from b p = (b, p) # pages_from b (Suc p)"
  by (simp add: pages_from_def upt_conv_Cons)

lemma pages_from_good: "b < B \<Longrightarrow> good b \<Longrightarrow> pages_from b 0 = (b, 0) # pages_from b 1"
  using bounds(2) by (simp add: pages_from_def upt_conv_Cons)

lemma pages_from_first:
  assumes "pages_from b 0 \<noteq> []"
  shows "\<exists>g. b \<le> g \<and> g < B \<and> good g \<and> (\<forall>x. b \<le> x \<and> x < g \<longrightarrow> \<not> good x) \<and> pages_from b 0 = (g, 0) # pages_from g 1"
proof -
  have ex: "\<exists>g. b \<le> g \<and> g < B \<and> good g"
    using assms by (auto simp: pages_from_def filter_empty_conv)
  define g where "g = (LEAST g. b \<le> g \<and> g < B \<and> good g)"
  have g: "b \<le> g \<and> g < B \<and> good g" unfolding g_def using ex by (rule LeastI_ex)
  have bad: "\<forall>x. b \<le> x \<and> x < g \<longrightarrow> \<not> good x"
    using g not_less_Least [of _ "\<lambda>g. b \<le> g \<and> g < B \<and> good g"] unfolding g_def by (metis order_less_trans)
  have "[b..<B] = [b..<g] @ [g..<B]" using g by (metis le_add_diff_inverse less_imp_le upt_add_eq_append)
  moreover have "filter good [b..<g] = []" using bad by (auto simp: filter_empty_conv)
  ultimately have "pages_from b 0 = pages_from g 0" by (simp add: pages_from_def)
  then show ?thesis using g bad pages_from_good by auto
qed

lemma pages_from_inside:
  "b < B \<Longrightarrow> p = 0 \<or> good b \<Longrightarrow> (b', q) \<in> set (pages_from b p) \<Longrightarrow> good b' \<and> b' < B \<and> q < N"
  by (auto simp: pages_from_def split: if_splits)

lemma pages_length:
  assumes "b < B" "p = 0 \<or> good b" "k \<le> length (pages_from b p)"
  shows "length (concat (map (case_prod pg) (take k (pages_from b p)))) = k * n"
proof -
  have "length (case_prod pg x) = n" if "x \<in> set (take k (pages_from b p))" for x
    using pages_from_inside [OF assms(1,2)] page_len that by (cases x) (metis case_prod_conv in_set_takeD)
  then have "map (length \<circ> case_prod pg) (take k (pages_from b p)) = map (\<lambda>_. n) (take k (pages_from b p))"
    by (intro map_cong) auto
  then show ?thesis using assms(3) by (simp add: length_concat map_replicate_const sum_list_replicate)
qed

text \<open>The next page is read.\<close>

lemma read_next:
  assumes "ok d" "b < B" "p < N" "p = 0 \<or> good b" "pages_from b p \<noteq> []" "ptr + n \<le> length mem"
  shows "\<exists>g d'. pages_from b p = (g, p) # pages_from g (Suc p) \<and> g < B \<and> good g \<and>
    read_skipping rd (word_of_nat B) (word_of_nat p) ptr (word_of_nat b) mem d =
      Some ((0, word_of_nat g), buf_write mem ptr (pg g p), d') \<and> ok d'"
proof (cases "p = 0")
  case True
  then obtain g where g: "b \<le> g" "g < B" "good g" "\<forall>x. b \<le> x \<and> x < g \<longrightarrow> \<not> good x" "pages_from b 0 = (g, 0) # pages_from g 1"
    using pages_from_first assms(5) by blast
  then show ?thesis using read_next_good [OF assms(1) g(1-3) _ assms(6)] True by auto
next
  case False
  then show ?thesis
    using read_one [OF assms(1-3) _ assms(6)] pages_from_next [of p b] assms(2-4) by auto
qed

text \<open>The turns of the copy.\<close>

lemma size_left: "n < unat sz \<Longrightarrow> unat (sz - ucast (word_of_nat n :: u16) :: u32) = unat sz - n"
  using bounds(5) by (simp add: unat_sub word_le_nat_alt u16_u32 unat_of_nat take_bit_nat_eq_self)

lemma copy_step:
  assumes "read_skipping rd (word_of_nat B) (word_of_nat p) ptr (word_of_nat b) mem d = Some ((0, word_of_nat g), mem', d')"
    and "p < N" "n < unat sz"
  shows "copy_blocks rd (word_of_nat B) (word_of_nat N) (word_of_nat n) (word_of_nat b) (word_of_nat p) ptr sz mem d =
    copy_blocks rd (word_of_nat B) (word_of_nat N) (word_of_nat n) (word_of_nat g) (word_of_nat (Suc p)) (ptr + n)
      (sz - ucast (word_of_nat n :: u16)) mem' d'"
proof -
  have "\<not> sz \<le> ucast (word_of_nat n :: u16)"
    using assms(3) bounds(5) by (simp add: word_le_nat_alt u16_u32 unat_of_nat take_bit_nat_eq_self)
  moreover have "(word_of_nat p :: u16) < word_of_nat N" using assms(2) bounds(3) by (subst u16_of_nat_less) simp_all
  moreover have "(word_of_nat p + 1 :: u16) = word_of_nat (Suc p)" by (simp add: add.commute)
  ultimately show ?thesis
    using assms(1) bounds(5)
    by (subst copy_blocks.simps) (simp add: unat_of_nat take_bit_nat_eq_self del: of_nat_Suc)
qed

lemma copy_next_block:
  assumes "Suc g < B" "0 < unat sz"
  shows "copy_blocks rd (word_of_nat B) (word_of_nat N) (word_of_nat n) (word_of_nat g) (word_of_nat N) ptr sz mem d =
    copy_blocks rd (word_of_nat B) (word_of_nat N) (word_of_nat n) (word_of_nat (Suc g)) (word_of_nat 0) ptr sz mem d"
proof -
  have P: "(word_of_nat g + 1 :: u16) = word_of_nat (Suc g)" by (simp add: add.commute)
  have lt: "(word_of_nat g + 1 :: u16) < word_of_nat B"
    unfolding P using assms(1) bounds(1) by (subst u16_of_nat_less) simp_all
  have nz: "sz \<noteq> 0" using assms(2) by auto
  show ?thesis
    unfolding copy_blocks.simps [of _ _ _ _ "word_of_nat g"] if_not_P [OF less_irrefl] if_not_P [OF nz] if_P [OF lt]
    unfolding P by simp
qed

lemma copy_end:
  assumes "\<not> Suc g < B" "g < B" "0 < unat sz"
  shows "copy_blocks rd (word_of_nat B) (word_of_nat N) (word_of_nat n) (word_of_nat g) (word_of_nat N) ptr sz mem d = Some (0, mem, d)"
proof -
  have P: "(word_of_nat g + 1 :: u16) = word_of_nat (Suc g)" by (simp add: add.commute)
  have lt: "\<not> (word_of_nat g + 1 :: u16) < word_of_nat B"
    unfolding P using assms(1,2) bounds(1) by (subst u16_of_nat_less) simp_all
  have nz: "sz \<noteq> 0" using assms(3) by auto
  show ?thesis
    unfolding copy_blocks.simps [of _ _ _ _ "word_of_nat g"] if_not_P [OF less_irrefl] if_not_P [OF nz] if_not_P [OF lt]
      BOOT_NAND_SUCCESS_def by simp
qed

lemma copy_pages_ok:
  "ok d \<Longrightarrow> b < B \<Longrightarrow> p < N \<Longrightarrow> p = 0 \<or> good b \<Longrightarrow> Suc K \<le> length (pages_from b p) \<Longrightarrow>
    unat sz \<le> Suc K * n \<Longrightarrow> 0 < K \<longrightarrow> K * n < unat sz \<Longrightarrow> ptr + Suc K * n \<le> length mem \<Longrightarrow>
    \<exists>d'. copy_blocks rd (word_of_nat B) (word_of_nat N) (word_of_nat n) (word_of_nat b) (word_of_nat p) ptr sz mem d =
      Some (0, buf_write mem ptr (concat (map (case_prod pg) (take (Suc K) (pages_from b p)))), d') \<and> ok d'"
proof (induction K arbitrary: d b p ptr sz mem)
  case 0
  have ne: "pages_from b p \<noteq> []" "ptr + n \<le> length mem" using 0(5,8) by auto
  obtain g d' where g: "pages_from b p = (g, p) # pages_from g (Suc p)"
      "read_skipping rd (word_of_nat B) (word_of_nat p) ptr (word_of_nat b) mem d =
        Some ((0, word_of_nat g), buf_write mem ptr (pg g p), d')" "ok d'"
    using read_next [OF 0(1-4) ne] by auto
  have "sz \<le> ucast (word_of_nat n :: u16)"
    using 0(6) bounds(5) by (simp add: word_le_nat_alt u16_u32 unat_of_nat take_bit_nat_eq_self)
  moreover have "(word_of_nat p :: u16) < word_of_nat N" using 0(3) bounds(3) by (subst u16_of_nat_less) simp_all
  ultimately show ?case using g by (subst copy_blocks.simps) (simp add: BOOT_NAND_SUCCESS_def)
next
  case (Suc K)
  have ne: "pages_from b p \<noteq> []" "ptr + n \<le> length mem" using Suc.prems(5,8) by auto
  obtain g d1 where g: "pages_from b p = (g, p) # pages_from g (Suc p)" "g < B" "good g"
      "read_skipping rd (word_of_nat B) (word_of_nat p) ptr (word_of_nat b) mem d =
        Some ((0, word_of_nat g), buf_write mem ptr (pg g p), d1)" "ok d1"
    using read_next [OF Suc.prems(1-4) ne] by auto
  let ?mem = "buf_write mem ptr (pg g p)" and ?sz = "sz - ucast (word_of_nat n :: u16)"
  have l: "length (pg g p) = n" using page_len g Suc.prems(3) by simp
  have gt: "n < unat sz" using Suc.prems(7) by simp
  note sz = size_left [OF gt]
  note copy_step [OF g(4) Suc.prems(3) gt]
  moreover have "\<exists>d'. copy_blocks rd (word_of_nat B) (word_of_nat N) (word_of_nat n) (word_of_nat g) (word_of_nat (Suc p)) (ptr + n) ?sz ?mem d1 =
      Some (0, buf_write ?mem (ptr + n) (concat (map (case_prod pg) (take (Suc K) (pages_from g (Suc p))))), d') \<and> ok d'"
  proof -
    have prem: "Suc K \<le> length (pages_from g (Suc p))" "unat ?sz \<le> Suc K * n" "0 < K \<longrightarrow> K * n < unat ?sz"
        "ptr + n + Suc K * n \<le> length ?mem"
      using g(1) Suc.prems(5-8) sz l by (auto simp: length_buf_write)
    show ?thesis
    proof (cases "Suc p < N")
      case True
      show ?thesis using Suc.IH [OF g(5,2) True _ prem] g(3) by simp
    next
      case False
      then have N: "Suc p = N" using Suc.prems(3) by simp
      have e: "pages_from g (Suc p) = pages_from (Suc g) 0" unfolding N by (rule pages_from_end)
      have "pages_from (Suc g) 0 \<noteq> []" using prem(1) unfolding e by auto
      from pages_from_first [OF this] have sg: "Suc g < B" by auto
      have "0 < unat ?sz" using sz gt by simp
      note copy_next_block [OF sg this, of "ptr + n" ?mem d1]
      then show ?thesis
        using Suc.IH [OF g(5) sg bounds(2) _ _ prem(2-4)] prem(1) e N by simp
    qed
  qed
  moreover have "buf_write ?mem (ptr + n) xs = buf_write mem ptr (pg g p @ xs)" if "length (pg g p @ xs) = Suc (Suc K) * n" for xs
    using buf_write_twice [of ptr "pg g p" xs mem] l that Suc.prems(8) by simp
  moreover have "length (concat (map (case_prod pg) (take (Suc (Suc K)) (pages_from b p)))) = Suc (Suc K) * n"
    using pages_length [OF Suc.prems(2,4,5)] .
  ultimately show ?case using g(1) by simp
qed

text \<open>When the good pages do not suffice but the last block is good, the copy ends with what there is.\<close>

lemma copy_pages_short:
  "ok d \<Longrightarrow> b < B \<Longrightarrow> p < N \<Longrightarrow> p = 0 \<or> good b \<Longrightarrow> good (B - 1) \<Longrightarrow> L = pages_from b p \<Longrightarrow> L \<noteq> [] \<Longrightarrow>
    length L * n < unat sz \<Longrightarrow> ptr + length L * n \<le> length mem \<Longrightarrow>
    \<exists>d'. copy_blocks rd (word_of_nat B) (word_of_nat N) (word_of_nat n) (word_of_nat b) (word_of_nat p) ptr sz mem d =
      Some (0, buf_write mem ptr (concat (map (case_prod pg) L)), d') \<and> ok d'"
proof (induction L arbitrary: d b p ptr sz mem)
  case (Cons x L)
  have "pages_from b p \<noteq> []" unfolding Cons.prems(6) [symmetric] by (rule list.distinct(2))
  moreover have "ptr + n \<le> length mem" using Cons.prems(9) unfolding list.size by (simp add: algebra_simps)
  ultimately have ne: "pages_from b p \<noteq> []" "ptr + n \<le> length mem" .
  obtain g d1 where g: "pages_from b p = (g, p) # pages_from g (Suc p)" "g < B" "good g"
      "read_skipping rd (word_of_nat B) (word_of_nat p) ptr (word_of_nat b) mem d =
        Some ((0, word_of_nat g), buf_write mem ptr (pg g p), d1)" "ok d1"
    using read_next [OF Cons.prems(1-4) ne] by auto
  have L: "x = (g, p)" "L = pages_from g (Suc p)" using g(1) Cons.prems(6) by simp_all
  have lL: "length (concat (map (case_prod pg) (x # L))) = Suc (length L) * n"
    using pages_length [OF Cons.prems(2,4), of "Suc (length L)", folded Cons.prems(6)] by simp
  have gt: "n < unat sz" using Cons.prems(8) by simp
  note st = copy_step [OF g(4) Cons.prems(3) gt]
  let ?mem = "buf_write mem ptr (pg g p)" and ?sz = "sz - ucast (word_of_nat n :: u16)"
  have l: "length (pg g p) = n" using page_len g Cons.prems(3) by simp
  have sz: "unat ?sz = unat sz - n" using gt by (rule size_left)
  have prem: "length L * n < unat ?sz" "ptr + n + length L * n \<le> length ?mem"
    using Cons.prems(8,9) sz l by (auto simp: length_buf_write)
  have "\<exists>d'. copy_blocks rd (word_of_nat B) (word_of_nat N) (word_of_nat n) (word_of_nat g) (word_of_nat (Suc p)) (ptr + n) ?sz ?mem d1 =
      Some (0, buf_write ?mem (ptr + n) (concat (map (case_prod pg) L)), d') \<and> ok d'"
  proof (cases "L = []")
    case True
    have "\<not> Suc g < B"
    proof
      assume "Suc g < B"
      then have "B - 1 \<in> set (filter good [Suc g..<B])" using Cons.prems(5) by simp
      then have "pages_from g N \<noteq> []" using bounds(2) by (force simp: pages_from_def filter_empty_conv)
      moreover have "pages_from g (Suc p) = pages_from g N"
        using True L(2) Cons.prems(3) by (cases "Suc p < N") (auto simp: pages_from_def less_Suc_eq)
      ultimately show False using True L(2) by simp
    qed
    moreover have "Suc p = N" using True L(2) Cons.prems(3) by (cases "Suc p < N") (auto simp: pages_from_def)
    ultimately show ?thesis using copy_end [OF _ g(2), of ?sz] sz gt g(5) True by (simp add: buf_write_Nil)
  next
    case False
    show ?thesis
    proof (cases "Suc p < N")
      case True
      show ?thesis using Cons.IH [OF g(5,2) True _ Cons.prems(5) L(2) False prem] g(3) by simp
    next
      case N: False
      then have N: "Suc p = N" using Cons.prems(3) by simp
      have e: "L = pages_from (Suc g) 0" unfolding L(2) N by (rule pages_from_end)
      then have sg: "Suc g < B" using False pages_from_first [of "Suc g"] by auto
      show ?thesis
        using copy_next_block [OF sg, of ?sz "ptr + n" ?mem d1] N sz gt
          Cons.IH [OF g(5) sg bounds(2) _ Cons.prems(5) e False prem] by simp
    qed
  qed
  moreover have "buf_write ?mem (ptr + n) (concat (map (case_prod pg) L)) = buf_write mem ptr (concat (map (case_prod pg) (x # L)))"
    using buf_write_twice [of ptr "pg g p" "concat (map (case_prod pg) L)" mem] l lL L(1) Cons.prems(9) by simp
  ultimately show ?case unfolding st by simp
qed simp

end

section \<open>The two configurations\<close>

text \<open>All good pages in order, from the start of block \<open>b\<close> on.\<close>

definition good_pages :: "(nat \<Rightarrow> bool) \<Rightarrow> nat \<Rightarrow> nat \<Rightarrow> nat \<Rightarrow> (nat \<times> nat) list" where
  "good_pages good B N b = concat (map (\<lambda>g. map (Pair g) [0..<N]) (filter good [b..<B]))"

text \<open>The number of pages that the copy of \<open>sz\<close> bytes reads: at least one.\<close>

definition pages_read :: "nat \<Rightarrow> nat \<Rightarrow> nat" where
  "pages_read n sz = (if sz \<le> n then 1 else (sz + n - 1) div n)"

lemma pages_read_bounds:
  assumes "0 < n"
  shows "0 < pages_read n sz" "sz \<le> pages_read n sz * n" "1 < pages_read n sz \<longrightarrow> (pages_read n sz - 1) * n < sz"
proof -
  have d: "(sz + n - 1) div n * n + (sz + n - 1) mod n = sz + n - 1" by simp
  have m: "(sz + n - 1) mod n < n" using assms by simp
  show "0 < pages_read n sz" using assms div_greater_zero_iff [of "sz + n - 1" n] by (auto simp: pages_read_def)
  have "sz \<le> (sz + n - 1) div n * n" using d m assms by linarith
  then show "sz \<le> pages_read n sz * n" by (simp add: pages_read_def)
  show "1 < pages_read n sz \<longrightarrow> (pages_read n sz - 1) * n < sz"
  proof
    assume "1 < pages_read n sz"
    then have "pages_read n sz = (sz + n - 1) div n" "n < sz" by (auto simp: pages_read_def split: if_splits)
    then show "(pages_read n sz - 1) * n < sz" using d assms by (simp only: diff_mult_distrib)
  qed
qed

context page_source begin

lemma pages_from_good_pages: "pages_from b 0 = good_pages good B N b"
  by (simp add: pages_from_def good_pages_def)

lemma copy_good_pages:
  assumes "ok d" "b < B" "K = pages_read n (unat sz)" "K \<le> length (good_pages good B N b)" "ptr + K * n \<le> length mem"
  shows "\<exists>d'. copy_blocks rd (word_of_nat B) (word_of_nat N) (word_of_nat n) (word_of_nat b) (word_of_nat 0) ptr sz mem d =
    Some (0, buf_write mem ptr (concat (map (case_prod pg) (take K (good_pages good B N b)))), d')"
proof -
  note pr = pages_read_bounds [OF bounds(4), of "unat sz", folded assms(3)]
  obtain K' where "K = Suc K'" using pr(1) by (metis not0_implies_Suc less_numeral_extra(3))
  then show ?thesis
    using copy_pages_ok [OF assms(1,2) bounds(2), of K' sz ptr mem] pr(2,3) assms(4,5) pages_from_good_pages by auto
qed

lemma copy_short:
  assumes "ok d" "b < B" "good (B - 1)" "L = good_pages good B N b" "length L * n < unat sz" "ptr + length L * n \<le> length mem"
  shows "\<exists>d'. copy_blocks rd (word_of_nat B) (word_of_nat N) (word_of_nat n) (word_of_nat b) (word_of_nat 0) ptr sz mem d =
    Some (0, buf_write mem ptr (concat (map (case_prod pg) L)), d')"
proof -
  have "B - 1 \<in> set (filter good [b..<B])" using assms(2,3) by simp
  then have "(B - 1, 0) \<in> set L" unfolding assms(4) good_pages_def set_concat set_map
    using bounds(2) by (intro UN_I [of "map (Pair (B - 1)) [0..<N]"] imageI) simp_all
  then have "L \<noteq> []" by auto
  then show ?thesis
    using copy_pages_short [OF assms(1,2) bounds(2) _ assms(3), of L sz ptr mem] assms(4-6) pages_from_good_pages by auto
qed

end

lemma NandInit_fields:
  assumes "NandInit op_bootstrap u bus pin s = Some s1" "nand_geometry (raw_model (skipBlockNf s1))"
  shows "numBlocks s1 = word_of_nat (nand_blocks (raw_model (skipBlockNf s1)))"
    "numPagesPerBlock s1 = word_of_nat (nand_pages (raw_model (skipBlockNf s1)))"
    "pageSize s1 = word_of_nat (data_size (raw_model (skipBlockNf s1)))" "sdram s1 = sdram s"
  using assms by (auto simp: NandInit_def Let_def nand_geometry_def NandFlashModel_GetPageDataSize_def split: bind_splits)

lemma CopyBin_copy:
  fixes s :: "'d nand_boot"
  assumes init: "NandInit op_bootstrap u bus pin s = Some s1" and m: "m = raw_model (skipBlockNf s1)" and g: "nand_geometry m"
    and b: "b < nand_blocks m" and off: "unat off = b * unat (NandFlashModel_GetBlockSizeInBytes m)"
    and inside: "op_bootstrap \<or> unat off + unat sz \<le> unat (NandFlashModel_GetDeviceSizeInBytes m)"
  shows "BOOT_NAND_CopyBin op_bootstrap u bus pin off sz target s =
    map_option (\<lambda>(result, mem, d). (result, s1\<lparr>sdram := mem, nand := d\<rparr>))
      (copy_blocks (\<lambda>block page. SkipBlockNandFlash_ReadPage op_bootstrap (skipBlockNf s1) u block page True False)
        (word_of_nat (nand_blocks m)) (word_of_nat (nand_pages m)) (word_of_nat (data_size m)) (word_of_nat b) (word_of_nat 0)
        (unat target) sz (sdram s) (nand s1))"
proof -
  let ?B = "nand_blocks m" and ?N = "nand_pages m" and ?n = "data_size m"
  note fields = NandInit_fields [OF init g [unfolded m], folded m]
  have ge: "256 \<le> ?n" "0 < ?N" "?B \<le> 32768" "?N * ?n = unat (blockSizeInKBytes m) * 1024"
    using g by (auto simp: nand_geometry_def NandFlashModel_GetPageDataSize_def)
  have bb: "unat (NandFlashModel_GetBlockSizeInBytes m) = ?N * ?n" "unat (NandFlashModel_GetDeviceSizeInBytes m) = ?B * (?N * ?n)"
    using block_bytes [OF g] by (simp_all add: NandFlashModel_GetPageDataSize_def mult.assoc)
  have "unat (off mod 4) = 0" using off ge(4) bb(1) by (simp add: unat_mod mult.assoc [symmetric])
  then have al: "off mod 4 = 0" by (simp only: unat_eq_zero)
  have le: "unat off \<le> unat (NandFlashModel_GetDeviceSizeInBytes m)"
    using off bb b by (simp add: mult_le_mono)
  have "unat off div unat (NandFlashModel_GetBlockSizeInBytes m) = b" "unat off mod unat (NandFlashModel_GetBlockSizeInBytes m) = 0"
    using off bb(1) ge(1,2) by simp_all
  moreover have "unat off mod unat (pageSizeInBytes m) = 0"
    using off bb(1) by (simp add: NandFlashModel_GetPageDataSize_def)
  ultimately have tr: "NandFlashModel_TranslateAccess op_bootstrap m off sz = Some (Inr (word_of_nat b, 0, 0))"
    using TranslateAccess_inside [OF g le inside] by simp
  have lt: "(word_of_nat b :: u16) < word_of_nat ?B" using b ge(3) by (subst u16_of_nat_less) simp_all
  show ?thesis
    using init al tr lt fields m by (simp add: BOOT_NAND_CopyBin_def option_bind_eq split: option.splits prod.splits)
qed

context nand_device begin

lemma geometry_bounds: "nand_blocks m \<le> 32768" "0 < nand_pages m" "nand_pages m \<le> 512" "0 < data_size m" "data_size m < 2 ^ 16"
  using geometry u16_less [of "NandFlashModel_GetPageDataSize m"]
  by (auto simp: nand_geometry_def NandFlashModel_GetPageDataSize_def)

lemma unat_block: "b < nand_blocks m \<Longrightarrow> unat (word_of_nat b :: u16) = b"
  using geometry_bounds(1) by (simp add: unat_of_nat take_bit_nat_eq_self)

lemma unat_page: "p < nand_pages m \<Longrightarrow> unat (word_of_nat p :: u16) = p"
  using geometry_bounds(3) by (simp add: unat_of_nat take_bit_nat_eq_self)

text \<open>With \<open>OP_BOOTSTRAP_on\<close> every block is good and its pages are as they are on the chip.\<close>

lemma raw_source:
  assumes op_bootstrap "ready d0"
  shows "page_source (\<lambda>block page. SkipBlockNandFlash_ReadPage op_bootstrap raw u block page True False) (\<lambda>_. True)
    (\<lambda>b p. take (data_size m) (content d0 (b * nand_pages m + p))) (\<lambda>d. ready d \<and> content d = content d0)
    (nand_blocks m) (nand_pages m) (data_size m)"
proof unfold_locales
  fix d b p
  assume d: "ready d \<and> content d = content d0" and b: "b < nand_blocks m" and p: "p < nand_pages m"
  have bounds: "unat (word_of_nat p :: u16) < nand_pages m" "unat (word_of_nat b :: u16) < nand_blocks m"
    using b p unat_block unat_page by simp_all
  obtain d' where "RawNandFlash_ReadPage op_bootstrap raw (word_of_nat b) (word_of_nat p) True False d =
      Some ((0, take (data_size m) (content d (b * nand_pages m + p)), []), d')" "ready d'" "content d' = content d"
    using read_page [OF _ _ bounds, of d True False] d b p unat_block unat_page by auto
  then show "\<exists>x d'. SkipBlockNandFlash_ReadPage op_bootstrap raw u (word_of_nat b) (word_of_nat p) True False d =
      Some ((0, take (data_size m) (content d0 (b * nand_pages m + p)), x), d') \<and> ready d' \<and> content d' = content d0"
    using assms d by (auto simp: SkipBlockNandFlash_ReadPage_def)
next
  fix b p
  have "length (content d0 (b * nand_pages m + p)) = data_size m + spare_size m" using page_length [OF assms(2)] .
  then show "length (take (data_size m) (content d0 (b * nand_pages m + p))) = data_size m" by simp
qed (use geometry_bounds in auto)

text \<open>Without it, the blocks with intact markers are good, and their pages are corrected.\<close>

lemma holds_page_length: "holds_page m img old \<Longrightarrow> length img = data_size m"
  by (auto simp: holds_page_def dest!: flips_length)

lemma ecc_source:
  assumes "\<not> op_bootstrap" "nand_layout_ok m" "stack_ok u" "ready d0"
    and img: "\<And>b p. b < nand_blocks m \<Longrightarrow> p < nand_pages m \<Longrightarrow> good_block m (content d0) (word_of_nat b) \<Longrightarrow>
      holds_page m (img b p) (content d0 (b * nand_pages m + p))"
  shows "page_source (\<lambda>block page. SkipBlockNandFlash_ReadPage op_bootstrap raw u block page True False)
    (\<lambda>b. good_block m (content d0) (word_of_nat b)) img (\<lambda>d. ready d \<and> content d = content d0)
    (nand_blocks m) (nand_pages m) (data_size m)"
proof unfold_locales
  fix d b p
  assume d: "ready d \<and> content d = content d0" and b: "b < nand_blocks m" and p: "p < nand_pages m"
  have bounds: "unat (word_of_nat p :: u16) < nand_pages m" "unat (word_of_nat b :: u16) < nand_blocks m"
    using b p unat_block unat_page by simp_all
  have gb: "good_block m (content d) (word_of_nat b) = good_block m (content d0) (word_of_nat b)" using d by (simp add: good_block_def)
  obtain d1 where d1: "CheckBlock op_bootstrap raw u (word_of_nat b) d =
      Some (if good_block m (content d0) (word_of_nat b) then GOODBLOCK else BADBLOCK, d1)" "ready d1" "content d1 = content d0"
    using CheckBlock_ok [OF assms(2,3) _ bounds(2), of d] d assms(1) gb by auto
  show "\<exists>x d'. SkipBlockNandFlash_ReadPage op_bootstrap raw u (word_of_nat b) (word_of_nat p) True False d =
      Some ((NandCommon_ERROR_BADBLOCK, [], x), d') \<and> ready d' \<and> content d' = content d0"
    if "\<not> good_block m (content d0) (word_of_nat b)"
    using that d1 assms(1) by (simp add: SkipBlockNandFlash_ReadPage_def BADBLOCK_def GOODBLOCK_def)
  assume good: "good_block m (content d0) (word_of_nat b)"
  from img [OF b p good] obtain blocks received sp where h: "content d0 (b * nand_pages m + p) = concat received @ sp"
      "img b p = concat blocks" "256 * length blocks = data_size m" "list_all2 at_most_one_flip blocks received"
      "ecc_valid (model_scheme m) blocks sp"
    by (auto simp: holds_page_def)
  have c: "content d1 (unat (word_of_nat b :: u16) * nand_pages m + unat (word_of_nat p :: u16)) = concat received @ sp"
    using h(1) d1(3) b p unat_block unat_page by simp
  show "\<exists>x d'. SkipBlockNandFlash_ReadPage op_bootstrap raw u (word_of_nat b) (word_of_nat p) True False d =
      Some ((0, img b p, x), d') \<and> ready d' \<and> content d' = content d0"
    using ecc_read [OF assms(2,3) d1(2) bounds h(3,4) c h(5), of True False] d1 good assms(1) h(2)
    by (auto simp: SkipBlockNandFlash_ReadPage_def)
next
  fix b p
  assume "b < nand_blocks m" "p < nand_pages m" "good_block m (content d0) (word_of_nat b)"
  then show "length (img b p) = data_size m" using holds_page_length img by blast
qed (use geometry_bounds in auto)

end

section \<open>A chip to boot from\<close>

context nand_device begin

lemma check_blocks_ok:
  assumes "nand_layout_ok m" "stack_ok u"
  shows "ready d \<Longrightarrow> block + k \<le> nand_blocks m \<Longrightarrow>
    \<exists>d'. check_blocks op_bootstrap raw u block k d = Some d' \<and> ready d' \<and> content d' = content d"
proof (induction k arbitrary: block d)
  case (Suc k)
  have "unat (word_of_nat block :: u16) < nand_blocks m" using unat_block Suc.prems(2) by simp
  from CheckBlock_ok [OF assms Suc.prems(1) this] obtain r d1 where
    "CheckBlock op_bootstrap raw u (word_of_nat block) d = Some (r, d1)" "ready d1" "content d1 = content d" by blast
  then show ?case using Suc.IH [of d1 "Suc block"] Suc.prems(2) by simp
qed simp

end

definition boot_state :: "(nat \<Rightarrow> bytes) \<Rightarrow> bytes \<Rightarrow> nand_chip nand_boot" where
  "boot_state pages mem = \<lparr>memSize = 0, blockSize = 0, numBlocks = 0, pageSize = 0, numPagesPerBlock = 0, nfBusWidth = 16,
     skipBlockNf = chip_raw demo_model True, sdram = mem, nand = boot_chip pages\<rparr>"

lemma boot_id:
  "RawNandFlash_Initialize op_bootstrap None (chip_bus demo_model) True (chip_raw demo_model True) (boot_chip pages) =
    Some (0, chip_raw demo_model True, (boot_chip pages)\<lparr>creg := [0x2C, 0xDA, 0x10, 0x15], caddr := [0], cptr := 4\<rparr>)"
proof -
  have "NandFlashModel_Find False nandFlashModelList 0x1510DA2C = Inr demo_model"
    unfolding demo_model_def by code_simp
  then have f: "NandFlashModel_Find op_bootstrap nandFlashModelList 0x1510DA2C = Inr demo_model"
    using Find_any_configuration by metis
  have r: "(chip_raw demo_model True)\<lparr>raw_bus := chip_bus demo_model, ready_busy_pin := True\<rparr> = chip_raw demo_model True"
      "(chip_raw demo_model True)\<lparr>raw_model := demo_model\<rparr> = chip_raw demo_model True"
    by (simp_all add: chip_raw_def)
  have c: "(ucast (ucast COMMAND_RESET :: u16) :: u8) = COMMAND_RESET" "(ucast (ucast COMMAND_READID :: u16) :: u8) = COMMAND_READID"
    by (simp_all add: command_defs)
  have a: "write_address8 (chip_bus demo_model) 0 c = c\<lparr>caddr := caddr c @ [0], cptr := le_value (take 2 (caddr c @ [0]))\<rparr>" for c
    by (simp add: chip_bus_def)
  have i: "RawNandFlash_ReadId (chip_raw demo_model True) ((boot_chip pages)\<lparr>cstatus := False\<rparr>) =
      (0x1510DA2C, (boot_chip pages)\<lparr>creg := [0x2C, 0xDA, 0x10, 0x15], caddr := [0], cptr := 4\<rparr>)"
    by (simp add: RawNandFlash_ReadId_def Let_def c chip_commands a boot_chip_def chip_read8_def)
  have w: "RawNandFlash_Reset (chip_raw demo_model True) (boot_chip pages) = Some ((boot_chip pages)\<lparr>cstatus := False\<rparr>)"
    by (simp add: RawNandFlash_Reset_def Let_def c chip_commands WaitReady_chip boot_chip_def)
  show ?thesis using f by (simp add: RawNandFlash_Initialize_def Let_def r w i)
qed

lemma boot_init:
  assumes "\<And>r. length (pages r) = 2112"
  shows "\<exists>s1. NandInit op_bootstrap demo_stack (chip_bus demo_model) True (boot_state pages mem) = Some s1 \<and>
    skipBlockNf s1 = chip_raw demo_model True \<and> chip_ready demo_model (nand s1) \<and> cpages (nand s1) = pages \<and>
    sdram (boot_state pages mem) = mem"
proof -
  let ?c = "(boot_chip pages)\<lparr>creg := [0x2C, 0xDA, 0x10, 0x15], caddr := [0], cptr := 4\<rparr>"
  have g: "nand_geometry demo_model" "nand_layout_ok demo_model" using demo_chip_model by (simp_all add: chip_model_def)
  have rd: "chip_ready demo_model ?c" using assms by (simp add: chip_ready_def demo_sizes boot_chip_def)
  have "\<exists>d. SkipBlockNandFlash_Initialize op_bootstrap demo_stack None (chip_bus demo_model) True
      (chip_raw demo_model True) (boot_chip pages) = Some (0, chip_raw demo_model True, d) \<and> chip_ready demo_model d \<and> cpages d = pages"
  proof (cases op_bootstrap)
    case True
    then show ?thesis using rd by (simp add: SkipBlockNandFlash_Initialize_def boot_id) (simp add: boot_chip_def)
  next
    case False
    have "unat (word_of_nat (nand_blocks demo_model) :: u16) = 2048" by (simp add: demo_sizes)
    moreover obtain d where "check_blocks op_bootstrap (chip_raw demo_model True) demo_stack 0 2048 ?c = Some d"
        "chip_ready demo_model d" "cpages d = pages"
      using chip_with_pin.check_blocks_ok [of demo_stack ?c 0 2048 op_bootstrap] g(2) demo_stack_ok rd
      by (auto simp: demo_sizes boot_chip_def)
    ultimately show ?thesis
      using False g(1) by (simp add: SkipBlockNandFlash_Initialize_def boot_id nand_geometry_def)
  qed
  then show ?thesis using g(1) by (auto simp: NandInit_def Let_def nand_geometry_def boot_state_def)
qed

section \<open>Properties\<close>

lemma all_pages: "map (\<lambda>(g, q). g * N + q) (good_pages (\<lambda>_. True) B N b) = [b * N..<B * N]" if "b \<le> B"
  using that
proof (induction "B - b" arbitrary: b)
  case 0
  then show ?case by (simp add: good_pages_def)
next
  case (Suc k)
  then have "map (\<lambda>(g, q). g * N + q) (good_pages (\<lambda>_. True) B N (Suc b)) = [Suc b * N..<B * N]" "b < B" by simp_all
  moreover have "map (\<lambda>q. b * N + q) [0..<N] = [b * N..<Suc b * N]"
    using map_add_upt [of "b * N" N] by (simp add: add.commute)
  moreover have "[b * N..<Suc b * N] @ [Suc b * N..<B * N] = [b * N..<B * N]"
    using \<open>b < B\<close> upt_add_eq_append [of "b * N" "Suc b * N" "B * N - Suc b * N"] mult_le_mono1 [of "Suc b" B N] by simp
  ultimately show ?case by (simp add: good_pages_def upt_conv_Cons comp_def)
qed

text \<open>
  C29. With the library as it is built, with \<open>OP_BOOTSTRAP_on\<close>, on any chip that keeps the contract of the
  raw driver: the copy from the start of a block delivers the pages from there on as they are on the
  chip, without regard to bad block markers and codes, and reports success.
\<close>
theorem nand_boot_as_built:
  assumes "NandInit True u bus pin s = Some s1" and "m = raw_model (skipBlockNf s1)"
    and "nand_device True (skipBlockNf s1) content ready" and "ready (nand s1)" and "b < nand_blocks m"
    and "unat off = b * unat (NandFlashModel_GetBlockSizeInBytes m)" and "K = pages_read (data_size m) (unat sz)"
    and "b * nand_pages m + K \<le> nand_blocks m * nand_pages m" and "unat target + K * data_size m \<le> length (sdram s)"
  shows "\<exists>s2. BOOT_NAND_CopyBin True u bus pin off sz target s = Some (BOOT_NAND_SUCCESS, s2) \<and>
    sdram s2 = buf_write (sdram s) (unat target)
      (concat (map (\<lambda>r. take (data_size m) (content (nand s1) r)) [b * nand_pages m..<b * nand_pages m + K]))"
proof -
  note dev = assms(3)
  have g: "nand_geometry m" using nand_device.geometry [OF dev] assms(2) by simp
  note ps = nand_device.raw_source [OF dev _ assms(4), of u, folded assms(2), simplified]
  let ?L = "good_pages (\<lambda>_. True) (nand_blocks m) (nand_pages m) b"
  have L: "map (\<lambda>(g, q). g * nand_pages m + q) ?L = [b * nand_pages m..<nand_blocks m * nand_pages m]"
    using assms(5) by (intro all_pages) simp
  then have len: "length ?L = nand_blocks m * nand_pages m - b * nand_pages m" by (metis length_map length_upt)
  have "map (\<lambda>(g, q). take (data_size m) (content (nand s1) (g * nand_pages m + q))) (take K ?L) =
      map (\<lambda>r. take (data_size m) (content (nand s1) r)) (take K (map (\<lambda>(g, q). g * nand_pages m + q) ?L))"
    by (simp add: take_map comp_def case_prod_beta)
  then have img: "map (\<lambda>(g, q). take (data_size m) (content (nand s1) (g * nand_pages m + q))) (take K ?L) =
      map (\<lambda>r. take (data_size m) (content (nand s1) r)) [b * nand_pages m..<b * nand_pages m + K]"
    unfolding L using assms(8) by (simp add: take_upt)
  have "K \<le> length ?L" using len assms(8) by simp
  from page_source.copy_good_pages [OF ps _ assms(5,7) this assms(9), of "nand s1"] assms(4)
  obtain d' where "copy_blocks (\<lambda>block page. SkipBlockNandFlash_ReadPage True (skipBlockNf s1) u block page True False)
        (word_of_nat (nand_blocks m)) (word_of_nat (nand_pages m)) (word_of_nat (data_size m)) (word_of_nat b) (word_of_nat 0)
        (unat target) sz (sdram s) (nand s1) = Some (0, buf_write (sdram s) (unat target)
          (concat (map (\<lambda>(g, q). take (data_size m) (content (nand s1) (g * nand_pages m + q))) (take K ?L))), d')"
    by blast
  then show ?thesis
    using CopyBin_copy [OF assms(1,2) g assms(5,6), of sz target] unfolding img by (auto simp: BOOT_NAND_SUCCESS_def)
qed

lemma erased_length: "length (erased demo_model) = 2112"
  by (simp add: erased_def demo_sizes)

theorem nand_boot_as_built_witness:
  "\<exists>s2. BOOT_NAND_CopyBin True demo_stack (chip_bus demo_model) True 0x20000 1 0 (boot_state (\<lambda>_. erased demo_model) (replicate 4096 0))
      = Some (BOOT_NAND_SUCCESS, s2) \<and>
    sdram s2 = buf_write (replicate 4096 0) 0 (take 2048 (erased demo_model))"
proof -
  obtain s1 where s1: "NandInit True demo_stack (chip_bus demo_model) True (boot_state (\<lambda>_. erased demo_model) (replicate 4096 0)) = Some s1"
      "skipBlockNf s1 = chip_raw demo_model True" "chip_ready demo_model (nand s1)" "cpages (nand s1) = (\<lambda>_. erased demo_model)"
      "sdram (boot_state (\<lambda>_. erased demo_model) (replicate 4096 0)) = replicate 4096 0"
    using boot_init [of "\<lambda>_. erased demo_model" True "replicate 4096 0", OF erased_length] by blast
  have m: "demo_model = raw_model (skipBlockNf s1)" using s1(2) by simp
  have dev: "nand_device True (skipBlockNf s1) cpages (chip_ready demo_model)"
    unfolding s1(2) by (rule chip_with_pin.nand_device_axioms)
  have h: "1 < nand_blocks demo_model" "unat (0x20000 :: u32) = 1 * unat (NandFlashModel_GetBlockSizeInBytes demo_model)"
      "1 = pages_read (data_size demo_model) (unat (1 :: u32))" "1 * nand_pages demo_model + 1 \<le> nand_blocks demo_model * nand_pages demo_model"
      "unat (0 :: u32) + 1 * data_size demo_model \<le> length (sdram (boot_state (\<lambda>_. erased demo_model) (replicate 4096 0)))"
    using s1(5) by (simp_all add: demo_sizes pages_read_def)
  from nand_boot_as_built [OF s1(1) m dev s1(3) h] show ?thesis by (simp add: s1(4,5) demo_sizes)
qed

text \<open>A chip with one bad block, the last but one; erased pages hold the erased image.\<close>

definition bad_pages :: "nat \<Rightarrow> bytes" where
  "bad_pages r = (if r = 130944 then (erased demo_model)[2048 := 0] else erased demo_model)"

lemma bad_pages_length: "length (bad_pages r) = 2112"
  by (simp add: bad_pages_def erased_length)

lemma Compute256_erased: "Compute256 (replicate 256 0xFF) = [0xFF, 0xFF, 0xFF]"
  by code_simp

lemma erased_nth: "i < 2112 \<Longrightarrow> erased demo_model ! i = 0xFF"
  by (simp add: erased_def demo_sizes)

lemma bad_pages_good: "g < 2048 \<Longrightarrow> good_block demo_model bad_pages (word_of_nat g) \<longleftrightarrow> g \<noteq> 2046"
proof -
  assume "g < 2048"
  then have u: "unat (word_of_nat g :: u16) = g" by (simp add: unat_of_nat take_bit_nat_eq_self)
  have n: "bad_pages r ! 2048 = (if r = 130944 then 0 else 0xFF)" for r
    using erased_nth [of 2048] erased_length by (simp add: bad_pages_def)
  have "(\<forall>q < 2. bad_pages (g * 64 + q) ! 2048 = 0xFF) \<longleftrightarrow> (\<forall>q < 2. g * 64 + q \<noteq> 130944)"
    unfolding n by auto
  also have "\<dots> \<longleftrightarrow> g \<noteq> 2046" by presburger
  finally show ?thesis by (simp add: good_block_def u demo_sizes nandSpareScheme2048_def)
qed

lemma concat_replicates: "concat (replicate k (replicate n x)) = replicate (k * n) x"
  by (induction k) (simp_all add: replicate_add)

lemma bad_good_pages:
  "good_pages (\<lambda>g. good_block demo_model bad_pages (word_of_nat g)) (nand_blocks demo_model) (nand_pages demo_model) 2046
    = map (Pair 2047) [0..<64]"
proof -
  have "[2046..<2048] = [2046, 2047 :: nat]" by (simp add: upt_rec)
  then show ?thesis using bad_pages_good [of 2046] bad_pages_good [of 2047] by (simp add: good_pages_def demo_sizes)
qed

lemma holds_erased: "holds_page demo_model (replicate 2048 0xFF) (erased demo_model)"
proof -
  let ?blocks = "replicate 8 (replicate 256 (0xFF :: u8))"
  have "erased demo_model = concat ?blocks @ replicate 64 0xFF"
    by (simp add: concat_replicates erased_def demo_sizes flip: replicate_add)
  moreover have "replicate 2048 0xFF = concat ?blocks" by (simp add: concat_replicates)
  moreover have "256 * length ?blocks = data_size demo_model" by (simp add: demo_sizes)
  moreover have "list_all2 at_most_one_flip ?blocks ?blocks" by (simp add: list_all2_refl at_most_one_flip_def list_all2_conv_all_nth)
  moreover have "ecc_valid (model_scheme demo_model) ?blocks (replicate 64 0xFF)"
  proof -
    have "concat (map Compute256 ?blocks) = replicate 24 0xFF"
      using concat_replicates [of 8 3 "0xFF :: u8"] by (simp add: Compute256_erased numeral_3_eq_3)
    moreover have "\<forall>p \<in> set (eccBytesPositions nandSpareScheme2048). unat p < 64" "length (eccBytesPositions nandSpareScheme2048) = 24"
      by (simp_all add: nandSpareScheme2048_def)
    ultimately show ?thesis by (simp add: ecc_valid_def demo_sizes)
  qed
  ultimately show ?thesis unfolding holds_page_def by blast
qed

lemma bad_holds:
  assumes "g < nand_blocks demo_model" "p < nand_pages demo_model" "good_block demo_model bad_pages (word_of_nat g)"
  shows "holds_page demo_model (replicate 2048 0xFF) (bad_pages (g * nand_pages demo_model + p))"
proof -
  have "g \<noteq> 2046" using assms bad_pages_good by (simp add: demo_sizes)
  then have "g * 64 + p \<noteq> 130944" using assms(2) by (simp add: demo_sizes)
  then show ?thesis using holds_erased by (simp add: bad_pages_def demo_sizes)
qed

lemma bad_boot:
  "\<exists>s1. NandInit False demo_stack (chip_bus demo_model) True (boot_state bad_pages mem) = Some s1 \<and>
    demo_model = raw_model (skipBlockNf s1) \<and> nand_device False (skipBlockNf s1) cpages (chip_ready demo_model) \<and>
    chip_ready demo_model (nand s1) \<and> cpages (nand s1) = bad_pages \<and> sdram (boot_state bad_pages mem) = mem"
proof -
  from boot_init [of bad_pages False mem, OF bad_pages_length] obtain s1 where s1:
    "NandInit False demo_stack (chip_bus demo_model) True (boot_state bad_pages mem) = Some s1"
    "skipBlockNf s1 = chip_raw demo_model True" "chip_ready demo_model (nand s1)" "cpages (nand s1) = bad_pages"
    "sdram (boot_state bad_pages mem) = mem" by blast
  then show ?thesis using chip_with_pin.nand_device_axioms [of False] by (intro exI [of _ s1]) simp
qed

text \<open>
  C28. With the library built without \<open>OP_BOOTSTRAP_on\<close>, on any chip that keeps the contract: the copy
  skips the blocks with a damaged marker, corrects single bit errors in the pages of the good ones, and
  delivers as many of their pages, in order, as the image has, if the good blocks suffice.
\<close>
theorem nand_boot_as_designed:
  assumes "NandInit False u bus pin s = Some s1" and "m = raw_model (skipBlockNf s1)"
    and "nand_device False (skipBlockNf s1) content ready" and "ready (nand s1)" and "b < nand_blocks m"
    and "nand_layout_ok m" and "stack_ok u"
    and "unat off = b * unat (NandFlashModel_GetBlockSizeInBytes m)"
    and "unat off + unat sz \<le> unat (NandFlashModel_GetDeviceSizeInBytes m)" and "K = pages_read (data_size m) (unat sz)"
    and "\<And>g p. g < nand_blocks m \<Longrightarrow> p < nand_pages m \<Longrightarrow> good_block m (content (nand s1)) (word_of_nat g) \<Longrightarrow>
      holds_page m (img g p) (content (nand s1) (g * nand_pages m + p))"
    and "L = good_pages (\<lambda>g. good_block m (content (nand s1)) (word_of_nat g)) (nand_blocks m) (nand_pages m) b"
    and "K \<le> length L" and "unat target + K * data_size m \<le> length (sdram s)"
  shows "\<exists>s2. BOOT_NAND_CopyBin False u bus pin off sz target s = Some (BOOT_NAND_SUCCESS, s2) \<and>
    sdram s2 = buf_write (sdram s) (unat target) (concat (map (\<lambda>(g, p). img g p) (take K L)))"
proof -
  note dev = assms(3)
  have g: "nand_geometry m" using nand_device.geometry [OF dev] assms(2) by simp
  have ps: "page_source (\<lambda>block page. SkipBlockNandFlash_ReadPage False (skipBlockNf s1) u block page True False)
      (\<lambda>g. good_block m (content (nand s1)) (word_of_nat g)) img (\<lambda>d. ready d \<and> content d = content (nand s1))
      (nand_blocks m) (nand_pages m) (data_size m)"
    using nand_device.ecc_source [OF dev, folded assms(2), OF _ assms(6,7,4,11)] by simp
  have o: "False \<or> unat off + unat sz \<le> unat (NandFlashModel_GetDeviceSizeInBytes m)" using assms(9) by simp
  from page_source.copy_good_pages [OF ps _ assms(5,10), folded assms(12), OF _ assms(13,14), of "nand s1"] assms(4)
    CopyBin_copy [OF assms(1,2) g assms(5,8) o, of target] show ?thesis
    by (auto simp: BOOT_NAND_SUCCESS_def)
qed

theorem nand_boot_as_designed_witness:
  "\<exists>s2. BOOT_NAND_CopyBin False demo_stack (chip_bus demo_model) True 0xFFC0000 1 0 (boot_state bad_pages (replicate 4096 0))
      = Some (BOOT_NAND_SUCCESS, s2) \<and> sdram s2 = buf_write (replicate 4096 0) 0 (replicate 2048 0xFF)"
proof -
  let ?mem = "replicate 4096 (0 :: u8)"
  obtain s1 where s1: "NandInit False demo_stack (chip_bus demo_model) True (boot_state bad_pages ?mem) = Some s1"
      "demo_model = raw_model (skipBlockNf s1)" "nand_device False (skipBlockNf s1) cpages (chip_ready demo_model)"
      "chip_ready demo_model (nand s1)" "cpages (nand s1) = bad_pages" "sdram (boot_state bad_pages ?mem) = ?mem"
    using bad_boot [of ?mem] by blast
  have h: "2046 < nand_blocks demo_model" "nand_layout_ok demo_model"
      "unat (0xFFC0000 :: u32) = 2046 * unat (NandFlashModel_GetBlockSizeInBytes demo_model)"
      "unat (0xFFC0000 :: u32) + unat (1 :: u32) \<le> unat (NandFlashModel_GetDeviceSizeInBytes demo_model)"
      "1 = pages_read (data_size demo_model) (unat (1 :: u32))" "1 \<le> length (map (Pair (2047 :: nat)) [0..<64])"
      "unat (0 :: u32) + 1 * data_size demo_model \<le> length (sdram (boot_state bad_pages ?mem))"
    using s1(6) demo_chip_model by (simp_all add: demo_sizes pages_read_def chip_model_def)
  from nand_boot_as_designed [OF s1(1-4) h(1,2) demo_stack_ok h(3-5), where img = "\<lambda>_ _. replicate 2048 0xFF", unfolded s1(5),
      OF bad_holds bad_good_pages [symmetric] h(6,7)]
  show ?thesis using s1(6) by (simp add: take_map upt_rec [of 0])
qed

text \<open>
  When bad blocks leave too few good pages for the image and the last block of the device is good,
  the copy stops in the middle of the image and still reports success.
\<close>
theorem nand_boot_truncated:
  assumes "NandInit False u bus pin s = Some s1" and "m = raw_model (skipBlockNf s1)"
    and "nand_device False (skipBlockNf s1) content ready" and "ready (nand s1)" and "b < nand_blocks m"
    and "nand_layout_ok m" and "stack_ok u"
    and "unat off = b * unat (NandFlashModel_GetBlockSizeInBytes m)"
    and "unat off + unat sz \<le> unat (NandFlashModel_GetDeviceSizeInBytes m)"
    and "\<And>g p. g < nand_blocks m \<Longrightarrow> p < nand_pages m \<Longrightarrow> good_block m (content (nand s1)) (word_of_nat g) \<Longrightarrow>
      holds_page m (img g p) (content (nand s1) (g * nand_pages m + p))"
    and "L = good_pages (\<lambda>g. good_block m (content (nand s1)) (word_of_nat g)) (nand_blocks m) (nand_pages m) b"
    and "good_block m (content (nand s1)) (word_of_nat (nand_blocks m - 1))"
    and "length L * data_size m < unat sz" and "unat target + length L * data_size m \<le> length (sdram s)"
  shows "\<exists>s2. BOOT_NAND_CopyBin False u bus pin off sz target s = Some (BOOT_NAND_SUCCESS, s2) \<and>
    sdram s2 = buf_write (sdram s) (unat target) (concat (map (\<lambda>(g, p). img g p) L))"
proof -
  note dev = assms(3)
  have g: "nand_geometry m" using nand_device.geometry [OF dev] assms(2) by simp
  have ps: "page_source (\<lambda>block page. SkipBlockNandFlash_ReadPage False (skipBlockNf s1) u block page True False)
      (\<lambda>g. good_block m (content (nand s1)) (word_of_nat g)) img (\<lambda>d. ready d \<and> content d = content (nand s1))
      (nand_blocks m) (nand_pages m) (data_size m)"
    using nand_device.ecc_source [OF dev, folded assms(2), OF _ assms(6,7,4,10)] by simp
  have o: "False \<or> unat off + unat sz \<le> unat (NandFlashModel_GetDeviceSizeInBytes m)" using assms(9) by simp
  from page_source.copy_short [OF ps _ assms(5,12,11,13,14), of "nand s1"] assms(4)
    CopyBin_copy [OF assms(1,2) g assms(5,8) o, of target] show ?thesis
    by (auto simp: BOOT_NAND_SUCCESS_def)
qed

theorem nand_boot_truncated_witness:
  "\<exists>s2. BOOT_NAND_CopyBin False demo_stack (chip_bus demo_model) True 0xFFC0000 131073 0 (boot_state bad_pages (replicate 131072 0))
      = Some (BOOT_NAND_SUCCESS, s2) \<and>
    sdram s2 = buf_write (replicate 131072 0) 0 (concat (map (\<lambda>(g :: nat, p :: nat). replicate 2048 0xFF) (map (Pair 2047) [0..<64])))"
proof -
  let ?mem = "replicate 131072 (0 :: u8)"
  obtain s1 where s1: "NandInit False demo_stack (chip_bus demo_model) True (boot_state bad_pages ?mem) = Some s1"
      "demo_model = raw_model (skipBlockNf s1)" "nand_device False (skipBlockNf s1) cpages (chip_ready demo_model)"
      "chip_ready demo_model (nand s1)" "cpages (nand s1) = bad_pages" "sdram (boot_state bad_pages ?mem) = ?mem"
    using bad_boot [of ?mem] by blast
  have h: "2046 < nand_blocks demo_model" "nand_layout_ok demo_model"
      "unat (0xFFC0000 :: u32) = 2046 * unat (NandFlashModel_GetBlockSizeInBytes demo_model)"
      "unat (0xFFC0000 :: u32) + unat (131073 :: u32) \<le> unat (NandFlashModel_GetDeviceSizeInBytes demo_model)"
      "good_block demo_model bad_pages (word_of_nat (nand_blocks demo_model - 1))"
      "length (map (Pair (2047 :: nat)) [0..<64]) * data_size demo_model < unat (131073 :: u32)"
      "unat (0 :: u32) + length (map (Pair (2047 :: nat)) [0..<64]) * data_size demo_model \<le> length (sdram (boot_state bad_pages ?mem))"
    using s1(6) demo_chip_model bad_pages_good [of 2047] by (simp_all add: demo_sizes chip_model_def)
  from nand_boot_truncated [OF s1(1-4) h(1,2) demo_stack_ok h(3,4), where img = "\<lambda>_ _. replicate 2048 0xFF", unfolded s1(5),
      OF bad_holds bad_good_pages [symmetric] h(5-7)]
  show ?thesis unfolding s1(6) unat_0 .
qed

end
