(* ===== verification/VirtualFram.thy ===== *)
theory VirtualFram
  imports SdCard
begin

text \<open>
  The virtual FRAM of \<open>bsp_sam9g20/common/fram/VirtualFRAMApi.c\<close>: on the evaluation board, which has no
  FRAM, a file \<open>MISC/FRAM.BIN\<close> on the SD card with the same layout. The names carry the suffix
  \<open>virt\<close>, because the FRAM API of the iOBC has functions of the same names. The local buffers that are
  read into are the bytes that the library delivers; a buffer or pointer of the caller is an argument and
  a result.
\<close>

section \<open>The file\<close>

text \<open>Two functions of the FAT library that only this file uses; \<open>F_SEEK_SET\<close> is the only mode.\<close>

record 'h hcc_random =
  f_seek :: "nat option \<Rightarrow> u32 \<Rightarrow> ('h, int) state"
  f_truncate :: "string \<Rightarrow> u32 \<Rightarrow> ('h, nat option) state"

definition VIRT_FRAM_NAME :: string where "VIRT_FRAM_NAME = ''FRAM.BIN''"
definition VIRT_FRAM_PATH :: string where "VIRT_FRAM_PATH = ''MISC''"

definition close_fram_file :: "'h hcc \<Rightarrow> nat option \<Rightarrow> ('h, int) state" where
  "close_fram_file L file = do {
     result \<leftarrow> change_directory L ''/'' True;
     if result \<noteq> 0 then ret result else f_close L file }"

definition open_fram_file :: "'h hcc \<Rightarrow> 'h hcc_random \<Rightarrow> u32 \<Rightarrow> string \<Rightarrow> ('h, int \<times> nat option) state" where
  "open_fram_file L R seek_pos access_type = do {
     result \<leftarrow> change_directory L VIRT_FRAM_PATH True;
     if result \<noteq> 0 then ret (result, None)
     else do {
       file \<leftarrow> f_open L VIRT_FRAM_NAME access_type;
       result \<leftarrow> f_getlasterror L;
       if result \<noteq> 0 \<or> file = None then ret (result, file)
       else if seek_pos > 0 then do {
         result \<leftarrow> f_seek R file seek_pos;
         if result \<noteq> 0 then ret (result, file) else ret (0, file) }
       else ret (0, file) } }"

text \<open>The length of the file is an \<open>int\<close> of the library that is assigned to a \<open>size_t\<close>.\<close>

definition create_generic_fram_file :: "'h hcc \<Rightarrow> 'h hcc_random \<Rightarrow> ('h, int) state" where
  "create_generic_fram_file L R = do {
     result \<leftarrow> change_directory L VIRT_FRAM_PATH True;
     if result \<noteq> 0 then
       (if result = F_ERR_NOTFOUND L
        then do { _ \<leftarrow> create_directory L (Some VIRT_FRAM_PATH) ''MISC''; ret result }
        else ret result)
     else do {
       file \<leftarrow> f_open L VIRT_FRAM_NAME ''r'';
       result \<leftarrow> f_getlasterror L;
       if result \<noteq> F_ERR_NOTFOUND L then
         (if result = 0 then do {
            filesize \<leftarrow> f_filelength L VIRT_FRAM_NAME;
            file \<leftarrow> (if (word_of_int filesize :: u32) < FRAM_END_ADDR + 1
                      then f_truncate R VIRT_FRAM_NAME (FRAM_END_ADDR + 1) else ret file);
            close_fram_file L file }
          else ret result)
       else do {
         file \<leftarrow> f_open L VIRT_FRAM_NAME ''w'';
         result \<leftarrow> f_getlasterror L;
         if result \<noteq> 0 then ret result
         else do {
           result \<leftarrow> f_close L file;
           if result \<noteq> 0 then ret result
           else do {
             file \<leftarrow> f_truncate R VIRT_FRAM_NAME (FRAM_END_ADDR + 1);
             if file = None then ret (- 1) else close_fram_file L file } } } } }"

definition FRAM_start_virt :: "'h hcc \<Rightarrow> 'h hcc_random \<Rightarrow> ('h, int) state" where
  "FRAM_start_virt L R = create_generic_fram_file L R"

definition delete_generic_fram_file :: "'h hcc \<Rightarrow> ('h, int) state" where
  "delete_generic_fram_file L = do {
     result \<leftarrow> change_directory L VIRT_FRAM_PATH True;
     if result \<noteq> 0 then ret result else f_delete L VIRT_FRAM_NAME }"

section \<open>Reads and writes\<close>

definition fram_read_critical_block_virt ::
    "'h hcc \<Rightarrow> 'h hcc_random \<Rightarrow> bytes \<Rightarrow> u32 \<Rightarrow> ('h, int \<times> bytes) state" where
  "fram_read_critical_block_virt L R buffer max_size = do {
     let size_to_read = struct_size CriticalDataBlock;
     if max_size < word_of_nat size_to_read then ret (- 3, buffer)
     else do {
       (result, file) \<leftarrow> open_fram_file L R CRITICAL_BLOCK_START_ADDR ''r'';
       if result \<noteq> 0 then ret (result, buffer)
       else do {
         bs \<leftarrow> f_read L file size_to_read;
         let buffer = buf_write buffer 0 bs;
         if length bs \<noteq> size_to_read then do { _ \<leftarrow> close_fram_file L file; ret (- 1, buffer) }
         else do { result \<leftarrow> close_fram_file L file; ret (result, buffer) } } } }"

definition fram_set_ham_check_flag_virt :: "'h hcc \<Rightarrow> 'h hcc_random \<Rightarrow> ('h, int) state" where
  "fram_set_ham_check_flag_virt L R = do {
     (result, file) \<leftarrow> open_fram_file L R HAMMING_CHECK_FLAG_ADDR ''r+'';
     if result \<noteq> 0 then ret result
     else do {
       written \<leftarrow> f_write L file [1];
       if written \<noteq> 1 then ret (- 1) else close_fram_file L file } }"

definition fram_write_software_version_virt ::
    "'h hcc \<Rightarrow> 'h hcc_random \<Rightarrow> u8 \<Rightarrow> u8 \<Rightarrow> u8 \<Rightarrow> ('h, int) state" where
  "fram_write_software_version_virt L R software_version software_subversion sw_subsubversion = do {
     (result, file) \<leftarrow> open_fram_file L R FRAM_SOFTWARE_VERSION_ADDR ''r+'';
     if result \<noteq> 0 then ret result
     else do {
       written \<leftarrow> f_write L file [software_version, software_subversion, sw_subsubversion];
       if written \<noteq> 3 then do { _ \<leftarrow> close_fram_file L file; ret (- 1) }
       else close_fram_file L file } }"

text \<open>The three pointers; \<open>None\<close> is a null pointer.\<close>

definition fram_read_software_version_virt ::
    "'h hcc \<Rightarrow> 'h hcc_random \<Rightarrow> u8 option \<Rightarrow> u8 option \<Rightarrow> u8 option \<Rightarrow>
      ('h, int \<times> u8 option \<times> u8 option \<times> u8 option) state" where
  "fram_read_software_version_virt L R version subversion subsubversion =
     (if version = None \<or> subversion = None \<or> subsubversion = None
      then ret (- 3, version, subversion, subsubversion)
      else do {
        (result, file) \<leftarrow> open_fram_file L R FRAM_SOFTWARE_VERSION_ADDR ''r'';
        if result \<noteq> 0 then ret (result, version, subversion, subsubversion)
        else do {
          bs \<leftarrow> f_read L file 3;
          if length bs \<noteq> 3
          then do { _ \<leftarrow> close_fram_file L file; ret (- 1, version, subversion, subsubversion) }
          else do { result \<leftarrow> close_fram_file L file; ret (result, Some (bs ! 0), Some (bs ! 1), Some (bs ! 2)) } } })"

definition fram_update_seconds_since_epoch_virt :: "'h hcc \<Rightarrow> 'h hcc_random \<Rightarrow> u32 \<Rightarrow> ('h, int) state" where
  "fram_update_seconds_since_epoch_virt L R secondsSinceEpoch = do {
     (result, file) \<leftarrow> open_fram_file L R SEC_SINCE_EPOCH_ADDR ''r+'';
     if result \<noteq> 0 then ret result
     else do {
       sizeWritten \<leftarrow> f_write L file (u32_bytes secondsSinceEpoch);
       _ \<leftarrow> close_fram_file L file;
       ret (if sizeWritten \<noteq> 4 then - 1 else result) } }"

definition fram_read_seconds_since_epoch_virt ::
    "'h hcc \<Rightarrow> 'h hcc_random \<Rightarrow> u32 option \<Rightarrow> ('h, int \<times> u32 option) state" where
  "fram_read_seconds_since_epoch_virt L R secondsSinceEpoch =
     (case secondsSinceEpoch of
        None \<Rightarrow> ret (- 3, None)
      | Some old \<Rightarrow> do {
          (result, file) \<leftarrow> open_fram_file L R SEC_SINCE_EPOCH_ADDR ''r'';
          if result \<noteq> 0 then ret (result, Some old)
          else do {
            bs \<leftarrow> f_read L file 4;
            _ \<leftarrow> close_fram_file L file;
            ret (if length bs \<noteq> 4 then - 1 else result, Some (bytes_u32 (buf_write (u32_bytes old) 0 bs))) } })"

section \<open>Functions without effect\<close>

text \<open>They return 0, and leave what their pointers refer to as it is.\<close>

definition fram_set_to_load_softwareupdate_virt :: "bool \<Rightarrow> VolumeId \<Rightarrow> int" where
  "fram_set_to_load_softwareupdate_virt enable volume = 0"
definition fram_zero_out_default_zero_fields_virt :: int where "fram_zero_out_default_zero_fields_virt = 0"
definition fram_clear_ham_check_flag_virt :: int where "fram_clear_ham_check_flag_virt = 0"
definition fram_get_ham_check_flag_virt :: int where "fram_get_ham_check_flag_virt = 0"
definition fram_set_img_ham_flag_virt :: "SlotType \<Rightarrow> int" where "fram_set_img_ham_flag_virt slotType = 0"
definition fram_clear_img_ham_flag_virt :: "SlotType \<Rightarrow> int" where "fram_clear_img_ham_flag_virt slotType = 0"
definition fram_reset_img_reboot_counter_virt :: "SlotType \<Rightarrow> int" where
  "fram_reset_img_reboot_counter_virt slotType = 0"
definition fram_read_bootloader_block_raw_virt :: "bytes \<Rightarrow> u32 \<Rightarrow> int \<times> bytes" where
  "fram_read_bootloader_block_raw_virt buff max_size = (0, buff)"
definition fram_arm_deployment_timer_virt :: "bool \<Rightarrow> int" where "fram_arm_deployment_timer_virt arm = 0"
definition fram_is_deployment_timer_armed_virt :: "u8 option \<Rightarrow> int \<times> u8 option" where
  "fram_is_deployment_timer_armed_virt armed = (0, armed)"
definition fram_get_seconds_on_deployment_timer_virt :: "u32 option \<Rightarrow> int \<times> u32 option" where
  "fram_get_seconds_on_deployment_timer_virt seconds = (0, seconds)"
definition fram_set_seconds_on_deployment_timer_virt :: "u32 \<Rightarrow> int" where
  "fram_set_seconds_on_deployment_timer_virt seconds = 0"
definition fram_increment_seconds_on_deployment_timer_virt :: "u32 \<Rightarrow> int" where
  "fram_increment_seconds_on_deployment_timer_virt incrementSeconds = 0"
definition fram_increment_reboot_counter_virt :: "u32 option \<Rightarrow> int \<times> u32 option" where
  "fram_increment_reboot_counter_virt new_reboot_counter = (0, new_reboot_counter)"

section \<open>Handles\<close>

definition traced_random :: "'h hcc_random \<Rightarrow> ('h \<times> ledger) hcc_random" where
  "traced_random R = \<lparr>f_seek = (\<lambda>f n. unnoted (f_seek R f n)), f_truncate = (\<lambda>n k. noted note_open (f_truncate R n k))\<rparr>"

text \<open>The root of the volume can be entered, and a seek inside the file succeeds.\<close>

definition root_reachable :: "'h hcc \<Rightarrow> bool" where
  "root_reachable L \<longleftrightarrow> (\<forall>h. fst (run_state (f_chdir L ''/'') h) = 0)"

definition seeks :: "'h hcc_random \<Rightarrow> bool" where
  "seeks R \<longleftrightarrow> (\<forall>f n h. fst (run_state (f_seek R f n) h) = 0)"

lemma keeps_seek [keeps_intros]: "keeps (f_seek (traced_random R) f n)"
  by (simp add: traced_random_def keeps_intros)

lemma traced_chdir: "f_chdir (traced L) p = unnoted (f_chdir L p)"
  by (simp add: traced_def)

lemma run_bind: "run_state (m \<bind> k) s = (case run_state m s of (a, s') \<Rightarrow> run_state (k a) s')"
  by (cases m) (auto split: prod.split)

lemma chdir_root:
  assumes "root_reachable L"
  shows "\<exists>h'. run_state (change_directory (traced L) ''/'' True) (h, l) = (0, h', l)"
proof -
  obtain r1 h1 where 1: "run_state (f_chdir L ''/'') h = (r1, h1)" by (metis prod.exhaust)
  obtain r2 h2 where 2: "run_state (f_chdir L ''/'') h1 = (r2, h2)" by (metis prod.exhaust)
  have "r2 = 0" using assms [unfolded root_reachable_def, rule_format, of h1] 2 by simp
  then show ?thesis using 1 2 by (simp add: change_directory_def run_bind traced_chdir run_noted)
qed

lemma run_close:
  assumes "root_reachable L"
  shows "\<exists>r h'. run_state (close_fram_file (traced L) f) (h, l) = (r, h', note_close f l)"
proof -
  obtain h1 where "run_state (change_directory (traced L) ''/'' True) (h, l) = (0, h1, l)"
    using chdir_root [OF assms] by blast
  moreover obtain r h2 where "run_state (f_close L f) h1 = (r, h2)" by (metis prod.exhaust)
  ultimately show ?thesis by (simp add: close_fram_file_def run_bind) (simp add: traced_def run_noted)
qed

lemma closes_fram_file:
  assumes "root_reachable L" and "\<And>x. keeps (k x)"
  shows "closes f (close_fram_file (traced L) f \<bind> k)"
proof -
  have "snd (snd (run_state (close_fram_file (traced L) f \<bind> k) (h, l))) = note_close f l" for h l
  proof -
    obtain r h1 where c: "run_state (close_fram_file (traced L) f) (h, l) = (r, h1, note_close f l)"
      using run_close [OF assms(1)] by blast
    show ?thesis using c assms(2) [unfolded keeps_def, rule_format, of r] by (simp add: run_bind)
  qed
  then show ?thesis by (simp add: closes_def)
qed

lemma closes_fram_file_last:
  "root_reachable L \<Longrightarrow> closes f (close_fram_file (traced L) f)"
  using run_close [of L f] by (metis closes_def prod.collapse snd_conv)

text \<open>A file that is open after the call is noted and positioned; after an error there is none.\<close>

lemma run_open_fram_file:
  assumes "open_reports L" and "seeks R"
    and "run_state (open_fram_file (traced L) (traced_random R) pos m) (h, l) = ((r, f), h', l')"
  shows "if r = 0 then f \<noteq> None \<and> l' = note_open f l else l' = l"
proof -
  obtain r0 h0 l0 where c: "run_state (change_directory (traced L) VIRT_FRAM_PATH True) (h, l) = (r0, h0, l0)"
    by (metis prod.exhaust)
  have l0: "l0 = l" using keeps_run [OF _ c] by (simp add: keeps_intros)
  show ?thesis
  proof (cases "r0 = 0")
    case False
    then show ?thesis using assms(3) c l0 by (simp add: open_fram_file_def run_bind)
  next
    case True
    obtain g h1 l1 where o: "run_state (f_open (traced L) VIRT_FRAM_NAME m) (h0, l) = (g, h1, l1)" by (metis prod.exhaust)
    obtain e h2 l2 where e: "run_state (f_getlasterror (traced L)) (h1, l1) = (e, h2, l2)" by (metis prod.exhaust)
    have l: "l1 = note_open g l" "e = 0 \<longleftrightarrow> g \<noteq> None" "l2 = l1"
      using open_reports_traced [OF assms(1) o] e keeps_run [OF keeps_calls(2) e] by auto
    obtain z h3 where z: "run_state (f_seek R g pos) h2 = (z, h3)" by (metis prod.exhaust)
    then have "z = 0" using assms(2) [unfolded seeks_def, rule_format, of g pos h2] by simp
    then show ?thesis
      using assms(3) c l0 True o e l z
      by (auto simp: open_fram_file_def run_bind traced_random_def run_noted note_open_def split: if_splits)
  qed
qed

lemma note_close_open: "note_close (Some x) (note_open (Some x) l) = l"
  by (simp add: note_close_def note_open_def)

lemma keeps_with_fram_file:
  assumes "open_reports L" and "seeks R" and "\<And>r. keeps (err r)" and "\<And>r f. closes f (body r f)"
  shows "keeps (open_fram_file (traced L) (traced_random R) pos m \<bind>
    (\<lambda>(result, file). if result \<noteq> 0 then err result else body result file))"
proof -
  have "snd (snd (run_state (open_fram_file (traced L) (traced_random R) pos m \<bind>
    (\<lambda>(result, file). if result \<noteq> 0 then err result else body result file)) (h, l))) = l" for h l
  proof -
    obtain r f h' l' where o: "run_state (open_fram_file (traced L) (traced_random R) pos m) (h, l) = ((r, f), h', l')"
      by (metis prod.exhaust)
    have *: "snd (snd (run_state (err r) (h', l'))) = l'" "snd (snd (run_state (body r f) (h', l'))) = note_close f l'"
      using assms(3) [of r] assms(4) [of f r] by (simp_all add: keeps_def closes_def)
    show ?thesis
      using run_open_fram_file [OF assms(1,2) o] o * by (cases f) (auto simp: run_bind note_close_open split: if_splits)
  qed
  then show ?thesis by (simp add: keeps_def)
qed

section \<open>Properties\<close>

lemma keeps_reads_writes:
  assumes "open_reports L" and "root_reachable L" and "seeks R"
  shows "keeps (fram_read_critical_block_virt (traced L) (traced_random R) buffer n)"
    and "keeps (fram_write_software_version_virt (traced L) (traced_random R) a b c)"
    and "keeps (fram_read_software_version_virt (traced L) (traced_random R) va vb vc)"
    and "keeps (fram_update_seconds_since_epoch_virt (traced L) (traced_random R) t)"
    and "keeps (fram_read_seconds_since_epoch_virt (traced L) (traced_random R) old)"
  unfolding fram_read_critical_block_virt_def fram_write_software_version_virt_def fram_read_software_version_virt_def
    fram_update_seconds_since_epoch_virt_def fram_read_seconds_since_epoch_virt_def Let_def
  by (rule keeps_with_fram_file assms closes_fram_file_last closes_fram_file closes_intros keeps_intros)+


text \<open>\<open>empty_files\<close> with a write that fails.\<close>

definition full_card :: "unit hcc" where "full_card = empty_files\<lparr>f_write := \<lambda>_ _. ret 0\<rparr>"

definition any_seek :: "unit hcc_random" where
  "any_seek = \<lparr>f_seek = \<lambda>_ _. ret 0, f_truncate = \<lambda>_ _. ret (Some 4)\<rparr>"




end
