(* ===== verification/KernelList.thy ===== *)
theory KernelList
  imports Prelude "HOL-Library.Multiset"
begin

text \<open>
  The lists of the FreeRTOS kernel, \<open>freertos/src/list.c\<close> and the macros of \<open>freertos/include/freertos/list.h\<close>: doubly
  linked rings through a marker that is part of the head of the list. The configuration of the board sets
  no integrity check bytes. Items and heads are addressed by numbers; a pointer to an item is an item or
  the marker of a list, which the code casts to an item.
\<close>

section \<open>The structures\<close>

datatype item_ptr = Item nat | End nat

record MiniListItem_t =
  xItemValue :: u32
  pxNext :: item_ptr
  pxPrevious :: item_ptr

record ListItem_t = MiniListItem_t +
  pvOwner :: nat
  pxContainer :: "nat option"

record List_t =
  uxNumberOfItems :: u32
  pxIndex :: item_ptr
  xListEnd :: MiniListItem_t

record kernel_lists =
  list_items :: "nat \<Rightarrow> ListItem_t"
  list_heads :: "nat \<Rightarrow> List_t"

definition portMAX_DELAY :: u32 where "portMAX_DELAY = 0xffffffff"

text \<open>Accesses through a pointer.\<close>

fun mini :: "kernel_lists \<Rightarrow> item_ptr \<Rightarrow> MiniListItem_t" where
  "mini s (Item i) = MiniListItem_t.truncate (list_items s i)"
| "mini s (End l) = xListEnd (list_heads s l)"

definition next_of :: "kernel_lists \<Rightarrow> item_ptr \<Rightarrow> item_ptr" where "next_of s p = pxNext (mini s p)"
definition prev_of :: "kernel_lists \<Rightarrow> item_ptr \<Rightarrow> item_ptr" where "prev_of s p = pxPrevious (mini s p)"
definition value_of :: "kernel_lists \<Rightarrow> item_ptr \<Rightarrow> u32" where "value_of s p = xItemValue (mini s p)"

definition set_item :: "nat \<Rightarrow> (ListItem_t \<Rightarrow> ListItem_t) \<Rightarrow> kernel_lists \<Rightarrow> kernel_lists" where
  "set_item i f s = s\<lparr>list_items := (list_items s)(i := f (list_items s i))\<rparr>"

definition set_head :: "nat \<Rightarrow> (List_t \<Rightarrow> List_t) \<Rightarrow> kernel_lists \<Rightarrow> kernel_lists" where
  "set_head l f s = s\<lparr>list_heads := (list_heads s)(l := f (list_heads s l))\<rparr>"

fun set_next :: "item_ptr \<Rightarrow> item_ptr \<Rightarrow> kernel_lists \<Rightarrow> kernel_lists" where
  "set_next (Item i) q s = set_item i (\<lambda>x. x\<lparr>pxNext := q\<rparr>) s"
| "set_next (End l) q s = set_head l (\<lambda>h. h\<lparr>xListEnd := (xListEnd h)\<lparr>pxNext := q\<rparr>\<rparr>) s"

fun set_prev :: "item_ptr \<Rightarrow> item_ptr \<Rightarrow> kernel_lists \<Rightarrow> kernel_lists" where
  "set_prev (Item i) q s = set_item i (\<lambda>x. x\<lparr>pxPrevious := q\<rparr>) s"
| "set_prev (End l) q s = set_head l (\<lambda>h. h\<lparr>xListEnd := (xListEnd h)\<lparr>pxPrevious := q\<rparr>\<rparr>) s"

definition set_container :: "nat \<Rightarrow> nat option \<Rightarrow> kernel_lists \<Rightarrow> kernel_lists" where
  "set_container i c = set_item i (\<lambda>x. x\<lparr>pxContainer := c\<rparr>)"

definition set_count :: "nat \<Rightarrow> u32 \<Rightarrow> kernel_lists \<Rightarrow> kernel_lists" where
  "set_count l n = set_head l (\<lambda>h. h\<lparr>uxNumberOfItems := n\<rparr>)"

definition set_index :: "nat \<Rightarrow> item_ptr \<Rightarrow> kernel_lists \<Rightarrow> kernel_lists" where
  "set_index l p = set_head l (\<lambda>h. h\<lparr>pxIndex := p\<rparr>)"

abbreviation count_of :: "kernel_lists \<Rightarrow> nat \<Rightarrow> u32" where
  "count_of s l \<equiv> uxNumberOfItems (list_heads s l)"

abbreviation index_of :: "kernel_lists \<Rightarrow> nat \<Rightarrow> item_ptr" where
  "index_of s l \<equiv> pxIndex (list_heads s l)"

abbreviation container_of :: "kernel_lists \<Rightarrow> nat \<Rightarrow> nat option" where
  "container_of s i \<equiv> pxContainer (list_items s i)"

section \<open>The functions of \<open>list.c\<close>\<close>

definition vListInitialise :: "nat \<Rightarrow> kernel_lists \<Rightarrow> kernel_lists" where
  "vListInitialise l = set_head l (\<lambda>h. h\<lparr>pxIndex := End l,
     xListEnd := \<lparr>xItemValue = portMAX_DELAY, pxNext = End l, pxPrevious = End l\<rparr>, uxNumberOfItems := 0\<rparr>)"

definition vListInitialiseItem :: "nat \<Rightarrow> kernel_lists \<Rightarrow> kernel_lists" where
  "vListInitialiseItem i = set_container i None"

definition vListInsertEnd :: "nat \<Rightarrow> nat \<Rightarrow> kernel_lists \<Rightarrow> kernel_lists" where
  "vListInsertEnd l i s =
     (let index = index_of s l;
          s = set_next (Item i) index s;
          s = set_prev (Item i) (prev_of s index) s;
          s = set_next (prev_of s index) (Item i) s;
          s = set_prev index (Item i) s;
          s = set_container i (Some l) s
      in set_count l (count_of s l + 1) s)"

text \<open>The loop that looks for the position; it need not end on a ring without a larger value.\<close>

partial_function (option) insert_position :: "kernel_lists \<Rightarrow> u32 \<Rightarrow> item_ptr \<Rightarrow> item_ptr option" where
  "insert_position s v p =
     (if value_of s (next_of s p) \<le> v then insert_position s v (next_of s p) else Some p)"

definition vListInsert :: "nat \<Rightarrow> nat \<Rightarrow> kernel_lists \<Rightarrow> kernel_lists option" where
  "vListInsert l i s =
     (let v = value_of s (Item i)
      in case (if v = portMAX_DELAY then Some (prev_of s (End l)) else insert_position s v (End l)) of
           None \<Rightarrow> None
         | Some iterator \<Rightarrow>
             let s = set_next (Item i) (next_of s iterator) s;
                 s = set_prev (next_of s (Item i)) (Item i) s;
                 s = set_prev (Item i) iterator s;
                 s = set_next iterator (Item i) s;
                 s = set_container i (Some l) s
             in Some (set_count l (count_of s l + 1) s))"

text \<open>An item that is in no list has a null container, through which the code writes: \<open>None\<close>.\<close>

definition uxListRemove :: "nat \<Rightarrow> kernel_lists \<Rightarrow> (u32 \<times> kernel_lists) option" where
  "uxListRemove i s =
     (case container_of s i of
        None \<Rightarrow> None
      | Some l \<Rightarrow>
          let s = set_prev (next_of s (Item i)) (prev_of s (Item i)) s;
              s = set_next (prev_of s (Item i)) (next_of s (Item i)) s;
              s = (if index_of s l = Item i then set_index l (prev_of s (Item i)) s else s);
              s = set_container i None s;
              s = set_count l (count_of s l - 1) s
          in Some (count_of s l, s))"

section \<open>The macros of \<open>list.h\<close>\<close>

definition listSET_LIST_ITEM_OWNER :: "nat \<Rightarrow> nat \<Rightarrow> kernel_lists \<Rightarrow> kernel_lists" where
  "listSET_LIST_ITEM_OWNER i owner = set_item i (\<lambda>x. x\<lparr>pvOwner := owner\<rparr>)"
definition listGET_LIST_ITEM_OWNER :: "nat \<Rightarrow> kernel_lists \<Rightarrow> nat" where
  "listGET_LIST_ITEM_OWNER i s = pvOwner (list_items s i)"
definition listSET_LIST_ITEM_VALUE :: "nat \<Rightarrow> u32 \<Rightarrow> kernel_lists \<Rightarrow> kernel_lists" where
  "listSET_LIST_ITEM_VALUE i v = set_item i (\<lambda>x. x\<lparr>xItemValue := v\<rparr>)"
definition listGET_LIST_ITEM_VALUE :: "nat \<Rightarrow> kernel_lists \<Rightarrow> u32" where
  "listGET_LIST_ITEM_VALUE i s = xItemValue (list_items s i)"
definition listGET_HEAD_ENTRY :: "nat \<Rightarrow> kernel_lists \<Rightarrow> item_ptr" where
  "listGET_HEAD_ENTRY l s = next_of s (End l)"
definition listGET_ITEM_VALUE_OF_HEAD_ENTRY :: "nat \<Rightarrow> kernel_lists \<Rightarrow> u32" where
  "listGET_ITEM_VALUE_OF_HEAD_ENTRY l s = value_of s (next_of s (End l))"
definition listGET_NEXT :: "item_ptr \<Rightarrow> kernel_lists \<Rightarrow> item_ptr" where
  "listGET_NEXT p s = next_of s p"
definition listGET_END_MARKER :: "nat \<Rightarrow> item_ptr" where
  "listGET_END_MARKER l = End l"
definition listLIST_IS_EMPTY :: "nat \<Rightarrow> kernel_lists \<Rightarrow> bool" where
  "listLIST_IS_EMPTY l s \<longleftrightarrow> count_of s l = 0"
definition listCURRENT_LIST_LENGTH :: "nat \<Rightarrow> kernel_lists \<Rightarrow> u32" where
  "listCURRENT_LIST_LENGTH l s = count_of s l"
definition listIS_CONTAINED_WITHIN :: "nat \<Rightarrow> nat \<Rightarrow> kernel_lists \<Rightarrow> bool" where
  "listIS_CONTAINED_WITHIN l i s \<longleftrightarrow> container_of s i = Some l"
definition listLIST_ITEM_CONTAINER :: "nat \<Rightarrow> kernel_lists \<Rightarrow> nat option" where
  "listLIST_ITEM_CONTAINER i s = container_of s i"
definition listLIST_IS_INITIALISED :: "nat \<Rightarrow> kernel_lists \<Rightarrow> bool" where
  "listLIST_IS_INITIALISED l s \<longleftrightarrow> value_of s (End l) = portMAX_DELAY"

text \<open>The marker has no owner: on an empty list the code reads behind it, which is \<open>None\<close>.\<close>

fun owner_of :: "kernel_lists \<Rightarrow> item_ptr \<Rightarrow> nat option" where
  "owner_of s (Item i) = Some (pvOwner (list_items s i))"
| "owner_of s (End l) = None"

definition listGET_OWNER_OF_HEAD_ENTRY :: "nat \<Rightarrow> kernel_lists \<Rightarrow> nat option" where
  "listGET_OWNER_OF_HEAD_ENTRY l s = owner_of s (next_of s (End l))"

definition listGET_OWNER_OF_NEXT_ENTRY :: "nat \<Rightarrow> kernel_lists \<Rightarrow> nat option \<times> kernel_lists" where
  "listGET_OWNER_OF_NEXT_ENTRY l s =
     (let s = set_index l (next_of s (index_of s l)) s;
          s = (if index_of s l = End l then set_index l (next_of s (index_of s l)) s else s)
      in (owner_of s (index_of s l), s))"

section \<open>Reading after writing\<close>

named_theorems list_simps \<open>members of the structures after an update\<close>

lemma next_updates [list_simps]:
  "next_of (set_next p q s) r = (if r = p then q else next_of s r)"
  "next_of (set_prev p q s) r = next_of s r" "next_of (set_container i c s) r = next_of s r"
  "next_of (set_count l n s) r = next_of s r" "next_of (set_index l q s) r = next_of s r"
  by (cases p; cases r; simp add: next_of_def set_item_def set_head_def MiniListItem_t.truncate_def
      set_container_def set_count_def set_index_def)+

lemma prev_updates [list_simps]:
  "prev_of (set_prev p q s) r = (if r = p then q else prev_of s r)"
  "prev_of (set_next p q s) r = prev_of s r" "prev_of (set_container i c s) r = prev_of s r"
  "prev_of (set_count l n s) r = prev_of s r" "prev_of (set_index l q s) r = prev_of s r"
  by (cases p; cases r; simp add: prev_of_def set_item_def set_head_def MiniListItem_t.truncate_def
      set_container_def set_count_def set_index_def)+

lemma value_updates [list_simps]:
  "value_of (set_prev p q s) r = value_of s r"
  "value_of (set_next p q s) r = value_of s r" "value_of (set_container i c s) r = value_of s r"
  "value_of (set_count l n s) r = value_of s r" "value_of (set_index l q s) r = value_of s r"
  by (cases p; cases r; simp add: value_of_def set_item_def set_head_def MiniListItem_t.truncate_def
      set_container_def set_count_def set_index_def)+

lemma container_updates [list_simps]:
  "container_of (set_container i c s) j = (if j = i then c else container_of s j)"
  "container_of (set_prev p q s) j = container_of s j" "container_of (set_next p q s) j = container_of s j"
  "container_of (set_count l n s) j = container_of s j" "container_of (set_index l q s) j = container_of s j"
  by (cases p; simp add: set_item_def set_head_def set_container_def set_count_def set_index_def)+

lemma owner_updates [list_simps]:
  "pvOwner (list_items (set_container i c s) j) = pvOwner (list_items s j)"
  "pvOwner (list_items (set_prev p q s) j) = pvOwner (list_items s j)"
  "pvOwner (list_items (set_next p q s) j) = pvOwner (list_items s j)"
  "pvOwner (list_items (set_count l n s) j) = pvOwner (list_items s j)"
  "pvOwner (list_items (set_index l q s) j) = pvOwner (list_items s j)"
  by (cases p; simp add: set_item_def set_head_def set_container_def set_count_def set_index_def)+

lemma count_updates [list_simps]:
  "count_of (set_count l n s) k = (if k = l then n else count_of s k)"
  "count_of (set_prev p q s) k = count_of s k" "count_of (set_next p q s) k = count_of s k"
  "count_of (set_container i c s) k = count_of s k" "count_of (set_index l q s) k = count_of s k"
  by (cases p; simp add: set_item_def set_head_def set_container_def set_count_def set_index_def)+

lemma index_updates [list_simps]:
  "index_of (set_index l q s) k = (if k = l then q else index_of s k)"
  "index_of (set_prev p q s) k = index_of s k" "index_of (set_next p q s) k = index_of s k"
  "index_of (set_container i c s) k = index_of s k" "index_of (set_count l n s) k = index_of s k"
  by (cases p; simp add: set_item_def set_head_def set_container_def set_count_def set_index_def)+

lemma initialise_updates [list_simps]:
  "next_of (vListInitialise l s) r = (if r = End l then End l else next_of s r)"
  "prev_of (vListInitialise l s) r = (if r = End l then End l else prev_of s r)"
  "value_of (vListInitialise l s) r = (if r = End l then portMAX_DELAY else value_of s r)"
  "container_of (vListInitialise l s) j = container_of s j"
  "count_of (vListInitialise l s) k = (if k = l then 0 else count_of s k)"
  "index_of (vListInitialise l s) k = (if k = l then End l else index_of s k)"
  by (cases r; simp add: next_of_def prev_of_def value_of_def vListInitialise_def set_head_def)+

declare set_next.simps [simp del] set_prev.simps [simp del]

lemma max_delay_greatest [simp]: "v \<le> portMAX_DELAY"
  using unsigned_less [of v, where ?'a = nat] by (simp add: portMAX_DELAY_def word_le_nat_alt)

section \<open>Rings\<close>

text \<open>The items between two pointers, linked in both directions.\<close>

fun linked :: "kernel_lists \<Rightarrow> item_ptr \<Rightarrow> nat list \<Rightarrow> item_ptr \<Rightarrow> bool" where
  "linked s p [] q \<longleftrightarrow> next_of s p = q \<and> prev_of s q = p"
| "linked s p (x # xs) q \<longleftrightarrow> next_of s p = Item x \<and> prev_of s (Item x) = p \<and> linked s (Item x) xs q"

lemma linked_append:
  "linked s p (us @ x # vs) q \<longleftrightarrow> linked s p us (Item x) \<and> linked s (Item x) vs q"
  by (induction us arbitrary: p) auto

definition first_of :: "nat list \<Rightarrow> item_ptr \<Rightarrow> item_ptr" where
  "first_of xs q = (case xs of [] \<Rightarrow> q | x # _ \<Rightarrow> Item x)"

definition last_of :: "item_ptr \<Rightarrow> nat list \<Rightarrow> item_ptr" where
  "last_of p xs = (if xs = [] then p else Item (last xs))"

lemma last_of_Nil [simp]: "last_of p [] = p" by (simp add: last_of_def)
lemma last_of_Cons [simp]: "last_of p (x # xs) = last_of (Item x) xs" by (simp add: last_of_def)
lemma first_of_Nil [simp]: "first_of [] q = q" by (simp add: first_of_def)
lemma first_of_Cons [simp]: "first_of (x # xs) q = Item x" by (simp add: first_of_def)

lemma last_of_mem: "last_of p xs = p \<or> (\<exists>x \<in> set xs. last_of p xs = Item x)"
  by (simp add: last_of_def)

lemma first_of_mem: "first_of xs q = q \<or> (\<exists>x \<in> set xs. first_of xs q = Item x)"
  by (cases xs) auto

lemma linked_first: "linked s p xs q \<Longrightarrow> next_of s p = first_of xs q"
  by (cases xs) simp_all

lemma linked_last: "linked s p xs q \<Longrightarrow> prev_of s q = last_of p xs"
  by (induction xs arbitrary: p) simp_all

definition off_ring :: "item_ptr \<Rightarrow> nat list \<Rightarrow> bool" where
  "off_ring p xs \<longleftrightarrow> (\<forall>x \<in> set xs. p \<noteq> Item x)"

lemma off_ring_simps [simp]:
  "off_ring p []" "off_ring p (x # xs) \<longleftrightarrow> p \<noteq> Item x \<and> off_ring p xs"
  "off_ring p (xs @ ys) \<longleftrightarrow> off_ring p xs \<and> off_ring p ys"
  "off_ring (Item x) xs \<longleftrightarrow> x \<notin> set xs" "off_ring (End l) xs"
  by (auto simp: off_ring_def)

lemma off_ring_first: "off_ring p xs \<Longrightarrow> p \<noteq> q \<Longrightarrow> p \<noteq> first_of xs q"
  by (cases xs) auto

lemma off_ring_last: "off_ring q xs \<Longrightarrow> q \<noteq> p \<Longrightarrow> q \<noteq> last_of p xs"
  by (induction xs arbitrary: p) auto

lemma linked_frame:
  "next_of s' p = next_of s p \<Longrightarrow> prev_of s' q = prev_of s q \<Longrightarrow>
   (\<And>x. x \<in> set xs \<Longrightarrow> next_of s' (Item x) = next_of s (Item x) \<and> prev_of s' (Item x) = prev_of s (Item x)) \<Longrightarrow>
   linked s' p xs q = linked s p xs q"
  by (induction xs arbitrary: p) simp_all

text \<open>An item is put between \<open>us\<close> and \<open>vs\<close>; the marker is no item of the ring.\<close>

lemma linked_insert:
  assumes "linked s p (us @ vs) q" and "distinct (us @ vs)" and "i \<notin> set (us @ vs)"
    and "off_ring p (us @ vs)" "off_ring q (us @ vs)" "p \<noteq> Item i" "q \<noteq> Item i"
    and n: "\<And>r. next_of s' r = (if r = last_of p us then Item i else if r = Item i then first_of vs q else next_of s r)"
    and v: "\<And>r. prev_of s' r = (if r = first_of vs q then Item i else if r = Item i then last_of p us else prev_of s r)"
  shows "linked s' p (us @ i # vs) q"
  using assms(1-6,8,9)
proof (induction us arbitrary: p)
  case Nil
  show ?case
  proof (cases vs)
    case Nil
    then show ?thesis using Nil.prems assms(7) by simp
  next
    case (Cons v ws)
    have e: "p \<noteq> Item v" "q \<noteq> Item v" "i \<noteq> v" "\<And>x. x \<in> set ws \<Longrightarrow> Item x \<noteq> p \<and> x \<noteq> i \<and> x \<noteq> v"
      using Cons Nil.prems(2-5) assms(7) by (auto simp: off_ring_def)
    have "linked s' (Item v) ws q = linked s (Item v) ws q"
      by (rule linked_frame) (use Cons e Nil.prems(7,8) assms(7) in auto)
    then show ?thesis using Cons e Nil.prems by simp
  qed
next
  case (Cons u us)
  have u: "Item u \<noteq> first_of vs q" "u \<noteq> i"
    using Cons.prems(2,3,5) off_ring_first [of "Item u" vs q] by auto
  have pl: "p \<noteq> last_of (Item u) us" "p \<noteq> Item i"
    using Cons.prems(4,6) off_ring_last [of p us "Item u"] by auto
  have "linked s' (Item u) (us @ i # vs) q"
    by (rule Cons.IH) (use Cons.prems u in simp_all)
  then show ?case using Cons.prems(1,7,8) u pl by simp
qed

lemma linked_remove:
  assumes "linked s p (us @ i # vs) q" and "distinct (us @ i # vs)"
    and "off_ring p (us @ i # vs)" "off_ring q (us @ i # vs)"
    and "\<And>r. r \<noteq> Item i \<Longrightarrow> next_of s' r = (if r = last_of p us then first_of vs q else next_of s r)"
    and "\<And>r. r \<noteq> Item i \<Longrightarrow> prev_of s' r = (if r = first_of vs q then last_of p us else prev_of s r)"
  shows "linked s' p (us @ vs) q"
  using assms
proof (induction us arbitrary: p)
  case Nil
  show ?case
  proof (cases vs)
    case Nil
    then show ?thesis using Nil.prems by simp
  next
    case (Cons v ws)
    have e: "p \<noteq> Item v" "q \<noteq> Item v" "i \<noteq> v" "q \<noteq> Item i" "p \<noteq> Item i"
        "\<And>x. x \<in> set ws \<Longrightarrow> Item x \<noteq> p \<and> x \<noteq> i \<and> x \<noteq> v"
      using Cons Nil.prems(2-4) by (auto simp: off_ring_def)
    have "linked s' (Item v) ws q = linked s (Item v) ws q"
      by (rule linked_frame) (use Cons e Nil.prems(5,6) in simp_all)
    then show ?thesis using Cons e Nil.prems by simp
  qed
next
  case (Cons u us)
  have u: "Item u \<noteq> first_of vs q" "u \<noteq> i"
    using Cons.prems(2,4) off_ring_first [of "Item u" vs q] by auto
  have pl: "p \<noteq> last_of (Item u) us" "p \<noteq> Item i"
    using Cons.prems(3) off_ring_last [of p us "Item u"] by auto
  have "linked s' (Item u) (us @ vs) q"
    by (rule Cons.IH) (use Cons.prems u in simp_all)
  then show ?case using Cons.prems(1,5,6) u pl by simp
qed

section \<open>The abstract lists\<close>

text \<open>
  A list is its items in order and the item that the index points to, if it does not point to the marker.
  \<open>I\<close> are the items that were initialised, \<open>A\<close> the lists that were.
\<close>

type_synonym abs_list = "nat list \<times> nat option"

definition cursor_ptr :: "nat \<Rightarrow> nat option \<Rightarrow> item_ptr" where
  "cursor_ptr l c = (case c of None \<Rightarrow> End l | Some x \<Rightarrow> Item x)"

definition ring :: "kernel_lists \<Rightarrow> nat \<Rightarrow> abs_list \<Rightarrow> bool" where
  "ring s l a \<longleftrightarrow> linked s (End l) (fst a) (End l) \<and> distinct (fst a) \<and>
     count_of s l = word_of_nat (length (fst a)) \<and> length (fst a) < 2 ^ 32 \<and> value_of s (End l) = portMAX_DELAY \<and>
     index_of s l = cursor_ptr l (snd a) \<and> set_option (snd a) \<subseteq> set (fst a)"

definition lists_hold :: "kernel_lists \<Rightarrow> nat set \<Rightarrow> (nat \<Rightarrow> abs_list option) \<Rightarrow> bool" where
  "lists_hold s I A \<longleftrightarrow> (\<forall>l a. A l = Some a \<longrightarrow> ring s l a \<and> set (fst a) \<subseteq> I) \<and>
     (\<forall>i \<in> I. \<forall>l. container_of s i = Some l \<longleftrightarrow> (\<exists>a. A l = Some a \<and> i \<in> set (fst a)))"

definition insert_end_abs :: "nat \<Rightarrow> abs_list \<Rightarrow> abs_list" where
  "insert_end_abs i a =
     (case snd a of
        None \<Rightarrow> (fst a @ [i], None)
      | Some x \<Rightarrow> (takeWhile (\<lambda>y. y \<noteq> x) (fst a) @ i # dropWhile (\<lambda>y. y \<noteq> x) (fst a), Some x))"

definition insert_abs :: "(nat \<Rightarrow> u32) \<Rightarrow> nat \<Rightarrow> abs_list \<Rightarrow> abs_list" where
  "insert_abs val i a =
     (takeWhile (\<lambda>y. val y \<le> val i) (fst a) @ i # dropWhile (\<lambda>y. val y \<le> val i) (fst a), snd a)"

definition remove_abs :: "nat \<Rightarrow> abs_list \<Rightarrow> abs_list" where
  "remove_abs i a =
     (remove1 i (fst a),
      if snd a = Some i
      then let us = takeWhile (\<lambda>y. y \<noteq> i) (fst a) in if us = [] then None else Some (last us)
      else snd a)"

text \<open>The items in the order in which the index visits them from now on.\<close>

definition visits :: "abs_list \<Rightarrow> nat list" where
  "visits a =
     (case snd a of
        None \<Rightarrow> fst a
      | Some x \<Rightarrow> tl (dropWhile (\<lambda>y. y \<noteq> x) (fst a)) @ takeWhile (\<lambda>y. y \<noteq> x) (fst a) @ [x])"

lemma lists_hold_ring: "lists_hold s I A \<Longrightarrow> A l = Some a \<Longrightarrow> ring s l a"
  unfolding lists_hold_def by blast

lemma lists_hold_items: "lists_hold s I A \<Longrightarrow> A l = Some a \<Longrightarrow> set (fst a) \<subseteq> I"
  unfolding lists_hold_def by blast

lemma lists_hold_container:
  "lists_hold s I A \<Longrightarrow> i \<in> I \<Longrightarrow> container_of s i = Some l \<longleftrightarrow> (\<exists>a. A l = Some a \<and> i \<in> set (fst a))"
  unfolding lists_hold_def by blast

lemma lists_hold_other:
  assumes "lists_hold s I A" and "A l = Some a" "A k = Some b" "l \<noteq> k" "x \<in> set (fst a)"
  shows "x \<notin> set (fst b)"
proof
  assume "x \<in> set (fst b)"
  moreover have "x \<in> I" using lists_hold_items [OF assms(1,2)] assms(5) by blast
  ultimately have "container_of s x = Some k" "container_of s x = Some l"
    using assms unfolding lists_hold_def by blast+
  then show False using assms(4) by simp
qed

lemma ring_frame:
  assumes "ring s l a" "next_of s' (End l) = next_of s (End l)" "prev_of s' (End l) = prev_of s (End l)"
    and "value_of s' (End l) = value_of s (End l)" "count_of s' l = count_of s l" "index_of s' l = index_of s l"
    and "\<And>x. x \<in> set (fst a) \<Longrightarrow> next_of s' (Item x) = next_of s (Item x) \<and> prev_of s' (Item x) = prev_of s (Item x)"
  shows "ring s' l a"
proof -
  have "linked s' (End l) (fst a) (End l) = linked s (End l) (fst a) (End l)"
    by (rule linked_frame) (use assms in auto)
  then show ?thesis using assms unfolding ring_def by simp
qed

text \<open>The common part of the two insertions.\<close>

lemma lists_hold_insert:
  assumes h: "lists_hold s I A" and a: "A l = Some (us @ vs, c)" and i: "i \<in> I" "container_of s i = None"
    and len: "length (us @ vs) < 2 ^ 32 - 1"
    and n: "\<And>r. next_of s' r = (if r = last_of (End l) us then Item i else if r = Item i then first_of vs (End l) else next_of s r)"
    and p: "\<And>r. prev_of s' r = (if r = first_of vs (End l) then Item i else if r = Item i then last_of (End l) us else prev_of s r)"
    and v: "\<And>r. value_of s' r = value_of s r"
    and k: "\<And>j. container_of s' j = (if j = i then Some l else container_of s j)"
    and m: "\<And>j. count_of s' j = (if j = l then count_of s l + 1 else count_of s j)"
    and x: "\<And>j. index_of s' j = index_of s j"
  shows "lists_hold s' I (A(l \<mapsto> (us @ i # vs, c)))"
proof -
  have ri: "ring s l (us @ vs, c)" using h a by (rule lists_hold_ring)
  have no: "i \<notin> set (fst b)" if "A j = Some b" for j b
    using h i that unfolding lists_hold_def by (metis option.distinct(1))
  have il: "i \<notin> set (us @ vs)" using no [OF a] by simp
  have "linked s' (End l) (us @ i # vs) (End l)"
    by (rule linked_insert [where s = s]) (use ri il n p in \<open>auto simp: ring_def\<close>)
  then have new: "ring s' l (us @ i # vs, c)"
    using ri il len v m x by (auto simp: ring_def)
  have old: "ring s' j b" if "A j = Some b" "j \<noteq> l" for j b
  proof (rule ring_frame [OF lists_hold_ring [OF h that(1)]])
    have ml: "last_of (End l) us \<noteq> End j" "first_of vs (End l) \<noteq> End j"
      using last_of_mem [of "End l" us] first_of_mem [of vs "End l"] that(2) by auto
    then show "next_of s' (End j) = next_of s (End j)" "prev_of s' (End j) = prev_of s (End j)"
      by (auto simp: n p)
    fix y assume y: "y \<in> set (fst b)"
    have "y \<notin> set (us @ vs)" using lists_hold_other [OF h that(1) a that(2) y] by simp
    then have "Item y \<noteq> last_of (End l) us" "Item y \<noteq> first_of vs (End l)" "y \<noteq> i"
      using last_of_mem [of "End l" us] first_of_mem [of vs "End l"] no [OF that(1)] y by auto
    then show "next_of s' (Item y) = next_of s (Item y) \<and> prev_of s' (Item y) = prev_of s (Item y)"
      by (simp add: n p)
  qed (use that v m x in simp_all)
  have sub: "set (us @ i # vs) \<subseteq> I" using h a i(1) unfolding lists_hold_def by fastforce
  have mem: "container_of s' j = Some k \<longleftrightarrow> (\<exists>b. (A(l \<mapsto> (us @ i # vs, c))) k = Some b \<and> j \<in> set (fst b))"
    if "j \<in> I" for j k
  proof (cases "j = i")
    case True
    have "(\<exists>b. (A(l \<mapsto> (us @ i # vs, c))) k = Some b \<and> i \<in> set (fst b)) \<longleftrightarrow> k = l" using no by auto
    then show ?thesis using True by (auto simp: assms(9))
  next
    case False
    have "container_of s j = Some k \<longleftrightarrow> (\<exists>b. A k = Some b \<and> j \<in> set (fst b))"
      using h that unfolding lists_hold_def by blast
    then show ?thesis using False a by (simp add: assms(9))
  qed
  show ?thesis
    unfolding lists_hold_def using new old sub mem h by (auto simp: lists_hold_def)
qed

lemma linked_split:
  assumes "linked s p (us @ vs) q"
  shows "next_of s (last_of p us) = first_of vs q" and "prev_of s (first_of vs q) = last_of p us"
proof -
  have "next_of s (last_of p us) = first_of vs q \<and> prev_of s (first_of vs q) = last_of p us"
    using assms
  proof (induction us arbitrary: p)
    case Nil
    then show ?case by (cases vs) simp_all
  qed simp
  then show "next_of s (last_of p us) = first_of vs q" "prev_of s (first_of vs q) = last_of p us" by simp_all
qed

lemma ring_linked: "ring s l a \<Longrightarrow> linked s (End l) (fst a) (End l)"
  by (simp add: ring_def)

lemma dropWhile_member: "x \<in> set xs \<Longrightarrow> \<exists>ws. dropWhile (\<lambda>y. y \<noteq> x) xs = x # ws"
  by (induction xs) auto

section \<open>Insertion\<close>

lemma InsertEnd_at:
  assumes h: "lists_hold s I A" and a: "A l = Some (us @ vs, c)" and i: "i \<in> I" "container_of s i = None"
    and len: "length (us @ vs) < 2 ^ 32 - 1" and x: "index_of s l = first_of vs (End l)"
  shows "lists_hold (vListInsertEnd l i s) I (A(l \<mapsto> (us @ i # vs, c)))"
proof -
  have lk: "linked s (End l) (us @ vs) (End l)" using ring_linked [OF lists_hold_ring [OF h a]] by simp
  have "i \<notin> set (us @ vs)"
    using lists_hold_container [OF h i(1), of l] i(2) a by auto
  then have ne: "first_of vs (End l) \<noteq> Item i"
    using first_of_mem [of vs "End l"] by auto
  show ?thesis
    by (rule lists_hold_insert [OF h a i len])
      (use x ne linked_split [OF lk] in \<open>simp_all add: vListInsertEnd_def Let_def list_simps\<close>)
qed

lemma InsertEnd_refines:
  assumes "lists_hold s I A" and "A l = Some a" and "i \<in> I" "container_of s i = None" and "length (fst a) < 2 ^ 32 - 1"
  shows "lists_hold (vListInsertEnd l i s) I (A(l \<mapsto> insert_end_abs i a))"
proof (cases "snd a")
  case None
  have "A l = Some (fst a @ [], snd a)" using assms(2) by simp
  from InsertEnd_at [OF assms(1) this assms(3,4)] show ?thesis
    using assms(5) lists_hold_ring [OF assms(1,2)] None by (simp add: insert_end_abs_def ring_def cursor_ptr_def)
next
  case (Some x)
  let ?us = "takeWhile (\<lambda>y. y \<noteq> x) (fst a)" and ?vs = "dropWhile (\<lambda>y. y \<noteq> x) (fst a)"
  have r: "x \<in> set (fst a)" "index_of s l = Item x"
    using lists_hold_ring [OF assms(1,2)] Some by (auto simp: ring_def cursor_ptr_def)
  have "A l = Some (?us @ ?vs, snd a)" using assms(2) by simp
  from InsertEnd_at [OF assms(1) this assms(3,4)] show ?thesis
    using assms(5) r dropWhile_member [OF r(1)] Some by (auto simp: insert_end_abs_def)
qed

lemma insert_position_linked:
  assumes "linked s p xs q" and "value_of s q > v"
  shows "insert_position s v p = Some (last_of p (takeWhile (\<lambda>y. value_of s (Item y) \<le> v) xs))"
  using assms(1)
proof (induction xs arbitrary: p)
  case Nil
  then show ?case using assms(2) by (auto simp: insert_position.simps [of s v p])
next
  case (Cons x xs)
  then show ?case by (simp add: insert_position.simps [of s v p])
qed

lemma vListInsert_refines:
  assumes h: "lists_hold s I A" and a: "A l = Some a" and i: "i \<in> I" "container_of s i = None"
    and len: "length (fst a) < 2 ^ 32 - 1"
  shows "\<exists>s'. vListInsert l i s = Some s' \<and> lists_hold s' I (A(l \<mapsto> insert_abs (\<lambda>j. value_of s (Item j)) i a))"
proof -
  let ?v = "value_of s (Item i)"
  let ?us = "takeWhile (\<lambda>y. value_of s (Item y) \<le> ?v) (fst a)" and ?vs = "dropWhile (\<lambda>y. value_of s (Item y) \<le> ?v) (fst a)"
  let ?p = "last_of (End l) ?us"
  have a': "A l = Some (?us @ ?vs, snd a)" using a by simp
  have r: "ring s l a" using h a by (rule lists_hold_ring)
  then have lk: "linked s (End l) (?us @ ?vs) (End l)" by (simp add: ring_def)
  have pos: "(if ?v = portMAX_DELAY then Some (prev_of s (End l)) else insert_position s ?v (End l)) = Some ?p"
  proof (cases "?v = portMAX_DELAY")
    case True
    have "?us = fst a" using True by (simp add: takeWhile_eq_all_conv)
    then have "prev_of s (End l) = last_of (End l) ?us"
      using linked_last [OF ring_linked [OF r]] by (simp only:)
    then show ?thesis using True by simp
  next
    case False
    have "?v < portMAX_DELAY" using False by (simp add: order_less_le)
    then have "value_of s (End l) > ?v" using r by (simp add: ring_def)
    from insert_position_linked [OF ring_linked [OF r] this] False show ?thesis by simp
  qed
  have "i \<notin> set (fst a)" using lists_hold_container [OF h i(1), of l] i(2) a by auto
  then have "i \<notin> set ?us" "i \<notin> set ?vs" by (auto dest: set_takeWhileD set_dropWhileD)
  then have ne: "first_of ?vs (End l) \<noteq> Item i" "?p \<noteq> Item i"
    using first_of_mem [of ?vs "End l"] last_of_mem [of "End l" ?us] by auto
  define s' where "s' = set_count l (count_of s l + 1) (set_container i (Some l) (set_next ?p (Item i)
    (set_prev (Item i) ?p (set_prev (first_of ?vs (End l)) (Item i) (set_next (Item i) (first_of ?vs (End l)) s)))))"
  have "vListInsert l i s = Some s'"
    using pos linked_split [OF lk] ne by (simp add: vListInsert_def Let_def list_simps s'_def)
  moreover have "lists_hold s' I (A(l \<mapsto> (?us @ i # ?vs, snd a)))"
    by (rule lists_hold_insert [OF h a' i])
      (use len ne in \<open>simp_all add: s'_def list_simps\<close>)
  ultimately show ?thesis by (simp add: insert_abs_def)
qed

section \<open>Removal\<close>

lemma lists_hold_remove:
  assumes h: "lists_hold s I A" and a: "A l = Some (us @ i # vs, c)"
    and n: "\<And>r. r \<noteq> Item i \<Longrightarrow> next_of s' r = (if r = last_of (End l) us then first_of vs (End l) else next_of s r)"
    and p: "\<And>r. r \<noteq> Item i \<Longrightarrow> prev_of s' r = (if r = first_of vs (End l) then last_of (End l) us else prev_of s r)"
    and v: "\<And>r. value_of s' r = value_of s r"
    and k: "\<And>j. container_of s' j = (if j = i then None else container_of s j)"
    and m: "\<And>j. count_of s' j = (if j = l then count_of s l - 1 else count_of s j)"
    and x: "\<And>j. index_of s' j = (if j = l \<and> c = Some i then last_of (End l) us else index_of s j)"
    and c': "c' = (if c = Some i then if us = [] then None else Some (last us) else c)"
  shows "lists_hold s' I (A(l \<mapsto> (us @ vs, c')))"
proof -
  have ri: "ring s l (us @ i # vs, c)" using h a by (rule lists_hold_ring)
  then have d: "distinct (us @ i # vs)" by (simp add: ring_def)
  have other: "i \<notin> set (fst b)" if "A j = Some b" "j \<noteq> l" for j b
    using lists_hold_other [OF h a that(1)] that(2) by simp
  have "linked s' (End l) (us @ vs) (End l)"
    by (rule linked_remove [where s = s and i = i]) (use ri n p in \<open>auto simp: ring_def\<close>)
  then have new: "ring s' l (us @ vs, c')"
    using ri v m x c' by (auto simp: ring_def cursor_ptr_def last_of_def)
  have old: "ring s' j b" if "A j = Some b" "j \<noteq> l" for j b
  proof (rule ring_frame [OF lists_hold_ring [OF h that(1)]])
    have ml: "last_of (End l) us \<noteq> End j" "first_of vs (End l) \<noteq> End j"
      using last_of_mem [of "End l" us] first_of_mem [of vs "End l"] that(2) by auto
    then show "next_of s' (End j) = next_of s (End j)" "prev_of s' (End j) = prev_of s (End j)"
      by (auto simp: n p)
    fix y assume y: "y \<in> set (fst b)"
    have "y \<notin> set (us @ i # vs)" using lists_hold_other [OF h that(1) a that(2) y] by simp
    then have "Item y \<noteq> last_of (End l) us" "Item y \<noteq> first_of vs (End l)" "y \<noteq> i"
      using last_of_mem [of "End l" us] first_of_mem [of vs "End l"] by auto
    then show "next_of s' (Item y) = next_of s (Item y) \<and> prev_of s' (Item y) = prev_of s (Item y)"
      by (simp add: n p)
  qed (use that v m x in simp_all)
  have sub: "set (us @ vs) \<subseteq> I" using lists_hold_items [OF h a] by auto
  have mem: "container_of s' j = Some k \<longleftrightarrow> (\<exists>b. (A(l \<mapsto> (us @ vs, c'))) k = Some b \<and> j \<in> set (fst b))"
    if "j \<in> I" for j k
  proof (cases "j = i")
    case True
    then show ?thesis using other d k by auto
  next
    case False
    then show ?thesis using lists_hold_container [OF h that, of k] a by (auto simp: assms(6))
  qed
  show ?thesis
    unfolding lists_hold_def using new old sub mem lists_hold_items [OF h]
    by (auto simp del: split_paired_All split_paired_Ex)
qed

lemma uxListRemove_refines:
  assumes h: "lists_hold s I A" and a: "A l = Some a" and i: "i \<in> set (fst a)"
  shows "\<exists>s'. uxListRemove i s = Some (word_of_nat (length (fst a) - 1), s') \<and>
    lists_hold s' I (A(l \<mapsto> remove_abs i a))"
proof -
  let ?us = "takeWhile (\<lambda>y. y \<noteq> i) (fst a)"
  obtain vs where vs: "fst a = ?us @ i # vs"
    using dropWhile_member [OF i] takeWhile_dropWhile_id [of "\<lambda>y. y \<noteq> i" "fst a"] by metis
  obtain us where us: "us = ?us" by simp
  have a': "A l = Some (us @ i # vs, snd a)" using a vs us by (metis prod.collapse)
  have r: "ring s l (us @ i # vs, snd a)" using h a' by (rule lists_hold_ring)
  then have d: "distinct (us @ i # vs)" and lk: "linked s (End l) (us @ i # vs) (End l)" by (simp_all add: ring_def)
  have "i \<in> I" using lists_hold_items [OF h a'] by auto
  then have cont: "container_of s i = Some l" using lists_hold_container [OF h] a' by auto
  have ends: "next_of s (Item i) = first_of vs (End l)" "prev_of s (Item i) = last_of (End l) us"
    using lk linked_first [of s "Item i" vs "End l"] linked_last [of s "End l" us "Item i"] by (simp_all add: linked_append)
  have ne: "first_of vs (End l) \<noteq> Item i" "last_of (End l) us \<noteq> Item i"
    using d first_of_mem [of vs "End l"] last_of_mem [of "End l" us] by auto
  have idx: "index_of s l = Item i \<longleftrightarrow> snd a = Some i"
    using r by (auto simp: ring_def cursor_ptr_def split: option.splits)
  define s1 where "s1 = set_next (last_of (End l) us) (first_of vs (End l)) (set_prev (first_of vs (End l)) (last_of (End l) us) s)"
  define s2 where "s2 = (if snd a = Some i then set_index l (last_of (End l) us) s1 else s1)"
  define s' where "s' = set_count l (count_of s l - 1) (set_container i None s2)"
  have run: "uxListRemove i s = Some (count_of s l - 1, s')"
    using cont ends ne idx by (simp add: uxListRemove_def Let_def list_simps s'_def s2_def s1_def)
  have rm: "remove_abs i a = (us @ vs, if snd a = Some i then if us = [] then None else Some (last us) else snd a)"
  proof -
    have f: "fst a = us @ i # vs" using vs us by simp
    have "takeWhile (\<lambda>y. y \<noteq> i) (us @ i # vs) = us" "remove1 i (us @ i # vs) = us @ vs"
      using d by (auto simp: takeWhile_append remove1_append)
    then show ?thesis by (simp add: remove_abs_def Let_def f)
  qed
  have "lists_hold s' I (A(l \<mapsto> remove_abs i a))"
    unfolding rm by (rule lists_hold_remove [OF h a'])
      (use ne in \<open>auto simp: s'_def s2_def s1_def list_simps\<close>)
  moreover have "length (fst a) = Suc (length us + length vs)"
    using vs us by (metis length_append length_Cons add_Suc_right)
  then have "count_of s l - 1 = word_of_nat (length (fst a) - 1)"
    using r by (simp add: ring_def)
  ultimately show ?thesis using run by auto
qed

section \<open>The walk\<close>

lemma visits_mem: "set_option (snd a) \<subseteq> set (fst a) \<Longrightarrow> set (visits a) = set (fst a)"
proof (cases "snd a")
  case (Some x)
  assume "set_option (snd a) \<subseteq> set (fst a)"
  then have x: "x \<in> set (fst a)" using Some by simp
  then obtain ws where ws: "dropWhile (\<lambda>y. y \<noteq> x) (fst a) = x # ws" using dropWhile_member by metis
  have "set (fst a) = set (takeWhile (\<lambda>y. y \<noteq> x) (fst a)) \<union> set (x # ws)"
    by (metis ws set_append takeWhile_dropWhile_id)
  then show ?thesis using Some ws by (auto simp: visits_def)
qed (simp add: visits_def)

lemma visits_advance:
  assumes "set_option c \<subseteq> set xs" and "distinct xs" and "visits (xs, c) = y # ys"
  shows "visits (xs, Some y) = ys @ [y]"
proof (cases c)
  case None
  then show ?thesis using assms(3) by (simp add: visits_def)
next
  case (Some x)
  then obtain ws where ws: "dropWhile (\<lambda>y. y \<noteq> x) xs = x # ws" using assms(1) dropWhile_member [of x xs] by auto
  obtain us where us: "us = takeWhile (\<lambda>y. y \<noteq> x) xs" by simp
  have xs: "xs = us @ x # ws" using takeWhile_dropWhile_id [of "\<lambda>y. y \<noteq> x" xs] ws us by simp
  have v: "visits (xs, c) = ws @ us @ [x]" using Some ws us by (simp add: visits_def)
  have x: "x \<notin> set us" "x \<notin> set ws" using assms(2) xs by auto
  show ?thesis
  proof (cases ws)
    case Nil
    then show ?thesis
    proof (cases us)
      case Nil
      then show ?thesis using v assms(3) \<open>ws = []\<close> xs by (auto simp: visits_def)
    next
      case (Cons u us')
      then have "y = u" "ys = us' @ [x]" using v assms(3) \<open>ws = []\<close> by auto
      then show ?thesis using Cons xs \<open>ws = []\<close> by (simp add: visits_def)
    qed
  next
    case (Cons w ws')
    then have y: "y = w" "ys = ws' @ us @ [x]" using v assms(3) by auto
    have "w \<notin> set us" "w \<noteq> x" using assms(2) xs Cons by auto
    then have "takeWhile (\<lambda>y. y \<noteq> w) xs = us @ [x]" "dropWhile (\<lambda>y. y \<noteq> w) xs = w # ws'"
      using xs Cons by (auto simp: takeWhile_append dropWhile_append)
    then show ?thesis using y by (simp add: visits_def)
  qed
qed

lemma lists_hold_index:
  assumes "lists_hold s I A" and "A l = Some a" and "x \<in> set (fst a)"
  shows "lists_hold (set_index l (Item x) s) I (A(l \<mapsto> (fst a, Some x)))"
proof -
  have "ring (set_index l (Item x) s) l (fst a, Some x)"
  proof -
    have "linked (set_index l (Item x) s) (End l) (fst a) (End l) = linked s (End l) (fst a) (End l)"
      by (rule linked_frame) (simp_all add: list_simps)
    then show ?thesis
      using lists_hold_ring [OF assms(1,2)] assms(3) by (simp add: ring_def cursor_ptr_def list_simps)
  qed
  moreover have "ring (set_index l (Item x) s) k b" if "A k = Some b" "k \<noteq> l" for k b
    by (rule ring_frame [OF lists_hold_ring [OF assms(1) that(1)]]) (use that in \<open>simp_all add: list_simps\<close>)
  moreover have "container_of (set_index l (Item x) s) j = Some k \<longleftrightarrow>
      (\<exists>b. (A(l \<mapsto> (fst a, Some x))) k = Some b \<and> j \<in> set (fst b))" if "j \<in> I" for j k
    using lists_hold_container [OF assms(1) that, of k] assms(2)
    by (simp add: list_simps del: split_paired_All split_paired_Ex)
  ultimately show ?thesis
    unfolding lists_hold_def using lists_hold_items [OF assms(1)] assms(2)
    by (auto simp del: split_paired_All split_paired_Ex)
qed

lemma next_entry:
  assumes h: "lists_hold s I A" and a: "A l = Some a" and v: "visits a = y # ys"
  shows "\<exists>s'. listGET_OWNER_OF_NEXT_ENTRY l s = (Some (pvOwner (list_items s y)), s') \<and>
    lists_hold s' I (A(l \<mapsto> (fst a, Some y))) \<and> list_items s' = list_items s"
proof -
  have r: "ring s l a" using h a by (rule lists_hold_ring)
  then have lk: "linked s (End l) (fst a) (End l)" and sub: "set_option (snd a) \<subseteq> set (fst a)"
      and ix: "index_of s l = cursor_ptr l (snd a)"
    by (simp_all add: ring_def)
  have y: "y \<in> set (fst a)" using visits_mem [OF sub] v by auto
  have nx: "next_of s (index_of s l) = Item y \<or> next_of s (index_of s l) = End l \<and> next_of s (End l) = Item y"
  proof (cases "snd a")
    case None
    then show ?thesis using linked_first [OF lk] v ix by (simp add: visits_def cursor_ptr_def)
  next
    case (Some x)
    then obtain ws where ws: "dropWhile (\<lambda>y. y \<noteq> x) (fst a) = x # ws" using sub dropWhile_member [of x "fst a"] by auto
    obtain us where us: "us = takeWhile (\<lambda>y. y \<noteq> x) (fst a)" by simp
    have xs: "fst a = us @ x # ws" using takeWhile_dropWhile_id [of "\<lambda>y. y \<noteq> x" "fst a"] ws us by simp
    have "next_of s (Item x) = first_of ws (End l)" "next_of s (End l) = first_of (us @ [x]) (End l)"
      using lk linked_first [of s "Item x" ws] linked_first [OF lk] xs by (cases us; simp add: linked_append)+
    moreover have "visits a = ws @ us @ [x]" using Some ws us by (simp add: visits_def)
    ultimately show ?thesis using v ix Some by (cases ws; cases us) (auto simp: cursor_ptr_def)
  qed
  have li: "list_items (set_index k q t) = list_items t" for k q t by (simp add: set_index_def set_head_def)
  have ii: "set_index l p (set_index l q t) = set_index l p t" for p q t by (simp add: set_index_def set_head_def)
  have "listGET_OWNER_OF_NEXT_ENTRY l s = (Some (pvOwner (list_items s y)), set_index l (Item y) s)"
    using nx by (auto simp: listGET_OWNER_OF_NEXT_ENTRY_def Let_def list_simps li ii)
  then show ?thesis using lists_hold_index [OF h a y] li by blast
qed

section \<open>Initialisation\<close>

lemma initialise_items [list_simps]: "list_items (vListInitialise l s) = list_items s"
  by (simp add: vListInitialise_def set_head_def)

lemma lists_hold_initialise:
  assumes h: "lists_hold s I A" and a: "A l = None \<or> (\<exists>c. A l = Some ([], c))"
  shows "lists_hold (vListInitialise l s) I (A(l \<mapsto> ([], None)))"
proof -
  have "ring (vListInitialise l s) l ([], None)" by (simp add: ring_def cursor_ptr_def list_simps)
  moreover have "ring (vListInitialise l s) k b" if "A k = Some b" "k \<noteq> l" for k b
    by (rule ring_frame [OF lists_hold_ring [OF h that(1)]]) (use that in \<open>simp_all add: list_simps\<close>)
  moreover have "container_of (vListInitialise l s) j = Some k \<longleftrightarrow>
      (\<exists>b. (A(l \<mapsto> ([], None))) k = Some b \<and> j \<in> set (fst b))" if "j \<in> I" for j k
    using lists_hold_container [OF h that, of k] a by (auto simp: list_simps)
  ultimately show ?thesis
    unfolding lists_hold_def using lists_hold_items [OF h]
    by (auto simp del: split_paired_All split_paired_Ex)
qed

lemma lists_hold_initialise_item:
  assumes h: "lists_hold s I A" and i: "i \<in> I \<Longrightarrow> container_of s i = None"
  shows "lists_hold (vListInitialiseItem i s) (insert i I) A"
proof -
  have no: "i \<notin> set (fst b)" if "A k = Some b" for k b
    using lists_hold_items [OF h that] lists_hold_container [OF h, of i k] that i by auto
  have "ring (vListInitialiseItem i s) k b" if "A k = Some b" for k b
    by (rule ring_frame [OF lists_hold_ring [OF h that(1)]]) (simp_all add: vListInitialiseItem_def list_simps)
  moreover have "container_of (vListInitialiseItem i s) j = Some k \<longleftrightarrow> (\<exists>b. A k = Some b \<and> j \<in> set (fst b))"
    if "j \<in> insert i I" for j k
    using that lists_hold_container [OF h, of j k] no by (auto simp: vListInitialiseItem_def list_simps simp del: split_paired_Ex)
  ultimately show ?thesis
    unfolding lists_hold_def using lists_hold_items [OF h, THEN subsetD]
    by (auto simp del: split_paired_All split_paired_Ex)
qed

lemma set_value_updates:
  "next_of (listSET_LIST_ITEM_VALUE i v s) r = next_of s r" "prev_of (listSET_LIST_ITEM_VALUE i v s) r = prev_of s r"
  "value_of (listSET_LIST_ITEM_VALUE i v s) r = (if r = Item i then v else value_of s r)"
  "container_of (listSET_LIST_ITEM_VALUE i v s) j = container_of s j"
  "list_heads (listSET_LIST_ITEM_VALUE i v s) = list_heads s"
  "pvOwner (list_items (listSET_LIST_ITEM_VALUE i v s) j) = pvOwner (list_items s j)"
  by (cases r; simp add: next_of_def prev_of_def value_of_def listSET_LIST_ITEM_VALUE_def set_item_def
      MiniListItem_t.truncate_def)+

lemma lists_hold_set_value: "lists_hold s I A \<Longrightarrow> lists_hold (listSET_LIST_ITEM_VALUE i v s) I A"
proof -
  assume h: "lists_hold s I A"
  have "ring (listSET_LIST_ITEM_VALUE i v s) k b" if "A k = Some b" for k b
    by (rule ring_frame [OF lists_hold_ring [OF h that(1)]]) (simp_all add: set_value_updates)
  then show ?thesis using h unfolding lists_hold_def by (simp add: set_value_updates del: split_paired_All split_paired_Ex)
qed

section \<open>A specification of the operations\<close>

text \<open>
  What the kernel may do with its lists, and what it gets back: the abstract machine keeps lists of items,
  the place of each index, and where each initialised item is. It is undefined where the caller breaks
  the rules of use: an item is put into a list only while it is in none, a list is initialised only while
  it is empty.
\<close>

datatype list_op = Initialise nat | InitialiseItem nat | SetValue nat u32 | InsertEnd nat nat | Insert nat nat |
  Remove nat | NextEntry nat | Length nat | Contained nat nat

record abs_kernel =
  lists :: "nat \<Rightarrow> abs_list option"
  home :: "nat \<Rightarrow> nat option option"
  item_value :: "nat \<Rightarrow> u32"
  item_owner :: "nat \<Rightarrow> nat"

fun abs_step :: "list_op \<Rightarrow> abs_kernel \<Rightarrow> (nat option \<times> abs_kernel) option" where
  "abs_step (Initialise l) t =
     (case lists t l of
        None \<Rightarrow> Some (None, t\<lparr>lists := (lists t)(l \<mapsto> ([], None))\<rparr>)
      | Some a \<Rightarrow> if fst a = [] then Some (None, t\<lparr>lists := (lists t)(l \<mapsto> ([], None))\<rparr>) else None)"
| "abs_step (InitialiseItem i) t =
     (case home t i of Some (Some l) \<Rightarrow> None | _ \<Rightarrow> Some (None, t\<lparr>home := (home t)(i \<mapsto> None)\<rparr>))"
| "abs_step (SetValue i v) t = Some (None, t\<lparr>item_value := (item_value t)(i := v)\<rparr>)"
| "abs_step (InsertEnd l i) t =
     (case lists t l of
        Some a \<Rightarrow>
          if home t i = Some None \<and> length (fst a) < 2 ^ 32 - 1
          then Some (None, t\<lparr>lists := (lists t)(l \<mapsto> insert_end_abs i a), home := (home t)(i \<mapsto> Some l)\<rparr>) else None
      | None \<Rightarrow> None)"
| "abs_step (Insert l i) t =
     (case lists t l of
        Some a \<Rightarrow>
          if home t i = Some None \<and> length (fst a) < 2 ^ 32 - 1
          then Some (None, t\<lparr>lists := (lists t)(l \<mapsto> insert_abs (item_value t) i a), home := (home t)(i \<mapsto> Some l)\<rparr>) else None
      | None \<Rightarrow> None)"
| "abs_step (Remove i) t =
     (case home t i of
        Some (Some l) \<Rightarrow>
          (case lists t l of
             Some a \<Rightarrow> Some (Some (length (fst a) - 1), t\<lparr>lists := (lists t)(l \<mapsto> remove_abs i a), home := (home t)(i \<mapsto> None)\<rparr>)
           | None \<Rightarrow> None)
      | _ \<Rightarrow> None)"
| "abs_step (NextEntry l) t =
     (case lists t l of
        Some a \<Rightarrow>
          (case visits a of
             [] \<Rightarrow> None
           | y # _ \<Rightarrow> Some (Some (item_owner t y), t\<lparr>lists := (lists t)(l \<mapsto> (fst a, Some y))\<rparr>))
      | None \<Rightarrow> None)"
| "abs_step (Length l) t = (case lists t l of Some a \<Rightarrow> Some (Some (length (fst a)), t) | None \<Rightarrow> None)"
| "abs_step (Contained l i) t = (case home t i of Some h \<Rightarrow> Some (Some (of_bool (h = Some l)), t) | None \<Rightarrow> None)"

text \<open>The same operations of the code.\<close>

fun list_step :: "list_op \<Rightarrow> kernel_lists \<Rightarrow> (nat option \<times> kernel_lists) option" where
  "list_step (Initialise l) s = Some (None, vListInitialise l s)"
| "list_step (InitialiseItem i) s = Some (None, vListInitialiseItem i s)"
| "list_step (SetValue i v) s = Some (None, listSET_LIST_ITEM_VALUE i v s)"
| "list_step (InsertEnd l i) s = Some (None, vListInsertEnd l i s)"
| "list_step (Insert l i) s = map_option (Pair None) (vListInsert l i s)"
| "list_step (Remove i) s = map_option (\<lambda>(n, s). (Some (unat n), s)) (uxListRemove i s)"
| "list_step (NextEntry l) s = (case listGET_OWNER_OF_NEXT_ENTRY l s of (owner, s) \<Rightarrow> Some (owner, s))"
| "list_step (Length l) s = Some (Some (unat (listCURRENT_LIST_LENGTH l s)), s)"
| "list_step (Contained l i) s = Some (Some (of_bool (listIS_CONTAINED_WITHIN l i s)), s)"

definition represents :: "kernel_lists \<Rightarrow> abs_kernel \<Rightarrow> bool" where
  "represents s t \<longleftrightarrow> lists_hold s (dom (home t)) (lists t) \<and>
     (\<forall>i h. home t i = Some h \<longrightarrow> container_of s i = h) \<and>
     (\<forall>i. value_of s (Item i) = item_value t i \<and> pvOwner (list_items s i) = item_owner t i)"

lemma representsD:
  assumes "represents s t"
  shows "lists_hold s (dom (home t)) (lists t)" and "home t i = Some h \<Longrightarrow> container_of s i = h"
    and "value_of s (Item i) = item_value t i" and "pvOwner (list_items s i) = item_owner t i"
  using assms by (simp_all add: represents_def)

lemma insert_updates [list_simps]:
  "value_of (vListInsertEnd l i s) r = value_of s r"
  "pvOwner (list_items (vListInsertEnd l i s) j) = pvOwner (list_items s j)"
  "container_of (vListInsertEnd l i s) j = (if j = i then Some l else container_of s j)"
  by (simp_all add: vListInsertEnd_def Let_def list_simps)

lemma vListInsert_keeps:
  assumes "vListInsert l i s = Some s'"
  shows "value_of s' r = value_of s r" and "pvOwner (list_items s' j) = pvOwner (list_items s j)"
    and "container_of s' j = (if j = i then Some l else container_of s j)"
  using assms by (auto simp: vListInsert_def Let_def list_simps split: option.splits if_splits)

lemma uxListRemove_keeps:
  assumes "uxListRemove i s = Some (n, s')"
  shows "value_of s' r = value_of s r" and "pvOwner (list_items s' j) = pvOwner (list_items s j)"
    and "container_of s' j = (if j = i then None else container_of s j)"
  using assms by (auto simp: uxListRemove_def Let_def list_simps split: option.splits if_splits)

lemma represents_insert:
  assumes r: "represents s t" and i: "home t i = Some None" and "lists t l = Some a"
    and h: "lists_hold s' (dom (home t)) ((lists t)(l \<mapsto> a'))"
    and "\<And>r. value_of s' r = value_of s r" "\<And>j. pvOwner (list_items s' j) = pvOwner (list_items s j)"
    and "\<And>j. container_of s' j = (if j = i then Some l else container_of s j)"
  shows "represents s' (t\<lparr>lists := (lists t)(l \<mapsto> a'), home := (home t)(i \<mapsto> Some l)\<rparr>)"
proof -
  have "insert i (dom (home t)) = dom (home t)" using i by auto
  then show ?thesis
    using assms representsD [OF r] by (auto simp: represents_def)
qed

lemma list_step_simulates:
  assumes r: "represents s t" and t: "abs_step op t = Some (out, t')"
  shows "\<exists>s'. list_step op s = Some (out, s') \<and> represents s' t'"
proof -
  note R = representsD [OF r]
  show ?thesis
  proof (cases op)
    case (Initialise l)
    have "lists t l = None \<or> (\<exists>c. lists t l = Some ([], c))" and
      t': "out = None" "t' = t\<lparr>lists := (lists t)(l \<mapsto> ([], None))\<rparr>"
      using t Initialise by (auto split: option.splits if_splits)
    from lists_hold_initialise [OF R(1) this(1)] show ?thesis
      using Initialise t' R by (auto simp: represents_def list_simps)
  next
    case (InitialiseItem i)
    have "container_of s i = None" if "i \<in> dom (home t)"
      using that t InitialiseItem R(2) [of i] by (auto split: option.splits)
    from lists_hold_initialise_item [OF R(1) this] show ?thesis
      using InitialiseItem t R
      by (auto simp: represents_def vListInitialiseItem_def list_simps insert_absorb split: option.splits if_splits)
  next
    case (SetValue i v)
    then show ?thesis using t R lists_hold_set_value [OF R(1)]
      by (auto simp: represents_def set_value_updates)
  next
    case (InsertEnd l i)
    then obtain a where a: "lists t l = Some a" "home t i = Some None" "length (fst a) < 2 ^ 32 - 1" "out = None"
      and t': "t' = t\<lparr>lists := (lists t)(l \<mapsto> insert_end_abs i a), home := (home t)(i \<mapsto> Some l)\<rparr>"
      using t by (auto split: option.splits if_splits)
    have "represents (vListInsertEnd l i s) t'"
      unfolding t' by (rule represents_insert [OF r a(2,1) InsertEnd_refines [OF R(1) a(1) _ R(2) [OF a(2)] a(3)]])
        (use a in \<open>auto simp: list_simps\<close>)
    then show ?thesis using InsertEnd a by simp
  next
    case (Insert l i)
    then obtain a where a: "lists t l = Some a" "home t i = Some None" "length (fst a) < 2 ^ 32 - 1" "out = None"
      and t': "t' = t\<lparr>lists := (lists t)(l \<mapsto> insert_abs (item_value t) i a), home := (home t)(i \<mapsto> Some l)\<rparr>"
      using t by (auto split: option.splits if_splits)
    have v: "(\<lambda>j. value_of s (Item j)) = item_value t" using R(3) by auto
    obtain s' where s': "vListInsert l i s = Some s'"
        "lists_hold s' (dom (home t)) ((lists t)(l \<mapsto> insert_abs (item_value t) i a))"
      using vListInsert_refines [OF R(1) a(1) _ R(2) [OF a(2)] a(3)] a(2) v by auto
    have "represents s' t'"
      unfolding t' by (rule represents_insert [OF r a(2,1) s'(2)])
        (use vListInsert_keeps [OF s'(1)] in auto)
    then show ?thesis using Insert a s' by simp
  next
    case (Remove i)
    then obtain l a where a: "home t i = Some (Some l)" "lists t l = Some a" "out = Some (length (fst a) - 1)"
      and t': "t' = t\<lparr>lists := (lists t)(l \<mapsto> remove_abs i a), home := (home t)(i \<mapsto> None)\<rparr>"
      using t by (auto split: option.splits)
    have i: "i \<in> set (fst a)" using lists_hold_container [OF R(1), of i l] R(2) [OF a(1)] a by auto
    obtain s' where s': "uxListRemove i s = Some (word_of_nat (length (fst a) - 1), s')"
        "lists_hold s' (dom (home t)) ((lists t)(l \<mapsto> remove_abs i a))"
      using uxListRemove_refines [OF R(1) a(2) i] by blast
    have "length (fst a) - 1 < 2 ^ 32"
      using lists_hold_ring [OF R(1) a(2)] by (simp add: ring_def less_imp_diff_less)
    then have n: "unat (word_of_nat (length (fst a) - 1) :: u32) = length (fst a) - 1"
      by (simp add: unsigned_of_nat take_bit_nat_eq_self)
    have "insert i (dom (home t)) = dom (home t)" using a by auto
    then have "represents s' t'"
      unfolding t' using s'(2) R uxListRemove_keeps [OF s'(1)] by (auto simp: represents_def)
    then show ?thesis using Remove a s' n by simp
  next
    case (NextEntry l)
    then obtain a y ys where a: "lists t l = Some a" "visits a = y # ys" "out = Some (item_owner t y)"
      and t': "t' = t\<lparr>lists := (lists t)(l \<mapsto> (fst a, Some y))\<rparr>"
      using t by (auto split: option.splits list.splits)
    obtain s' where s': "listGET_OWNER_OF_NEXT_ENTRY l s = (Some (pvOwner (list_items s y)), s')"
        "lists_hold s' (dom (home t)) ((lists t)(l \<mapsto> (fst a, Some y)))" "list_items s' = list_items s"
      using next_entry [OF R(1) a(1,2)] by blast
    have "value_of s' (Item j) = value_of s (Item j)" for j using s'(3) by (simp add: value_of_def)
    then show ?thesis using NextEntry a t' s' R by (auto simp: represents_def)
  next
    case (Length l)
    then obtain a where a: "lists t l = Some a" "out = Some (length (fst a))" "t' = t"
      using t by (auto split: option.splits)
    have "count_of s l = word_of_nat (length (fst a))" "length (fst a) < 2 ^ 32"
      using lists_hold_ring [OF R(1) a(1)] by (simp_all add: ring_def)
    then show ?thesis using Length a r
      by (simp add: listCURRENT_LIST_LENGTH_def unsigned_of_nat take_bit_nat_eq_self)
  next
    case (Contained l i)
    then show ?thesis using t r R(2) [of i] by (auto simp: listIS_CONTAINED_WITHIN_def split: option.splits)
  qed
qed

fun abs_run :: "list_op list \<Rightarrow> abs_kernel \<Rightarrow> (nat option list \<times> abs_kernel) option" where
  "abs_run [] t = Some ([], t)"
| "abs_run (op # ops) t =
     (case abs_step op t of
        None \<Rightarrow> None
      | Some (out, t) \<Rightarrow> map_option (\<lambda>(outs, t). (out # outs, t)) (abs_run ops t))"

fun list_run :: "list_op list \<Rightarrow> kernel_lists \<Rightarrow> (nat option list \<times> kernel_lists) option" where
  "list_run [] s = Some ([], s)"
| "list_run (op # ops) s =
     (case list_step op s of
        None \<Rightarrow> None
      | Some (out, s) \<Rightarrow> map_option (\<lambda>(outs, s). (out # outs, s)) (list_run ops s))"

lemma list_run_simulates:
  "represents s t \<Longrightarrow> abs_run ops t = Some (outs, t') \<Longrightarrow>
    \<exists>s'. list_run ops s = Some (outs, s') \<and> represents s' t'"
proof (induction ops arbitrary: s t outs)
  case (Cons op ops)
  then obtain out t1 outs1 where t: "abs_step op t = Some (out, t1)" "abs_run ops t1 = Some (outs1, t')" "outs = out # outs1"
    by (auto split: option.splits)
  obtain s1 where s1: "list_step op s = Some (out, s1)" "represents s1 t1"
    using list_step_simulates [OF Cons.prems(1) t(1)] by blast
  obtain s' where "list_run ops s1 = Some (outs1, s')" "represents s' t'"
    using Cons.IH [OF s1(2) t(2)] by blast
  then show ?case using s1 t by simp
qed simp

section \<open>Properties\<close>

definition abs_start :: "kernel_lists \<Rightarrow> abs_kernel" where
  "abs_start s = \<lparr>lists = Map.empty, home = Map.empty, item_value = (\<lambda>i. value_of s (Item i)),
     item_owner = (\<lambda>i. pvOwner (list_items s i))\<rparr>"

lemma represents_start: "represents s (abs_start s)"
  by (simp add: represents_def abs_start_def lists_hold_def)

text \<open>
  C33. The kernel lists implement their specification: from any content of the memory, every sequence of
  list operations that keeps the rules of use runs to its end on the linked structures, gives the counts,
  owners and answers of the abstract machine, and leaves well-formed rings that hold the abstract lists.
\<close>
theorem kernel_lists_refine:
  assumes "abs_run ops (abs_start s) = Some (outs, t)"
  shows "\<exists>s'. list_run ops s = Some (outs, s') \<and> represents s' t"
  using list_run_simulates [OF represents_start assms] .

definition demo_lists :: kernel_lists where
  "demo_lists = \<lparr>list_items = (\<lambda>i. \<lparr>xItemValue = word_of_nat (i mod 3), pxNext = Item 9, pxPrevious = Item 8, pvOwner = 100 + i,
      pxContainer = Some 5\<rparr>),
    list_heads = (\<lambda>l. \<lparr>uxNumberOfItems = 77, pxIndex = Item 6, xListEnd = \<lparr>xItemValue = 0, pxNext = Item 3, pxPrevious = Item 2\<rparr>\<rparr>)\<rparr>"

definition demo_ops :: "list_op list" where
  "demo_ops = [Initialise 0, InitialiseItem 1, InitialiseItem 2, InitialiseItem 3, Insert 0 1, Insert 0 2, InsertEnd 0 3,
     NextEntry 0, NextEntry 0, Remove 1, NextEntry 0, Length 0, Contained 0 1]"

theorem kernel_lists_refine_witness:
  "\<exists>s'. list_run demo_ops demo_lists = Some ([None, None, None, None, None, None, None,
     Some 101, Some 102, Some 2, Some 103, Some 2, Some 0], s')"
proof -
  have "\<exists>t. abs_run demo_ops (abs_start demo_lists) = Some ([None, None, None, None, None, None, None,
      Some 101, Some 102, Some 2, Some 103, Some 2, Some 0], t)"
    by (simp add: demo_ops_def abs_start_def demo_lists_def insert_abs_def insert_end_abs_def visits_def remove_abs_def
        value_of_def MiniListItem_t.truncate_def Let_def)
  then show ?thesis using kernel_lists_refine by blast
qed

lemma takeWhile_le_filter:
  fixes f :: "'a \<Rightarrow> 'b::linorder"
  shows "sorted (map f xs) \<Longrightarrow> takeWhile (\<lambda>y. f y \<le> v) xs = filter (\<lambda>y. f y \<le> v) xs"
  by (induction xs) (auto intro!: filter_False [symmetric] dest: order_trans)

lemma dropWhile_le_filter:
  fixes f :: "'a \<Rightarrow> 'b::linorder"
  shows "sorted (map f xs) \<Longrightarrow> dropWhile (\<lambda>y. f y \<le> v) xs = filter (\<lambda>y. f y > v) xs"
  by (induction xs) (auto simp: not_le intro!: filter_True [symmetric])

text \<open>
  C37. \<open>vListInsert\<close> ends on every well-formed list, also for the value of the marker, and puts the item
  behind all items of the list with smaller or equal values and before all with larger values; a sorted list
  stays sorted, in ascending order.
\<close>
theorem vListInsert_sorted:
  assumes "lists_hold s I A" and "A l = Some (xs, c)" and "i \<in> I" "container_of s i = None" "length xs < 2 ^ 32 - 1"
    and "sorted (map (\<lambda>j. value_of s (Item j)) xs)"
  shows "\<exists>s' ys. vListInsert l i s = Some s' \<and> lists_hold s' I (A(l \<mapsto> (ys, c))) \<and>
    ys = filter (\<lambda>j. value_of s (Item j) \<le> value_of s (Item i)) xs @ i #
         filter (\<lambda>j. value_of s (Item j) > value_of s (Item i)) xs \<and>
    sorted (map (\<lambda>j. value_of s' (Item j)) ys)"
proof -
  let ?val = "\<lambda>j. value_of s (Item j)"
  let ?ys = "filter (\<lambda>j. ?val j \<le> ?val i) xs @ i # filter (\<lambda>j. ?val j > ?val i) xs"
  have e: "insert_abs ?val i (xs, c) = (?ys, c)"
    by (simp add: insert_abs_def takeWhile_le_filter [OF assms(6)] dropWhile_le_filter [OF assms(6)])
  obtain s' where s': "vListInsert l i s = Some s'" "lists_hold s' I (A(l \<mapsto> (?ys, c)))"
    using vListInsert_refines [OF assms(1-4)] assms(5) e by auto
  have "sorted (map ?val ?ys)"
    using assms(6) by (auto simp: sorted_append sorted_filter)
  then show ?thesis using s' vListInsert_keeps(1) [OF s'(1)] by auto
qed

lemma demo_hold:
  "\<exists>s'. list_run [Initialise 0, InitialiseItem 1, InitialiseItem 2, InitialiseItem 4, Insert 0 1, Insert 0 2] demo_lists
      = Some ([None, None, None, None, None, None], s') \<and>
    represents s' \<lparr>lists = [0 \<mapsto> ([1, 2], None)], home = [1 \<mapsto> None, 2 \<mapsto> None, 4 \<mapsto> None, 1 \<mapsto> Some 0, 2 \<mapsto> Some 0],
      item_value = (\<lambda>i. word_of_nat (i mod 3)), item_owner = (\<lambda>i. 100 + i)\<rparr>"
proof -
  have "abs_run [Initialise 0, InitialiseItem 1, InitialiseItem 2, InitialiseItem 4, Insert 0 1, Insert 0 2] (abs_start demo_lists)
      = Some ([None, None, None, None, None, None], \<lparr>lists = [0 \<mapsto> ([1, 2], None)], home = [1 \<mapsto> None, 2 \<mapsto> None, 4 \<mapsto> None, 1 \<mapsto> Some 0, 2 \<mapsto> Some 0],
      item_value = (\<lambda>i. word_of_nat (i mod 3)), item_owner = (\<lambda>i. 100 + i)\<rparr>)"
    by (simp add: abs_start_def demo_lists_def insert_abs_def value_of_def MiniListItem_t.truncate_def)
  from list_run_simulates [OF represents_start this] show ?thesis by blast
qed

theorem vListInsert_sorted_witness:
  "\<exists>s s'. vListInsert 0 4 s = Some s' \<and> (\<exists>I A. lists_hold s' I A \<and> A 0 = Some ([1, 4, 2], None))"
proof -
  obtain s where s: "represents s \<lparr>lists = [0 \<mapsto> ([1, 2], None)], home = [1 \<mapsto> None, 2 \<mapsto> None, 4 \<mapsto> None, 1 \<mapsto> Some 0, 2 \<mapsto> Some 0],
      item_value = (\<lambda>i. word_of_nat (i mod 3)), item_owner = (\<lambda>i. 100 + i)\<rparr>"
    using demo_hold by blast
  obtain t where t: "t = \<lparr>lists = [0 \<mapsto> ([1, 2], None)], home = [1 \<mapsto> None, 2 \<mapsto> None, 4 \<mapsto> None, 1 \<mapsto> Some 0, 2 \<mapsto> Some 0],
      item_value = (\<lambda>i. word_of_nat (i mod 3)), item_owner = (\<lambda>i. 100 + i)\<rparr>" by simp
  note h = representsD [OF s [folded t]]
  have v: "value_of s (Item j) = word_of_nat (j mod 3)" for j using h(3) [of j] by (simp add: t)
  have "lists t 0 = Some ([1, 2], None)" "4 \<in> dom (home t)" "container_of s 4 = None" "length [1, 2 :: nat] < 2 ^ 32 - 1"
      "sorted (map (\<lambda>j. value_of s (Item j)) [1, 2])"
    using h(2) [of 4 None] by (simp_all add: t v)
  from vListInsert_sorted [OF h(1) this]
  obtain s' ys where s': "vListInsert 0 4 s = Some s'" "lists_hold s' (dom (home t)) ((lists t)(0 \<mapsto> (ys, None)))"
      "ys = filter (\<lambda>j. value_of s (Item j) \<le> value_of s (Item 4)) [1, 2] @ 4 #
        filter (\<lambda>j. value_of s (Item j) > value_of s (Item 4)) [1, 2]"
    by blast
  have "ys = [1, 4, 2]" using s'(3) by (simp add: v word_le_nat_alt word_less_nat_alt)
  then have "((lists t)(0 \<mapsto> (ys, None))) 0 = Some ([1, 4, 2], None)" by simp
  then show ?thesis using s'(1,2) by blast
qed

lemma visits_rotated:
  assumes "lists_hold s I A" and "A l = Some a"
  shows "distinct (visits a)" and "length (visits a) = length (fst a)" and "set (visits a) = set (fst a)"
proof -
  have d: "distinct (fst a)" and c: "set_option (snd a) \<subseteq> set (fst a)"
    using lists_hold_ring [OF assms] by (simp_all add: ring_def)
  have "mset (visits a) = mset (fst a)"
  proof (cases "snd a")
    case (Some x)
    then obtain ws where ws: "dropWhile (\<lambda>y. y \<noteq> x) (fst a) = x # ws" using c dropWhile_member [of x "fst a"] by auto
    obtain us where us: "us = takeWhile (\<lambda>y. y \<noteq> x) (fst a)" by simp
    have "fst a = us @ x # ws" using takeWhile_dropWhile_id [of "\<lambda>y. y \<noteq> x" "fst a"] ws us by simp
    moreover have "visits a = ws @ us @ [x]" using Some ws us by (simp add: visits_def)
    ultimately show ?thesis by simp
  qed (simp add: visits_def)
  then show "distinct (visits a)" "length (visits a) = length (fst a)" "set (visits a) = set (fst a)"
    using d mset_eq_setD mset_eq_length mset_eq_imp_distinct_iff by metis+
qed

lemma walk_entries:
  assumes "lists_hold s I A" and "A l = Some a" and "k \<le> length (visits a)"
  shows "\<exists>s' c. list_run (replicate k (NextEntry l)) s =
      Some (map (\<lambda>y. Some (pvOwner (list_items s y))) (take k (visits a)), s') \<and>
      lists_hold s' I (A(l \<mapsto> (fst a, c))) \<and> visits (fst a, c) = rotate k (visits a)"
  using assms
proof (induction k arbitrary: s A a)
  case 0
  then have "A(l \<mapsto> (fst a, snd a)) = A" by auto
  then show ?case using 0 by (auto intro!: exI [of _ "snd a"] simp del: fun_upd_apply)
next
  case (Suc k)
  then obtain y ys where v: "visits a = y # ys" by (cases "visits a") auto
  obtain s1 where s1: "listGET_OWNER_OF_NEXT_ENTRY l s = (Some (pvOwner (list_items s y)), s1)"
      "lists_hold s1 I (A(l \<mapsto> (fst a, Some y)))" "list_items s1 = list_items s"
    using next_entry [OF Suc.prems(1,2) v] by blast
  have "ring s l a" using Suc.prems(1,2) by (rule lists_hold_ring)
  then have v1: "visits (fst a, Some y) = ys @ [y]"
    using visits_advance [of "snd a" "fst a" y ys] v by (simp add: ring_def)
  have k: "k \<le> length (visits (fst a, Some y))" using Suc.prems(3) v v1 by simp
  obtain s' c where s': "list_run (replicate k (NextEntry l)) s1 =
      Some (map (\<lambda>y. Some (pvOwner (list_items s1 y))) (take k (ys @ [y])), s')"
      "lists_hold s' I (A(l \<mapsto> (fst a, c)))" "visits (fst a, c) = rotate k (ys @ [y])"
    using Suc.IH [OF s1(2) fun_upd_same, unfolded fst_conv fun_upd_upd, OF k, unfolded v1] by blast
  have "take k (ys @ [y]) = take k ys" using Suc.prems(3) v by simp
  moreover have "rotate k (ys @ [y]) = rotate (Suc k) (y # ys)"
    by (metis rotate1.simps(2) rotate1_rotate_swap rotate_Suc)
  ultimately have "list_run (replicate (Suc k) (NextEntry l)) s =
      Some (map (\<lambda>y. Some (pvOwner (list_items s y))) (take (Suc k) (visits a)), s')"
      "visits (fst a, c) = rotate (Suc k) (visits a)"
    using s1 s' v by simp_all
  then show ?case using s'(2) by blast
qed

lemma visits_insert_end:
  assumes "i \<notin> set xs" and "set_option c \<subseteq> set xs"
  shows "visits (insert_end_abs i (xs, c)) =
    (case c of None \<Rightarrow> visits (xs, c) @ [i] | Some x \<Rightarrow> butlast (visits (xs, c)) @ [i, x])"
proof (cases c)
  case (Some x)
  then obtain ws where ws: "dropWhile (\<lambda>y. y \<noteq> x) xs = x # ws" using assms(2) dropWhile_member [of x xs] by auto
  obtain us where us: "us = takeWhile (\<lambda>y. y \<noteq> x) xs" by simp
  have x: "x \<notin> set us" "x \<in> set xs" using us Some assms(2) by (auto dest: set_takeWhileD)
  then have "i \<noteq> x" using assms(1) by auto
  then have "takeWhile (\<lambda>y. y \<noteq> x) (us @ i # x # ws) = us @ [i]" "dropWhile (\<lambda>y. y \<noteq> x) (us @ i # x # ws) = x # ws"
    using x by (auto simp: takeWhile_append dropWhile_append)
  then show ?thesis using Some ws us by (simp add: insert_end_abs_def visits_def butlast_append)
qed (simp add: insert_end_abs_def visits_def)

text \<open>
  C38. Round robin: as many calls of \<open>listGET_OWNER_OF_NEXT_ENTRY\<close> as the list has items give the owner of each
  item exactly once, in the order of the ring, and the walk starts over; an item that \<open>vListInsertEnd\<close> adds
  is visited after all others, except the one that was given last.
\<close>
theorem list_walk_fair:
  assumes "lists_hold s I A" and "A l = Some a"
  shows "(\<exists>s' c. list_run (replicate (length (fst a)) (NextEntry l)) s =
      Some (map (\<lambda>y. Some (pvOwner (list_items s y))) (visits a), s') \<and>
      lists_hold s' I (A(l \<mapsto> (fst a, c))) \<and> visits (fst a, c) = visits a) \<and>
    distinct (visits a) \<and> set (visits a) = set (fst a) \<and>
    (\<forall>i. i \<notin> set (fst a) \<longrightarrow> visits (insert_end_abs i a) =
      (case snd a of None \<Rightarrow> visits a @ [i] | Some x \<Rightarrow> butlast (visits a) @ [i, x]))"
proof -
  have "ring s l a" using assms by (rule lists_hold_ring)
  then have c: "set_option (snd a) \<subseteq> set (fst a)" by (simp add: ring_def)
  note v = visits_rotated [OF assms]
  show ?thesis
    using walk_entries [OF assms, of "length (fst a)"] v visits_insert_end [OF _ c, unfolded prod.collapse]
    by (simp del: split_paired_Ex)
qed

theorem list_walk_fair_witness:
  "\<exists>s s'. list_run [NextEntry 0, NextEntry 0] s = Some ([Some 101, Some 102], s')"
proof -
  obtain s where s: "represents s \<lparr>lists = [0 \<mapsto> ([1, 2], None)], home = [1 \<mapsto> None, 2 \<mapsto> None, 4 \<mapsto> None, 1 \<mapsto> Some 0, 2 \<mapsto> Some 0],
      item_value = (\<lambda>i. word_of_nat (i mod 3)), item_owner = (\<lambda>i. 100 + i)\<rparr>"
    using demo_hold by blast
  obtain t where t: "t = \<lparr>lists = [0 \<mapsto> ([1, 2], None)], home = [1 \<mapsto> None, 2 \<mapsto> None, 4 \<mapsto> None, 1 \<mapsto> Some 0, 2 \<mapsto> Some 0],
      item_value = (\<lambda>i. word_of_nat (i mod 3)), item_owner = (\<lambda>i. 100 + i)\<rparr>" by simp
  note h = representsD [OF s [folded t]]
  have l: "lists t 0 = Some ([1, 2], None)" by (simp add: t)
  have o: "pvOwner (list_items s j) = 100 + j" for j using h(4) [of j] by (simp add: t)
  have "replicate (length (fst ([1, 2 :: nat], None :: nat option))) (NextEntry 0) = [NextEntry 0, NextEntry 0]"
      "visits ([1, 2], None) = [1, 2]"
    by (simp_all add: visits_def numeral_eq_Suc)
  with list_walk_fair [OF h(1) l] show ?thesis by (simp only: list.map o) auto
qed

end
