(* ===== verification/Heap4.thy ===== *)
theory Heap4
  imports Prelude
begin

text \<open>
  The memory management of the FreeRTOS kernel, \<open>freertos/src/portable/MemMang/heap_4.c\<close>, for the
  configuration of the board (a heap of 400000 bytes, alignment 8, no hook for failed allocations).
  Memory is a map from addresses to the links that the code keeps at the start of each block; the two
  addresses that the linker chooses, of the array and of the static link \<open>xStart\<close>, are a record. A failed
  \<open>configASSERT\<close> loops for ever and an access through a null pointer is \<open>None\<close>. The suspension of the
  scheduler is not modelled: the functions run as a whole.
\<close>

section \<open>The state\<close>

record BlockLink_t =
  pxNextFreeBlock :: u32
  xBlockSize :: u32

record heap4_layout =
  ucHeap :: u32
  xStart :: u32

record heap4 =
  links :: "u32 \<Rightarrow> BlockLink_t"
  pxEnd :: u32
  xFreeBytesRemaining :: u32
  xMinimumEverFreeBytesRemaining :: u32
  xBlockAllocatedBit :: u32

definition configTOTAL_HEAP_SIZE :: u32 where "configTOTAL_HEAP_SIZE = 400000"
definition portBYTE_ALIGNMENT :: u32 where "portBYTE_ALIGNMENT = 8"
definition portBYTE_ALIGNMENT_MASK :: u32 where "portBYTE_ALIGNMENT_MASK = 0x0007"
definition xHeapStructSize :: u32 where
  "xHeapStructSize = (8 + (portBYTE_ALIGNMENT - 1)) AND NOT portBYTE_ALIGNMENT_MASK"
definition heapMINIMUM_BLOCK_SIZE :: u32 where "heapMINIMUM_BLOCK_SIZE = push_bit 1 xHeapStructSize"

abbreviation next_free :: "heap4 \<Rightarrow> u32 \<Rightarrow> u32" where "next_free h p \<equiv> pxNextFreeBlock (links h p)"
abbreviation block_size :: "heap4 \<Rightarrow> u32 \<Rightarrow> u32" where "block_size h p \<equiv> xBlockSize (links h p)"

definition set_next_free :: "u32 \<Rightarrow> u32 \<Rightarrow> heap4 \<Rightarrow> heap4" where
  "set_next_free p q h = h\<lparr>links := (links h)(p := (links h p)\<lparr>pxNextFreeBlock := q\<rparr>)\<rparr>"

definition set_block_size :: "u32 \<Rightarrow> u32 \<Rightarrow> heap4 \<Rightarrow> heap4" where
  "set_block_size p n h = h\<lparr>links := (links h)(p := (links h p)\<lparr>xBlockSize := n\<rparr>)\<rparr>"

section \<open>The code\<close>

definition prvHeapInit :: "heap4_layout \<Rightarrow> heap4 \<Rightarrow> heap4" where
  "prvHeapInit L h =
     (let uxAddress = ucHeap L;
          (aligned, total) =
            (if uxAddress AND portBYTE_ALIGNMENT_MASK \<noteq> 0
             then let a = (uxAddress + (portBYTE_ALIGNMENT - 1)) AND NOT portBYTE_ALIGNMENT_MASK
                  in (a, configTOTAL_HEAP_SIZE - (a - ucHeap L))
             else (uxAddress, configTOTAL_HEAP_SIZE));
          h = set_next_free (xStart L) aligned h;
          h = set_block_size (xStart L) 0 h;
          uxAddress = (aligned + total - xHeapStructSize) AND NOT portBYTE_ALIGNMENT_MASK;
          h = h\<lparr>pxEnd := uxAddress\<rparr>;
          h = set_block_size (pxEnd h) 0 h;
          h = set_next_free (pxEnd h) 0 h;
          h = set_block_size aligned (uxAddress - aligned) h;
          h = set_next_free aligned (pxEnd h) h
      in h\<lparr>xMinimumEverFreeBytesRemaining := block_size h aligned, xFreeBytesRemaining := block_size h aligned,
        xBlockAllocatedBit := push_bit 31 1\<rparr>)"

partial_function (option) find_position :: "heap4 \<Rightarrow> u32 \<Rightarrow> u32 \<Rightarrow> u32 option" where
  "find_position h b iterator =
     (if iterator = 0 then None
      else if next_free h iterator < b then find_position h b (next_free h iterator)
      else Some iterator)"

definition prvInsertBlockIntoFreeList :: "heap4_layout \<Rightarrow> u32 \<Rightarrow> heap4 \<Rightarrow> heap4 option" where
  "prvInsertBlockIntoFreeList L block h =
     (case find_position h block (xStart L) of
        None \<Rightarrow> None
      | Some iterator \<Rightarrow>
          let (block, h) =
                (if iterator + block_size h iterator = block
                 then (iterator, set_block_size iterator (block_size h iterator + block_size h block) h)
                 else (block, h));
              h = (if block + block_size h block = next_free h iterator
                   then if next_free h iterator \<noteq> pxEnd h
                        then let after = next_free h iterator;
                                 h = set_block_size block (block_size h block + block_size h after) h
                             in set_next_free block (next_free h after) h
                        else set_next_free block (pxEnd h) h
                   else set_next_free block (next_free h iterator) h)
          in Some (if iterator \<noteq> block then set_next_free iterator block h else h))"

partial_function (option) find_fit :: "heap4 \<Rightarrow> u32 \<Rightarrow> u32 \<Rightarrow> u32 \<Rightarrow> (u32 \<times> u32) option" where
  "find_fit h wanted previous block =
     (if block_size h block < wanted \<and> next_free h block \<noteq> 0
      then find_fit h wanted block (next_free h block)
      else Some (previous, block))"

definition padded_size :: "u32 \<Rightarrow> u32" where
  "padded_size wanted =
     (if wanted > 0
      then let w = wanted + xHeapStructSize
           in if w AND portBYTE_ALIGNMENT_MASK \<noteq> 0 then w + (portBYTE_ALIGNMENT - (w AND portBYTE_ALIGNMENT_MASK)) else w
      else wanted)"

text \<open>The parts of \<open>pvPortMalloc\<close> after the search: the block is taken, split, and marked as in use.\<close>

definition mark_block :: "u32 \<Rightarrow> heap4 \<Rightarrow> heap4" where
  "mark_block block h =
     (let remaining = xFreeBytesRemaining h - block_size h block;
          h = h\<lparr>xFreeBytesRemaining := remaining\<rparr>;
          h = (if remaining < xMinimumEverFreeBytesRemaining h
               then h\<lparr>xMinimumEverFreeBytesRemaining := remaining\<rparr> else h);
          h = set_block_size block (block_size h block OR xBlockAllocatedBit h) h
      in set_next_free block 0 h)"

definition split_block :: "heap4_layout \<Rightarrow> u32 \<Rightarrow> u32 \<Rightarrow> heap4 \<Rightarrow> heap4 option" where
  "split_block L wanted block h =
     (if block_size h block - wanted > heapMINIMUM_BLOCK_SIZE
      then let new = block + wanted
           in if new AND portBYTE_ALIGNMENT_MASK \<noteq> 0 then None
              else let h = set_block_size new (block_size h block - wanted) h;
                       h = set_block_size block wanted h
                   in prvInsertBlockIntoFreeList L new h
      else Some h)"

definition take_found :: "heap4_layout \<Rightarrow> u32 \<Rightarrow> u32 \<Rightarrow> u32 \<Rightarrow> heap4 \<Rightarrow> (u32 \<times> heap4) option" where
  "take_found L wanted previous block h =
     (let pvReturn = next_free h previous + xHeapStructSize;
          h = set_next_free previous (next_free h block) h
      in map_option (\<lambda>h. (pvReturn, mark_block block h)) (split_block L wanted block h))"

definition pvPortMalloc :: "heap4_layout \<Rightarrow> u32 \<Rightarrow> heap4 \<Rightarrow> (u32 \<times> heap4) option" where
  "pvPortMalloc L wanted h =
     (let h = (if pxEnd h = 0 then prvHeapInit L h else h)
      in case (if wanted AND xBlockAllocatedBit h = 0
               then let wanted = padded_size wanted
                    in if wanted > 0 \<and> wanted \<le> xFreeBytesRemaining h
                       then case find_fit h wanted (xStart L) (next_free h (xStart L)) of
                              None \<Rightarrow> None
                            | Some (previous, block) \<Rightarrow>
                                if block \<noteq> pxEnd h then take_found L wanted previous block h else Some (0, h)
                       else Some (0, h)
               else Some (0, h)) of
           None \<Rightarrow> None
         | Some (pvReturn, h) \<Rightarrow>
             if pvReturn AND portBYTE_ALIGNMENT_MASK = 0 then Some (pvReturn, h) else None)"

definition vPortFree :: "heap4_layout \<Rightarrow> u32 \<Rightarrow> heap4 \<Rightarrow> heap4 option" where
  "vPortFree L pv h =
     (if pv = 0 then Some h
      else let link = pv - xHeapStructSize
           in if block_size h link AND xBlockAllocatedBit h = 0 \<or> next_free h link \<noteq> 0 then None
              else let h = set_block_size link (block_size h link AND NOT (xBlockAllocatedBit h)) h;
                       h = h\<lparr>xFreeBytesRemaining := xFreeBytesRemaining h + block_size h link\<rparr>
                   in prvInsertBlockIntoFreeList L link h)"

definition xPortGetFreeHeapSize :: "heap4 \<Rightarrow> u32" where
  "xPortGetFreeHeapSize h = xFreeBytesRemaining h"

definition xPortGetMinimumEverFreeHeapSize :: "heap4 \<Rightarrow> u32" where
  "xPortGetMinimumEverFreeHeapSize h = xMinimumEverFreeBytesRemaining h"

definition vPortInitialiseBlocks :: "heap4 \<Rightarrow> heap4" where "vPortInitialiseBlocks h = h"

section \<open>The abstract heap\<close>

text \<open>
  The heap as the list of its blocks: address, size with the link at its start, and whether it is in use.
\<close>

type_synonym block = "nat \<times> nat \<times> bool"

fun tiled :: "nat \<Rightarrow> block list \<Rightarrow> nat \<Rightarrow> bool" where
  "tiled a [] e \<longleftrightarrow> a = e"
| "tiled a ((b, n, u) # bs) e \<longleftrightarrow> b = a \<and> 8 \<le> n \<and> 8 dvd n \<and> tiled (a + n) bs e"

definition free_total :: "block list \<Rightarrow> nat" where
  "free_total bs = sum_list (map (\<lambda>(b, n, u). if u then 0 else n) bs)"

text \<open>No two neighbours are free.\<close>

definition merged :: "block list \<Rightarrow> bool" where
  "merged bs \<longleftrightarrow> successively (\<lambda>x y. snd (snd x) \<or> snd (snd y)) bs"

text \<open>A block becomes free between \<open>us\<close> and \<open>vs\<close>.\<close>

definition join_left :: "block list \<Rightarrow> nat \<Rightarrow> nat \<Rightarrow> block list \<times> nat \<times> nat" where
  "join_left us b n =
     (if us \<noteq> [] \<and> \<not> snd (snd (last us)) then (butlast us, fst (last us), fst (snd (last us)) + n) else (us, b, n))"

definition join_right :: "nat \<Rightarrow> block list \<Rightarrow> nat \<times> block list" where
  "join_right n vs = (case vs of (_, m, False) # ws \<Rightarrow> (n + m, ws) | _ \<Rightarrow> (n, vs))"

definition join :: "block list \<Rightarrow> nat \<Rightarrow> nat \<Rightarrow> block list \<Rightarrow> block list" where
  "join us b n vs = (case join_left us b n of (us, b, n) \<Rightarrow> case join_right n vs of (n, vs) \<Rightarrow> us @ (b, n, False) # vs)"

text \<open>First fit, with the rest split off if it is larger than the smallest block.\<close>

fun take_block :: "nat \<Rightarrow> block list \<Rightarrow> (nat \<times> block list) option" where
  "take_block w [] = None"
| "take_block w ((b, n, u) # bs) =
     (if \<not> u \<and> w \<le> n
      then Some (b, if n - w > 16 then (b, w, True) # (b + w, n - w, False) # bs else (b, n, True) # bs)
      else map_option (\<lambda>(a, bs). (a, (b, n, u) # bs)) (take_block w bs))"

definition release :: "nat \<Rightarrow> block list \<Rightarrow> block list" where
  "release a bs =
     (case dropWhile (\<lambda>x. fst x \<noteq> a) bs of
        [] \<Rightarrow> bs
      | (b, n, _) # vs \<Rightarrow> join (takeWhile (\<lambda>x. fst x \<noteq> a) bs) b n vs)"

lemma tiled_append: "tiled a (us @ vs) e \<longleftrightarrow> (\<exists>m. tiled a us m \<and> tiled m vs e)"
  by (induction us arbitrary: a) auto

lemma tiled_le: "tiled a bs e \<Longrightarrow> a \<le> e"
  by (induction bs arbitrary: a) fastforce+

lemma tiled_mem: "tiled a bs e \<Longrightarrow> (b, n, u) \<in> set bs \<Longrightarrow> a \<le> b \<and> b + n \<le> e \<and> 8 \<le> n \<and> 8 dvd n"
proof (induction bs arbitrary: a)
  case (Cons x bs)
  obtain c m v where x: "x = (c, m, v)" by (cases x)
  then have t: "c = a" "8 \<le> m" "8 dvd m" "tiled (a + m) bs e" using Cons.prems(1) by auto
  show ?case
  proof (cases "(b, n, u) = x")
    case True
    then show ?thesis using t x tiled_le [OF t(4)] by auto
  next
    case False
    then show ?thesis using Cons.IH [OF t(4)] Cons.prems(2) by auto
  qed
qed simp

lemma tiled_dvd: "tiled a bs e \<Longrightarrow> 8 dvd a \<Longrightarrow> 8 dvd e \<and> (\<forall>(b, n, u) \<in> set bs. 8 dvd b)"
proof (induction bs arbitrary: a)
  case (Cons x bs)
  obtain b n u where x: "x = (b, n, u)" by (cases x)
  then have t: "b = a" "8 dvd n" "tiled (a + n) bs e" using Cons.prems(1) by auto
  then have "8 dvd a + n" using Cons.prems(2) by simp
  from Cons.IH [OF t(3) this] show ?case using x t(1) Cons.prems(2) by simp
qed simp

lemma tiled_distinct: "tiled a bs e \<Longrightarrow> distinct (map fst bs)"
proof (induction bs arbitrary: a)
  case (Cons x bs)
  obtain c m v where x: "x = (c, m, v)" by (cases x)
  then have t: "c = a" "8 \<le> m" "tiled (a + m) bs e" using Cons.prems by auto
  then have "c \<notin> fst ` set bs" using tiled_mem [OF t(3)] by fastforce
  then show ?case using Cons.IH [OF t(3)] x by auto
qed simp

section \<open>The list of free blocks\<close>

text \<open>From the link at \<open>p\<close> the free blocks of \<open>bs\<close> are linked in order, the last one to \<open>e\<close>.\<close>

fun chain :: "heap4 \<Rightarrow> u32 \<Rightarrow> block list \<Rightarrow> u32 \<Rightarrow> bool" where
  "chain h p [] e \<longleftrightarrow> next_free h p = e"
| "chain h p ((b, n, u) # bs) e \<longleftrightarrow>
     (if u then chain h p bs e
      else next_free h p = word_of_nat b \<and> block_size h (word_of_nat b) = word_of_nat n \<and> chain h (word_of_nat b) bs e)"

fun last_free :: "u32 \<Rightarrow> block list \<Rightarrow> u32" where
  "last_free p [] = p"
| "last_free p ((b, n, u) # bs) = last_free (if u then p else word_of_nat b) bs"

fun first_free :: "block list \<Rightarrow> u32 \<Rightarrow> u32" where
  "first_free [] e = e"
| "first_free ((b, n, u) # bs) e = (if u then first_free bs e else word_of_nat b)"

definition free_at :: "block list \<Rightarrow> nat set" where
  "free_at bs = {b. \<exists>n. (b, n, False) \<in> set bs}"

lemma free_at_simps [simp]:
  "free_at [] = {}" "free_at ((b, n, True) # bs) = free_at bs" "free_at ((b, n, False) # bs) = insert b (free_at bs)"
  "free_at (us @ vs) = free_at us \<union> free_at vs"
  by (auto simp: free_at_def)

lemma last_free_append [simp]: "last_free p (us @ vs) = last_free (last_free p us) vs"
  by (induction us arbitrary: p) auto

lemma last_free_mem: "last_free p bs = p \<or> last_free p bs \<in> word_of_nat ` free_at bs"
proof (induction bs arbitrary: p)
  case (Cons x bs)
  obtain b n u where "x = (b, n, u)" by (cases x)
  then show ?case using Cons.IH [of "if u then p else word_of_nat b"] by (cases u) auto
qed simp

lemma first_free_mem: "first_free bs e = e \<or> first_free bs e \<in> word_of_nat ` free_at bs"
proof (induction bs)
  case (Cons x bs)
  obtain b n u where "x = (b, n, u)" by (cases x)
  then show ?case using Cons.IH by (cases u) auto
qed simp

lemma chain_first: "chain h p bs e \<Longrightarrow> next_free h p = first_free bs e"
  by (induction bs arbitrary: p) (auto split: if_splits)

lemma chain_append:
  "chain h p (us @ vs) e \<longleftrightarrow> chain h p us (first_free vs e) \<and> chain h (last_free p us) vs e"
proof (induction us arbitrary: p)
  case Nil
  then show ?case using chain_first by auto
next
  case (Cons x us)
  then show ?case by (cases x) auto
qed

text \<open>The chain depends on the first link and on those of the free blocks.\<close>

lemma chain_frame:
  "next_free h' p' = next_free h p \<Longrightarrow> (\<And>b. b \<in> free_at bs \<Longrightarrow> links h' (word_of_nat b) = links h (word_of_nat b)) \<Longrightarrow>
    chain h' p' bs e = chain h p bs e"
proof (induction bs arbitrary: p p')
  case (Cons x bs)
  obtain b n u where x: "x = (b, n, u)" by (cases x)
  show ?case
  proof (cases u)
    case True
    then show ?thesis using Cons.IH [OF Cons.prems(1)] Cons.prems(2) x by simp
  next
    case False
    then have "links h' (word_of_nat b) = links h (word_of_nat b)" using Cons.prems(2) x by simp
    moreover from this have "chain h' (word_of_nat b) bs e = chain h (word_of_nat b) bs e"
      using Cons.IH [of "word_of_nat b" "word_of_nat b"] Cons.prems(2) x False by simp
    ultimately show ?thesis using Cons.prems(1) x False by simp
  qed
qed simp

lemma chain_size: "chain h p bs e \<Longrightarrow> (b, n, False) \<in> set bs \<Longrightarrow> block_size h (word_of_nat b) = word_of_nat n"
  by (induction bs arbitrary: p) (auto split: if_splits)

text \<open>The last link of a chain is changed.\<close>

lemma chain_relink:
  assumes "chain h p us e" and "distinct (map fst us)" and "\<And>b. b \<in> free_at us \<Longrightarrow> b < 2 ^ 32 \<and> word_of_nat b \<noteq> p"
    and "next_free h' (last_free p us) = e'" "block_size h' (last_free p us) = block_size h (last_free p us)"
    and "\<And>b. b \<in> free_at us \<Longrightarrow> word_of_nat b \<noteq> last_free p us \<Longrightarrow> links h' (word_of_nat b) = links h (word_of_nat b)"
    and "p \<noteq> last_free p us \<Longrightarrow> next_free h' p = next_free h p"
  shows "chain h' p us e'"
  using assms
proof (induction us arbitrary: p)
  case (Cons x us)
  obtain b n u where x: "x = (b, n, u)" by (cases x)
  show ?case
  proof (cases u)
    case True
    then show ?thesis using Cons x by auto
  next
    case False
    have ne: "word_of_nat c \<noteq> (word_of_nat b :: u32)" if "c \<in> free_at us" for c
    proof -
      have "c \<noteq> b" using Cons.prems(2) that x by (force simp: free_at_def)
      moreover have "c < 2 ^ 32" "b < 2 ^ 32" using Cons.prems(3) [of c] Cons.prems(3) [of b] that x False by auto
      ultimately show ?thesis by (simp add: word_of_nat_eq_iff take_bit_nat_eq_self)
    qed
    have pl: "p \<noteq> last_free (word_of_nat b) us"
      using last_free_mem [of "word_of_nat b" us] Cons.prems(3) x False by fastforce
    have "chain h' (word_of_nat b) us e'"
      by (rule Cons.IH) (use Cons.prems x False ne in auto)
    moreover have "next_free h' p = next_free h p" using Cons.prems(7) pl x False by simp
    moreover have "block_size h' (word_of_nat b) = block_size h (word_of_nat b)"
      using Cons.prems(5,6) x False by (cases "word_of_nat b = last_free (word_of_nat b) us") auto
    ultimately show ?thesis using Cons.prems(1) x False by simp
  qed
qed simp

section \<open>Insertion into the list\<close>

lemma nat_word_eq: "a < 2 ^ 32 \<Longrightarrow> b < 2 ^ 32 \<Longrightarrow> (word_of_nat a :: u32) = word_of_nat b \<longleftrightarrow> a = b"
  by (simp add: word_of_nat_eq_iff take_bit_nat_eq_self)

lemma nat_word_less: "a < 2 ^ 32 \<Longrightarrow> b < 2 ^ 32 \<Longrightarrow> (word_of_nat a :: u32) < word_of_nat b \<longleftrightarrow> a < b"
  by (simp add: word_of_nat_less_iff take_bit_nat_eq_self)

lemma nat_word_0: "a < 2 ^ 32 \<Longrightarrow> (word_of_nat a :: u32) = 0 \<longleftrightarrow> a = 0"
  using nat_word_eq [of a 0] by simp

lemma free_at_mem: "b \<in> free_at bs \<Longrightarrow> tiled a bs e \<Longrightarrow> a \<le> b \<and> b + 8 \<le> e"
  using tiled_mem [of a bs e b] by (fastforce simp: free_at_def)

lemma chain_restart:
  assumes "chain h p (ws @ vs) e" and "next_free h' p' = first_free vs e"
    and "\<And>b. b \<in> free_at vs \<Longrightarrow> links h' (word_of_nat b) = links h (word_of_nat b)"
  shows "chain h' p' vs e"
proof -
  have c: "chain h (last_free p ws) vs e" using assms(1) by (simp add: chain_append)
  have "chain h' p' vs e = chain h (last_free p ws) vs e"
    by (rule chain_frame) (use assms chain_first [OF c] in auto)
  then show ?thesis using c by simp
qed

lemma find_position_chain:
  assumes "chain h p (us @ vs) e" and "p \<noteq> 0" and "\<And>c. c \<in> free_at us \<Longrightarrow> 0 < c \<and> c < b" and "b < 2 ^ 32"
    and "\<not> first_free vs e < word_of_nat b"
  shows "find_position h (word_of_nat b) p = Some (last_free p us)"
  using assms(1-3)
proof (induction us arbitrary: p)
  case Nil
  then show ?case using chain_first [of h p vs e] assms(5) by (simp add: find_position.simps [of _ _ p])
next
  case (Cons x us)
  obtain c n u where x: "x = (c, n, u)" by (cases x)
  show ?case
  proof (cases u)
    case True
    then show ?thesis using Cons x by simp
  next
    case False
    then have c: "0 < c" "c < b" "next_free h p = word_of_nat c" using Cons.prems x by auto
    then have "word_of_nat c < (word_of_nat b :: u32)" "word_of_nat c \<noteq> (0 :: u32)"
      using assms(4) nat_word_less [of c b] nat_word_0 [of c] by auto
    moreover have "find_position h (word_of_nat b) (word_of_nat c) = Some (last_free (word_of_nat c) us)"
      by (rule Cons.IH) (use Cons.prems x False calculation in auto)
    ultimately show ?thesis using c x False Cons.prems(2) by (simp add: find_position.simps [of _ _ p])
  qed
qed

text \<open>The two tests for neighbours, on the chain.\<close>

lemma right_neighbour:
  assumes "tiled m vs e" and "e < 2 ^ 32"
  shows "first_free vs (word_of_nat e) = word_of_nat m \<longleftrightarrow> vs = [] \<or> (\<exists>k ws. vs = (m, k, False) # ws)"
proof (cases vs)
  case (Cons x ws)
  obtain c k u where x: "x = (c, k, u)" by (cases x)
  then have t: "c = m" "8 \<le> k" "tiled (m + k) ws e" using assms(1) Cons by auto
  have "m + k \<le> e" using tiled_le [OF t(3)] .
  have "first_free ws (word_of_nat e) \<noteq> word_of_nat m"
  proof -
    have "d \<noteq> m \<and> d < 2 ^ 32" if "d \<in> insert e (free_at ws)" for d
      using that free_at_mem [OF _ t(3), of d] t(2) \<open>m + k \<le> e\<close> assms(2) by auto
    moreover have "first_free ws (word_of_nat e) \<in> word_of_nat ` insert e (free_at ws)"
      using first_free_mem [of ws "word_of_nat e"] by auto
    ultimately show ?thesis using nat_word_eq [of _ m] \<open>m + k \<le> e\<close> assms(2) by fastforce
  qed
  then show ?thesis using Cons x t(1) by auto
qed (use assms in auto)

lemma left_neighbour:
  assumes "tiled a us b" and "b < 2 ^ 32" and "chain h p us e" and "block_size h p = 0" "p \<noteq> word_of_nat b"
  shows "last_free p us + block_size h (last_free p us) = word_of_nat b \<longleftrightarrow>
    us \<noteq> [] \<and> \<not> snd (snd (last us))"
proof (cases us rule: rev_cases)
  case Nil
  then show ?thesis using assms by simp
next
  case (snoc ws x)
  obtain c k u where x: "x = (c, k, u)" by (cases x)
  then have t: "tiled a ws c" "8 \<le> k" "c + k = b" using assms(1) snoc by (auto simp: tiled_append)
  show ?thesis
  proof (cases u)
    case False
    then have "block_size h (word_of_nat c) = word_of_nat k" using chain_size [OF assms(3)] snoc x by auto
    then show ?thesis using False snoc x by (simp flip: t(3))
  next
    case True
    have "last_free p ws + block_size h (last_free p ws) \<noteq> word_of_nat b"
    proof (cases "last_free p ws = p")
      case True
      then show ?thesis using assms(4,5) by simp
    next
      case False
      then obtain d n where d: "(d, n, False) \<in> set ws" "last_free p ws = word_of_nat d"
        using last_free_mem [of p ws] by (auto simp: free_at_def)
      then have "block_size h (word_of_nat d) = word_of_nat n" using chain_size [OF assms(3)] snoc by auto
      moreover have "d + n < b" using tiled_mem [OF t(1) d(1)] t by auto
      ultimately show ?thesis using d(2) nat_word_eq [of "d + n" b] assms(2) by simp
    qed
    then show ?thesis using True snoc x by simp
  qed
qed

text \<open>The link of the block that results, after the second test.\<close>

lemma insert_right:
  assumes "chain h p vs (word_of_nat E)" and "tiled m vs E" "E < 2 ^ 32" "0 < m" and "pxEnd h' = word_of_nat E"
    and "next_free h' q = first_free vs (word_of_nat E)"
    and "\<And>b. b \<in> free_at vs \<Longrightarrow> links h' (word_of_nat b) = links h (word_of_nat b)"
    and "block + block_size h' block = word_of_nat m" and "block_size h' block = word_of_nat n"
    and "join_right n vs = (n', vs')"
  shows "(if block + block_size h' block = next_free h' q
     then if next_free h' q \<noteq> pxEnd h'
          then let after = next_free h' q; h = set_block_size block (block_size h' block + block_size h' after) h'
               in set_next_free block (next_free h after) h
          else set_next_free block (pxEnd h') h'
     else set_next_free block (next_free h' q) h') =
    h'\<lparr>links := (links h')(block := \<lparr>pxNextFreeBlock = first_free vs' (word_of_nat E), xBlockSize = word_of_nat n'\<rparr>)\<rparr>"
proof -
  have r: "word_of_nat m = first_free vs (word_of_nat E) \<longleftrightarrow> vs = [] \<or> (\<exists>k ws. vs = (m, k, False) # ws)"
    using right_neighbour [OF assms(2,3)] by auto
  consider "vs = []" | k ws where "vs = (m, k, False) # ws" | "vs \<noteq> []" "\<nexists>k ws. vs = (m, k, False) # ws" by blast
  then show ?thesis
  proof cases
    case 1
    then show ?thesis using assms(5,6,8-10)
      by (simp add: join_right_def set_next_free_def) (cases "links h' block"; simp)
  next
    case 2
    then have e: "m + k \<le> E" "8 \<le> k" "tiled (m + k) ws E" using assms(2) tiled_le [of "m + k" ws E] by auto
    then have ne: "(word_of_nat m :: u32) \<noteq> word_of_nat E" using nat_word_eq [of m E] assms(3) by auto
    have c: "block_size h (word_of_nat m) = word_of_nat k" "chain h (word_of_nat m) ws (word_of_nat E)"
      using assms(1) 2 by simp_all
    have l: "links h' (word_of_nat m) = links h (word_of_nat m)" using assms(7) [of m] 2 by simp
    have bm: "block \<noteq> word_of_nat m"
    proof
      assume "block = word_of_nat m"
      then have "block_size h' block = 0" using assms(8) by simp
      then have "word_of_nat k = (0 :: u32)" using l c(1) \<open>block = word_of_nat m\<close> by simp
      then show False using nat_word_0 [of k] e assms(3) by simp
    qed
    show ?thesis using 2 assms(5,6,8-10) ne l c(1) chain_first [OF c(2)] bm
      by (simp add: join_right_def Let_def set_next_free_def set_block_size_def) (cases "links h' block"; auto)
  next
    case 3
    then have "word_of_nat m \<noteq> first_free vs (word_of_nat E)" using r by blast
    moreover have "join_right n vs = (n, vs)"
      using 3 assms(2) by (auto simp: join_right_def split: list.splits prod.splits bool.splits)
    ultimately show ?thesis using assms(6,8-10)
      by (simp add: set_next_free_def) (cases "links h' block"; simp)
  qed
qed

lemma join_right_suffix: "join_right n vs = (n', vs') \<Longrightarrow> \<exists>ws. vs = ws @ vs' \<and> free_at vs' \<subseteq> free_at vs"
  by (auto simp: join_right_def split: list.splits prod.splits bool.splits)

lemma insert_block:
  assumes t: "tiled H us b" "8 \<le> n" "tiled (b + n) vs E" and H: "0 < H" "E < 2 ^ 32"
    and xs: "xStart L \<noteq> 0" "\<And>a. H \<le> a \<Longrightarrow> a \<le> E \<Longrightarrow> xStart L \<noteq> word_of_nat a" "block_size h (xStart L) = 0"
    and c: "chain h (xStart L) (us @ vs) (word_of_nat E)" and b: "block_size h (word_of_nat b) = word_of_nat n"
    and e: "pxEnd h = word_of_nat E"
  shows "\<exists>f. prvInsertBlockIntoFreeList L (word_of_nat b) h = Some (h\<lparr>links := f\<rparr>) \<and>
    chain (h\<lparr>links := f\<rparr>) (xStart L) (join us b n vs) (word_of_nat E) \<and> xBlockSize (f (xStart L)) = 0 \<and>
    (\<forall>a. H \<le> a \<longrightarrow> a \<le> E \<longrightarrow> a \<noteq> b \<longrightarrow> a \<notin> free_at us \<longrightarrow> f (word_of_nat a) = links h (word_of_nat a))"
proof -
  let ?xs = "xStart L" and ?e = "word_of_nat E :: u32" and ?b = "word_of_nat b :: u32"
  let ?q = "last_free ?xs us"
  have bounds: "H \<le> b" "b + n \<le> E" using tiled_le [OF t(1)] tiled_le [OF t(3)] .
  have us: "H \<le> d" "d + 8 \<le> b" if "d \<in> free_at us" for d using free_at_mem [OF that t(1)] by auto
  have vs: "b + n \<le> d" "d + 8 \<le> E" if "d \<in> free_at vs" for d using free_at_mem [OF that t(3)] by auto
  have ne: "(word_of_nat d :: u32) \<noteq> word_of_nat a" if "d \<noteq> a" "d \<le> E" "a \<le> E" for d a
    using nat_word_eq [of d a] that H by auto
  have xsb: "?xs \<noteq> ?b" using xs(2) [of b] bounds by auto
  have cu: "chain h ?xs us (first_free vs ?e)" and cv: "chain h ?q vs ?e" using c by (simp_all add: chain_append)
  have "\<not> first_free vs ?e < ?b"
  proof -
    have "first_free vs ?e \<in> word_of_nat ` insert E (free_at vs)" using first_free_mem [of vs ?e] by auto
    then obtain d where "first_free vs ?e = word_of_nat d" "b \<le> d" "d < 2 ^ 32" using vs bounds H by force
    then show ?thesis using nat_word_less [of d b] bounds H by simp
  qed
  then have pos: "find_position h ?b ?xs = Some ?q"
    by (intro find_position_chain [OF c xs(1)]) (use us bounds H in fastforce)+
  have left: "?q + block_size h ?q = ?b \<longleftrightarrow> us \<noteq> [] \<and> \<not> snd (snd (last us))"
    by (rule left_neighbour [OF t(1) _ cu xs(3) xsb]) (use bounds H in simp)
  show ?thesis
  proof (cases "us \<noteq> [] \<and> \<not> snd (snd (last us))")
    case True
    then obtain ws d k where ws: "us = ws @ [(d, k, False)]" by (cases us rule: rev_cases) auto
    then have d: "tiled H ws d" "8 \<le> k" "d + k = b" using t(1) by (auto simp: tiled_append)
    have dH: "H \<le> d" using tiled_le [OF d(1)] .
    have q: "?q = word_of_nat d" using ws by simp
    obtain n' vs' where jr: "join_right (k + n) vs = (n', vs')" by (metis prod.exhaust)
    have j: "join us b n vs = ws @ (d, n', False) # vs'" using ws jr by (simp add: join_def join_left_def)
    define h1 where "h1 = set_block_size ?q (word_of_nat k + word_of_nat n) h"
    define f where "f = (links h1)(?q := \<lparr>pxNextFreeBlock = first_free vs' ?e, xBlockSize = word_of_nat n'\<rparr>)"
    have cw: "chain h ?xs ws (word_of_nat d)" "block_size h ?q = word_of_nat k"
      using cu ws q by (simp_all add: chain_append)
    have qv: "word_of_nat a \<noteq> ?q" if "a \<noteq> d" "a \<le> E" for a using q ne [of a d] that d bounds by simp
    have fr: "links h1 (word_of_nat a) = links h (word_of_nat a)" "f (word_of_nat a) = links h (word_of_nat a)"
      if "a \<noteq> d" "a \<le> E" for a
      using qv [OF that] by (simp_all add: h1_def f_def set_block_size_def)
    have xq: "?xs \<noteq> ?q" using xs(2) [of d] q dH d bounds by simp
    have h1q: "next_free h1 ?q = first_free vs ?e" "block_size h1 ?q = word_of_nat (k + n)"
      using chain_first [OF cv] by (simp_all add: h1_def set_block_size_def)
    have q': "?q + block_size h1 ?q = word_of_nat (b + n)" by (simp only: h1q(2)) (simp add: q flip: d(3))
    have e1: "pxEnd h1 = ?e" by (simp add: h1_def set_block_size_def e)
    have frv: "links h1 (word_of_nat a) = links h (word_of_nat a)" if "a \<in> free_at vs" for a
      using fr(1) [of a] vs [OF that] d(3) t(2) by simp
    have "0 < b + n" using t(2) by simp
    note R = insert_right [OF cv t(3) H(2) this e1 h1q(1) frv q' h1q(2) jr, folded f_def]
    have s1: "set_block_size ?q (block_size h ?q + block_size h ?b) h = h1" using cw(2) b by (simp add: h1_def)
    have "(?q + block_size h ?q = ?b) = True" using left True by simp
    then have "prvInsertBlockIntoFreeList L ?b h = Some (h1\<lparr>links := f\<rparr>)"
      by (simp only: prvInsertBlockIntoFreeList_def pos option.case if_True Let_def prod.case s1 R [unfolded Let_def]
          not_True_eq_False if_False refl)
    moreover have "h1\<lparr>links := f\<rparr> = h\<lparr>links := f\<rparr>" by (simp add: h1_def set_block_size_def)
    moreover have "chain (h\<lparr>links := f\<rparr>) ?xs (join us b n vs) ?e"
    proof -
      have "chain (h\<lparr>links := f\<rparr>) ?xs ws (word_of_nat d) = chain h ?xs ws (word_of_nat d)"
      proof (rule chain_frame)
        show "next_free (h\<lparr>links := f\<rparr>) ?xs = next_free h ?xs" using xq by (simp add: f_def h1_def set_block_size_def)
        fix a assume "a \<in> free_at ws"
        then have "a \<noteq> d" "a \<le> E" using free_at_mem [OF _ d(1), of a] d bounds by auto
        then show "links (h\<lparr>links := f\<rparr>) (word_of_nat a) = links h (word_of_nat a)" using fr by simp
      qed
      moreover have "chain (h\<lparr>links := f\<rparr>) (last_free ?xs ws) ((d, n', False) # vs') ?e"
      proof -
        obtain ws' where w: "vs = ws' @ vs'" "free_at vs' \<subseteq> free_at vs" using join_right_suffix [OF jr] by blast
        have "chain (h\<lparr>links := f\<rparr>) (word_of_nat d) vs' ?e"
        proof (rule chain_restart [OF cv [unfolded w(1)]])
          fix a assume "a \<in> free_at vs'"
          then have "a \<noteq> d" "a \<le> E" using vs [of a] w(2) d t(2) by auto
          then show "links (h\<lparr>links := f\<rparr>) (word_of_nat a) = links h (word_of_nat a)" using fr by simp
        qed (simp add: f_def q)
        moreover have "next_free (h\<lparr>links := f\<rparr>) (last_free ?xs ws) = word_of_nat d"
          using chain_first [of "h\<lparr>links := f\<rparr>" "last_free ?xs ws" "[]"] calculation
            \<open>chain (h\<lparr>links := f\<rparr>) ?xs ws (word_of_nat d) = chain h ?xs ws (word_of_nat d)\<close> cw(1)
            chain_append [of "h\<lparr>links := f\<rparr>" ?xs ws "[]" "word_of_nat d"] by simp
        ultimately show ?thesis using q by (simp add: f_def)
      qed
      ultimately show ?thesis using cw(1) by (simp add: j chain_append)
    qed
    moreover have "xBlockSize (f ?xs) = 0" using xq xs(3) by (simp add: f_def h1_def set_block_size_def)
    moreover have "f (word_of_nat a) = links h (word_of_nat a)"
      if "H \<le> a" "a \<le> E" "a \<noteq> b" "a \<notin> free_at us" for a
      using fr(2) [of a] that ws by auto
    ultimately show ?thesis by auto
  next
    case False
    then have jl: "join_left us b n = (us, b, n)" by (auto simp: join_left_def)
    obtain n' vs' where jr: "join_right n vs = (n', vs')" by (metis prod.exhaust)
    have j: "join us b n vs = us @ (b, n', False) # vs'" using jl jr by (simp add: join_def)
    define f1 where "f1 = (links h)(?b := \<lparr>pxNextFreeBlock = first_free vs' ?e, xBlockSize = word_of_nat n'\<rparr>)"
    define f where "f = f1(?q := (f1 ?q)\<lparr>pxNextFreeBlock := ?b\<rparr>)"
    have qb: "?q \<noteq> ?b"
    proof
      assume "?q = ?b"
      then obtain a where "a \<in> free_at us" "word_of_nat a = ?b"
        using last_free_mem [of ?xs us] xsb by auto
      then show False using us [of a] ne [of a b] bounds by auto
    qed
    have b': "?b + block_size h ?b = word_of_nat (b + n)" using b by simp
    have "prvInsertBlockIntoFreeList L ?b h = Some (h\<lparr>links := f\<rparr>)"
      using insert_right [OF cv t(3) H(2) _ e chain_first [OF cv] refl b' b jr] pos left False qb bounds H
      by (simp add: prvInsertBlockIntoFreeList_def) (simp add: set_next_free_def f_def f1_def)
    moreover have "chain (h\<lparr>links := f\<rparr>) ?xs (join us b n vs) ?e"
    proof -
      have "chain (h\<lparr>links := f\<rparr>) ?xs us ?b"
      proof (rule chain_relink [OF cu])
        show "distinct (map fst us)" using tiled_distinct [OF t(1)] .
        fix a assume a: "a \<in> free_at us"
        show "a < 2 ^ 32 \<and> word_of_nat a \<noteq> ?xs" using us [OF a] xs(2) [of a] bounds H by auto
        assume "word_of_nat a \<noteq> ?q"
        then show "links (h\<lparr>links := f\<rparr>) (word_of_nat a) = links h (word_of_nat a)"
          using us [OF a] ne [of a b] bounds by (simp add: f_def f1_def)
      qed (use qb xsb in \<open>simp_all add: f_def f1_def\<close>)
      moreover have "chain (h\<lparr>links := f\<rparr>) ?b vs' ?e"
      proof -
        obtain ws' where w: "vs = ws' @ vs'" "free_at vs' \<subseteq> free_at vs" using join_right_suffix [OF jr] by blast
        show ?thesis
        proof (rule chain_restart [OF cv [unfolded w(1)]])
          fix a assume "a \<in> free_at vs'"
          then have a: "b + n \<le> a" "a + 8 \<le> E" using vs [of a] w(2) by auto
          have "word_of_nat a \<noteq> ?q"
          proof
            assume q: "word_of_nat a = ?q"
            then have "?q \<noteq> ?xs" using xs(2) [of a] a bounds by auto
            then obtain d where "d \<in> free_at us" "word_of_nat d = (word_of_nat a :: u32)"
              using last_free_mem [of ?xs us] q by auto
            then show False using us [of d] ne [of d a] a bounds by auto
          qed
          then show "links (h\<lparr>links := f\<rparr>) (word_of_nat a) = links h (word_of_nat a)"
            using ne [of a b] a t(2) bounds by (simp add: f_def f1_def)
        qed (use qb in \<open>simp add: f_def f1_def\<close>)
      qed
      moreover have "next_free (h\<lparr>links := f\<rparr>) ?q = ?b" "block_size (h\<lparr>links := f\<rparr>) ?b = word_of_nat n'"
        using qb by (simp_all add: f_def f1_def)
      ultimately show ?thesis by (simp add: j chain_append)
    qed
    moreover have "xBlockSize (f ?xs) = 0" using xsb xs(3) by (simp add: f_def f1_def)
    moreover have "f (word_of_nat a) = links h (word_of_nat a)"
      if "H \<le> a" "a \<le> E" "a \<noteq> b" "a \<notin> free_at us" for a
    proof -
      have "word_of_nat a \<noteq> ?q"
      proof
        assume q: "word_of_nat a = ?q"
        then have "?q \<noteq> ?xs" using xs(2) [of a] that by auto
        then obtain d where "d \<in> free_at us" "word_of_nat d = (word_of_nat a :: u32)"
          using last_free_mem [of ?xs us] q by auto
        then show False using us [of d] ne [of d a] that bounds by auto
      qed
      then show ?thesis using ne [of a b] that bounds by (simp add: f_def f1_def)
    qed
    ultimately show ?thesis by auto
  qed
qed

section \<open>The invariant\<close>

definition used_link :: "nat \<Rightarrow> BlockLink_t" where
  "used_link n = \<lparr>pxNextFreeBlock = 0, xBlockSize = word_of_nat n OR 0x80000000\<rparr>"

definition heap_region :: "heap4_layout \<Rightarrow> nat \<Rightarrow> nat \<Rightarrow> bool" where
  "heap_region L H E \<longleftrightarrow> 0 < H \<and> 8 dvd H \<and> E < 2 ^ 32 \<and> E < H + 2 ^ 31 \<and> xStart L \<noteq> 0 \<and>
     (\<forall>a. H \<le> a \<longrightarrow> a \<le> E \<longrightarrow> xStart L \<noteq> word_of_nat a)"

definition heap_holds :: "heap4_layout \<Rightarrow> nat \<Rightarrow> nat \<Rightarrow> heap4 \<Rightarrow> block list \<Rightarrow> bool" where
  "heap_holds L H E h bs \<longleftrightarrow> heap_region L H E \<and> tiled H bs E \<and> merged bs \<and>
     pxEnd h = word_of_nat E \<and> links h (word_of_nat E) = \<lparr>pxNextFreeBlock = 0, xBlockSize = 0\<rparr> \<and>
     block_size h (xStart L) = 0 \<and> chain h (xStart L) bs (word_of_nat E) \<and>
     (\<forall>b n. (b, n, True) \<in> set bs \<longrightarrow> links h (word_of_nat b) = used_link n) \<and>
     xBlockAllocatedBit h = 0x80000000 \<and> xFreeBytesRemaining h = word_of_nat (free_total bs) \<and>
     xMinimumEverFreeBytesRemaining h \<le> xFreeBytesRemaining h"

lemma free_total_simps [simp]:
  "free_total [] = 0" "free_total ((b, n, True) # bs) = free_total bs" "free_total ((b, n, False) # bs) = n + free_total bs"
  "free_total (us @ vs) = free_total us + free_total vs"
  by (simp_all add: free_total_def)

lemma free_total_le: "tiled a bs e \<Longrightarrow> a + free_total bs \<le> e"
proof (induction bs arbitrary: a)
  case (Cons x bs)
  obtain b n u where "x = (b, n, u)" by (cases x)
  then show ?case using Cons by (cases u) fastforce+
qed simp

lemma free_total_mem: "(b, n, False) \<in> set bs \<Longrightarrow> n \<le> free_total bs"
proof (induction bs)
  case (Cons x bs)
  obtain c m u where "x = (c, m, u)" by (cases x)
  then show ?case using Cons by (cases u) fastforce+
qed simp

lemma join_cases:
  obtains "us = [] \<or> snd (snd (last us))" "join us b n vs = us @ (b, fst (join_right n vs), False) # snd (join_right n vs)"
  | ws c k where "us = ws @ [(c, k, False)]" "join us b n vs = ws @ (c, fst (join_right (k + n) vs), False) # snd (join_right (k + n) vs)"
proof (cases us rule: rev_cases)
  case Nil
  then show thesis using that(1) by (simp add: join_def join_left_def split: prod.split)
next
  case (snoc ws x)
  obtain c k u where x: "x = (c, k, u)" by (cases x)
  show thesis
  proof (cases u)
    case True
    then show thesis using that(1) snoc x by (simp add: join_def join_left_def split: prod.split)
  next
    case False
    then show thesis using that(2) [of ws c k] snoc x by (simp add: join_def join_left_def split: prod.split)
  qed
qed

lemma join_right_cases:
  obtains k ws where "vs = (c, k, False) # ws" "join_right n vs = (n + k, ws)"
  | "vs = [] \<or> snd (snd (hd vs))" "join_right n vs = (n, vs)"
  | c' k ws where "vs = (c', k, False) # ws" "c' \<noteq> c" "join_right n vs = (n + k, ws)"
proof (cases vs)
  case (Cons x ws)
  obtain c' k u where "x = (c', k, u)" by (cases x)
  then show thesis using Cons that by (cases u; cases "c' = c") (auto simp: join_right_def)
qed (use that in \<open>simp add: join_right_def\<close>)

lemma join_right_tiled:
  "tiled (b + n) vs e \<Longrightarrow> 8 \<le> n \<Longrightarrow> 8 dvd n \<Longrightarrow>
    8 \<le> fst (join_right n vs) \<and> 8 dvd fst (join_right n vs) \<and> tiled (b + fst (join_right n vs)) (snd (join_right n vs)) e"
  by (rule join_right_cases [where vs = vs and c = "b + n" and n = n]) (auto simp: add.assoc)

lemma join_tiled:
  assumes "tiled a us b" and "8 \<le> n" "8 dvd n" and "tiled (b + n) vs e"
  shows "tiled a (join us b n vs) e"
proof (cases us b n vs rule: join_cases)
  case 1
  then show ?thesis using assms join_right_tiled [OF assms(4,2,3)] by (auto simp: tiled_append)
next
  case (2 ws c k)
  then have t: "tiled a ws c" "8 \<le> k" "8 dvd k" "c + k = b" using assms(1) by (auto simp: tiled_append)
  have "tiled (c + (k + n)) vs e" using assms(4) t(4) by (simp add: add.assoc [symmetric])
  then show ?thesis using 2 t join_right_tiled [of c "k + n" vs e] assms(2,3) by (auto simp: tiled_append)
qed

lemma join_right_free: "free_total (snd (join_right n vs)) + fst (join_right n vs) = n + free_total vs"
  by (simp add: join_right_def split: list.split prod.split bool.split)

lemma join_free: "free_total (join us b n vs) = free_total us + n + free_total vs"
  by (cases us b n vs rule: join_cases) (use join_right_free [of _ vs] in \<open>simp_all add: algebra_simps\<close>)

lemma join_right_merged:
  "merged vs \<Longrightarrow> merged (snd (join_right n vs)) \<and> (snd (join_right n vs) = [] \<or> snd (snd (hd (snd (join_right n vs)))))"
  by (cases vs) (auto simp: join_right_def merged_def successively_Cons split: prod.split bool.split)

lemma join_merged:
  assumes "merged us" and "merged vs"
  shows "merged (join us b n vs)"
proof (cases us b n vs rule: join_cases)
  case 1
  then show ?thesis using assms(1) join_right_merged [OF assms(2), of n]
    by (auto simp: merged_def successively_append_iff successively_Cons)
next
  case (2 ws c k)
  then show ?thesis using assms(1) join_right_merged [OF assms(2), of "k + n"]
    by (auto simp: merged_def successively_append_iff successively_Cons)
qed

lemma join_right_used: "(a, m, True) \<in> set (snd (join_right n vs)) \<longleftrightarrow> (a, m, True) \<in> set vs"
  by (cases vs) (auto simp: join_right_def split: prod.split bool.split)

lemma join_used: "(a, m, True) \<in> set (join us b n vs) \<longleftrightarrow> (a, m, True) \<in> set us \<union> set vs"
  by (cases us b n vs rule: join_cases) (auto simp: join_right_used)

section \<open>Releasing a block\<close>

lemma size_values: "xHeapStructSize = 8" "heapMINIMUM_BLOCK_SIZE = 16"
  by (simp_all add: xHeapStructSize_def heapMINIMUM_BLOCK_SIZE_def portBYTE_ALIGNMENT_def portBYTE_ALIGNMENT_MASK_def)

lemma top_bit: "x AND 0x80000000 = 0 \<longleftrightarrow> unat (x :: u32) < 2 ^ 31"
proof -
  have "x AND 0x80000000 = 0 \<longleftrightarrow> \<not> bit x 31"
    using and_exp_eq_0_iff_not_bit [of x 31] by simp
  also have "\<dots> \<longleftrightarrow> unat x < 2 ^ 31"
  proof
    assume "\<not> bit x 31"
    have "take_bit 31 x = x"
    proof (rule bit_word_eqI)
      fix n assume "n < LENGTH(32)"
      then have "n < 31 \<or> n = 31" by auto
      then show "bit (take_bit 31 x) n = bit x n" using \<open>\<not> bit x 31\<close> by (auto simp: bit_take_bit_iff)
    qed
    then show "unat x < 2 ^ 31" by (metis take_bit_nat_less_exp unsigned_take_bit_eq)
  next
    assume "unat x < 2 ^ 31"
    then have "take_bit 31 x = x" by (simp add: word_unat_eq_iff unsigned_take_bit_eq take_bit_nat_eq_self)
    then show "\<not> bit x 31" by (metis bit_take_bit_iff less_irrefl)
  qed
  finally show ?thesis .
qed

lemma alloc_bit:
  assumes "n < 2 ^ 31"
  shows "(word_of_nat n OR 0x80000000) AND (0x80000000 :: u32) \<noteq> 0"
    and "(word_of_nat n OR 0x80000000) AND NOT (0x80000000 :: u32) = word_of_nat n"
proof -
  have z: "word_of_nat n AND (0x80000000 :: u32) = 0"
    using top_bit [of "word_of_nat n"] assms by (simp add: unsigned_of_nat take_bit_nat_eq_self)
  show "(word_of_nat n OR 0x80000000) AND (0x80000000 :: u32) \<noteq> 0"
    by (simp add: bit.conj_disj_distrib2 z)
  have "word_of_nat n AND NOT (0x80000000 :: u32) = word_of_nat n"
  proof (rule bit_eqI)
    fix k
    have "\<not> bit (word_of_nat n AND (0x80000000 :: u32)) k" unfolding z by simp
    then show "bit (word_of_nat n AND NOT (0x80000000 :: u32)) k = bit (word_of_nat n :: u32) k"
      using bit_imp_le_length [of "word_of_nat n :: u32" k] unfolding bit_and_iff bit_not_iff by auto
  qed
  then show "(word_of_nat n OR 0x80000000) AND NOT (0x80000000 :: u32) = word_of_nat n"
    by (simp only: bit.conj_disj_distrib2 bit.conj_cancel_right bit.disj_zero_right)
qed

lemma merged_append:
  "merged (us @ x # vs) \<Longrightarrow> merged us \<and> merged vs"
  by (auto simp: merged_def successively_append_iff successively_Cons)

lemma heap_split:
  assumes "tiled H bs E" and "(a, n, u) \<in> set bs"
  obtains us vs where "bs = us @ (a, n, u) # vs" "takeWhile (\<lambda>x. fst x \<noteq> a) bs = us"
    "dropWhile (\<lambda>x. fst x \<noteq> a) bs = (a, n, u) # vs" "tiled H us a" "8 \<le> n" "8 dvd n" "tiled (a + n) vs E"
    "a \<notin> fst ` set us" "a \<notin> fst ` set vs"
proof -
  obtain us vs where bs: "bs = us @ (a, n, u) # vs" using assms(2) by (auto simp: in_set_conv_decomp)
  have "distinct (map fst bs)" using tiled_distinct [OF assms(1)] .
  then have d: "a \<notin> fst ` set us" "a \<notin> fst ` set vs" using bs by auto
  then have "takeWhile (\<lambda>x. fst x \<noteq> a) bs = us" "dropWhile (\<lambda>x. fst x \<noteq> a) bs = (a, n, u) # vs"
    using bs by (auto simp: takeWhile_append dropWhile_append)
  then show thesis using that bs d assms(1) by (auto simp: tiled_append)
qed

lemma free_at_fst: "free_at bs \<subseteq> fst ` set bs"
  by (force simp: free_at_def)

lemma used_not_free: "tiled a bs e \<Longrightarrow> (b, n, True) \<in> set bs \<Longrightarrow> b \<notin> free_at bs"
proof
  assume t: "tiled a bs e" and u: "(b, n, True) \<in> set bs" and "b \<in> free_at bs"
  then obtain m where "(b, m, False) \<in> set bs" by (auto simp: free_at_def)
  then show False using eq_key_imp_eq_value [OF tiled_distinct [OF t]] u by fastforce
qed

lemma vPortFree_releases:
  assumes h: "heap_holds L H E h bs" and a: "(a, n, True) \<in> set bs"
  shows "\<exists>h'. vPortFree L (word_of_nat (a + 8)) h = Some h' \<and> heap_holds L H E h' (release a bs)"
proof -
  let ?xs = "xStart L" and ?a = "word_of_nat a :: u32" and ?e = "word_of_nat E :: u32"
  note H = h [unfolded heap_holds_def heap_region_def]
  obtain us vs where s: "bs = us @ (a, n, True) # vs" "takeWhile (\<lambda>x. fst x \<noteq> a) bs = us"
      "dropWhile (\<lambda>x. fst x \<noteq> a) bs = (a, n, True) # vs" "tiled H us a" "8 \<le> n" "8 dvd n" "tiled (a + n) vs E"
      "a \<notin> fst ` set us" "a \<notin> fst ` set vs"
    using heap_split [OF _ a] H by metis
  have bounds: "H \<le> a" "a + n \<le> E" "n < 2 ^ 31" using tiled_le [OF s(4)] tiled_le [OF s(7)] H by auto
  have link: "links h ?a = used_link n" using H a by blast
  have ne: "(word_of_nat d :: u32) \<noteq> ?a" if "d \<noteq> a" "d \<le> E" for d
    using nat_word_eq [of d a] that bounds H by auto
  have xa: "?xs \<noteq> ?a" using H bounds by auto
  have pv: "word_of_nat (a + 8) \<noteq> (0 :: u32)" using nat_word_0 [of "a + 8"] bounds s(5) H by auto
  define h1 where "h1 = (set_block_size ?a (word_of_nat n) h)\<lparr>xFreeBytesRemaining := xFreeBytesRemaining h + word_of_nat n\<rparr>"
  have l1: "links h1 = (links h)(?a := \<lparr>pxNextFreeBlock = 0, xBlockSize = word_of_nat n\<rparr>)"
    using link by (simp add: h1_def set_block_size_def used_link_def)
  have "chain h ?xs (us @ vs) ?e" using H s(1) by (simp add: chain_append)
  moreover have "chain h1 ?xs (us @ vs) ?e = chain h ?xs (us @ vs) ?e"
  proof (rule chain_frame)
    fix b assume b: "b \<in> free_at (us @ vs)"
    then have "b \<noteq> a" using s(8,9) free_at_fst by fastforce
    moreover have "b \<le> E"
      using b free_at_mem [OF _ s(4), of b] free_at_mem [OF _ s(7), of b] bounds by fastforce
    ultimately show "links h1 (word_of_nat b) = links h (word_of_nat b)" using ne by (simp add: l1)
  qed (use xa l1 in simp)
  ultimately have c1: "chain h1 ?xs (us @ vs) ?e" by simp
  obtain f where f: "prvInsertBlockIntoFreeList L ?a h1 = Some (h1\<lparr>links := f\<rparr>)"
      "chain (h1\<lparr>links := f\<rparr>) ?xs (join us a n vs) ?e" "xBlockSize (f ?xs) = 0"
      "\<And>b. H \<le> b \<Longrightarrow> b \<le> E \<Longrightarrow> b \<noteq> a \<Longrightarrow> b \<notin> free_at us \<Longrightarrow> f (word_of_nat b) = links h1 (word_of_nat b)"
    using insert_block [OF s(4,5,7) _ _ _ _ _ c1] H xa l1 h1_def by (auto simp: set_block_size_def)
  have "block_size h ?a = word_of_nat n OR 0x80000000" "next_free h ?a = 0" using link by (simp_all add: used_link_def)
  then have "vPortFree L (word_of_nat (a + 8)) h = Some (h1\<lparr>links := f\<rparr>)"
    using pv alloc_bit [OF bounds(3)] H f(1)
    by (simp add: vPortFree_def size_values Let_def h1_def set_block_size_def)
  moreover have "heap_holds L H E (h1\<lparr>links := f\<rparr>) (release a bs)"
  proof -
    have r: "release a bs = join us a n vs" using s by (simp add: release_def)
    have m: "merged (join us a n vs)" using H s(1) merged_append join_merged by metis
    have eE: "f ?e = links h ?e"
    proof -
      have "E \<notin> free_at us" using free_at_mem [OF _ s(4), of E] bounds s(5) by auto
      then show ?thesis using f(4) [of E] ne [of E] bounds s(5) l1 by simp
    qed
    have used: "f (word_of_nat b) = used_link m" if "(b, m, True) \<in> set (join us a n vs)" for b m
    proof -
      have b: "(b, m, True) \<in> set bs" "b \<noteq> a" using that s(1,8,9) by (force simp: join_used)+
      have t: "tiled H bs E" using H by blast
      have "H \<le> b" "b \<le> E" using tiled_mem [OF t b(1)] by auto
      moreover have "b \<notin> free_at us" using used_not_free [OF t b(1)] s(1) by simp
      ultimately have "f (word_of_nat b) = links h (word_of_nat b)" using f(4) b(2) ne l1 by simp
      then show ?thesis using H b(1) by metis
    qed
    have total: "free_total (join us a n vs) = free_total bs + n" using s(1) by (simp add: join_free)
    have "free_total (join us a n vs) \<le> E" using free_total_le [OF join_tiled [OF s(4-7)]] by simp
    then have "(word_of_nat (free_total bs) :: u32) \<le> word_of_nat (free_total bs) + word_of_nat n"
      using nat_word_less [of "free_total bs + n" "free_total bs"] H total by (simp add: not_less)
    then show ?thesis
      using H r m join_tiled [OF s(4-7)] eE used f(2,3) total
      by (auto simp: heap_holds_def heap_region_def h1_def set_block_size_def)
  qed
  ultimately show ?thesis by blast
qed

section \<open>Taking a block\<close>

text \<open>The size of a request with its link, rounded up.\<close>

definition padded :: "nat \<Rightarrow> nat" where "padded w = (w + 15) div 8 * 8"

lemma padded_bounds: "w + 8 \<le> padded w" "padded w < w + 16" "8 dvd padded w"
  by (simp_all add: padded_def)

lemma and_mask_7: "(x :: u32) AND 7 = x mod 8"
  using take_bit_eq_mask [of 3 x] take_bit_eq_mod [of 3 x] by (simp add: mask_numeral)

lemma padded_size_eq:
  assumes "0 < unat w" and "unat w < 2 ^ 31"
  shows "padded_size w = word_of_nat (padded (unat w))"
proof -
  define n where "n = unat w"
  have w: "w = word_of_nat n" by (simp add: n_def)
  have n: "0 < n" "n < 2 ^ 31" using assms by (simp_all add: n_def)
  have w8: "w + 8 = word_of_nat (n + 8)" by (simp add: w)
  have u: "unat (w + 8) = n + 8"
    unfolding w8 using n by (simp add: unsigned_of_nat take_bit_nat_eq_self del: of_nat_add)
  have m: "(w + 8) mod 8 = word_of_nat (n mod 8)"
    by (simp add: word_unat_eq_iff unat_mod_distrib u unsigned_of_nat take_bit_nat_eq_self)
  have z: "(word_of_nat (n mod 8) :: u32) = 0 \<longleftrightarrow> n mod 8 = 0"
    by (rule nat_word_0) (simp add: order_less_trans [OF mod_less_divisor])
  have pos: "w > 0" using n w nat_word_less [of 0 n] by simp
  have "n mod 8 \<le> 8" by (simp add: less_imp_le)
  then have s: "(8 :: u32) - word_of_nat (n mod 8) = word_of_nat (8 - n mod 8)"
    by (simp add: of_nat_diff)
  have code: "padded_size w = (if (w + 8) mod 8 \<noteq> 0 then w + 8 + (8 - (w + 8) mod 8) else w + 8)"
    using pos by (simp add: padded_size_def size_values portBYTE_ALIGNMENT_MASK_def portBYTE_ALIGNMENT_def and_mask_7 Let_def)
  have pad: "padded n = (if n mod 8 = 0 then n + 8 else n + 8 + (8 - n mod 8))"
  proof -
    obtain q r where qr: "n = 8 * q + r" "r < 8"
      by (metis mult_div_mod_eq mod_less_divisor zero_less_numeral)
    have "(r + 15) div 8 = (if r = 0 then 1 else 2)" using qr(2) by auto
    moreover have "(n + 15) div 8 = q + (r + 15) div 8" using qr(1) by simp
    ultimately show ?thesis using qr by (auto simp: padded_def)
  qed
  show ?thesis
    unfolding code m z s unfolding w8 pad n_def [symmetric] by (cases "n mod 8 = 0") (simp_all only: of_nat_add if_True if_False not_True_eq_False not_False_eq_True refl)
qed

lemma take_block_None: "take_block w bs = None \<Longrightarrow> (b, n, False) \<in> set bs \<Longrightarrow> n < w"
  by (induction bs) (auto split: if_splits)

lemma take_block_Some:
  "take_block w bs = Some (a, bs') \<Longrightarrow> \<exists>us n vs. bs = us @ (a, n, False) # vs \<and> (\<forall>b m. (b, m, False) \<in> set us \<longrightarrow> m < w) \<and>
    w \<le> n \<and> bs' = us @ (if n - w > 16 then (a, w, True) # (a + w, n - w, False) # vs else (a, n, True) # vs)"
proof (induction bs arbitrary: bs')
  case (Cons x bs)
  obtain b n u where x: "x = (b, n, u)" by (cases x)
  show ?case
  proof (cases "\<not> u \<and> w \<le> n")
    case True
    then show ?thesis using Cons.prems x by (intro exI [of _ "[]"]) auto
  next
    case False
    then obtain cs where cs: "take_block w bs = Some (a, cs)" "bs' = x # cs" using Cons.prems x by auto
    obtain us k vs where "bs = us @ (a, k, False) # vs" "\<forall>b m. (b, m, False) \<in> set us \<longrightarrow> m < w" "w \<le> k"
        "cs = us @ (if k - w > 16 then (a, w, True) # (a + w, k - w, False) # vs else (a, k, True) # vs)"
      using Cons.IH [OF cs(1)] by blast
    then show ?thesis using cs(2) x False by (intro exI [of _ "x # us"] exI [of _ k] exI [of _ vs]) auto
  qed
qed simp

lemma find_fit_skip:
  assumes "chain h p (us @ vs) e" and "w < 2 ^ 32"
    and "\<And>b m. (b, m, False) \<in> set us \<Longrightarrow> m < w" and "\<And>b. b \<in> free_at (us @ vs) \<Longrightarrow> 0 < b \<and> b < 2 ^ 32" and "e \<noteq> 0"
  shows "find_fit h (word_of_nat w) p (next_free h p) =
    find_fit h (word_of_nat w) (last_free p us) (next_free h (last_free p us))"
  using assms(1,3,4)
proof (induction us arbitrary: p)
  case (Cons x us)
  obtain b n u where x: "x = (b, n, u)" by (cases x)
  show ?case
  proof (cases u)
    case True
    then show ?thesis using Cons x by auto
  next
    case False
    then have c: "next_free h p = word_of_nat b" "block_size h (word_of_nat b) = word_of_nat n"
        "chain h (word_of_nat b) (us @ vs) e"
      using Cons.prems(1) x by auto
    have "n < w" using Cons.prems(2) [of b n] x False by simp
    then have lt: "(word_of_nat n :: u32) < word_of_nat w" using nat_word_less [of n w] assms(2) by simp
    have "next_free h (word_of_nat b) \<in> insert e (word_of_nat ` free_at (us @ vs))"
      using chain_first [OF c(3)] first_free_mem [of "us @ vs" e] by auto
    then have nz: "next_free h (word_of_nat b) \<noteq> 0"
      using Cons.prems(3) x False assms(5) nat_word_0 by fastforce
    have "find_fit h (word_of_nat w) (word_of_nat b) (next_free h (word_of_nat b)) =
        find_fit h (word_of_nat w) (last_free (word_of_nat b) us) (next_free h (last_free (word_of_nat b) us))"
      by (rule Cons.IH [OF c(3)]) (use Cons.prems(2,3) x False in auto)
    then show ?thesis using c(1,2) lt nz x False by (simp add: find_fit.simps [of h _ p])
  qed
qed simp

lemma find_fit_heap:
  assumes h: "heap_holds L H E h bs" and w: "0 < w" "w < 2 ^ 32"
  shows "case take_block w bs of
      None \<Rightarrow> \<exists>p. find_fit h (word_of_nat w) (xStart L) (next_free h (xStart L)) = Some (p, word_of_nat E)
    | Some (a, bs') \<Rightarrow> \<forall>us n vs. bs = us @ (a, n, False) # vs \<longrightarrow> (\<forall>b m. (b, m, False) \<in> set us \<longrightarrow> m < w) \<longrightarrow> w \<le> n \<longrightarrow>
        find_fit h (word_of_nat w) (xStart L) (next_free h (xStart L)) = Some (last_free (xStart L) us, word_of_nat a)"
proof -
  note H = h [unfolded heap_holds_def heap_region_def]
  have t: "tiled H bs E" and c: "chain h (xStart L) bs (word_of_nat E)" using H by blast+
  have pos: "0 < b \<and> b < 2 ^ 32" if "b \<in> free_at bs" for b using free_at_mem [OF that t] H by auto
  have e: "(word_of_nat E :: u32) \<noteq> 0" using nat_word_0 [of E] tiled_le [OF t] H by auto
  show ?thesis
  proof (cases "take_block w bs")
    case None
    have "find_fit h (word_of_nat w) (xStart L) (next_free h (xStart L)) =
        find_fit h (word_of_nat w) (last_free (xStart L) bs) (next_free h (last_free (xStart L) bs))"
      by (rule find_fit_skip [where vs = "[]", unfolded append_Nil2, OF c w(2)])
        (use take_block_None [OF None] pos e in auto)
    moreover have "next_free h (last_free (xStart L) bs) = word_of_nat E"
      using iffD1 [OF chain_append [of h "xStart L" bs "[]" "word_of_nat E", unfolded append_Nil2] c] by simp
    moreover have "block_size h (word_of_nat E) = 0" "next_free h (word_of_nat E) = 0" using H by simp_all
    ultimately show ?thesis using None by (simp add: find_fit.simps [of h "word_of_nat w" "last_free (xStart L) bs" "word_of_nat E"])
  next
    case (Some r)
    obtain a bs' where r: "r = (a, bs')" by (cases r)
    have "find_fit h (word_of_nat w) (xStart L) (next_free h (xStart L)) = Some (last_free (xStart L) us, word_of_nat a)"
      if b: "bs = us @ (a, n, False) # vs" and f: "\<forall>b m. (b, m, False) \<in> set us \<longrightarrow> m < w" and n: "w \<le> n" for us n vs
    proof -
      have "find_fit h (word_of_nat w) (xStart L) (next_free h (xStart L)) =
          find_fit h (word_of_nat w) (last_free (xStart L) us) (next_free h (last_free (xStart L) us))"
        by (rule find_fit_skip [OF c [unfolded b] w(2)]) (use f pos b e in auto)
      moreover have "next_free h (last_free (xStart L) us) = word_of_nat a" "block_size h (word_of_nat a) = word_of_nat n"
        using c b by (auto simp: chain_append)
      moreover have "\<not> (word_of_nat n :: u32) < word_of_nat w"
        using nat_word_less [of n w] n w(2) tiled_mem [OF t, of a n False] b H by simp
      ultimately show ?thesis by (simp add: find_fit.simps [of h "word_of_nat w" "last_free (xStart L) us" "word_of_nat a"])
    qed
    note fit = this
    show ?thesis unfolding Some r by (auto intro: fit)
  qed
qed

text \<open>The end of \<open>pvPortMalloc\<close>: the block, unlinked and of its final size, is marked.\<close>

lemma heap_mark:
  assumes reg: "heap_region L H E" and t: "tiled H (us @ (a, k, True) # vs) E" and m: "merged (us @ (a, k, True) # vs)"
    and e: "pxEnd h = word_of_nat E" "links h (word_of_nat E) = \<lparr>pxNextFreeBlock = 0, xBlockSize = 0\<rparr>"
    and x: "block_size h (xStart L) = 0" and c: "chain h (xStart L) (us @ vs) (word_of_nat E)"
    and u: "\<And>b n. (b, n, True) \<in> set (us @ vs) \<Longrightarrow> links h (word_of_nat b) = used_link n"
    and bit: "xBlockAllocatedBit h = 0x80000000" and k: "block_size h (word_of_nat a) = word_of_nat k"
    and f: "xFreeBytesRemaining h = word_of_nat (free_total (us @ vs) + k)"
  shows "heap_holds L H E (mark_block (word_of_nat a) h) (us @ (a, k, True) # vs)"
proof -
  let ?a = "word_of_nat a :: u32"
  define r where "r = xFreeBytesRemaining h - block_size h ?a"
  define h1 where "h1 = h\<lparr>xFreeBytesRemaining := r\<rparr>"
  define h2 where "h2 = (if r < xMinimumEverFreeBytesRemaining h1 then h1\<lparr>xMinimumEverFreeBytesRemaining := r\<rparr> else h1)"
  define h3 where "h3 = set_next_free ?a 0 (set_block_size ?a (block_size h2 ?a OR xBlockAllocatedBit h2) h2)"
  have code: "mark_block ?a h = h3" by (simp add: mark_block_def Let_def h3_def h2_def h1_def r_def)
  have d: "tiled H us a" "8 \<le> k" "tiled (a + k) vs E" using t by (auto simp: tiled_append)
  have bounds: "H \<le> a" "a + k \<le> E" using tiled_le [OF d(1)] tiled_le [OF d(3)] .
  have R: "0 < H" "E < 2 ^ 32" "\<And>b. H \<le> b \<Longrightarrow> b \<le> E \<Longrightarrow> xStart L \<noteq> word_of_nat b"
    using reg by (simp_all add: heap_region_def)
  have ne: "(word_of_nat b :: u32) \<noteq> ?a" if "b \<noteq> a" "b \<le> E" for b
    using nat_word_eq [of b a] that bounds R by auto
  have l2: "links h2 = links h" "pxEnd h2 = pxEnd h" "xBlockAllocatedBit h2 = xBlockAllocatedBit h"
      "xFreeBytesRemaining h2 = r" "xMinimumEverFreeBytesRemaining h2 \<le> r"
    by (auto simp: h2_def h1_def not_less)
  have l3: "links h3 = (links h)(?a := used_link k)"
    using k bit l2 by (simp add: h3_def set_next_free_def set_block_size_def used_link_def) (cases "links h ?a"; simp)
  have o3: "pxEnd h3 = pxEnd h" "xBlockAllocatedBit h3 = xBlockAllocatedBit h" "xFreeBytesRemaining h3 = r"
      "xMinimumEverFreeBytesRemaining h3 \<le> r"
    using l2 by (simp_all add: h3_def set_next_free_def set_block_size_def)
  have dist: "distinct (map fst (us @ (a, k, True) # vs))" using tiled_distinct [OF t] .
  have "chain h3 (xStart L) (us @ vs) (word_of_nat E) = chain h (xStart L) (us @ vs) (word_of_nat E)"
  proof (rule chain_frame)
    show "next_free h3 (xStart L) = next_free h (xStart L)" using R(3) [of a] bounds by (simp add: l3)
    fix b assume b: "b \<in> free_at (us @ vs)"
    then have "b \<noteq> a" using dist free_at_fst [of "us @ vs"] by (auto simp del: free_at_simps)
    moreover have "b \<le> E"
      using b free_at_mem [OF _ d(1), of b] free_at_mem [OF _ d(3), of b] bounds by fastforce
    ultimately show "links h3 (word_of_nat b) = links h (word_of_nat b)" using ne by (simp add: l3)
  qed
  then have c3: "chain h3 (xStart L) (us @ (a, k, True) # vs) (word_of_nat E)" using c by (simp add: chain_append)
  have r: "r = word_of_nat (free_total (us @ vs))" using f k by (simp add: r_def)
  have used: "links h3 (word_of_nat b) = used_link n" if b: "(b, n, True) \<in> set (us @ (a, k, True) # vs)" for b n
  proof (cases "b = a")
    case True
    then have "n = k" using b eq_key_imp_eq_value [OF dist, of a] by fastforce
    then show ?thesis using True by (simp add: l3)
  next
    case False
    then have "(b, n, True) \<in> set (us @ vs)" using b by auto
    then show ?thesis using u ne [OF False] tiled_mem [OF t b] by (simp add: l3)
  qed
  have "links h3 (word_of_nat E) = links h (word_of_nat E)" using ne [of E] bounds d(2) by (simp add: l3)
  moreover have "block_size h3 (xStart L) = 0" using R(3) [of a] bounds x by (simp add: l3)
  ultimately have "heap_holds L H E h3 (us @ (a, k, True) # vs)"
    unfolding heap_holds_def using reg t m e c3 used bit o3 r by (auto simp del: split_paired_All)
  then show ?thesis by (simp add: code)
qed

lemma malloc_holds_init:
  assumes "heap_holds L H E h bs"
  shows "pxEnd h \<noteq> 0" and "xBlockAllocatedBit h = 0x80000000"
  using assms nat_word_0 [of E] tiled_le [of H bs E] by (auto simp: heap_holds_def heap_region_def)

lemma merged_use: "merged (us @ (a, n, u) # vs) \<Longrightarrow> merged (us @ (a, k, True) # vs)"
  by (auto simp: merged_def successively_append_iff successively_Cons)

lemma take_found_refines:
  assumes h: "heap_holds L H E h bs" and bs: "bs = us @ (a, n, False) # vs"
    and w: "8 \<le> w" "8 dvd w" "w \<le> n"
  shows "\<exists>h'. take_found L (word_of_nat w) (last_free (xStart L) us) (word_of_nat a) h = Some (word_of_nat (a + 8), h') \<and>
    heap_holds L H E h' (us @ (if n - w > 16 then (a, w, True) # (a + w, n - w, False) # vs else (a, n, True) # vs))"
proof -
  let ?xs = "xStart L" and ?a = "word_of_nat a :: u32" and ?e = "word_of_nat E :: u32"
  let ?q = "last_free ?xs us"
  note X = h [unfolded heap_holds_def]
  have reg: "heap_region L H E" using X by blast
  then have R: "0 < H" "8 dvd H" "E < 2 ^ 32" "E < H + 2 ^ 31" "?xs \<noteq> 0" "\<And>b. H \<le> b \<Longrightarrow> b \<le> E \<Longrightarrow> ?xs \<noteq> word_of_nat b"
    by (simp_all add: heap_region_def)
  have t: "tiled H bs E" using X by blast
  then have d: "tiled H us a" "8 \<le> n" "8 dvd n" "tiled (a + n) vs E" using bs by (auto simp: tiled_append)
  have bounds: "H \<le> a" "a + n \<le> E" using tiled_le [OF d(1)] tiled_le [OF d(4)] .
  have dist: "distinct (map fst bs)" using tiled_distinct [OF t] .
  have ne: "(word_of_nat b :: u32) \<noteq> word_of_nat c" if "b \<noteq> c" "b \<le> E" "c \<le> E" for b c
    using nat_word_eq [of b c] that R by auto
  have c: "chain h ?xs us ?a" "next_free h ?q = ?a" "block_size h ?a = word_of_nat n" "chain h ?a vs ?e"
    using X bs by (auto simp: chain_append)
  have q: "?q = ?xs \<or> (\<exists>b \<in> free_at us. ?q = word_of_nat b)" using last_free_mem [of ?xs us] by auto
  have us: "H \<le> b" "b + 8 \<le> a" if "b \<in> free_at us" for b using free_at_mem [OF that d(1)] by auto
  have vs: "a + n \<le> b" "b + 8 \<le> E" if "b \<in> free_at vs" for b using free_at_mem [OF that d(4)] by auto
  have qne: "word_of_nat b \<noteq> ?q" if "H \<le> b" "b \<le> E" "b \<notin> free_at us" for b
    using q R(6) [of b] that us ne bounds by (metis add_leD1 le_trans)
  define h1 where "h1 = set_next_free ?q (next_free h ?a) h"
  have l1: "links h1 (word_of_nat b) = links h (word_of_nat b)" if "H \<le> b" "b \<le> E" "b \<notin> free_at us" for b
    using qne [OF that] by (simp add: h1_def set_next_free_def)
  have o1: "pxEnd h1 = ?e" "xBlockAllocatedBit h1 = 0x80000000" "xFreeBytesRemaining h1 = word_of_nat (free_total bs)"
      "\<And>p. block_size h1 p = block_size h p"
    using X by (simp_all add: h1_def set_next_free_def)
  have a1: "a \<notin> free_at us" using us [of a] by auto
  have E1: "E \<notin> free_at us" using us [of E] bounds d(2) by auto
  have v1: "b \<notin> free_at us" "H \<le> b" "b \<le> E" if "b \<in> free_at vs" for b using us [of b] vs [OF that] bounds d(2) by auto
  have nf: "next_free h ?a = first_free vs ?e" using chain_first [OF c(4)] .
  have ch1: "chain h1 ?xs (us @ vs) ?e"
  proof -
    have "chain h1 ?xs us (first_free vs ?e)"
    proof (rule chain_relink [OF c(1)])
      show "distinct (map fst us)" using dist bs by simp
      fix b assume "b \<in> free_at us"
      then show "b < 2 ^ 32 \<and> word_of_nat b \<noteq> ?xs" using us [of b] R(6) [of b] R(3) bounds by auto
    qed (simp_all add: h1_def set_next_free_def nf)
    moreover have "chain h1 ?q vs ?e"
      by (rule chain_restart [where ws = "[]", unfolded append_Nil, OF c(4)])
        (use l1 v1 in \<open>simp_all add: h1_def set_next_free_def nf\<close>)
    ultimately show ?thesis by (simp add: chain_append)
  qed
  have used: "H \<le> b" "b \<le> E" "b \<notin> free_at us" "b \<noteq> a" "links h (word_of_nat b) = used_link m"
      if "(b, m, True) \<in> set (us @ vs)" for b m
  proof -
    have b: "(b, m, True) \<in> set bs" using that bs by auto
    show "H \<le> b" "b \<le> E" using tiled_mem [OF t b] by auto
    show "b \<notin> free_at us" using used_not_free [OF t b] bs by simp
    show "b \<noteq> a" using dist that bs by force
    show "links h (word_of_nat b) = used_link m" using X b by blast
  qed
  have n31: "n < 2 ^ 31" using bounds R by simp
  have sz: "block_size h1 ?a - word_of_nat w = word_of_nat (n - w)"
    using c(3) o1(4) w(3) by (simp add: of_nat_diff)
  have big: "block_size h1 ?a - word_of_nat w > heapMINIMUM_BLOCK_SIZE \<longleftrightarrow> n - w > 16"
    using nat_word_less [of 16 "n - w"] n31 by (simp add: sz size_values)
  show ?thesis
  proof (cases "n - w > 16")
    case False
    have m: "merged (us @ (a, n, True) # vs)" using X bs merged_use by metis
    have hold: "heap_region L H E \<Longrightarrow> tiled H (us @ (a, n, True) # vs) E"
      using d by (auto simp: tiled_append)
    have "links h1 ?e = \<lparr>pxNextFreeBlock = 0, xBlockSize = 0\<rparr>" using l1 [of E] E1 bounds X by simp
    moreover have "block_size h1 ?xs = 0" using o1(4) X by simp
    moreover have "links h1 (word_of_nat b) = used_link m" if "(b, m, True) \<in> set (us @ vs)" for b m
      using l1 used [OF that] by simp
    moreover have "block_size h1 ?a = word_of_nat n" using c(3) o1(4) by simp
    moreover have "xFreeBytesRemaining h1 = word_of_nat (free_total (us @ vs) + n)"
      using o1(3) bs by (simp add: algebra_simps)
    ultimately have "heap_holds L H E (mark_block ?a h1) (us @ (a, n, True) # vs)"
      by (intro heap_mark [OF reg hold [OF reg] m o1(1) _ _ ch1 _ o1(2)])
    then show ?thesis
      using False big c(2) o1(4) by (simp add: take_found_def split_block_def h1_def [symmetric] Let_def size_values)
  next
    case True
    let ?b = "word_of_nat (a + w) :: u32" and ?us = "us @ [(a, w, True)]"
    have n16: "8 \<le> n - w" "8 dvd n - w" using True d(3) w by auto
    have tw: "tiled H ?us (a + w)" "tiled (a + w + (n - w)) vs E" using d w by (auto simp: tiled_append)
    have b: "H \<le> a + w" "a + w + 8 \<le> E" "a + w \<noteq> a" "a + w \<notin> free_at us" "a + w \<notin> free_at vs"
      using bounds w True us [of "a + w"] vs [of "a + w"] by auto
    define h2 where "h2 = set_block_size ?a (word_of_nat w) (set_block_size ?b (word_of_nat (n - w)) h1)"
    have l2: "links h2 (word_of_nat c) = links h1 (word_of_nat c)" if "c \<noteq> a" "c \<noteq> a + w" "c \<le> E" for c
      using ne [of c a] ne [of c "a + w"] that b bounds by (simp add: h2_def set_block_size_def)
    have n2: "next_free h2 p = next_free h1 p" for p by (simp add: h2_def set_block_size_def)
    have o2: "pxEnd h2 = ?e" "xBlockAllocatedBit h2 = 0x80000000" "xFreeBytesRemaining h2 = word_of_nat (free_total bs)"
      using o1 by (simp_all add: h2_def set_block_size_def)
    have bab: "?b \<noteq> ?a" using ne [of "a + w" a] b bounds by auto
    have xs2: "block_size h2 ?xs = 0"
      using R(6) [of a] R(6) [of "a + w"] b bounds X o1(4) by (simp add: h2_def set_block_size_def)
    have "chain h2 ?xs (us @ vs) ?e = chain h1 ?xs (us @ vs) ?e"
    proof (rule chain_frame)
      fix c assume c: "c \<in> free_at (us @ vs)"
      then have "c \<noteq> a" "c \<le> E" using us [of c] vs [of c] a1 d(2) bounds by auto
      moreover have "c \<noteq> a + w" using c b by auto
      ultimately show "links h2 (word_of_nat c) = links h1 (word_of_nat c)" using l2 by blast
    qed (simp add: n2)
    then have ch2: "chain h2 ?xs (?us @ vs) ?e" using ch1 by (simp add: chain_append)
    have sb: "block_size h2 ?b = word_of_nat (n - w)" "block_size h2 ?a = word_of_nat w"
      using bab by (simp_all add: h2_def set_block_size_def)
    obtain f where f: "prvInsertBlockIntoFreeList L ?b h2 = Some (h2\<lparr>links := f\<rparr>)"
        "chain (h2\<lparr>links := f\<rparr>) ?xs (join ?us (a + w) (n - w) vs) ?e" "xBlockSize (f ?xs) = 0"
        "\<And>c. H \<le> c \<Longrightarrow> c \<le> E \<Longrightarrow> c \<noteq> a + w \<Longrightarrow> c \<notin> free_at us \<Longrightarrow> f (word_of_nat c) = links h2 (word_of_nat c)"
      using insert_block [OF tw(1) n16(1) tw(2) R(1,3,5,6) xs2 ch2 sb(1) o2(1)] by auto
    have mv: "vs = [] \<or> snd (snd (hd vs))" "merged vs" "merged (us @ (a, n, True) # vs)"
      using X bs merged_use [of us a n False vs n] by (auto simp: merged_def successively_append_iff successively_Cons)
    then have j: "join ?us (a + w) (n - w) vs = us @ (a, w, True) # (a + w, n - w, False) # vs"
      by (cases vs) (auto simp: join_def join_left_def join_right_def split: prod.splits bool.splits)
    have m: "merged (us @ (a, w, True) # (a + w, n - w, False) # vs)"
      using mv by (auto simp: merged_def successively_append_iff successively_Cons)
    have hold: "tiled H (us @ (a, w, True) # (a + w, n - w, False) # vs) E"
      using d w n16 by (auto simp: tiled_append)
    have "links (h2\<lparr>links := f\<rparr>) ?e = \<lparr>pxNextFreeBlock = 0, xBlockSize = 0\<rparr>"
      using f(4) [of E] l2 [of E] l1 [of E] E1 bounds b X by simp
    moreover have "block_size (h2\<lparr>links := f\<rparr>) ?xs = 0" using f(3) by simp
    moreover have "chain (h2\<lparr>links := f\<rparr>) ?xs (us @ (a + w, n - w, False) # vs) ?e"
      using f(2) j by (simp add: chain_append)
    moreover have "links (h2\<lparr>links := f\<rparr>) (word_of_nat c) = used_link m"
      if "(c, m, True) \<in> set (us @ (a + w, n - w, False) # vs)" for c m
    proof -
      have u: "(c, m, True) \<in> set (us @ vs)" using that by auto
      have "c \<noteq> a + w"
      proof
        assume "c = a + w"
        then have "(a + w, m, True) \<in> set us \<or> (a + w, m, True) \<in> set vs" using u by auto
        then show False using tiled_mem [OF d(1), of "a + w" m True] tiled_mem [OF d(4), of "a + w" m True] True by auto
      qed
      then show ?thesis using f(4) [of c] l2 [of c] l1 [of c] used [OF u] by simp
    qed
    moreover have "block_size (h2\<lparr>links := f\<rparr>) ?a = word_of_nat w"
      using f(4) [of a] a1 b bounds sb by simp
    moreover have "xFreeBytesRemaining (h2\<lparr>links := f\<rparr>) = word_of_nat (free_total (us @ (a + w, n - w, False) # vs) + w)"
      using o2(3) bs w(3) by (simp add: algebra_simps)
    ultimately have mark: "heap_holds L H E (mark_block ?a (h2\<lparr>links := f\<rparr>)) (us @ (a, w, True) # (a + w, n - w, False) # vs)"
      using o2 by (intro heap_mark [OF reg hold m]) simp_all
    have al: "(?a + word_of_nat w) AND portBYTE_ALIGNMENT_MASK = 0"
    proof -
      have "8 dvd a + w" using tiled_dvd [OF d(1) R(2)] w(2) by simp
      then have "unat ?b mod 8 = 0" using nat_word_0 b R(3)
        by (simp add: unsigned_of_nat take_bit_nat_eq_self del: of_nat_add)
      then have "?b mod 8 = 0" by (simp add: word_unat_eq_iff unat_mod_distrib del: of_nat_add)
      then show ?thesis by (simp add: portBYTE_ALIGNMENT_MASK_def and_mask_7)
    qed
    have "split_block L (word_of_nat w) ?a h1 = Some (h2\<lparr>links := f\<rparr>)"
      using big True al f(1) sz by (simp add: split_block_def Let_def h2_def)
    then show ?thesis
      using True mark c(2) by (simp add: take_found_def h1_def [symmetric] Let_def size_values)
  qed
qed

end
