(* ===== verification/HeapProps.thy ===== *)
theory HeapProps
  imports Heap4
begin

text \<open>
  What \<open>pvPortMalloc\<close> and \<open>vPortFree\<close> of \<open>heap_4.c\<close> promise: they refine a first-fit allocator on the list
  of blocks, from the state at power-up, for every sequence of requests, and whatever the application
  writes into the memory it asked for.
\<close>

section \<open>The request for a block\<close>

definition allocate :: "nat \<Rightarrow> block list \<Rightarrow> (nat \<times> block list) option" where
  "allocate w bs = (if w = 0 then None else take_block (padded w) bs)"

lemma take_block_too_large: "(\<And>b n. (b, n, False) \<in> set bs \<Longrightarrow> n < w) \<Longrightarrow> take_block w bs = None"
proof (induction bs)
  case (Cons x bs)
  obtain b n u where x: "x = (b, n, u)" by (cases x)
  show ?case using Cons.IH Cons.prems x by (fastforce simp: not_le [symmetric])
qed simp

lemma aligned_and_mask:
  assumes "8 dvd a" and "a < 2 ^ 32"
  shows "word_of_nat a AND portBYTE_ALIGNMENT_MASK = 0"
proof -
  have "(word_of_nat a :: u32) mod 8 = 0"
    using assms by (simp add: word_unat_eq_iff unat_mod_distrib unsigned_of_nat take_bit_nat_eq_self)
  then show ?thesis by (simp add: portBYTE_ALIGNMENT_MASK_def and_mask_7)
qed

lemma pvPortMalloc_allocates:
  assumes h: "heap_holds L H E h bs"
  shows "case allocate (unat w) bs of
      None \<Rightarrow> pvPortMalloc L w h = Some (0, h)
    | Some (a, bs') \<Rightarrow> \<exists>h'. pvPortMalloc L w h = Some (word_of_nat (a + 8), h') \<and> heap_holds L H E h' bs'"
proof -
  note X = h [unfolded heap_holds_def]
  have reg: "heap_region L H E" and t: "tiled H bs E" and free: "xFreeBytesRemaining h = word_of_nat (free_total bs)"
    using X by blast+
  note R = reg [unfolded heap_region_def]
  note init = malloc_holds_init [OF h]
  have small: "n < 2 ^ 31" if "(b, n, u) \<in> set bs" for b n u using tiled_mem [OF t that] R by auto
  have total: "free_total bs < 2 ^ 31" using free_total_le [OF t] R by linarith
  have fail: "pvPortMalloc L w h = Some (0, h)"
    if "\<not> (w AND xBlockAllocatedBit h = 0 \<and> padded_size w > 0 \<and> padded_size w \<le> xFreeBytesRemaining h)"
    using that init by (auto simp: pvPortMalloc_def Let_def)
  consider "unat w = 0" | "2 ^ 31 \<le> unat w" | "0 < unat w" "unat w < 2 ^ 31" by linarith
  then show ?thesis
  proof cases
    case 1
    then have "w = 0" by (simp add: unat_eq_zero)
    then show ?thesis using fail by (simp add: allocate_def padded_size_def)
  next
    case 2
    have "take_block (padded (unat w)) bs = None"
      by (rule take_block_too_large) (use small padded_bounds(1) [of "unat w"] 2 in fastforce)
    moreover have "w AND xBlockAllocatedBit h \<noteq> 0" using top_bit [of w] init(2) 2 by simp
    ultimately show ?thesis using fail by (auto simp: allocate_def)
  next
    case 3
    define k where "k = padded (unat w)"
    have k: "8 \<le> k" "8 dvd k" "0 < k" "k < 2 ^ 32"
      using padded_bounds [of "unat w"] 3 by (simp_all add: k_def)
    have size: "padded_size w = word_of_nat k" unfolding k_def by (rule padded_size_eq [OF 3])
    have alloc: "allocate (unat w) bs = take_block k bs" using 3 by (simp add: allocate_def k_def)
    have bit: "w AND xBlockAllocatedBit h = 0" using top_bit [of w] init(2) 3 by simp
    have pos: "(word_of_nat k :: u32) > 0" using nat_word_less [of 0 k] k by simp
    have fits: "(word_of_nat k :: u32) \<le> xFreeBytesRemaining h \<longleftrightarrow> k \<le> free_total bs"
      using nat_word_less [of "free_total bs" k] free total k by (simp add: not_less [symmetric])
    note fit = find_fit_heap [OF h k(3,4)]
    show ?thesis
    proof (cases "take_block k bs")
      case None
      then obtain p where p: "find_fit h (word_of_nat k) (xStart L) (next_free h (xStart L)) = Some (p, word_of_nat E)"
        using fit by auto
      have "pxEnd h = word_of_nat E" using X by blast
      then have "pvPortMalloc L w h = Some (0, h)"
        using p init bit size pos by (simp add: pvPortMalloc_def Let_def)
      then show ?thesis using alloc None by simp
    next
      case (Some r)
      obtain a bs' where r: "r = (a, bs')" by (cases r)
      obtain us n vs where s: "bs = us @ (a, n, False) # vs" "\<forall>b m. (b, m, False) \<in> set us \<longrightarrow> m < k" "k \<le> n"
          "bs' = us @ (if n - k > 16 then (a, k, True) # (a + k, n - k, False) # vs else (a, n, True) # vs)"
        using take_block_Some [of k bs a bs'] Some r by blast
      have p: "find_fit h (word_of_nat k) (xStart L) (next_free h (xStart L)) = Some (last_free (xStart L) us, word_of_nat a)"
        using fit s Some r by auto
      have mem: "(a, n, False) \<in> set bs" using s(1) by simp
      have ae: "a < E" "8 dvd a" using tiled_mem [OF t mem] tiled_dvd [OF t] R mem by auto
      have ne: "(word_of_nat a :: u32) \<noteq> pxEnd h" using nat_word_eq [of a E] ae R X by simp
      have le: "k \<le> free_total bs" using free_total_mem [OF mem] s(3) by simp
      obtain h' where h': "take_found L (word_of_nat k) (last_free (xStart L) us) (word_of_nat a) h = Some (word_of_nat (a + 8), h')"
          "heap_holds L H E h' bs'"
        using take_found_refines [OF h s(1) k(1,2) s(3)] s(4) by auto
      have "word_of_nat (a + 8) AND portBYTE_ALIGNMENT_MASK = 0"
        by (rule aligned_and_mask) (use ae R tiled_mem [OF t mem] in auto)
      then have "pvPortMalloc L w h = Some (word_of_nat (a + 8), h')"
        using p init bit size pos fits le ne h'(1) by (simp add: pvPortMalloc_def Let_def del: of_nat_add)
      then show ?thesis using alloc Some r h'(2) by (simp del: of_nat_add)
    qed
  qed
qed

section \<open>The first request\<close>

text \<open>What the linker must respect: the array fits below the end of memory and the link \<open>xStart\<close> is outside it.\<close>

definition well_linked :: "heap4_layout \<Rightarrow> bool" where
  "well_linked L \<longleftrightarrow> 0 < unat (ucHeap L) \<and> unat (ucHeap L) + 400000 < 2 ^ 32 \<and> xStart L \<noteq> 0 \<and>
     (unat (xStart L) < unat (ucHeap L) \<or> unat (ucHeap L) + 400000 \<le> unat (xStart L))"

definition heap_first :: "heap4_layout \<Rightarrow> nat" where "heap_first L = (unat (ucHeap L) + 7) div 8 * 8"
definition heap_last :: "heap4_layout \<Rightarrow> nat" where "heap_last L = (unat (ucHeap L) + 399992) div 8 * 8"

lemma heap_bounds:
  "unat (ucHeap L) \<le> heap_first L" "heap_first L \<le> unat (ucHeap L) + 7" "heap_first L + 399984 \<le> heap_last L"
  "heap_last L \<le> unat (ucHeap L) + 399992" "8 dvd heap_first L" "8 dvd heap_last L"
proof -
  define u where "u = unat (ucHeap L)"
  have e: "(u + 399992) div 8 = (u + 8) div 8 + 49998" by simp
  have "u \<le> (u + 7) div 8 * 8" "(u + 7) div 8 * 8 \<le> u + 7" "(u + 7) div 8 \<le> (u + 8) div 8" "(u + 8) div 8 * 8 \<le> u + 8"
    by (linarith | simp add: div_le_mono)+
  then show "unat (ucHeap L) \<le> heap_first L" "heap_first L \<le> unat (ucHeap L) + 7" "heap_first L + 399984 \<le> heap_last L"
    "heap_last L \<le> unat (ucHeap L) + 399992" "8 dvd heap_first L" "8 dvd heap_last L"
    unfolding heap_first_def heap_last_def u_def [symmetric] e by simp_all
qed

lemma and_not_7: "(x :: u32) AND NOT 7 = word_of_nat (unat x div 8 * 8)"
proof -
  have "NOT (7 :: u32) = NOT (mask 3)" by (simp add: mask_numeral)
  moreover have "x AND NOT (mask 3) = push_bit 3 (drop_bit 3 x)"
    by (rule bit_word_eqI) (auto simp: bit_simps)
  moreover have "drop_bit 3 x = word_of_nat (unat x div 8)"
    proof -
    have "unat (drop_bit 3 x) = unat x div 8" by (simp only: unat_drop_bit_eq) (simp add: drop_bit_eq_div)
    then show ?thesis using word_unat_eq_iff [of "drop_bit 3 x" "word_of_nat (unat x div 8)"] by (metis of_nat_unat ucast_id)
  qed
  ultimately show ?thesis by (simp add: push_bit_eq_mult)
qed

lemma linked_region:
  assumes "well_linked L"
  shows "heap_region L (heap_first L) (heap_last L)"
proof -
  have "xStart L \<noteq> word_of_nat a" if "heap_first L \<le> a" "a \<le> heap_last L" for a
    using assms that heap_bounds [of L] by (auto simp: well_linked_def unsigned_of_nat take_bit_nat_eq_self)
  then show ?thesis using assms heap_bounds [of L] by (auto simp: heap_region_def well_linked_def)
qed

lemma link_update:
  "(b :: BlockLink_t)\<lparr>xBlockSize := n, pxNextFreeBlock := q\<rparr> = \<lparr>pxNextFreeBlock = q, xBlockSize = n\<rparr>"
  "(b :: BlockLink_t)\<lparr>pxNextFreeBlock := q, xBlockSize := n\<rparr> = \<lparr>pxNextFreeBlock = q, xBlockSize = n\<rparr>"
  by (cases b; simp)+

lemma prvHeapInit_state:
  assumes "well_linked L"
  defines "H \<equiv> heap_first L" and "E \<equiv> heap_last L"
  shows "prvHeapInit L h =
    (let l = (links h)(xStart L := \<lparr>pxNextFreeBlock = word_of_nat H, xBlockSize = 0\<rparr>,
           word_of_nat E := \<lparr>pxNextFreeBlock = 0, xBlockSize = 0\<rparr>,
           word_of_nat H := \<lparr>pxNextFreeBlock = word_of_nat E, xBlockSize = word_of_nat (E - H)\<rparr>)
     in \<lparr>links = l, pxEnd = word_of_nat E, xFreeBytesRemaining = word_of_nat (E - H),
         xMinimumEverFreeBytesRemaining = word_of_nat (E - H), xBlockAllocatedBit = 0x80000000\<rparr>)"
proof -
  let ?u = "unat (ucHeap L)"
  have u: "ucHeap L = word_of_nat ?u" by simp
  have b: "0 < ?u" "?u + 400000 < 2 ^ 32" using assms(1) by (simp_all add: well_linked_def)
  note HE = heap_bounds [of L, folded H_def E_def]
  have const: "xHeapStructSize = 8" "portBYTE_ALIGNMENT_MASK = 7" "portBYTE_ALIGNMENT - 1 = 7" "configTOTAL_HEAP_SIZE = 400000"
    by (simp_all add: size_values portBYTE_ALIGNMENT_MASK_def portBYTE_ALIGNMENT_def configTOTAL_HEAP_SIZE_def)
  have up: "(ucHeap L + 7) AND NOT 7 = word_of_nat H"
  proof -
    have "ucHeap L + 7 = word_of_nat (?u + 7)" by simp
    then have "unat (ucHeap L + 7) = ?u + 7" using b by (simp add: unsigned_of_nat take_bit_nat_eq_self del: of_nat_add)
    then show ?thesis by (simp only: and_not_7 H_def heap_first_def)
  qed
  have same: "word_of_nat H = ucHeap L" if "ucHeap L AND 7 = 0"
  proof -
    have "unat (ucHeap L mod 8) = ?u mod 8" by (simp add: unat_mod_distrib)
    then have "?u mod 8 = 0" using that by (simp add: and_mask_7)
    then have "H = ?u" unfolding H_def heap_first_def by presburger
    then show ?thesis by simp
  qed
  have "(ucHeap L + 399992) AND NOT 7 = word_of_nat E"
  proof -
    have "ucHeap L + 399992 = word_of_nat (?u + 399992)" by simp
    then have "unat (ucHeap L + 399992) = ?u + 399992"
      using b by (simp add: unsigned_of_nat take_bit_nat_eq_self del: of_nat_add)
    then show ?thesis by (simp only: and_not_7 E_def heap_last_def)
  qed
  moreover have "word_of_nat H + (400000 - (word_of_nat H - ucHeap L)) - 8 = ucHeap L + 399992"
      "ucHeap L + 400000 - 8 = ucHeap L + 399992" by simp_all
  ultimately have last: "(word_of_nat H + (400000 - (word_of_nat H - ucHeap L)) - 8) AND NOT 7 = word_of_nat E"
    "(ucHeap L + 400000 - 8) AND NOT 7 = word_of_nat E"
    by (simp_all only:)
  have diff: "word_of_nat E - word_of_nat H = (word_of_nat (E - H) :: u32)" using HE by (simp add: of_nat_diff)
  have ne: "(word_of_nat H :: u32) \<noteq> word_of_nat E" using nat_word_eq [of H E] HE b by simp
  have bit: "push_bit 31 (1 :: u32) = 0x80000000" by (simp add: push_bit_eq_mult)
  have xs: "xStart L \<noteq> word_of_nat H" "xStart L \<noteq> word_of_nat E"
    using linked_region [OF assms(1)] HE by (simp_all add: heap_region_def H_def E_def)
  define t :: u32 where "t = (if ucHeap L AND 7 \<noteq> 0 then 400000 - (word_of_nat H - ucHeap L) else 400000)"
  have P: "(if ucHeap L AND 7 \<noteq> 0
       then ((ucHeap L + 7) AND NOT 7, 400000 - (((ucHeap L + 7) AND NOT 7) - ucHeap L)) else (ucHeap L, 400000)) =
      (word_of_nat H, t)"
    unfolding up t_def using same by (cases "ucHeap L AND 7 = 0") (simp_all only: if_True if_False simp_thms)
  have E: "(word_of_nat H + t - 8) AND NOT 7 = word_of_nat E"
    unfolding t_def using last same by (cases "ucHeap L AND 7 = 0") (simp_all only: if_True if_False simp_thms)
  show ?thesis
    by (simp only: prvHeapInit_def Let_def const P prod.case E bit diff)
      (cases h, simp add: set_next_free_def set_block_size_def ne xs link_update)
qed
lemma heap_first_holds:
  assumes "well_linked L"
  shows "heap_holds L (heap_first L) (heap_last L) (prvHeapInit L h) [(heap_first L, heap_last L - heap_first L, False)]"
proof -
  let ?H = "heap_first L" and ?E = "heap_last L"
  have reg: "heap_region L ?H ?E" by (rule linked_region [OF assms])
  then have ne: "xStart L \<noteq> word_of_nat ?H" "xStart L \<noteq> word_of_nat ?E" "(word_of_nat ?H :: u32) \<noteq> word_of_nat ?E"
    using nat_word_eq [of ?H ?E] heap_bounds [of L] by (auto simp: heap_region_def)
  have "tiled ?H [(?H, ?E - ?H, False)] ?E" using heap_bounds [of L] by auto
  then show ?thesis
    using reg ne by (simp add: heap_holds_def merged_def prvHeapInit_state [OF assms] Let_def)
qed

lemma first_request:
  assumes "well_linked L" and "pxEnd h = 0"
  shows "pvPortMalloc L w h = pvPortMalloc L w (prvHeapInit L h)"
proof -
  have "pxEnd (prvHeapInit L h) \<noteq> 0" using malloc_holds_init [OF heap_first_holds [OF assms(1)]] by simp
  then show ?thesis using assms(2) by (simp add: pvPortMalloc_def)
qed

section \<open>What belongs to the application\<close>

definition in_use :: "block list \<Rightarrow> (nat \<times> nat) set" where
  "in_use bs = {(a, n). (a, n, True) \<in> set bs}"

lemma in_use_simps [simp]:
  "in_use [] = {}" "in_use ((a, n, True) # bs) = insert (a, n) (in_use bs)" "in_use ((a, n, False) # bs) = in_use bs"
  "in_use (us @ vs) = in_use us \<union> in_use vs" "(a, n) \<in> in_use bs \<longleftrightarrow> (a, n, True) \<in> set bs"
  by (auto simp: in_use_def)

lemma allocate_in_use:
  assumes "allocate w bs = Some (a, bs')"
  obtains n where "w + 8 \<le> n" "in_use bs' = insert (a, n) (in_use bs)" "a \<in> free_at bs"
proof -
  have "take_block (padded w) bs = Some (a, bs')" using assms by (simp add: allocate_def split: if_splits)
  then obtain us k vs where s: "bs = us @ (a, k, False) # vs" "padded w \<le> k"
      "bs' = us @ (if k - padded w > 16 then (a, padded w, True) # (a + padded w, k - padded w, False) # vs else (a, k, True) # vs)"
    using take_block_Some by blast
  show thesis
    using that [of "if k - padded w > 16 then padded w else k"] s padded_bounds(1) [of w] by (auto simp: le_trans)
qed

lemma release_in_use:
  assumes t: "tiled H bs E" and a: "(a, n, True) \<in> set bs"
  shows "in_use (release a bs) = in_use bs - {(a, n)}"
proof -
  obtain us vs where s: "bs = us @ (a, n, True) # vs" "takeWhile (\<lambda>x. fst x \<noteq> a) bs = us"
      "dropWhile (\<lambda>x. fst x \<noteq> a) bs = (a, n, True) # vs" "a \<notin> fst ` set us" "a \<notin> fst ` set vs"
    using heap_split [OF t a] by metis
  have "release a bs = join us a n vs" using s by (simp add: release_def)
  then show ?thesis using s(1,4,5) by (force simp: in_use_def join_used)
qed

text \<open>The application writes the \<open>w\<close> bytes from address \<open>p\<close>: any link there may change.\<close>

definition poke :: "u32 \<Rightarrow> u32 \<Rightarrow> (u32 \<Rightarrow> BlockLink_t) \<Rightarrow> heap4 \<Rightarrow> heap4" where
  "poke p w f h = h\<lparr>links := \<lambda>x. if unat p \<le> unat x \<and> unat x < unat p + unat w then f x else links h x\<rparr>"

lemma tiled_apart:
  assumes "tiled a bs e" and "(b, n, u) \<in> set bs" and "(c, m, v) \<in> set bs" and "b \<noteq> c"
  shows "b + n \<le> c \<or> c + m \<le> b"
  using assms
proof (induction bs arbitrary: a)
  case (Cons x bs)
  obtain d k w where x: "x = (d, k, w)" by (cases x)
  then have t: "d = a" "tiled (a + k) bs e" using Cons.prems(1) by auto
  show ?case using Cons.IH [OF t(2)] Cons.prems(2-4) tiled_mem [OF t(2)] x t(1) by fastforce
qed simp

lemma poke_holds:
  assumes h: "heap_holds L H E h bs" and a: "(a, n, True) \<in> set bs" and w: "unat w + 8 \<le> n"
  shows "heap_holds L H E (poke (word_of_nat (a + 8)) w f h) bs"
proof -
  let ?g = "poke (word_of_nat (a + 8)) w f h"
  note X = h [unfolded heap_holds_def]
  have reg: "heap_region L H E" and t: "tiled H bs E" using X by blast+
  note R = reg [unfolded heap_region_def]
  have an: "H \<le> a" "a + n \<le> E" "8 \<le> n" using tiled_mem [OF t a] by auto
  have p: "unat (word_of_nat (a + 8) :: u32) = a + 8"
    using an R by (simp add: unsigned_of_nat take_bit_nat_eq_self del: of_nat_add)
  have same: "links ?g (word_of_nat b) = links h (word_of_nat b)" if "b < 2 ^ 32" "b \<le> a \<or> a + n \<le> b" for b
  proof -
    have "unat (word_of_nat b :: u32) = b" using that by (simp add: unsigned_of_nat take_bit_nat_eq_self)
    then show ?thesis using that w p by (auto simp: poke_def)
  qed
  have apart: "b < 2 ^ 32 \<and> (b \<le> a \<or> a + n \<le> b)" if "(b, m, u) \<in> set bs" for b m u
    using tiled_apart [OF t that a] tiled_mem [OF t that] R by fastforce
  have xs: "links ?g (xStart L) = links h (xStart L)"
  proof -
    have "\<not> (H \<le> unat (xStart L) \<and> unat (xStart L) \<le> E)" using R by (metis of_nat_unat ucast_id)
    then show ?thesis using p w an by (auto simp: poke_def)
  qed
  have "chain ?g (xStart L) bs (word_of_nat E) = chain h (xStart L) bs (word_of_nat E)"
    by (rule chain_frame) (use xs same apart in \<open>auto simp: free_at_def\<close>)
  moreover have "links ?g (word_of_nat E) = links h (word_of_nat E)" using same [of E] an R by simp
  moreover have "links ?g (word_of_nat b) = used_link m" if "(b, m, True) \<in> set bs" for b m
    using same apart [OF that] X that by metis
  moreover have "pxEnd ?g = pxEnd h" "xBlockAllocatedBit ?g = xBlockAllocatedBit h"
      "xFreeBytesRemaining ?g = xFreeBytesRemaining h" "xMinimumEverFreeBytesRemaining ?g = xMinimumEverFreeBytesRemaining h"
    by (simp_all add: poke_def)
  ultimately show ?thesis using X xs unfolding heap_holds_def by (auto simp del: split_paired_All)
qed

section \<open>A client of the allocator\<close>

text \<open>
  A client asks for memory, gives the \<open>k\<close>th of its pieces back or writes into it, in any order; its state is
  the heap and the pieces it holds, each with the size it asked for.
\<close>

datatype 'v request = Ask u32 | Give nat | Write nat 'v

type_synonym 'h client = "'h \<times> (u32 \<times> u32) list"

fun serve :: "(u32 \<Rightarrow> 'h \<Rightarrow> (u32 \<times> 'h) option) \<Rightarrow> (u32 \<Rightarrow> 'h \<Rightarrow> 'h option) \<Rightarrow> (u32 \<Rightarrow> u32 \<Rightarrow> 'v \<Rightarrow> 'h \<Rightarrow> 'h) \<Rightarrow>
    'v request \<Rightarrow> 'h client \<Rightarrow> 'h client option" where
  "serve malloc free put (Ask w) (h, ps) =
     map_option (\<lambda>(p, h). (h, if p = 0 then ps else ps @ [(p, w)])) (malloc w h)"
| "serve malloc free put (Give k) (h, ps) =
     (if k < length ps then map_option (\<lambda>h. (h, take k ps @ drop (Suc k) ps)) (free (fst (ps ! k)) h) else Some (h, ps))"
| "serve malloc free put (Write k v) (h, ps) =
     Some (if k < length ps then put (fst (ps ! k)) (snd (ps ! k)) v h else h, ps)"

primrec serve_all :: "(u32 \<Rightarrow> 'h \<Rightarrow> (u32 \<times> 'h) option) \<Rightarrow> (u32 \<Rightarrow> 'h \<Rightarrow> 'h option) \<Rightarrow> (u32 \<Rightarrow> u32 \<Rightarrow> 'v \<Rightarrow> 'h \<Rightarrow> 'h) \<Rightarrow>
    'v request list \<Rightarrow> 'h client \<Rightarrow> 'h client option" where
  "serve_all malloc free put [] s = Some s"
| "serve_all malloc free put (r # rs) s = Option.bind (serve malloc free put r s) (serve_all malloc free put rs)"

text \<open>The pieces of the client, as regions of the allocator: one region each, at least as long as asked for.\<close>

definition pieces :: "(u32 \<times> u32) list \<Rightarrow> (nat \<times> nat) set \<Rightarrow> bool" where
  "pieces ps R \<longleftrightarrow> distinct (map fst ps) \<and> fst ` R = (\<lambda>x. unat (fst x)) ` set ps \<and>
     (\<forall>(p, w) \<in> set ps. \<exists>n. unat w \<le> n \<and> (unat p, n) \<in> R)"

lemma pieces_snoc:
  assumes "pieces ps R" and "unat p \<notin> fst ` R" and "unat w \<le> n"
  shows "pieces (ps @ [(p, w)]) (insert (unat p, n) R)"
proof -
  have "p \<notin> fst ` set ps" using assms(1,2) unfolding pieces_def by force
  then show ?thesis using assms(1,3) unfolding pieces_def by auto
qed

lemma pieces_remove:
  assumes "pieces ps R" and "k < length ps" and "(unat (fst (ps ! k)), n) \<in> R"
    and "\<And>m. (unat (fst (ps ! k)), m) \<in> R \<Longrightarrow> m = n"
  shows "pieces (take k ps @ drop (Suc k) ps) (R - {(unat (fst (ps ! k)), n)})"
proof -
  define p qs where "p = fst (ps ! k)" and "qs = take k ps @ drop (Suc k) ps"
  have ps: "ps = take k ps @ ps ! k # drop (Suc k) ps" using id_take_nth_drop [OF assms(2)] .
  have "set ps = insert (ps ! k) (set qs)" unfolding qs_def by (subst ps) simp
  moreover have "distinct (map fst (take k ps @ ps ! k # drop (Suc k) ps))"
    using assms(1) ps by (simp add: pieces_def)
  then have d: "p \<notin> fst ` set qs" "distinct (map fst qs)" by (auto simp: p_def qs_def)
  ultimately have starts: "(\<lambda>x. unat (fst x)) ` set ps = insert (unat p) ((\<lambda>x. unat (fst x)) ` set qs)"
    by (simp add: p_def)
  have fresh: "unat (fst x) \<noteq> unat p" if "x \<in> set qs" for x
    using d(1) that by (auto simp flip: word_unat_eq_iff)
  have "fst ` (R - {(unat p, n)}) = fst ` R - {unat p}" using assms(4) by (force simp: p_def)
  also have "fst ` R = insert (unat p) ((\<lambda>x. unat (fst x)) ` set qs)" using assms(1) starts by (simp add: pieces_def)
  also have "\<dots> - {unat p} = (\<lambda>x. unat (fst x)) ` set qs" using fresh by auto
  finally have "fst ` (R - {(unat p, n)}) = (\<lambda>x. unat (fst x)) ` set qs" .
  moreover have "\<exists>m. unat w \<le> m \<and> (unat q, m) \<in> R - {(unat p, n)}" if q: "(q, w) \<in> set qs" for q w
  proof -
    have "(q, w) \<in> set ps" using q unfolding qs_def by (auto dest: in_set_takeD in_set_dropD)
    then obtain m where "unat w \<le> m" "(unat q, m) \<in> R" using assms(1) by (auto simp: pieces_def)
    then show ?thesis using fresh [OF q] by auto
  qed
  ultimately have "pieces qs (R - {(unat p, n)})" using d(2) unfolding pieces_def by blast
  then show ?thesis by (simp add: p_def qs_def)
qed

locale allocator =
  fixes malloc :: "u32 \<Rightarrow> 'h \<Rightarrow> (u32 \<times> 'h) option" and free :: "u32 \<Rightarrow> 'h \<Rightarrow> 'h option"
    and put :: "u32 \<Rightarrow> u32 \<Rightarrow> 'v \<Rightarrow> 'h \<Rightarrow> 'h"
    and owns :: "'h \<Rightarrow> (nat \<times> nat) set \<Rightarrow> bool" and lo hi :: nat
  assumes inside: "owns h R \<Longrightarrow> (a, n) \<in> R \<Longrightarrow> lo \<le> a \<and> a + n \<le> hi \<and> 8 dvd a"
    and apart: "owns h R \<Longrightarrow> (a, n) \<in> R \<Longrightarrow> (b, m) \<in> R \<Longrightarrow> a \<noteq> b \<Longrightarrow> a + n \<le> b \<or> b + m \<le> a"
    and unique: "owns h R \<Longrightarrow> (a, n) \<in> R \<Longrightarrow> (a, m) \<in> R \<Longrightarrow> n = m"
    and malloc_law: "owns h R \<Longrightarrow> \<exists>p h'. malloc w h = Some (p, h') \<and>
      (if p = 0 then owns h' R else unat p \<notin> fst ` R \<and> (\<exists>n. unat w \<le> n \<and> owns h' (insert (unat p, n) R)))"
    and free_law: "owns h R \<Longrightarrow> (unat p, n) \<in> R \<Longrightarrow> \<exists>h'. free p h = Some h' \<and> owns h' (R - {(unat p, n)})"
    and put_law: "owns h R \<Longrightarrow> (unat p, n) \<in> R \<Longrightarrow> unat w \<le> n \<Longrightarrow> owns (put p w v h) R"
begin

lemma serve_pieces:
  assumes "owns h R" and "pieces ps R"
  shows "\<exists>h' ps' R'. serve malloc free put r (h, ps) = Some (h', ps') \<and> owns h' R' \<and> pieces ps' R'"
proof (cases r)
  case (Ask w)
  obtain p h' where m: "malloc w h = Some (p, h')"
      "if p = 0 then owns h' R else unat p \<notin> fst ` R \<and> (\<exists>n. unat w \<le> n \<and> owns h' (insert (unat p, n) R))"
    using malloc_law [OF assms(1), of w] by blast
  show ?thesis
  proof (cases "p = 0")
    case True
    then show ?thesis using Ask m assms(2) by auto
  next
    case False
    then obtain n where n: "unat p \<notin> fst ` R" "unat w \<le> n" "owns h' (insert (unat p, n) R)" using m by auto
    have "pieces (ps @ [(p, w)]) (insert (unat p, n) R)" using pieces_snoc [OF assms(2) n(1,2)] .
    then show ?thesis using Ask m(1) n(3) False by auto
  qed
next
  case (Give k)
  show ?thesis
  proof (cases "k < length ps")
    case True
    obtain n where n: "(unat (fst (ps ! k)), n) \<in> R"
      using assms(2) nth_mem [OF True] by (force simp: pieces_def)
    obtain h' where h': "free (fst (ps ! k)) h = Some h'" "owns h' (R - {(unat (fst (ps ! k)), n)})"
      using free_law [OF assms(1) n] by blast
    have "pieces (take k ps @ drop (Suc k) ps) (R - {(unat (fst (ps ! k)), n)})"
      by (rule pieces_remove [OF assms(2) True n]) (use unique [OF assms(1) _ n] in blast)
    then show ?thesis using Give True h' by auto
  next
    case False
    then show ?thesis using Give assms by auto
  qed
next
  case (Write k v)
  show ?thesis
  proof (cases "k < length ps")
    case True
    then obtain n where "unat (snd (ps ! k)) \<le> n" "(unat (fst (ps ! k)), n) \<in> R"
      using assms(2) nth_mem [OF True] by (force simp: pieces_def)
    then have "owns (put (fst (ps ! k)) (snd (ps ! k)) v h) R" using put_law [OF assms(1)] by blast
    then show ?thesis using Write True assms(2) by auto
  next
    case False
    then show ?thesis using Write assms by auto
  qed
qed

lemma serve_all_pieces:
  "owns h R \<Longrightarrow> pieces ps R \<Longrightarrow>
    \<exists>h' ps' R'. serve_all malloc free put rs (h, ps) = Some (h', ps') \<and> owns h' R' \<and> pieces ps' R'"
proof (induction rs arbitrary: h ps R)
  case (Cons r rs)
  obtain h1 ps1 R1 where s: "serve malloc free put r (h, ps) = Some (h1, ps1)" "owns h1 R1" "pieces ps1 R1"
    using serve_pieces [OF Cons.prems] by blast
  show ?case using Cons.IH [OF s(2,3)] s(1) by simp
qed auto

lemma pieces_apart:
  assumes "owns h R" and "pieces ps R" and "i < length ps"
  shows "lo \<le> unat (fst (ps ! i)) \<and> unat (fst (ps ! i)) + unat (snd (ps ! i)) \<le> hi \<and> 8 dvd unat (fst (ps ! i))"
    and "j < length ps \<Longrightarrow> i \<noteq> j \<Longrightarrow> unat (fst (ps ! i)) + unat (snd (ps ! i)) \<le> unat (fst (ps ! j)) \<or>
      unat (fst (ps ! j)) + unat (snd (ps ! j)) \<le> unat (fst (ps ! i))"
proof -
  have ex: "\<exists>n. unat (snd (ps ! k)) \<le> n \<and> (unat (fst (ps ! k)), n) \<in> R" if "k < length ps" for k
    using assms(2) nth_mem [OF that] by (force simp: pieces_def)
  obtain n where n: "unat (snd (ps ! i)) \<le> n" "(unat (fst (ps ! i)), n) \<in> R" using ex [OF assms(3)] by blast
  then show "lo \<le> unat (fst (ps ! i)) \<and> unat (fst (ps ! i)) + unat (snd (ps ! i)) \<le> hi \<and> 8 dvd unat (fst (ps ! i))"
    using inside [OF assms(1) n(2)] by auto
  assume j: "j < length ps" "i \<noteq> j"
  obtain m where m: "unat (snd (ps ! j)) \<le> m" "(unat (fst (ps ! j)), m) \<in> R" using ex [OF j(1)] by blast
  have "distinct (map fst ps)" using assms(2) by (simp add: pieces_def)
  then have "fst (ps ! i) \<noteq> fst (ps ! j)" using j assms(3) by (metis length_map nth_eq_iff_index_eq nth_map)
  then show "unat (fst (ps ! i)) + unat (snd (ps ! i)) \<le> unat (fst (ps ! j)) \<or>
      unat (fst (ps ! j)) + unat (snd (ps ! j)) \<le> unat (fst (ps ! i))"
    using apart [OF assms(1) n(2) m(2)] n(1) m(1) by (auto simp: word_unat_eq_iff)
qed

end


section \<open>The heap of the kernel as such an allocator\<close>

definition heap_owns :: "heap4_layout \<Rightarrow> heap4 \<Rightarrow> (nat \<times> nat) set \<Rightarrow> bool" where
  "heap_owns L h R \<longleftrightarrow> well_linked L \<and> ((pxEnd h = 0 \<and> R = {}) \<or>
     (\<exists>bs. heap_holds L (heap_first L) (heap_last L) h bs \<and> R = (\<lambda>(a, n). (a + 8, n - 8)) ` in_use bs))"

lemma heap_ownsI:
  "well_linked L \<Longrightarrow> heap_holds L (heap_first L) (heap_last L) h bs \<Longrightarrow>
    heap_owns L h ((\<lambda>(a, n). (a + 8, n - 8)) ` in_use bs)"
  by (auto simp: heap_owns_def)

lemma heap_ownsE:
  assumes "heap_owns L h R" and "x \<in> R"
  obtains bs where "well_linked L" "heap_holds L (heap_first L) (heap_last L) h bs" "R = (\<lambda>(a, n). (a + 8, n - 8)) ` in_use bs"
    "tiled (heap_first L) bs (heap_last L)"
  using assms unfolding heap_owns_def heap_holds_def by blast

lemma heap_owns_region:
  assumes "heap_owns L h R" and "R = (\<lambda>(a, n). (a + 8, n - 8)) ` in_use bs" and "(p, n) \<in> R"
    and "tiled (heap_first L) bs (heap_last L)"
  obtains a k where "p = a + 8" "n = k - 8" "(a, k, True) \<in> set bs" "8 \<le> k" "heap_first L \<le> a" "a + k \<le> heap_last L"
proof -
  obtain a k where "p = a + 8" "n = k - 8" "(a, k, True) \<in> set bs" using assms(2,3) by auto
  then show thesis using that tiled_mem [OF assms(4)] by blast
qed

lemma heap_owns_malloc:
  assumes "heap_owns L h R"
  shows "\<exists>p h'. pvPortMalloc L w h = Some (p, h') \<and>
    (if p = 0 then heap_owns L h' R
     else unat p \<notin> fst ` R \<and> (\<exists>n. unat w \<le> n \<and> heap_owns L h' (insert (unat p, n) R)))"
proof -
  let ?H = "heap_first L" and ?E = "heap_last L"
  have L: "well_linked L" using assms by (simp add: heap_owns_def)
  obtain g bs where g: "heap_holds L ?H ?E g bs" "R = (\<lambda>(a, n). (a + 8, n - 8)) ` in_use bs"
      "pvPortMalloc L w h = pvPortMalloc L w g"
  proof (cases "pxEnd h = 0 \<and> R = {}")
    case True
    then show thesis using that [OF heap_first_holds [OF L]] first_request [OF L] by simp
  next
    case False
    then show thesis using assms that by (auto simp: heap_owns_def)
  qed
  have t: "tiled ?H bs ?E" using g(1) by (simp add: heap_holds_def)
  have E: "?E < 2 ^ 32" "0 < ?H" using linked_region [OF L] by (simp_all add: heap_region_def)
  note m = pvPortMalloc_allocates [OF g(1), of w]
  show ?thesis
  proof (cases "allocate (unat w) bs")
    case None
    then have "pvPortMalloc L w h = Some (0, g)" using m g(3) by simp
    then show ?thesis using heap_ownsI [OF L g(1)] g(2) by auto
  next
    case (Some r)
    obtain a bs' where r: "r = (a, bs')" by (cases r)
    then obtain h' where h': "pvPortMalloc L w h = Some (word_of_nat (a + 8), h')" "heap_holds L ?H ?E h' bs'"
      using m Some g(3) by auto
    obtain n where n: "unat w + 8 \<le> n" "in_use bs' = insert (a, n) (in_use bs)" "a \<in> free_at bs"
      using allocate_in_use [of "unat w" bs a bs'] Some r by blast
    have ae: "?H \<le> a" "a + 8 \<le> ?E" using free_at_mem [OF n(3) t] by auto
    then have p: "unat (word_of_nat (a + 8) :: u32) = a + 8" "word_of_nat (a + 8) \<noteq> (0 :: u32)"
      using E nat_word_0 [of "a + 8"] by (simp_all add: unsigned_of_nat take_bit_nat_eq_self del: of_nat_add)
    have new: "a + 8 \<notin> fst ` R"
    proof
      assume "a + 8 \<in> fst ` R"
      then obtain k where "(a, k, True) \<in> set bs" using g(2) by auto
      then show False using used_not_free [OF t] n(3) by blast
    qed
    have "heap_owns L h' (insert (a + 8, n - 8) R)"
      using heap_ownsI [OF L h'(2)] n(2) g(2) by simp
    then have own: "heap_owns L h' (insert (unat (word_of_nat (a + 8) :: u32), n - 8) R)" by (simp only: p(1))
    have "unat w \<le> n - 8" using n(1) by simp
    then show ?thesis using h'(1) p new own by (metis p(1))
  qed
qed

interpretation kernel_heap: allocator "pvPortMalloc L" "vPortFree L" poke "heap_owns L" "heap_first L" "heap_last L"
  for L
proof unfold_locales
  fix h R a n b m
  assume o: "heap_owns L h R" and a: "(a, n) \<in> R"
  then obtain bs where b: "well_linked L" "R = (\<lambda>(a, n). (a + 8, n - 8)) ` in_use bs" "tiled (heap_first L) bs (heap_last L)"
    by (rule heap_ownsE)
  obtain c k where c: "a = c + 8" "n = k - 8" "(c, k, True) \<in> set bs" "8 \<le> k" "heap_first L \<le> c" "c + k \<le> heap_last L"
    using heap_owns_region [OF o b(2) a b(3)] .
  have "8 dvd c" using tiled_dvd [OF b(3)] heap_bounds(5) [of L] c(3) by auto
  then show "heap_first L \<le> a \<and> a + n \<le> heap_last L \<and> 8 dvd a" using c by simp
  {
    assume m: "(b, m) \<in> R" and ne: "a \<noteq> b"
    obtain d l where d: "b = d + 8" "m = l - 8" "(d, l, True) \<in> set bs" "8 \<le> l"
      using heap_owns_region [OF o b(2) m b(3)] by metis
    show "a + n \<le> b \<or> b + m \<le> a" using tiled_apart [OF b(3) c(3) d(3)] c d ne by auto
  }
  assume m: "(a, m) \<in> R"
  obtain l where "m = l - 8" "(c, l, True) \<in> set bs"
    using heap_owns_region [OF o b(2) m b(3)] c(1) by (metis add_right_cancel)
  then show "n = m" using eq_key_imp_eq_value [OF tiled_distinct [OF b(3)] c(3)] c(2) by fastforce
next
  fix h R w
  assume "heap_owns L h R"
  then show "\<exists>p h'. pvPortMalloc L w h = Some (p, h') \<and> (if p = 0 then heap_owns L h' R
      else unat p \<notin> fst ` R \<and> (\<exists>n. unat w \<le> n \<and> heap_owns L h' (insert (unat p, n) R)))"
    by (rule heap_owns_malloc)
next
  fix h R n v and p w :: u32
  assume o: "heap_owns L h R" and p: "(unat p, n) \<in> R"
  then obtain bs where b: "well_linked L" "heap_holds L (heap_first L) (heap_last L) h bs"
      "R = (\<lambda>(a, n). (a + 8, n - 8)) ` in_use bs" "tiled (heap_first L) bs (heap_last L)"
    by (rule heap_ownsE)
  obtain a k where a: "unat p = a + 8" "n = k - 8" "(a, k, True) \<in> set bs" "8 \<le> k"
    using heap_owns_region [OF o b(3) p b(4)] by metis
  have pa: "p = word_of_nat (a + 8)" using a(1) by (metis of_nat_unat ucast_id)
  show "\<exists>h'. vPortFree L p h = Some h' \<and> heap_owns L h' (R - {(unat p, n)})"
  proof -
    obtain h' where h': "vPortFree L p h = Some h'" "heap_holds L (heap_first L) (heap_last L) h' (release a bs)"
      using vPortFree_releases [OF b(2) a(3)] pa by blast
    have inj: "inj_on (\<lambda>(a, n). (a + 8, n - 8 :: nat)) (in_use bs)"
      by (auto simp: inj_on_def dest!: tiled_mem [OF b(4)])
    have "(\<lambda>(a, n). (a + 8, n - 8)) ` in_use (release a bs) = R - {(unat p, n)}"
      using inj_on_image_set_diff [OF inj, of "in_use bs" "{(a, k)}"] a b(3) release_in_use [OF b(4) a(3)] by simp
    then show ?thesis using heap_ownsI [OF b(1) h'(2)] h'(1) by auto
  qed
  assume w: "unat w \<le> n"
  then have "heap_holds L (heap_first L) (heap_last L) (poke p w v h) bs"
    unfolding pa using poke_holds [OF b(2) a(3)] a(2,4) by simp
  then show "heap_owns L (poke p w v h) R" using heap_ownsI [OF b(1)] b(3) by simp
qed

section \<open>The refinement\<close>

text \<open>The same requests on the list of blocks.\<close>

fun serve_blocks :: "'v request \<Rightarrow> block list \<times> (u32 \<times> u32) list \<Rightarrow> block list \<times> (u32 \<times> u32) list" where
  "serve_blocks (Ask w) (bs, ps) =
     (case allocate (unat w) bs of None \<Rightarrow> (bs, ps) | Some (a, bs') \<Rightarrow> (bs', ps @ [(word_of_nat (a + 8), w)]))"
| "serve_blocks (Give k) (bs, ps) =
     (if k < length ps then (release (unat (fst (ps ! k)) - 8) bs, take k ps @ drop (Suc k) ps) else (bs, ps))"
| "serve_blocks (Write k v) (bs, ps) = (bs, ps)"

definition whole :: "heap4_layout \<Rightarrow> block list" where
  "whole L = [(heap_first L, heap_last L - heap_first L, False)]"

text \<open>The heap, initialised or still as at power-up, stands for \<open>bs\<close>, of which the application holds \<open>ps\<close>.\<close>

definition stands_for :: "heap4_layout \<Rightarrow> heap4 \<Rightarrow> block list \<Rightarrow> bool" where
  "stands_for L h bs \<longleftrightarrow> heap_holds L (heap_first L) (heap_last L) h bs \<or> (pxEnd h = 0 \<and> bs = whole L)"

abbreviation regions :: "block list \<Rightarrow> (nat \<times> nat) set" where
  "regions bs \<equiv> (\<lambda>(a, n). (a + 8, n - 8)) ` in_use bs"

lemma stands_for_init:
  assumes "well_linked L" and "stands_for L h bs"
  obtains g where "heap_holds L (heap_first L) (heap_last L) g bs" "pvPortMalloc L w h = pvPortMalloc L w g"
  using assms heap_first_holds [OF assms(1), folded whole_def] first_request [OF assms(1)]
  unfolding stands_for_def by metis

lemma piece_block:
  assumes "well_linked L" and "stands_for L h bs" and "pieces ps (regions bs)" and "k < length ps"
  obtains a n where "heap_holds L (heap_first L) (heap_last L) h bs" "fst (ps ! k) = word_of_nat (a + 8)"
    "unat (fst (ps ! k)) = a + 8" "(a, n, True) \<in> set bs" "unat (snd (ps ! k)) + 8 \<le> n"
    "tiled (heap_first L) bs (heap_last L)"
proof -
  obtain m where m: "unat (snd (ps ! k)) \<le> m" "(unat (fst (ps ! k)), m) \<in> regions bs"
    using assms(3) nth_mem [OF assms(4)] by (force simp: pieces_def)
  then obtain a n where a: "unat (fst (ps ! k)) = a + 8" "m = n - 8" "(a, n, True) \<in> set bs" by auto
  have h: "heap_holds L (heap_first L) (heap_last L) h bs"
    using assms(2) a(3) by (auto simp: stands_for_def whole_def)
  then have t: "tiled (heap_first L) bs (heap_last L)" by (simp add: heap_holds_def)
  have "fst (ps ! k) = word_of_nat (a + 8)" using a(1) by (metis of_nat_unat ucast_id)
  then show thesis using that [OF h _ a(1,3) _ t] m(1) a(2) tiled_mem [OF t a(3)] by auto
qed

lemma serve_refines:
  assumes L: "well_linked L" and h: "stands_for L h bs" and p: "pieces ps (regions bs)"
    and s: "serve_blocks r (bs, ps) = (bs', ps')"
  shows "\<exists>h'. serve (pvPortMalloc L) (vPortFree L) poke r (h, ps) = Some (h', ps') \<and> stands_for L h' bs' \<and>
    pieces ps' (regions bs')"
proof (cases r)
  case (Ask w)
  obtain g where g: "heap_holds L (heap_first L) (heap_last L) g bs" "pvPortMalloc L w h = pvPortMalloc L w g"
    using stands_for_init [OF L h] .
  have t: "tiled (heap_first L) bs (heap_last L)" and R: "heap_region L (heap_first L) (heap_last L)"
    using g(1) by (simp_all add: heap_holds_def)
  note m = pvPortMalloc_allocates [OF g(1), of w]
  show ?thesis
  proof (cases "allocate (unat w) bs")
    case None
    then show ?thesis using m g s p Ask by (auto simp: stands_for_def)
  next
    case (Some x)
    obtain a cs where x: "x = (a, cs)" by (cases x)
    obtain h' where h': "pvPortMalloc L w h = Some (word_of_nat (a + 8), h')" "heap_holds L (heap_first L) (heap_last L) h' cs"
      using m Some x g(2) by auto
    obtain n where n: "unat w + 8 \<le> n" "in_use cs = insert (a, n) (in_use bs)" "a \<in> free_at bs"
      using allocate_in_use [of "unat w" bs a cs] Some x by blast
    have "heap_first L \<le> a" "a + 8 \<le> heap_last L" using free_at_mem [OF n(3) t] by auto
    then have q: "unat (word_of_nat (a + 8) :: u32) = a + 8" "word_of_nat (a + 8) \<noteq> (0 :: u32)"
      using R nat_word_0 [of "a + 8"]
      by (simp_all add: heap_region_def unsigned_of_nat take_bit_nat_eq_self del: of_nat_add)
    have "a + 8 \<notin> fst ` regions bs"
    proof
      assume "a + 8 \<in> fst ` regions bs"
      then obtain k where "(a, k, True) \<in> set bs" by auto
      then show False using used_not_free [OF t] n(3) by blast
    qed
    then have "pieces (ps @ [(word_of_nat (a + 8), w)]) (insert (unat (word_of_nat (a + 8) :: u32), n - 8) (regions bs))"
      by (intro pieces_snoc [OF p]) (use q(1) n(1) in \<open>simp_all only:, simp\<close>)
    then have pc: "pieces (ps @ [(word_of_nat (a + 8), w)]) (regions cs)"
      using n(2) by (simp only: q(1) image_insert prod.case)
    have "serve_blocks r (bs, ps) = (cs, ps @ [(word_of_nat (a + 8), w)])" using Ask Some x by simp
    then have "bs' = cs" "ps' = ps @ [(word_of_nat (a + 8), w)]" using s by simp_all
    then show ?thesis using Ask h' q(2) pc by (simp add: stands_for_def del: of_nat_add)
  qed
next
  case (Give k)
  show ?thesis
  proof (cases "k < length ps")
    case True
    obtain a n where a: "heap_holds L (heap_first L) (heap_last L) h bs" "fst (ps ! k) = word_of_nat (a + 8)"
        "unat (fst (ps ! k)) = a + 8" "(a, n, True) \<in> set bs" "tiled (heap_first L) bs (heap_last L)"
      using piece_block [OF L h p True] by metis
    obtain h' where h': "vPortFree L (fst (ps ! k)) h = Some h'" "heap_holds L (heap_first L) (heap_last L) h' (release a bs)"
      using vPortFree_releases [OF a(1,4)] a(2) by auto
    have one: "m = n - 8" if mem: "(a + 8, m) \<in> regions bs" for m
    proof -
      obtain l where l: "(a, l, True) \<in> set bs" "m = l - 8" using mem by auto
      then show ?thesis using eq_key_imp_eq_value [OF tiled_distinct [OF a(5)] a(4)] by fastforce
    qed
    have "inj_on (\<lambda>(a, n). (a + 8, n - 8 :: nat)) (in_use bs)"
      by (auto simp: inj_on_def dest!: tiled_mem [OF a(5)])
    from inj_on_image_set_diff [OF this, of "in_use bs" "{(a, n)}"]
    have r: "regions (release a bs) = regions bs - {(unat (fst (ps ! k)), n - 8)}"
      using release_in_use [OF a(5,4)] a(3,4) by simp
    have "(unat (fst (ps ! k)), n - 8) \<in> regions bs" using a(3,4) by force
    then have "pieces (take k ps @ drop (Suc k) ps) (regions (release a bs))"
      unfolding r by (rule pieces_remove [OF p True]) (use one a(3) in simp)
    moreover have "bs' = release a bs" "ps' = take k ps @ drop (Suc k) ps" using s Give True a(3) by auto
    ultimately show ?thesis using Give True h' by (auto simp: stands_for_def)
  next
    case False
    then show ?thesis using Give s h p by auto
  qed
next
  case (Write k v)
  show ?thesis
  proof (cases "k < length ps")
    case True
    obtain a n where a: "heap_holds L (heap_first L) (heap_last L) h bs" "fst (ps ! k) = word_of_nat (a + 8)"
        "(a, n, True) \<in> set bs" "unat (snd (ps ! k)) + 8 \<le> n"
      using piece_block [OF L h p True] by metis
    have "heap_holds L (heap_first L) (heap_last L) (poke (fst (ps ! k)) (snd (ps ! k)) v h) bs"
      unfolding a(2) by (rule poke_holds [OF a(1,3,4)])
    then show ?thesis using Write True s p by (auto simp: stands_for_def)
  next
    case False
    then show ?thesis using Write s h p by auto
  qed
qed

lemma serve_all_refines:
  assumes "well_linked L"
  shows "stands_for L h bs \<Longrightarrow> pieces ps (regions bs) \<Longrightarrow> fold serve_blocks rs (bs, ps) = (bs', ps') \<Longrightarrow>
    \<exists>h'. serve_all (pvPortMalloc L) (vPortFree L) poke rs (h, ps) = Some (h', ps') \<and> stands_for L h' bs' \<and>
      pieces ps' (regions bs')"
proof (induction rs arbitrary: h bs ps)
  case (Cons r rs)
  obtain cs qs where c: "serve_blocks r (bs, ps) = (cs, qs)" by (cases "serve_blocks r (bs, ps)")
  obtain g where g: "serve (pvPortMalloc L) (vPortFree L) poke r (h, ps) = Some (g, qs)" "stands_for L g cs"
      "pieces qs (regions cs)"
    using serve_refines [OF assms Cons.prems(1,2) c] by blast
  show ?case using Cons.IH [OF g(2,3)] Cons.prems(3) c g(1) by simp
qed auto

lemma nothing_in_use:
  assumes "tiled a bs e" and "merged bs" and "in_use bs = {}" and "a < e"
  shows "bs = [(a, e - a, False)]"
proof -
  have free: "\<not> u" if "(b, n, u) \<in> set bs" for b n u using that assms(3) by (cases u) (auto simp: in_use_def)
  obtain b n u cs where bs: "bs = (b, n, u) # cs" using assms(1,4) by (cases bs) auto
  have "cs = []"
  proof (cases cs)
    case (Cons x ds)
    obtain c m v where "x = (c, m, v)" by (cases x)
    then show ?thesis using free [of b n u] free [of c m v] assms(2) bs Cons by (auto simp: merged_def)
  qed
  then show ?thesis using assms(1) bs free [of b n u] by auto
qed

section \<open>Properties\<close>

text \<open>
  C35. \<open>pvPortMalloc\<close> and \<open>vPortFree\<close> refine the first-fit allocator on the list of blocks: for every
  sequence of requests from power-up the application gets exactly the addresses that the list of blocks gives
  (null when no free block is large enough), and \<open>xPortGetFreeHeapSize\<close> is the sum of the free blocks once
  the heap is initialised.
\<close>

theorem heap4_first_fit:
  fixes rs :: "(u32 \<Rightarrow> BlockLink_t) request list"
  assumes "well_linked L" and "pxEnd h = 0"
  shows "\<exists>h' bs ps. fold serve_blocks rs (whole L, []) = (bs, ps) \<and>
    serve_all (pvPortMalloc L) (vPortFree L) poke rs (h, []) = Some (h', ps) \<and> stands_for L h' bs \<and>
    (pxEnd h' \<noteq> 0 \<longrightarrow> xPortGetFreeHeapSize h' = word_of_nat (free_total bs))"
proof -
  obtain bs ps where f: "fold serve_blocks rs (whole L, []) = (bs, ps)" by (cases "fold serve_blocks rs (whole L, [])")
  have "stands_for L h (whole L)" "pieces [] (regions (whole L))"
    using assms by (simp_all add: stands_for_def pieces_def whole_def)
  then obtain h' where h': "serve_all (pvPortMalloc L) (vPortFree L) poke rs (h, []) = Some (h', ps)" "stands_for L h' bs"
    using serve_all_refines [OF assms(1) _ _ f] by blast
  then have "pxEnd h' \<noteq> 0 \<longrightarrow> xPortGetFreeHeapSize h' = word_of_nat (free_total bs)"
    by (auto simp: stands_for_def heap_holds_def xPortGetFreeHeapSize_def)
  then show ?thesis using f h' by blast
qed

text \<open>
  C36. Nothing is lost to fragmentation: after any sequence of requests that ends with nothing held, neighbouring
  free blocks have merged into one, so that every request that fits the empty heap with its link succeeds again,
  at the first address; the others return null.
\<close>

theorem heap4_recovers:
  fixes rs :: "(u32 \<Rightarrow> BlockLink_t) request list"
  assumes "well_linked L" and "pxEnd h = 0"
    and "serve_all (pvPortMalloc L) (vPortFree L) poke rs (h, []) = Some (h', [])"
  shows "map_option fst (pvPortMalloc L w h') =
    Some (if 0 < unat w \<and> padded (unat w) \<le> heap_last L - heap_first L then word_of_nat (heap_first L + 8) else 0)"
proof -
  obtain bs ps where f: "fold serve_blocks rs (whole L, []) = (bs, ps)" by (cases "fold serve_blocks rs (whole L, [])")
  have a: "stands_for L h (whole L)" "pieces [] (regions (whole L))"
    using assms by (simp_all add: stands_for_def pieces_def whole_def)
  have s: "stands_for L h' bs" "pieces [] (regions bs)"
    using serve_all_refines [OF assms(1) a f] assms(3) by auto
  obtain g where g: "heap_holds L (heap_first L) (heap_last L) g bs" "pvPortMalloc L w h' = pvPortMalloc L w g"
    using stands_for_init [OF assms(1) s(1)] .
  have "in_use bs = {}" using s(2) by (simp add: pieces_def)
  then have "bs = [(heap_first L, heap_last L - heap_first L, False)]"
    using g(1) heap_bounds(3) [of L] by (intro nothing_in_use) (auto simp: heap_holds_def)
  then have "map_option fst (allocate (unat w) bs) =
      (if 0 < unat w \<and> padded (unat w) \<le> heap_last L - heap_first L then Some (heap_first L) else None)"
    by (simp add: allocate_def)
  then show ?thesis
    using pvPortMalloc_allocates [OF g(1), of w] g(2)
    by (cases "allocate (unat w) bs") (auto simp: map_option_case split: if_splits)
qed

text \<open>
  C34. From power-up, where \<open>pxEnd\<close> is null, whatever the sequence of requests, releases and writes of
  the application into the bytes it asked for: no assertion of \<open>pvPortMalloc\<close> or \<open>vPortFree\<close> fails and no
  search runs off the list of free blocks; the regions the application holds lie in the array between the
  first aligned address and the last link, are aligned to 8 bytes and do not overlap.
\<close>

theorem heap4_regions_apart:
  assumes "well_linked L" and "pxEnd h = 0"
  shows "\<exists>h' ps. serve_all (pvPortMalloc L) (vPortFree L) poke rs (h, []) = Some (h', ps) \<and>
    (\<forall>i < length ps. unat (ucHeap L) \<le> unat (fst (ps ! i)) \<and>
        unat (fst (ps ! i)) + unat (snd (ps ! i)) \<le> unat (ucHeap L) + 399992 \<and> 8 dvd unat (fst (ps ! i))) \<and>
    (\<forall>i < length ps. \<forall>j < length ps. i \<noteq> j \<longrightarrow>
        unat (fst (ps ! i)) + unat (snd (ps ! i)) \<le> unat (fst (ps ! j)) \<or>
        unat (fst (ps ! j)) + unat (snd (ps ! j)) \<le> unat (fst (ps ! i)))"
proof -
  have "heap_owns L h {}" "pieces [] {}" using assms by (simp_all add: heap_owns_def pieces_def)
  then obtain h' ps R where s: "serve_all (pvPortMalloc L) (vPortFree L) poke rs (h, []) = Some (h', ps)"
      "heap_owns L h' R" "pieces ps R"
    using kernel_heap.serve_all_pieces by blast
  have b: "unat (ucHeap L) \<le> unat (fst (ps ! i)) \<and>
      unat (fst (ps ! i)) + unat (snd (ps ! i)) \<le> unat (ucHeap L) + 399992 \<and> 8 dvd unat (fst (ps ! i))"
    if "i < length ps" for i
    using kernel_heap.pieces_apart(1) [OF s(2,3) that] heap_bounds(1,4) [of L] by auto
  show ?thesis using s(1) b kernel_heap.pieces_apart(2) [OF s(2,3)] by blast
qed

section \<open>Witnesses\<close>

text \<open>The array at \<open>0x1000\<close>, the link \<open>xStart\<close> at \<open>0x10\<close>, all memory zero.\<close>

definition heap4_example :: heap4_layout where "heap4_example = \<lparr>ucHeap = 0x1000, xStart = 0x10\<rparr>"

definition heap4_zero :: heap4 where
  "heap4_zero = \<lparr>links = \<lambda>x. \<lparr>pxNextFreeBlock = 0, xBlockSize = 0\<rparr>, pxEnd = 0, xFreeBytesRemaining = 0,
     xMinimumEverFreeBytesRemaining = 0, xBlockAllocatedBit = 0\<rparr>"

lemma heap4_example_ok: "well_linked heap4_example" "pxEnd heap4_zero = 0" "heap_first heap4_example = 4096"
    "heap_last heap4_example = 404088"
  by (simp_all add: well_linked_def heap4_example_def heap4_zero_def heap_first_def heap_last_def)

lemma heap4_example_run:
  "fold serve_blocks [Ask 100, Ask 20, Give 0, Write 0 (\<lambda>x. \<lparr>pxNextFreeBlock = 1, xBlockSize = 1\<rparr>)] (whole heap4_example, []) =
    ([(4096, 112, False), (4208, 32, True), (4240, 399848, False)], [(4216, 20)])"
  by (simp add: whole_def heap4_example_ok allocate_def padded_def release_def join_def join_left_def join_right_def)

lemma heap4_regions_apart_witness:
  "\<exists>h' ps. serve_all (pvPortMalloc heap4_example) (vPortFree heap4_example) poke
      [Ask 100, Ask 20, Give 0, Write 0 (\<lambda>x. \<lparr>pxNextFreeBlock = 1, xBlockSize = 1\<rparr>)] (heap4_zero, []) = Some (h', ps) \<and>
    (\<forall>i < length ps. unat (fst (ps ! i)) + unat (snd (ps ! i)) \<le> 404088)"
  using heap4_regions_apart [OF heap4_example_ok(1,2), of "[Ask 100, Ask 20, Give 0, Write 0 (\<lambda>x. \<lparr>pxNextFreeBlock = 1, xBlockSize = 1\<rparr>)]"]
  by (auto simp: heap4_example_def)

lemma heap4_first_fit_witness:
  "\<exists>h'. serve_all (pvPortMalloc heap4_example) (vPortFree heap4_example) poke
      [Ask 100, Ask 20, Give 0, Write 0 (\<lambda>x. \<lparr>pxNextFreeBlock = 1, xBlockSize = 1\<rparr>)] (heap4_zero, []) = Some (h', [(4216, 20)]) \<and>
    (pxEnd h' \<noteq> 0 \<longrightarrow> xPortGetFreeHeapSize h' = 399960)"
  using heap4_first_fit [OF heap4_example_ok(1,2), of "[Ask 100, Ask 20, Give 0, Write 0 (\<lambda>x. \<lparr>pxNextFreeBlock = 1, xBlockSize = 1\<rparr>)]"]
  unfolding heap4_example_run by (auto simp: free_total_def)

lemma heap4_recovers_witness:
  "\<exists>h'. serve_all (pvPortMalloc heap4_example) (vPortFree heap4_example) poke [Ask 100, Give 0] (heap4_zero, []) = Some (h', []) \<and>
    map_option fst (pvPortMalloc heap4_example 399000 h') = Some 4104"
proof -
  have f: "fold serve_blocks [Ask 100, Give 0 :: (u32 \<Rightarrow> BlockLink_t) request] (whole heap4_example, []) = (whole heap4_example, [])"
    by (simp add: whole_def heap4_example_ok allocate_def padded_def release_def join_def join_left_def join_right_def)
  have "stands_for heap4_example heap4_zero (whole heap4_example)" "pieces [] (regions (whole heap4_example))"
    by (simp_all add: stands_for_def pieces_def whole_def heap4_example_ok)
  then obtain h' where h': "serve_all (pvPortMalloc heap4_example) (vPortFree heap4_example) poke [Ask 100, Give 0] (heap4_zero, []) =
      Some (h', [])"
    using serve_all_refines [OF heap4_example_ok(1) _ _ f] by blast
  show ?thesis
    using heap4_recovers [OF heap4_example_ok(1,2) h', of 399000] h' by (auto simp: heap4_example_ok padded_def)
qed

end
