(* ===== verification/KernelTasks.thy ===== *)
theory KernelTasks
  imports KernelList "HOL-Library.Monad_Syntax"
begin

text \<open>
  The scheduler of the FreeRTOS kernel, \<open>freertos/src/tasks.c\<close>, for the configuration of the board: preemption
  with time slicing, ten priorities, the generic task selection, no tickless idle, no aborted delays. The
  lists are those of \<open>KernelList\<close>; a task is a number, and its two list items have the numbers derived from it.

  \<open>None\<close> is a failed \<open>configASSERT\<close>, an access through a null pointer or outside \<open>pxReadyTasksLists\<close>, or a
  loop that does not end. A yield is the call of \<open>vTaskSwitchContext\<close> that the software interrupt of the port
  makes: the state after it is the one in which the next task goes on. The state leaves out stacks, names, run
  time counters and the memory of deleted tasks; each function runs without an interrupt in between.
\<close>

section \<open>The state\<close>

record TCB_t =
  uxPriority :: u32
  uxBasePriority :: u32
  uxMutexesHeld :: u32
  ulNotifiedValue :: u32
  ucNotifyState :: u8

record kernel =
  klists :: kernel_lists
  tcb :: "nat \<Rightarrow> TCB_t"
  pxCurrentTCB :: "nat option"
  pxDelayedTaskList :: nat
  pxOverflowDelayedTaskList :: nat
  uxCurrentNumberOfTasks :: u32
  xTickCount :: u32
  uxTopReadyPriority :: u32
  xSchedulerRunning :: bool
  xPendedTicks :: u32
  xYieldPending :: bool
  xNumOfOverflows :: u32
  uxTaskNumber :: u32
  xNextTaskUnblockTime :: u32
  uxSchedulerSuspended :: u32
  uxDeletedTasksWaitingCleanUp :: u32

definition configMAX_PRIORITIES :: u32 where "configMAX_PRIORITIES = 10"
definition taskEVENT_LIST_ITEM_VALUE_IN_USE :: u32 where "taskEVENT_LIST_ITEM_VALUE_IN_USE = 0x80000000"
definition taskNOT_WAITING_NOTIFICATION :: u8 where "taskNOT_WAITING_NOTIFICATION = 0"
definition taskWAITING_NOTIFICATION :: u8 where "taskWAITING_NOTIFICATION = 1"
definition taskNOTIFICATION_RECEIVED :: u8 where "taskNOTIFICATION_RECEIVED = 2"

text \<open>The lists of this file have the numbers below 15, those of queues and event groups the others.\<close>

definition ready_list :: "u32 \<Rightarrow> nat option" where
  "ready_list p = (if p < configMAX_PRIORITIES then Some (unat p) else None)"
definition xDelayedTaskList1 :: nat where "xDelayedTaskList1 = 10"
definition xDelayedTaskList2 :: nat where "xDelayedTaskList2 = 11"
definition xPendingReadyList :: nat where "xPendingReadyList = 12"
definition xTasksWaitingTermination :: nat where "xTasksWaitingTermination = 13"
definition xSuspendedTaskList :: nat where "xSuspendedTaskList = 14"

definition state_item :: "nat \<Rightarrow> nat" where "state_item t = 2 * t"
definition event_item :: "nat \<Rightarrow> nat" where "event_item t = 2 * t + 1"

text \<open>The calls of \<open>list.c\<close> on the lists of the state.\<close>

definition on_lists :: "(kernel_lists \<Rightarrow> kernel_lists) \<Rightarrow> kernel \<Rightarrow> kernel" where
  "on_lists f k = k\<lparr>klists := f (klists k)\<rparr>"

definition insert_item :: "nat \<Rightarrow> nat \<Rightarrow> kernel \<Rightarrow> kernel option" where
  "insert_item l i k = map_option (\<lambda>s. k\<lparr>klists := s\<rparr>) (vListInsert l i (klists k))"

definition remove_item :: "nat \<Rightarrow> kernel \<Rightarrow> kernel option" where
  "remove_item i k = map_option (\<lambda>(n, s). k\<lparr>klists := s\<rparr>) (uxListRemove i (klists k))"

definition set_tcb :: "nat \<Rightarrow> (TCB_t \<Rightarrow> TCB_t) \<Rightarrow> kernel \<Rightarrow> kernel" where
  "set_tcb t f k = k\<lparr>tcb := (tcb k)(t := f (tcb k t))\<rparr>"

abbreviation priority :: "kernel \<Rightarrow> nat \<Rightarrow> u32" where "priority k t \<equiv> uxPriority (tcb k t)"

definition current_priority :: "kernel \<Rightarrow> u32 option" where
  "current_priority k = map_option (priority k) (pxCurrentTCB k)"

section \<open>Ready lists and the context switch\<close>

definition taskRECORD_READY_PRIORITY :: "u32 \<Rightarrow> kernel \<Rightarrow> kernel" where
  "taskRECORD_READY_PRIORITY p k = (if p > uxTopReadyPriority k then k\<lparr>uxTopReadyPriority := p\<rparr> else k)"

definition prvAddTaskToReadyList :: "nat \<Rightarrow> kernel \<Rightarrow> kernel option" where
  "prvAddTaskToReadyList t k =
     (let k = taskRECORD_READY_PRIORITY (priority k t) k
      in map_option (\<lambda>l. on_lists (vListInsertEnd l (state_item t)) k) (ready_list (priority k t)))"

text \<open>The search of \<open>taskSELECT_HIGHEST_PRIORITY_TASK\<close>, with its assertion that the priority is not yet 0.\<close>

function top_ready :: "kernel_lists \<Rightarrow> u32 \<Rightarrow> (u32 \<times> nat) option" where
  "top_ready s p =
     (case ready_list p of
        None \<Rightarrow> None
      | Some l \<Rightarrow> if listLIST_IS_EMPTY l s then if p = 0 then None else top_ready s (p - 1) else Some (p, l))"
  by pat_completeness auto
termination
  by (relation "measure (\<lambda>(s, p). unat p)") (auto simp: unat_minus_one unat_gt_0)

definition taskSELECT_HIGHEST_PRIORITY_TASK :: "kernel \<Rightarrow> kernel option" where
  "taskSELECT_HIGHEST_PRIORITY_TASK k =
     do {
       (p, l) \<leftarrow> top_ready (klists k) (uxTopReadyPriority k);
       let (t, s) = listGET_OWNER_OF_NEXT_ENTRY l (klists k);
       t \<leftarrow> t;
       Some (k\<lparr>klists := s, pxCurrentTCB := Some t, uxTopReadyPriority := p\<rparr>)
     }"

definition vTaskSwitchContext :: "kernel \<Rightarrow> kernel option" where
  "vTaskSwitchContext k =
     (if uxSchedulerSuspended k \<noteq> 0 then Some (k\<lparr>xYieldPending := True\<rparr>)
      else taskSELECT_HIGHEST_PRIORITY_TASK (k\<lparr>xYieldPending := False\<rparr>))"

section \<open>Delays and ticks\<close>

definition prvResetNextTaskUnblockTime :: "kernel \<Rightarrow> kernel" where
  "prvResetNextTaskUnblockTime k =
     k\<lparr>xNextTaskUnblockTime :=
        if listLIST_IS_EMPTY (pxDelayedTaskList k) (klists k) then portMAX_DELAY
        else listGET_ITEM_VALUE_OF_HEAD_ENTRY (pxDelayedTaskList k) (klists k)\<rparr>"

definition taskSWITCH_DELAYED_LISTS :: "kernel \<Rightarrow> kernel option" where
  "taskSWITCH_DELAYED_LISTS k =
     (if listLIST_IS_EMPTY (pxDelayedTaskList k) (klists k)
      then Some (prvResetNextTaskUnblockTime (k\<lparr>pxDelayedTaskList := pxOverflowDelayedTaskList k,
        pxOverflowDelayedTaskList := pxDelayedTaskList k, xNumOfOverflows := xNumOfOverflows k + 1\<rparr>))
      else None)"

text \<open>A task that waits for an event is taken off the list of the event.\<close>

definition remove_from_event :: "nat \<Rightarrow> kernel \<Rightarrow> kernel option" where
  "remove_from_event t k =
     (if listLIST_ITEM_CONTAINER (event_item t) (klists k) \<noteq> None then remove_item (event_item t) k else Some k)"

partial_function (option) unblock_expired :: "kernel \<Rightarrow> bool \<Rightarrow> (bool \<times> kernel) option" where
  "unblock_expired k xSwitchRequired =
     (if listLIST_IS_EMPTY (pxDelayedTaskList k) (klists k)
      then Some (xSwitchRequired, k\<lparr>xNextTaskUnblockTime := portMAX_DELAY\<rparr>)
      else do {
        t \<leftarrow> listGET_OWNER_OF_HEAD_ENTRY (pxDelayedTaskList k) (klists k);
        let v = listGET_LIST_ITEM_VALUE (state_item t) (klists k);
        if xTickCount k < v then Some (xSwitchRequired, k\<lparr>xNextTaskUnblockTime := v\<rparr>)
        else do {
          k \<leftarrow> remove_item (state_item t) k;
          k \<leftarrow> remove_from_event t k;
          k \<leftarrow> prvAddTaskToReadyList t k;
          p \<leftarrow> current_priority k;
          unblock_expired k (if priority k t \<ge> p then True else xSwitchRequired)
        }
      })"

declare insert_position.simps [code] unblock_expired.simps [code]

definition xTaskIncrementTick :: "kernel \<Rightarrow> (bool \<times> kernel) option" where
  "xTaskIncrementTick k =
     (if uxSchedulerSuspended k = 0
      then do {
        let k = k\<lparr>xTickCount := xTickCount k + 1\<rparr>;
        k \<leftarrow> (if xTickCount k = 0 then taskSWITCH_DELAYED_LISTS k else Some k);
        (xSwitchRequired, k) \<leftarrow>
          (if xTickCount k \<ge> xNextTaskUnblockTime k then unblock_expired k False else Some (False, k));
        p \<leftarrow> current_priority k;
        l \<leftarrow> ready_list p;
        let xSwitchRequired = (if listCURRENT_LIST_LENGTH l (klists k) > 1 then True else xSwitchRequired);
        Some (if xYieldPending k then True else xSwitchRequired, k)
      }
      else Some (False, k\<lparr>xPendedTicks := xPendedTicks k + 1\<rparr>))"

text \<open>The handler of the timer interrupt in \<open>port.c\<close>.\<close>

definition vPortTickISR :: "kernel \<Rightarrow> kernel option" where
  "vPortTickISR k =
     do { (xSwitchRequired, k) \<leftarrow> xTaskIncrementTick k; if xSwitchRequired then vTaskSwitchContext k else Some k }"

definition vTaskSuspendAll :: "kernel \<Rightarrow> kernel" where
  "vTaskSuspendAll k = k\<lparr>uxSchedulerSuspended := uxSchedulerSuspended k + 1\<rparr>"

text \<open>The tasks that became ready while the scheduler was suspended; the flag says whether there was one.\<close>

partial_function (option) move_pending :: "kernel \<Rightarrow> bool \<Rightarrow> (bool \<times> kernel) option" where
  "move_pending k moved =
     (if listLIST_IS_EMPTY xPendingReadyList (klists k) then Some (moved, k)
      else do {
        t \<leftarrow> listGET_OWNER_OF_HEAD_ENTRY xPendingReadyList (klists k);
        k \<leftarrow> remove_item (event_item t) k;
        k \<leftarrow> remove_item (state_item t) k;
        k \<leftarrow> prvAddTaskToReadyList t k;
        p \<leftarrow> current_priority k;
        move_pending (if priority k t \<ge> p then k\<lparr>xYieldPending := True\<rparr> else k) True
      })"

declare move_pending.simps [code]

fun pended_ticks :: "nat \<Rightarrow> kernel \<Rightarrow> kernel option" where
  "pended_ticks 0 k = Some k"
| "pended_ticks (Suc n) k =
     do {
       (switch, k) \<leftarrow> xTaskIncrementTick k;
       pended_ticks n (if switch then k\<lparr>xYieldPending := True\<rparr> else k)
     }"

definition xTaskResumeAll :: "kernel \<Rightarrow> (bool \<times> kernel) option" where
  "xTaskResumeAll k =
     (if uxSchedulerSuspended k = 0 then None
      else let k = k\<lparr>uxSchedulerSuspended := uxSchedulerSuspended k - 1\<rparr>
           in if uxSchedulerSuspended k = 0 \<and> uxCurrentNumberOfTasks k > 0
              then do {
                (moved, k) \<leftarrow> move_pending k False;
                let k = (if moved then prvResetNextTaskUnblockTime k else k);
                k \<leftarrow> (if xPendedTicks k > 0
                      then map_option (\<lambda>k. k\<lparr>xPendedTicks := 0\<rparr>) (pended_ticks (unat (xPendedTicks k)) k)
                      else Some k);
                if xYieldPending k then map_option (Pair True) (vTaskSwitchContext k) else Some (False, k)
              }
              else Some (False, k))"

definition xTaskCatchUpTicks :: "u32 \<Rightarrow> kernel \<Rightarrow> (bool \<times> kernel) option" where
  "xTaskCatchUpTicks xTicksToCatchUp k =
     (if uxSchedulerSuspended k \<noteq> 0 then None
      else let k = vTaskSuspendAll k
           in xTaskResumeAll (k\<lparr>xPendedTicks := xPendedTicks k + xTicksToCatchUp\<rparr>))"

definition prvAddCurrentTaskToDelayedList :: "u32 \<Rightarrow> bool \<Rightarrow> kernel \<Rightarrow> kernel option" where
  "prvAddCurrentTaskToDelayedList xTicksToWait xCanBlockIndefinitely k =
     do {
       t \<leftarrow> pxCurrentTCB k;
       k \<leftarrow> remove_item (state_item t) k;
       if xTicksToWait = portMAX_DELAY \<and> xCanBlockIndefinitely
       then Some (on_lists (vListInsertEnd xSuspendedTaskList (state_item t)) k)
       else let xTimeToWake = xTickCount k + xTicksToWait;
                k = on_lists (listSET_LIST_ITEM_VALUE (state_item t) xTimeToWake) k
            in if xTimeToWake < xTickCount k then insert_item (pxOverflowDelayedTaskList k) (state_item t) k
               else map_option (\<lambda>k. if xTimeToWake < xNextTaskUnblockTime k then k\<lparr>xNextTaskUnblockTime := xTimeToWake\<rparr> else k)
                      (insert_item (pxDelayedTaskList k) (state_item t) k)
     }"

definition vTaskDelay :: "u32 \<Rightarrow> kernel \<Rightarrow> kernel option" where
  "vTaskDelay xTicksToDelay k =
     do {
       (xAlreadyYielded, k) \<leftarrow>
         (if xTicksToDelay > 0
          then if uxSchedulerSuspended k \<noteq> 0 then None
               else do {
                 k \<leftarrow> prvAddCurrentTaskToDelayedList xTicksToDelay False (vTaskSuspendAll k);
                 xTaskResumeAll k
               }
          else Some (False, k));
       if xAlreadyYielded then Some k else vTaskSwitchContext k
     }"

text \<open>The new wake time is written to \<open>*pxPreviousWakeTime\<close>, the second component of the result.\<close>

definition xTaskDelayUntil :: "u32 \<Rightarrow> u32 \<Rightarrow> kernel \<Rightarrow> (bool \<times> u32 \<times> kernel) option" where
  "xTaskDelayUntil xPreviousWakeTime xTimeIncrement k =
     (if xTimeIncrement = 0 \<or> uxSchedulerSuspended k \<noteq> 0 then None
      else do {
        let k = vTaskSuspendAll k;
        let xConstTickCount = xTickCount k;
        let xTimeToWake = xPreviousWakeTime + xTimeIncrement;
        let xShouldDelay =
          (if xConstTickCount < xPreviousWakeTime
           then xTimeToWake < xPreviousWakeTime \<and> xTimeToWake > xConstTickCount
           else xTimeToWake < xPreviousWakeTime \<or> xTimeToWake > xConstTickCount);
        k \<leftarrow> (if xShouldDelay then prvAddCurrentTaskToDelayedList (xTimeToWake - xConstTickCount) False k else Some k);
        (xAlreadyYielded, k) \<leftarrow> xTaskResumeAll k;
        k \<leftarrow> (if xAlreadyYielded then Some k else vTaskSwitchContext k);
        Some (xShouldDelay, xTimeToWake, k)
      })"

section \<open>Creation and deletion\<close>

definition prvInitialiseTaskLists :: "kernel \<Rightarrow> kernel" where
  "prvInitialiseTaskLists k =
     (let k = on_lists (fold vListInitialise [0..<unat configMAX_PRIORITIES]) k;
          k = on_lists (vListInitialise xDelayedTaskList1) k;
          k = on_lists (vListInitialise xDelayedTaskList2) k;
          k = on_lists (vListInitialise xPendingReadyList) k;
          k = on_lists (vListInitialise xTasksWaitingTermination) k;
          k = on_lists (vListInitialise xSuspendedTaskList) k
      in k\<lparr>pxDelayedTaskList := xDelayedTaskList1, pxOverflowDelayedTaskList := xDelayedTaskList2\<rparr>)"

text \<open>
  Of \<open>prvInitialiseNewTask\<close> the members of the state; a priority that is too large is reduced to the highest one.
\<close>

definition prvInitialiseNewTask :: "u32 \<Rightarrow> nat \<Rightarrow> kernel \<Rightarrow> kernel" where
  "prvInitialiseNewTask p t k =
     (let p = (if p \<ge> configMAX_PRIORITIES then configMAX_PRIORITIES - 1 else p);
          k = set_tcb t (\<lambda>c. c\<lparr>uxPriority := p, uxBasePriority := p, uxMutexesHeld := 0\<rparr>) k;
          k = on_lists (vListInitialiseItem (state_item t)) k;
          k = on_lists (vListInitialiseItem (event_item t)) k;
          k = on_lists (listSET_LIST_ITEM_OWNER (state_item t) t) k;
          k = on_lists (listSET_LIST_ITEM_VALUE (event_item t) (configMAX_PRIORITIES - p)) k;
          k = on_lists (listSET_LIST_ITEM_OWNER (event_item t) t) k
      in set_tcb t (\<lambda>c. c\<lparr>ulNotifiedValue := 0, ucNotifyState := 0\<rparr>) k)"

definition prvAddNewTaskToReadyList :: "nat \<Rightarrow> kernel \<Rightarrow> kernel option" where
  "prvAddNewTaskToReadyList t k =
     do {
       let k = k\<lparr>uxCurrentNumberOfTasks := uxCurrentNumberOfTasks k + 1\<rparr>;
       let k =
         (case pxCurrentTCB k of
            None \<Rightarrow>
              let k = k\<lparr>pxCurrentTCB := Some t\<rparr>
              in if uxCurrentNumberOfTasks k = 1 then prvInitialiseTaskLists k else k
          | Some c \<Rightarrow>
              if \<not> xSchedulerRunning k \<and> priority k c \<le> priority k t then k\<lparr>pxCurrentTCB := Some t\<rparr> else k);
       let k = k\<lparr>uxTaskNumber := uxTaskNumber k + 1\<rparr>;
       k \<leftarrow> prvAddTaskToReadyList t k;
       if xSchedulerRunning k
       then do { p \<leftarrow> current_priority k; if p < priority k t then vTaskSwitchContext k else Some k }
       else Some k
     }"

text \<open>The address of the new task is that of the memory allocated for it, if there was enough.\<close>

definition xTaskCreate :: "u32 \<Rightarrow> nat option \<Rightarrow> kernel \<Rightarrow> (bool \<times> kernel) option" where
  "xTaskCreate p pxNewTCB k =
     (case pxNewTCB of
        None \<Rightarrow> Some (False, k)
      | Some t \<Rightarrow> map_option (Pair True) (prvAddNewTaskToReadyList t (prvInitialiseNewTask p t k)))"

text \<open>Up to the start of the first task.\<close>

definition vTaskStartScheduler :: "nat option \<Rightarrow> kernel \<Rightarrow> kernel option" where
  "vTaskStartScheduler idle k =
     do {
       (xReturn, k) \<leftarrow> xTaskCreate 0 idle k;
       if xReturn
       then Some (k\<lparr>xNextTaskUnblockTime := portMAX_DELAY, xSchedulerRunning := True, xTickCount := 0\<rparr>) else None
     }"

text \<open>The handle of a task may be null, for the current one.\<close>

definition prvGetTCBFromHandle :: "nat option \<Rightarrow> kernel \<Rightarrow> nat option" where
  "prvGetTCBFromHandle h k = (case h of None \<Rightarrow> pxCurrentTCB k | Some t \<Rightarrow> Some t)"

definition vTaskDelete :: "nat option \<Rightarrow> kernel \<Rightarrow> kernel option" where
  "vTaskDelete h k =
     do {
       t \<leftarrow> prvGetTCBFromHandle h k;
       k \<leftarrow> remove_item (state_item t) k;
       k \<leftarrow> remove_from_event t k;
       let k = k\<lparr>uxTaskNumber := uxTaskNumber k + 1\<rparr>;
       let k =
         (if Some t = pxCurrentTCB k
          then let k = on_lists (vListInsertEnd xTasksWaitingTermination (state_item t)) k
               in k\<lparr>uxDeletedTasksWaitingCleanUp := uxDeletedTasksWaitingCleanUp k + 1\<rparr>
          else prvResetNextTaskUnblockTime (k\<lparr>uxCurrentNumberOfTasks := uxCurrentNumberOfTasks k - 1\<rparr>));
       if xSchedulerRunning k \<and> Some t = pxCurrentTCB k
       then if uxSchedulerSuspended k \<noteq> 0 then None else vTaskSwitchContext k
       else Some k
     }"

definition clean_up_one :: "kernel \<Rightarrow> kernel option" where
  "clean_up_one k =
     do {
       t \<leftarrow> listGET_OWNER_OF_HEAD_ENTRY xTasksWaitingTermination (klists k);
       k \<leftarrow> remove_item (state_item t) k;
       Some (k\<lparr>uxCurrentNumberOfTasks := uxCurrentNumberOfTasks k - 1,
         uxDeletedTasksWaitingCleanUp := uxDeletedTasksWaitingCleanUp k - 1\<rparr>)
     }"

fun clean_up :: "nat \<Rightarrow> kernel \<Rightarrow> kernel option" where
  "clean_up 0 k = Some k"
| "clean_up (Suc n) k = do { k \<leftarrow> clean_up_one k; clean_up n k }"

definition prvCheckTasksWaitingTermination :: "kernel \<Rightarrow> kernel option" where
  "prvCheckTasksWaitingTermination k = clean_up (unat (uxDeletedTasksWaitingCleanUp k)) k"

section \<open>States and priorities of tasks\<close>

datatype eTaskState = eRunning | eReady | eBlocked | eSuspended | eDeleted

definition eTaskGetState :: "nat \<Rightarrow> kernel \<Rightarrow> eTaskState" where
  "eTaskGetState t k =
     (if Some t = pxCurrentTCB k then eRunning
      else let l = listLIST_ITEM_CONTAINER (state_item t) (klists k)
           in if l = Some (pxDelayedTaskList k) \<or> l = Some (pxOverflowDelayedTaskList k) then eBlocked
              else if l = Some xSuspendedTaskList
              then if listLIST_ITEM_CONTAINER (event_item t) (klists k) = None
                   then if ucNotifyState (tcb k t) = taskWAITING_NOTIFICATION then eBlocked else eSuspended
                   else eBlocked
              else if l = Some xTasksWaitingTermination \<or> l = None then eDeleted
              else eReady)"

definition uxTaskPriorityGet :: "nat option \<Rightarrow> kernel \<Rightarrow> u32 option" where
  "uxTaskPriorityGet h k = map_option (priority k) (prvGetTCBFromHandle h k)"

text \<open>The value of the event item follows the priority, unless an event group uses it.\<close>

definition follow_priority :: "nat \<Rightarrow> u32 \<Rightarrow> kernel \<Rightarrow> kernel" where
  "follow_priority t p k =
     (if listGET_LIST_ITEM_VALUE (event_item t) (klists k) AND taskEVENT_LIST_ITEM_VALUE_IN_USE = 0
      then on_lists (listSET_LIST_ITEM_VALUE (event_item t) (configMAX_PRIORITIES - p)) k else k)"

definition is_ready_at :: "u32 \<Rightarrow> nat \<Rightarrow> kernel \<Rightarrow> bool option" where
  "is_ready_at p t k = map_option (\<lambda>l. listIS_CONTAINED_WITHIN l (state_item t) (klists k)) (ready_list p)"

definition vTaskPrioritySet :: "nat option \<Rightarrow> u32 \<Rightarrow> kernel \<Rightarrow> kernel option" where
  "vTaskPrioritySet h uxNewPriority k =
     (if uxNewPriority \<ge> configMAX_PRIORITIES then None
      else do {
        t \<leftarrow> prvGetTCBFromHandle h k;
        let uxCurrentBasePriority = uxBasePriority (tcb k t);
        if uxCurrentBasePriority \<noteq> uxNewPriority
        then do {
          xYieldRequired \<leftarrow>
            (if uxNewPriority > uxCurrentBasePriority
             then if Some t \<noteq> pxCurrentTCB k then map_option (\<lambda>p. uxNewPriority \<ge> p) (current_priority k) else Some False
             else Some (Some t = pxCurrentTCB k));
          let uxPriorityUsedOnEntry = priority k t;
          let k = set_tcb t (\<lambda>c. if uxBasePriority c = uxPriority c then c\<lparr>uxPriority := uxNewPriority\<rparr> else c) k;
          let k = set_tcb t (\<lambda>c. c\<lparr>uxBasePriority := uxNewPriority\<rparr>) k;
          let k = follow_priority t uxNewPriority k;
          ready \<leftarrow> is_ready_at uxPriorityUsedOnEntry t k;
          k \<leftarrow> (if ready then do { k \<leftarrow> remove_item (state_item t) k; prvAddTaskToReadyList t k } else Some k);
          if xYieldRequired then vTaskSwitchContext k else Some k
        }
        else Some k
      })"

section \<open>Suspension\<close>

definition vTaskSuspend :: "nat option \<Rightarrow> kernel \<Rightarrow> kernel option" where
  "vTaskSuspend h k =
     do {
       t \<leftarrow> prvGetTCBFromHandle h k;
       k \<leftarrow> remove_item (state_item t) k;
       k \<leftarrow> remove_from_event t k;
       let k = on_lists (vListInsertEnd xSuspendedTaskList (state_item t)) k;
       let k = set_tcb t (\<lambda>c. if ucNotifyState c = taskWAITING_NOTIFICATION
                              then c\<lparr>ucNotifyState := taskNOT_WAITING_NOTIFICATION\<rparr> else c) k;
       let k = (if xSchedulerRunning k then prvResetNextTaskUnblockTime k else k);
       if Some t = pxCurrentTCB k
       then if xSchedulerRunning k
            then if uxSchedulerSuspended k \<noteq> 0 then None else vTaskSwitchContext k
            else if listCURRENT_LIST_LENGTH xSuspendedTaskList (klists k) = uxCurrentNumberOfTasks k
            then Some (k\<lparr>pxCurrentTCB := None\<rparr>) else vTaskSwitchContext k
       else Some k
     }"

definition prvTaskIsTaskSuspended :: "nat \<Rightarrow> kernel \<Rightarrow> bool" where
  "prvTaskIsTaskSuspended t k \<longleftrightarrow>
     listIS_CONTAINED_WITHIN xSuspendedTaskList (state_item t) (klists k) \<and>
     \<not> listIS_CONTAINED_WITHIN xPendingReadyList (event_item t) (klists k) \<and>
     listLIST_ITEM_CONTAINER (event_item t) (klists k) = None"

definition vTaskResume :: "nat \<Rightarrow> kernel \<Rightarrow> kernel option" where
  "vTaskResume t k =
     (if Some t \<noteq> pxCurrentTCB k \<and> prvTaskIsTaskSuspended t k
      then do {
        k \<leftarrow> remove_item (state_item t) k;
        k \<leftarrow> prvAddTaskToReadyList t k;
        p \<leftarrow> current_priority k;
        if priority k t \<ge> p then vTaskSwitchContext k else Some k
      }
      else Some k)"

definition xTaskResumeFromISR :: "nat \<Rightarrow> kernel \<Rightarrow> (bool \<times> kernel) option" where
  "xTaskResumeFromISR t k =
     (if prvTaskIsTaskSuspended t k
      then if uxSchedulerSuspended k = 0
           then do {
             p \<leftarrow> current_priority k;
             let xYieldRequired = (priority k t \<ge> p);
             let k = (if xYieldRequired then k\<lparr>xYieldPending := True\<rparr> else k);
             k \<leftarrow> remove_item (state_item t) k;
             k \<leftarrow> prvAddTaskToReadyList t k;
             Some (xYieldRequired, k)
           }
           else Some (False, on_lists (vListInsertEnd xPendingReadyList (event_item t)) k)
      else Some (False, k))"

section \<open>Events\<close>

definition vTaskPlaceOnEventList :: "nat \<Rightarrow> u32 \<Rightarrow> kernel \<Rightarrow> kernel option" where
  "vTaskPlaceOnEventList l xTicksToWait k =
     do {
       t \<leftarrow> pxCurrentTCB k;
       k \<leftarrow> insert_item l (event_item t) k;
       prvAddCurrentTaskToDelayedList xTicksToWait True k
     }"

definition vTaskPlaceOnUnorderedEventList :: "nat \<Rightarrow> u32 \<Rightarrow> u32 \<Rightarrow> kernel \<Rightarrow> kernel option" where
  "vTaskPlaceOnUnorderedEventList l v xTicksToWait k =
     (if uxSchedulerSuspended k = 0 then None
      else do {
        t \<leftarrow> pxCurrentTCB k;
        let k = on_lists (listSET_LIST_ITEM_VALUE (event_item t) (v OR taskEVENT_LIST_ITEM_VALUE_IN_USE)) k;
        let k = on_lists (vListInsertEnd l (event_item t)) k;
        prvAddCurrentTaskToDelayedList xTicksToWait True k
      })"

definition xTaskRemoveFromEventList :: "nat \<Rightarrow> kernel \<Rightarrow> (bool \<times> kernel) option" where
  "xTaskRemoveFromEventList l k =
     do {
       t \<leftarrow> listGET_OWNER_OF_HEAD_ENTRY l (klists k);
       k \<leftarrow> remove_item (event_item t) k;
       k \<leftarrow> (if uxSchedulerSuspended k = 0
             then do { k \<leftarrow> remove_item (state_item t) k; prvAddTaskToReadyList t k }
             else Some (on_lists (vListInsertEnd xPendingReadyList (event_item t)) k));
       p \<leftarrow> current_priority k;
       Some (if priority k t > p then (True, k\<lparr>xYieldPending := True\<rparr>) else (False, k))
     }"

definition vTaskRemoveFromUnorderedEventList :: "nat \<Rightarrow> u32 \<Rightarrow> kernel \<Rightarrow> kernel option" where
  "vTaskRemoveFromUnorderedEventList i v k =
     (if uxSchedulerSuspended k = 0 then None
      else do {
        let k = on_lists (listSET_LIST_ITEM_VALUE i (v OR taskEVENT_LIST_ITEM_VALUE_IN_USE)) k;
        let t = listGET_LIST_ITEM_OWNER i (klists k);
        k \<leftarrow> remove_item i k;
        k \<leftarrow> remove_item (state_item t) k;
        k \<leftarrow> prvAddTaskToReadyList t k;
        p \<leftarrow> current_priority k;
        Some (if priority k t > p then k\<lparr>xYieldPending := True\<rparr> else k)
      })"

definition uxTaskResetEventItemValue :: "kernel \<Rightarrow> (u32 \<times> kernel) option" where
  "uxTaskResetEventItemValue k =
     do {
       t \<leftarrow> pxCurrentTCB k;
       let uxReturn = listGET_LIST_ITEM_VALUE (event_item t) (klists k);
       Some (uxReturn, on_lists (listSET_LIST_ITEM_VALUE (event_item t) (configMAX_PRIORITIES - priority k t)) k)
     }"

definition vTaskMissedYield :: "kernel \<Rightarrow> kernel" where "vTaskMissedYield k = k\<lparr>xYieldPending := True\<rparr>"

section \<open>Time-outs\<close>

record TimeOut_t =
  xOverflowCount :: u32
  xTimeOnEntering :: u32

definition vTaskInternalSetTimeOutState :: "kernel \<Rightarrow> TimeOut_t" where
  "vTaskInternalSetTimeOutState k = \<lparr>xOverflowCount = xNumOfOverflows k, xTimeOnEntering = xTickCount k\<rparr>"

definition vTaskSetTimeOutState :: "kernel \<Rightarrow> TimeOut_t" where
  "vTaskSetTimeOutState k = vTaskInternalSetTimeOutState k"

text \<open>The results are the return value, the time-out and the ticks left, as they are written back.\<close>

definition xTaskCheckForTimeOut :: "kernel \<Rightarrow> TimeOut_t \<Rightarrow> u32 \<Rightarrow> bool \<times> TimeOut_t \<times> u32" where
  "xTaskCheckForTimeOut k pxTimeOut xTicksToWait =
     (let xElapsedTime = xTickCount k - xTimeOnEntering pxTimeOut
      in if xTicksToWait = portMAX_DELAY then (False, pxTimeOut, xTicksToWait)
         else if xNumOfOverflows k \<noteq> xOverflowCount pxTimeOut \<and> xTickCount k \<ge> xTimeOnEntering pxTimeOut
         then (True, pxTimeOut, 0)
         else if xElapsedTime < xTicksToWait
         then (False, vTaskInternalSetTimeOutState k, xTicksToWait - xElapsedTime)
         else (True, pxTimeOut, 0))"

section \<open>Priority inheritance\<close>

definition xTaskPriorityInherit :: "nat option \<Rightarrow> kernel \<Rightarrow> (bool \<times> kernel) option" where
  "xTaskPriorityInherit pxMutexHolder k =
     (case pxMutexHolder of
        None \<Rightarrow> Some (False, k)
      | Some t \<Rightarrow> do {
          p \<leftarrow> current_priority k;
          if priority k t < p
          then do {
            let k = follow_priority t p k;
            ready \<leftarrow> is_ready_at (priority k t) t k;
            k \<leftarrow> (if ready
                  then do {
                    k \<leftarrow> remove_item (state_item t) k;
                    prvAddTaskToReadyList t (set_tcb t (\<lambda>c. c\<lparr>uxPriority := p\<rparr>) k)
                  }
                  else Some (set_tcb t (\<lambda>c. c\<lparr>uxPriority := p\<rparr>) k));
            Some (True, k)
          }
          else Some (uxBasePriority (tcb k t) < p, k)
        })"

definition xTaskPriorityDisinherit :: "nat option \<Rightarrow> kernel \<Rightarrow> (bool \<times> kernel) option" where
  "xTaskPriorityDisinherit pxMutexHolder k =
     (case pxMutexHolder of
        None \<Rightarrow> Some (False, k)
      | Some t \<Rightarrow>
          if Some t \<noteq> pxCurrentTCB k \<or> uxMutexesHeld (tcb k t) = 0 then None
          else let k = set_tcb t (\<lambda>c. c\<lparr>uxMutexesHeld := uxMutexesHeld c - 1\<rparr>) k
               in if priority k t \<noteq> uxBasePriority (tcb k t) \<and> uxMutexesHeld (tcb k t) = 0
                  then do {
                    k \<leftarrow> remove_item (state_item t) k;
                    let k = set_tcb t (\<lambda>c. c\<lparr>uxPriority := uxBasePriority c\<rparr>) k;
                    let k = on_lists (listSET_LIST_ITEM_VALUE (event_item t) (configMAX_PRIORITIES - priority k t)) k;
                    k \<leftarrow> prvAddTaskToReadyList t k;
                    Some (True, k)
                  }
                  else Some (False, k))"

definition vTaskPriorityDisinheritAfterTimeout :: "nat option \<Rightarrow> u32 \<Rightarrow> kernel \<Rightarrow> kernel option" where
  "vTaskPriorityDisinheritAfterTimeout pxMutexHolder uxHighestPriorityWaitingTask k =
     (case pxMutexHolder of
        None \<Rightarrow> Some k
      | Some t \<Rightarrow>
          if uxMutexesHeld (tcb k t) = 0 then None
          else let uxPriorityToUse = (if uxBasePriority (tcb k t) < uxHighestPriorityWaitingTask
                                      then uxHighestPriorityWaitingTask else uxBasePriority (tcb k t))
               in if priority k t \<noteq> uxPriorityToUse \<and> uxMutexesHeld (tcb k t) = 1
                  then if Some t = pxCurrentTCB k then None
                       else do {
                         let uxPriorityUsedOnEntry = priority k t;
                         let k = set_tcb t (\<lambda>c. c\<lparr>uxPriority := uxPriorityToUse\<rparr>) k;
                         let k = follow_priority t uxPriorityToUse k;
                         ready \<leftarrow> is_ready_at uxPriorityUsedOnEntry t k;
                         if ready then do { k \<leftarrow> remove_item (state_item t) k; prvAddTaskToReadyList t k } else Some k
                       }
                  else Some k)"

definition pvTaskIncrementMutexHeldCount :: "kernel \<Rightarrow> nat option \<times> kernel" where
  "pvTaskIncrementMutexHeldCount k =
     (case pxCurrentTCB k of
        None \<Rightarrow> (None, k)
      | Some t \<Rightarrow> (Some t, set_tcb t (\<lambda>c. c\<lparr>uxMutexesHeld := uxMutexesHeld c + 1\<rparr>) k))"

section \<open>Notifications\<close>

text \<open>There is one notification per task. The functions that wait are in two parts, before and after the task blocks.\<close>

datatype eNotifyAction = eNoAction | eSetBits | eIncrement | eSetValueWithOverwrite | eSetValueWithoutOverwrite

definition configTASK_NOTIFICATION_ARRAY_ENTRIES :: u32 where "configTASK_NOTIFICATION_ARRAY_ENTRIES = 1"

definition notify_value :: "eNotifyAction \<Rightarrow> u32 \<Rightarrow> u8 \<Rightarrow> u32 \<Rightarrow> bool \<times> u32" where
  "notify_value eAction ulValue ucOriginalNotifyState old =
     (case eAction of
        eSetBits \<Rightarrow> (True, old OR ulValue)
      | eIncrement \<Rightarrow> (True, old + 1)
      | eSetValueWithOverwrite \<Rightarrow> (True, ulValue)
      | eSetValueWithoutOverwrite \<Rightarrow>
          if ucOriginalNotifyState \<noteq> taskNOTIFICATION_RECEIVED then (True, ulValue) else (False, old)
      | eNoAction \<Rightarrow> (True, old))"

text \<open>The results are the return value, the previous value of the notification and the state.\<close>

definition xTaskGenericNotify :: "nat \<Rightarrow> u32 \<Rightarrow> u32 \<Rightarrow> eNotifyAction \<Rightarrow> kernel \<Rightarrow> (bool \<times> u32 \<times> kernel) option" where
  "xTaskGenericNotify t uxIndexToNotify ulValue eAction k =
     (if uxIndexToNotify \<ge> configTASK_NOTIFICATION_ARRAY_ENTRIES then None
      else do {
        let old = ulNotifiedValue (tcb k t);
        let ucOriginalNotifyState = ucNotifyState (tcb k t);
        let (xReturn, new) = notify_value eAction ulValue ucOriginalNotifyState old;
        let k = set_tcb t (\<lambda>c. c\<lparr>ulNotifiedValue := new, ucNotifyState := taskNOTIFICATION_RECEIVED\<rparr>) k;
        k \<leftarrow>
          (if ucOriginalNotifyState = taskWAITING_NOTIFICATION
           then do {
             k \<leftarrow> remove_item (state_item t) k;
             k \<leftarrow> prvAddTaskToReadyList t k;
             if listLIST_ITEM_CONTAINER (event_item t) (klists k) \<noteq> None then None
             else do { p \<leftarrow> current_priority k; if priority k t > p then vTaskSwitchContext k else Some k }
           }
           else Some k);
        Some (xReturn, old, k)
      })"

text \<open>The flag in front of the state is the value for \<open>*pxHigherPriorityTaskWoken\<close>, if it is written.\<close>

definition wake_from_isr :: "nat \<Rightarrow> u8 \<Rightarrow> kernel \<Rightarrow> (bool \<times> kernel) option" where
  "wake_from_isr t ucOriginalNotifyState k =
     (if ucOriginalNotifyState = taskWAITING_NOTIFICATION
      then if listLIST_ITEM_CONTAINER (event_item t) (klists k) \<noteq> None then None
           else do {
             k \<leftarrow> (if uxSchedulerSuspended k = 0
                   then do { k \<leftarrow> remove_item (state_item t) k; prvAddTaskToReadyList t k }
                   else Some (on_lists (vListInsertEnd xPendingReadyList (event_item t)) k));
             p \<leftarrow> current_priority k;
             Some (if priority k t > p then (True, k\<lparr>xYieldPending := True\<rparr>) else (False, k))
           }
      else Some (False, k))"

definition xTaskGenericNotifyFromISR ::
    "nat \<Rightarrow> u32 \<Rightarrow> u32 \<Rightarrow> eNotifyAction \<Rightarrow> kernel \<Rightarrow> (bool \<times> u32 \<times> bool \<times> kernel) option" where
  "xTaskGenericNotifyFromISR t uxIndexToNotify ulValue eAction k =
     (if uxIndexToNotify \<ge> configTASK_NOTIFICATION_ARRAY_ENTRIES then None
      else do {
        let old = ulNotifiedValue (tcb k t);
        let ucOriginalNotifyState = ucNotifyState (tcb k t);
        let (xReturn, new) = notify_value eAction ulValue ucOriginalNotifyState old;
        let k = set_tcb t (\<lambda>c. c\<lparr>ulNotifiedValue := new, ucNotifyState := taskNOTIFICATION_RECEIVED\<rparr>) k;
        (woken, k) \<leftarrow> wake_from_isr t ucOriginalNotifyState k;
        Some (xReturn, old, woken, k)
      })"

definition vTaskGenericNotifyGiveFromISR :: "nat \<Rightarrow> u32 \<Rightarrow> kernel \<Rightarrow> (bool \<times> kernel) option" where
  "vTaskGenericNotifyGiveFromISR t uxIndexToNotify k =
     (if uxIndexToNotify \<ge> configTASK_NOTIFICATION_ARRAY_ENTRIES then None
      else let ucOriginalNotifyState = ucNotifyState (tcb k t);
               k = set_tcb t (\<lambda>c. c\<lparr>ucNotifyState := taskNOTIFICATION_RECEIVED, ulNotifiedValue := ulNotifiedValue c + 1\<rparr>) k
           in wake_from_isr t ucOriginalNotifyState k)"

text \<open>Before a wait: the task blocks unless there is something to take, or it does not want to wait.\<close>

definition ulTaskGenericNotifyTake_enter :: "u32 \<Rightarrow> u32 \<Rightarrow> kernel \<Rightarrow> kernel option" where
  "ulTaskGenericNotifyTake_enter uxIndexToWait xTicksToWait k =
     (if uxIndexToWait \<ge> configTASK_NOTIFICATION_ARRAY_ENTRIES then None
      else do {
        t \<leftarrow> pxCurrentTCB k;
        if ulNotifiedValue (tcb k t) = 0
        then let k = set_tcb t (\<lambda>c. c\<lparr>ucNotifyState := taskWAITING_NOTIFICATION\<rparr>) k
             in if xTicksToWait > 0
                then do { k \<leftarrow> prvAddCurrentTaskToDelayedList xTicksToWait True k; vTaskSwitchContext k } else Some k
        else Some k
      })"

definition ulTaskGenericNotifyTake_leave :: "bool \<Rightarrow> kernel \<Rightarrow> (u32 \<times> kernel) option" where
  "ulTaskGenericNotifyTake_leave xClearCountOnExit k =
     do {
       t \<leftarrow> pxCurrentTCB k;
       let ulReturn = ulNotifiedValue (tcb k t);
       let k = (if ulReturn \<noteq> 0
                then set_tcb t (\<lambda>c. c\<lparr>ulNotifiedValue := if xClearCountOnExit then 0 else ulReturn - 1\<rparr>) k else k);
       Some (ulReturn, set_tcb t (\<lambda>c. c\<lparr>ucNotifyState := taskNOT_WAITING_NOTIFICATION\<rparr>) k)
     }"

definition xTaskGenericNotifyWait_enter :: "u32 \<Rightarrow> u32 \<Rightarrow> u32 \<Rightarrow> kernel \<Rightarrow> kernel option" where
  "xTaskGenericNotifyWait_enter uxIndexToWait ulBitsToClearOnEntry xTicksToWait k =
     (if uxIndexToWait \<ge> configTASK_NOTIFICATION_ARRAY_ENTRIES then None
      else do {
        t \<leftarrow> pxCurrentTCB k;
        if ucNotifyState (tcb k t) \<noteq> taskNOTIFICATION_RECEIVED
        then let k = set_tcb t (\<lambda>c. c\<lparr>ulNotifiedValue := ulNotifiedValue c AND NOT ulBitsToClearOnEntry,
                                   ucNotifyState := taskWAITING_NOTIFICATION\<rparr>) k
             in if xTicksToWait > 0
                then do { k \<leftarrow> prvAddCurrentTaskToDelayedList xTicksToWait True k; vTaskSwitchContext k } else Some k
        else Some k
      })"

text \<open>The second component is the value for \<open>*pulNotificationValue\<close>.\<close>

definition xTaskGenericNotifyWait_leave :: "u32 \<Rightarrow> kernel \<Rightarrow> (bool \<times> u32 \<times> kernel) option" where
  "xTaskGenericNotifyWait_leave ulBitsToClearOnExit k =
     do {
       t \<leftarrow> pxCurrentTCB k;
       let v = ulNotifiedValue (tcb k t);
       let received = (ucNotifyState (tcb k t) = taskNOTIFICATION_RECEIVED);
       let k = (if received then set_tcb t (\<lambda>c. c\<lparr>ulNotifiedValue := v AND NOT ulBitsToClearOnExit\<rparr>) k else k);
       Some (received, v, set_tcb t (\<lambda>c. c\<lparr>ucNotifyState := taskNOT_WAITING_NOTIFICATION\<rparr>) k)
     }"

definition xTaskGenericNotifyStateClear :: "nat option \<Rightarrow> u32 \<Rightarrow> kernel \<Rightarrow> (bool \<times> kernel) option" where
  "xTaskGenericNotifyStateClear h uxIndexToClear k =
     (if uxIndexToClear \<ge> configTASK_NOTIFICATION_ARRAY_ENTRIES then None
      else do {
        t \<leftarrow> prvGetTCBFromHandle h k;
        Some (if ucNotifyState (tcb k t) = taskNOTIFICATION_RECEIVED
              then (True, set_tcb t (\<lambda>c. c\<lparr>ucNotifyState := taskNOT_WAITING_NOTIFICATION\<rparr>) k) else (False, k))
      })"

definition ulTaskGenericNotifyValueClear :: "nat option \<Rightarrow> u32 \<Rightarrow> u32 \<Rightarrow> kernel \<Rightarrow> (u32 \<times> kernel) option" where
  "ulTaskGenericNotifyValueClear h uxIndexToClear ulBitsToClear k =
     (if uxIndexToClear \<ge> configTASK_NOTIFICATION_ARRAY_ENTRIES then None
      else do {
        t \<leftarrow> prvGetTCBFromHandle h k;
        Some (ulNotifiedValue (tcb k t),
          set_tcb t (\<lambda>c. c\<lparr>ulNotifiedValue := ulNotifiedValue c AND NOT ulBitsToClear\<rparr>) k)
      })"

end
