(* ===== verification/KernelSched.thy ===== *)
theory KernelSched
  imports KernelTasks
begin

text \<open>
  The invariant of the scheduler and the behaviour of its operations: which list each task is in, what a
  context switch selects, which tasks a tick wakes. The links are hidden behind a predicate on the lists,
  so that the proofs only speak of the container, the value and the owner of each item.
\<close>

section \<open>Well-formed lists without their contents\<close>

abbreviation ivalue :: "kernel_lists \<Rightarrow> nat \<Rightarrow> u32" where "ivalue s i \<equiv> value_of s (Item i)"
abbreviation iowner :: "kernel_lists \<Rightarrow> nat \<Rightarrow> nat" where "iowner s i \<equiv> pvOwner (list_items s i)"

text \<open>\<open>D\<close> are the lists, \<open>S\<close> those of them that are kept in the order of the values, \<open>I\<close> the items.\<close>

definition lists_ok :: "nat set \<Rightarrow> nat set \<Rightarrow> nat set \<Rightarrow> kernel_lists \<Rightarrow> bool" where
  "lists_ok D S I s \<longleftrightarrow> finite I \<and> card I < 2 ^ 32 - 1 \<and>
     (\<exists>A. dom A = D \<and> lists_hold s I A \<and> (\<forall>l \<in> S. \<forall>a. A l = Some a \<longrightarrow> sorted (map (ivalue s) (fst a))))"

lemma lists_okE:
  assumes "lists_ok D S I s"
  obtains A where "dom A = D" "lists_hold s I A" "\<forall>l \<in> S. \<forall>a. A l = Some a \<longrightarrow> sorted (map (ivalue s) (fst a))"
    "\<forall>l a. A l = Some a \<longrightarrow> length (fst a) < 2 ^ 32 - 1"
    "\<forall>l \<in> D. \<exists>a. A l = Some a \<and> set (fst a) = {i \<in> I. container_of s i = Some l} \<and> distinct (fst a)"
proof -
  obtain A where A: "dom A = D" "lists_hold s I A" "\<forall>l \<in> S. \<forall>a. A l = Some a \<longrightarrow> sorted (map (ivalue s) (fst a))"
      and I: "finite I" "card I < 2 ^ 32 - 1"
    using assms unfolding lists_ok_def by blast
  have len: "length (fst a) < 2 ^ 32 - 1" if a: "A l = Some a" for l a
  proof -
    have "distinct (fst a)" using lists_hold_ring [OF A(2) a] by (simp add: ring_def)
    then have "length (fst a) \<le> card I"
      using card_mono [OF I(1) lists_hold_items [OF A(2) a]] by (simp add: distinct_card)
    then show ?thesis using I(2) by simp
  qed
  have mem: "\<exists>a. A l = Some a \<and> set (fst a) = {i \<in> I. container_of s i = Some l} \<and> distinct (fst a)" if l: "l \<in> D" for l
  proof -
    obtain a where a: "A l = Some a" using l A(1) by blast
    moreover have "distinct (fst a)" using lists_hold_ring [OF A(2) a] by (simp add: ring_def)
    moreover have "set (fst a) = {i \<in> I. container_of s i = Some l}"
      using lists_hold_items [OF A(2) a] lists_hold_container [OF A(2)] a
      by (fastforce simp del: split_paired_Ex split_paired_All)
    ultimately show ?thesis by blast
  qed
  show thesis by (rule that [OF A]) (use len mem in blast)+
qed

lemma lists_okI:
  assumes "lists_ok D S I s" and "dom A = D" "lists_hold s' I A"
    and "\<And>l a. l \<in> S \<Longrightarrow> A l = Some a \<Longrightarrow> sorted (map (ivalue s') (fst a))"
  shows "lists_ok D S I s'"
  using assms unfolding lists_ok_def by blast

lemma ok_container_list: "lists_ok D S I s \<Longrightarrow> i \<in> I \<Longrightarrow> container_of s i = Some l \<Longrightarrow> l \<in> D"
  by (erule lists_okE) (use lists_hold_container in blast)

text \<open>Removal.\<close>

lemma ok_remove:
  assumes ok: "lists_ok D S I s" and i: "i \<in> I" "container_of s i = Some l"
  shows "\<exists>n s'. uxListRemove i s = Some (n, s') \<and> lists_ok D S I s'"
proof -
  obtain A where A: "dom A = D" "lists_hold s I A" "\<forall>l \<in> S. \<forall>a. A l = Some a \<longrightarrow> sorted (map (ivalue s) (fst a))"
      "\<forall>l a. A l = Some a \<longrightarrow> length (fst a) < 2 ^ 32 - 1"
      "\<forall>l \<in> D. \<exists>a. A l = Some a \<and> set (fst a) = {i \<in> I. container_of s i = Some l} \<and> distinct (fst a)"
    using ok by (rule lists_okE)
  obtain a where a: "A l = Some a" "i \<in> set (fst a)" using lists_hold_container [OF A(2) i(1)] i(2) by blast
  obtain s' where s': "uxListRemove i s = Some (word_of_nat (length (fst a) - 1), s')"
      "lists_hold s' I (A(l \<mapsto> remove_abs i a))"
    using uxListRemove_refines [OF A(2) a] by blast
  have "lists_ok D S I s'"
  proof (rule lists_okI [OF ok _ s'(2)])
    show "dom (A(l \<mapsto> remove_abs i a)) = D" using A(1) a(1) by auto
    show "sorted (map (ivalue s') (fst b))" if b: "k \<in> S" "(A(l \<mapsto> remove_abs i a)) k = Some b" for k b
      using A(3) [rule_format, OF b(1)] b a uxListRemove_keeps(1) [OF s'(1)]
      by (cases "k = l") (auto simp: remove_abs_def sorted_map_remove1)
  qed
  then show ?thesis using s'(1) by blast
qed

text \<open>Insertion.\<close>

lemma ok_insert_end:
  assumes ok: "lists_ok D S I s" and i: "i \<in> I" "container_of s i = None" and l: "l \<in> D" "l \<notin> S"
  shows "lists_ok D S I (vListInsertEnd l i s)"
proof -
  obtain A where A: "dom A = D" "lists_hold s I A" "\<forall>l \<in> S. \<forall>a. A l = Some a \<longrightarrow> sorted (map (ivalue s) (fst a))"
      "\<forall>l a. A l = Some a \<longrightarrow> length (fst a) < 2 ^ 32 - 1"
      "\<forall>l \<in> D. \<exists>a. A l = Some a \<and> set (fst a) = {i \<in> I. container_of s i = Some l} \<and> distinct (fst a)"
    using ok by (rule lists_okE)
  obtain a where a: "A l = Some a" using A(1) l(1) by blast
  show ?thesis
  proof (rule lists_okI [OF ok _ InsertEnd_refines [OF A(2) a i A(4) [rule_format, OF a]]])
    show "dom (A(l \<mapsto> insert_end_abs i a)) = D" using A(1) a by auto
    show "sorted (map (ivalue (vListInsertEnd l i s)) (fst b))"
      if "k \<in> S" "(A(l \<mapsto> insert_end_abs i a)) k = Some b" for k b
      using A(3) [rule_format, OF that(1)] that l(2) by (auto simp: list_simps split: if_splits)
  qed
qed

lemma ok_insert:
  assumes ok: "lists_ok D S I s" and i: "i \<in> I" "container_of s i = None" and l: "l \<in> D"
  shows "\<exists>s'. vListInsert l i s = Some s' \<and> lists_ok D S I s'"
proof -
  obtain A where A: "dom A = D" "lists_hold s I A" "\<forall>l \<in> S. \<forall>a. A l = Some a \<longrightarrow> sorted (map (ivalue s) (fst a))"
      "\<forall>l a. A l = Some a \<longrightarrow> length (fst a) < 2 ^ 32 - 1"
      "\<forall>l \<in> D. \<exists>a. A l = Some a \<and> set (fst a) = {i \<in> I. container_of s i = Some l} \<and> distinct (fst a)"
    using ok by (rule lists_okE)
  obtain a where a: "A l = Some a" using A(1) l(1) by blast
  obtain s' where s': "vListInsert l i s = Some s'" "lists_hold s' I (A(l \<mapsto> insert_abs (ivalue s) i a))"
    using vListInsert_refines [OF A(2) a i A(4) [rule_format, OF a]] by blast
  have "lists_ok D S I s'"
  proof (rule lists_okI [OF ok _ s'(2)])
    show "dom (A(l \<mapsto> insert_abs (ivalue s) i a)) = D" using A(1) a by auto
    show "sorted (map (ivalue s') (fst b))" if b: "k \<in> S" "(A(l \<mapsto> insert_abs (ivalue s) i a)) k = Some b" for k b
    proof (cases "k = l")
      case True
      have "sorted (map (ivalue s) (fst a))" using A(3) [rule_format, OF b(1)] a True by simp
      then have "sorted (map (ivalue s) (fst (insert_abs (ivalue s) i a)))"
        by (auto simp: insert_abs_def takeWhile_le_filter dropWhile_le_filter sorted_append sorted_filter)
      then show ?thesis using b True vListInsert_keeps(1) [OF s'(1)] by simp
    next
      case False
      then show ?thesis using A(3) [rule_format, OF b(1)] b vListInsert_keeps(1) [OF s'(1)] by simp
    qed
  qed
  then show ?thesis using s'(1) by blast
qed

lemma ok_set_value:
  assumes ok: "lists_ok D S I s" and i: "i \<in> I \<Longrightarrow> \<forall>l. container_of s i = Some l \<longrightarrow> l \<notin> S"
  shows "lists_ok D S I (listSET_LIST_ITEM_VALUE i v s)"
proof -
  obtain A where A: "dom A = D" "lists_hold s I A" "\<forall>l \<in> S. \<forall>a. A l = Some a \<longrightarrow> sorted (map (ivalue s) (fst a))"
      "\<forall>l a. A l = Some a \<longrightarrow> length (fst a) < 2 ^ 32 - 1"
      "\<forall>l \<in> D. \<exists>a. A l = Some a \<and> set (fst a) = {i \<in> I. container_of s i = Some l} \<and> distinct (fst a)"
    using ok by (rule lists_okE)
  show ?thesis
  proof (rule lists_okI [OF ok A(1) lists_hold_set_value [OF A(2)]])
    fix l a assume l: "l \<in> S" "A l = Some a"
    have "i \<notin> set (fst a)"
    proof
      assume m: "i \<in> set (fst a)"
      then have "i \<in> I" using lists_hold_items [OF A(2) l(2)] by blast
      then show False using i l m lists_hold_container [OF A(2)] by blast
    qed
    then have "map (ivalue (listSET_LIST_ITEM_VALUE i v s)) (fst a) = map (ivalue s) (fst a)"
      by (intro map_cong) (auto simp: set_value_updates)
    then show "sorted (map (ivalue (listSET_LIST_ITEM_VALUE i v s)) (fst a))"
      using A(3) [rule_format, OF l] by (simp only:)
  qed
qed

text \<open>Queries.\<close>

lemma ok_length:
  assumes ok: "lists_ok D S I s" and l: "l \<in> D"
  shows "count_of s l = word_of_nat (card {i \<in> I. container_of s i = Some l})"
    and "card {i \<in> I. container_of s i = Some l} < 2 ^ 32"
proof -
  obtain A where A: "dom A = D" "lists_hold s I A" "\<forall>l \<in> S. \<forall>a. A l = Some a \<longrightarrow> sorted (map (ivalue s) (fst a))"
      "\<forall>l a. A l = Some a \<longrightarrow> length (fst a) < 2 ^ 32 - 1"
      "\<forall>l \<in> D. \<exists>a. A l = Some a \<and> set (fst a) = {i \<in> I. container_of s i = Some l} \<and> distinct (fst a)"
    using ok by (rule lists_okE)
  obtain a where a: "A l = Some a" "set (fst a) = {i \<in> I. container_of s i = Some l}" "distinct (fst a)"
    using A(5) l by blast
  then have "card {i \<in> I. container_of s i = Some l} = length (fst a)" by (metis distinct_card)
  then show "count_of s l = word_of_nat (card {i \<in> I. container_of s i = Some l})"
      "card {i \<in> I. container_of s i = Some l} < 2 ^ 32"
    using lists_hold_ring [OF A(2) a(1)] by (simp_all add: ring_def)
qed

lemma ok_empty:
  assumes ok: "lists_ok D S I s" and l: "l \<in> D"
  shows "listLIST_IS_EMPTY l s \<longleftrightarrow> (\<forall>i \<in> I. container_of s i \<noteq> Some l)"
proof -
  have "finite I" using ok by (simp add: lists_ok_def)
  then have "card {i \<in> I. container_of s i = Some l} = 0 \<longleftrightarrow> (\<forall>i \<in> I. container_of s i \<noteq> Some l)" by auto
  then show ?thesis
    using ok_length [OF ok l] by (simp add: listLIST_IS_EMPTY_def unat_eq_zero [symmetric] unsigned_of_nat take_bit_nat_eq_self)
qed

lemma ok_head:
  assumes ok: "lists_ok D S I s" and l: "l \<in> D" and j: "j \<in> I" "container_of s j = Some l"
  obtains i where "i \<in> I" "container_of s i = Some l" "next_of s (End l) = Item i"
    "l \<in> S \<Longrightarrow> \<forall>j \<in> I. container_of s j = Some l \<longrightarrow> ivalue s i \<le> ivalue s j"
proof -
  obtain A where A: "dom A = D" "lists_hold s I A" "\<forall>l \<in> S. \<forall>a. A l = Some a \<longrightarrow> sorted (map (ivalue s) (fst a))"
      "\<forall>l a. A l = Some a \<longrightarrow> length (fst a) < 2 ^ 32 - 1"
      "\<forall>l \<in> D. \<exists>a. A l = Some a \<and> set (fst a) = {i \<in> I. container_of s i = Some l} \<and> distinct (fst a)"
    using ok by (rule lists_okE)
  obtain a where a: "A l = Some a" "set (fst a) = {i \<in> I. container_of s i = Some l}" using A(5) l by blast
  then obtain i xs where xs: "fst a = i # xs" using j by (cases "fst a") auto
  have "next_of s (End l) = Item i"
    using linked_first [OF ring_linked [OF lists_hold_ring [OF A(2) a(1)]]] xs by simp
  moreover have "\<forall>j \<in> set (fst a). ivalue s i \<le> ivalue s j" if "l \<in> S" using A(3) [rule_format, OF that a(1)] xs by auto
  moreover have "i \<in> I" "container_of s i = Some l" using a(2) xs by auto
  ultimately show thesis using that a(2) by blast
qed

lemma ok_next_entry:
  assumes ok: "lists_ok D S I s" and l: "l \<in> D" and j: "j \<in> I" "container_of s j = Some l"
  obtains i s' where "i \<in> I" "container_of s i = Some l" "lists_ok D S I s'" "list_items s' = list_items s"
    "listGET_OWNER_OF_NEXT_ENTRY l s = (Some (iowner s i), s')"
proof -
  obtain A where A: "dom A = D" "lists_hold s I A" "\<forall>l \<in> S. \<forall>a. A l = Some a \<longrightarrow> sorted (map (ivalue s) (fst a))"
      "\<forall>l a. A l = Some a \<longrightarrow> length (fst a) < 2 ^ 32 - 1"
      "\<forall>l \<in> D. \<exists>a. A l = Some a \<and> set (fst a) = {i \<in> I. container_of s i = Some l} \<and> distinct (fst a)"
    using ok by (rule lists_okE)
  obtain a where a: "A l = Some a" "set (fst a) = {i \<in> I. container_of s i = Some l}" using A(5) l by blast
  have "set (visits a) = set (fst a)"
    using visits_mem lists_hold_ring [OF A(2) a(1)] by (auto simp: ring_def)
  then obtain i ys where i: "visits a = i # ys" "i \<in> set (fst a)" using j a(2) by (cases "visits a") auto
  obtain s' where s': "listGET_OWNER_OF_NEXT_ENTRY l s = (Some (iowner s i), s')"
      "lists_hold s' I (A(l \<mapsto> (fst a, Some i)))" "list_items s' = list_items s"
    using next_entry [OF A(2) a(1) i(1)] by blast
  have v: "ivalue s' x = ivalue s x" for x using s'(3) by (simp add: value_of_def)
  have "lists_ok D S I s'"
  proof (rule lists_okI [OF ok _ s'(2)])
    show "dom (A(l \<mapsto> (fst a, Some i))) = D" using A(1) a(1) by auto
    show "sorted (map (ivalue s') (fst b))" if "k \<in> S" "(A(l \<mapsto> (fst a, Some i))) k = Some b" for k b
      using A(3) [rule_format, OF that(1)] that a(1) by (cases "k = l") (auto simp: v)
  qed
  then show thesis using that i(2) a(2) s' by blast
qed

section \<open>The invariant\<close>

lemma item_numbers [simp]:
  "state_item t = state_item u \<longleftrightarrow> t = u" "event_item t = event_item u \<longleftrightarrow> t = u"
  "state_item t \<noteq> event_item u" "event_item u \<noteq> state_item t"
  by (simp_all add: state_item_def event_item_def) presburger+

definition kernel_items :: "nat set \<Rightarrow> nat set" where "kernel_items T = state_item ` T \<union> event_item ` T"

lemma kernel_items_mem [simp]:
  "state_item t \<in> kernel_items T \<longleftrightarrow> t \<in> T" "event_item t \<in> kernel_items T \<longleftrightarrow> t \<in> T"
  by (auto simp: kernel_items_def)

text \<open>Where a task is, and when it is due if it is delayed.\<close>

abbreviation state_list :: "kernel \<Rightarrow> nat \<Rightarrow> nat option" where
  "state_list k t \<equiv> container_of (klists k) (state_item t)"
abbreviation event_list :: "kernel \<Rightarrow> nat \<Rightarrow> nat option" where
  "event_list k t \<equiv> container_of (klists k) (event_item t)"
abbreviation wake :: "kernel \<Rightarrow> nat \<Rightarrow> u32" where "wake k t \<equiv> ivalue (klists k) (state_item t)"

definition ready :: "kernel \<Rightarrow> nat \<Rightarrow> bool" where "ready k t \<longleftrightarrow> state_list k t = Some (unat (priority k t))"
definition delayed :: "kernel \<Rightarrow> nat \<Rightarrow> bool" where "delayed k t \<longleftrightarrow> state_list k t = Some (pxDelayedTaskList k)"

text \<open>
  \<open>D\<close> are the initialised lists, \<open>T\<close> the tasks, \<open>X\<close> those that an operation has taken off their list and not
  yet put into another.
\<close>

definition sched :: "nat set \<Rightarrow> nat set \<Rightarrow> nat set \<Rightarrow> kernel \<Rightarrow> bool" where
  "sched D T X k \<longleftrightarrow> lists_ok D {10, 11} (kernel_items T) (klists k) \<and> {..<15} \<subseteq> D \<and>
     (\<forall>t \<in> T. iowner (klists k) (state_item t) = t \<and> iowner (klists k) (event_item t) = t \<and> unat (priority k t) < 10) \<and>
     (pxDelayedTaskList k = 10 \<and> pxOverflowDelayedTaskList k = 11 \<or> pxDelayedTaskList k = 11 \<and> pxOverflowDelayedTaskList k = 10) \<and>
     (\<forall>t \<in> T. state_list k t = None \<longleftrightarrow> t \<in> X) \<and>
     (\<forall>t \<in> T. \<forall>l. state_list k t = Some l \<longrightarrow> l = unat (priority k t) \<or> l = 10 \<or> l = 11 \<or> l = 13 \<or> l = 14) \<and>
     (\<forall>t \<in> T. \<forall>l. event_list k t = Some l \<longrightarrow> l = 12 \<or> 15 \<le> l) \<and>
     unat (uxTopReadyPriority k) < 10 \<and> (\<forall>t \<in> T. ready k t \<longrightarrow> priority k t \<le> uxTopReadyPriority k) \<and>
     (\<exists>c \<in> T. pxCurrentTCB k = Some c)"

definition timely :: "nat set \<Rightarrow> kernel \<Rightarrow> bool" where
  "timely T k \<longleftrightarrow> (\<forall>t \<in> T. delayed k t \<longrightarrow> xTickCount k < wake k t \<and> xNextTaskUnblockTime k \<le> wake k t)"

lemma ready_list_ok: "unat p < 10 \<Longrightarrow> ready_list p = Some (unat p)"
  by (simp add: ready_list_def configMAX_PRIORITIES_def word_less_nat_alt)

lemma remove_state:
  assumes k: "sched D T X k" and t: "t \<in> T" "t \<notin> X"
  shows "\<exists>s. remove_item (state_item t) k = Some (k\<lparr>klists := s\<rparr>) \<and> sched D T (insert t X) (k\<lparr>klists := s\<rparr>) \<and>
    (\<forall>j. container_of s j = (if j = state_item t then None else container_of (klists k) j)) \<and>
    (\<forall>j. ivalue s j = ivalue (klists k) j)"
proof -
  have ok: "lists_ok D {10, 11} (kernel_items T) (klists k)" using k by (simp add: sched_def)
  obtain l where l: "state_list k t = Some l" using k t by (auto simp: sched_def)
  obtain n s where s: "uxListRemove (state_item t) (klists k) = Some (n, s)" "lists_ok D {10, 11} (kernel_items T) s"
    using ok_remove [OF ok _ l] t(1) by auto
  note keep = uxListRemove_keeps [OF s(1)]
  have "sched D T (insert t X) (k\<lparr>klists := s\<rparr>)"
    using k s(2) t unfolding sched_def ready_def by (auto simp: keep)
  then show ?thesis using s(1) keep by (auto simp: remove_item_def)
qed

lemma remove_event:
  assumes k: "sched D T X k" and t: "t \<in> T"
  shows "\<exists>s. remove_from_event t k = Some (k\<lparr>klists := s\<rparr>) \<and> sched D T X (k\<lparr>klists := s\<rparr>) \<and>
    (\<forall>j. container_of s j = (if j = event_item t then None else container_of (klists k) j)) \<and>
    (\<forall>j. ivalue s j = ivalue (klists k) j)"
proof (cases "event_list k t")
  case None
  then show ?thesis using k
    by (intro exI [of _ "klists k"]) (auto simp: remove_from_event_def listLIST_ITEM_CONTAINER_def)
next
  case (Some l)
  have ok: "lists_ok D {10, 11} (kernel_items T) (klists k)" using k by (simp add: sched_def)
  obtain n s where s: "uxListRemove (event_item t) (klists k) = Some (n, s)" "lists_ok D {10, 11} (kernel_items T) s"
    using ok_remove [OF ok _ Some] t(1) by auto
  note keep = uxListRemove_keeps [OF s(1)]
  have "sched D T X (k\<lparr>klists := s\<rparr>)"
    using k s(2) t unfolding sched_def ready_def by (auto simp: keep)
  then show ?thesis using s(1) keep Some by (auto simp: remove_from_event_def remove_item_def listLIST_ITEM_CONTAINER_def)
qed

lemma add_ready:
  assumes k: "sched D T X k" and t: "t \<in> T" "t \<in> X"
  shows "\<exists>s p. prvAddTaskToReadyList t k = Some (k\<lparr>klists := s, uxTopReadyPriority := p\<rparr>) \<and>
    sched D T (X - {t}) (k\<lparr>klists := s, uxTopReadyPriority := p\<rparr>) \<and>
    (\<forall>j. container_of s j = (if j = state_item t then Some (unat (priority k t)) else container_of (klists k) j)) \<and>
    (\<forall>j. ivalue s j = ivalue (klists k) j)"
proof -
  let ?p = "if priority k t > uxTopReadyPriority k then priority k t else uxTopReadyPriority k"
  let ?s = "vListInsertEnd (unat (priority k t)) (state_item t) (klists k)"
  have ok: "lists_ok D {10, 11} (kernel_items T) (klists k)" and p: "unat (priority k t) < 10"
    using k t(1) by (simp_all add: sched_def)
  have none: "state_list k t = None" using k t by (simp add: sched_def)
  have "{..<15} \<subseteq> D" using k by (simp add: sched_def)
  then have in_D: "unat (priority k t) \<in> D" using p by (auto dest: subsetD [where c = "unat (priority k t)"])
  have s: "lists_ok D {10, 11} (kernel_items T) ?s"
    by (rule ok_insert_end [OF ok _ none]) (use p t in_D in \<open>auto\<close>)
  have "prvAddTaskToReadyList t k = Some (k\<lparr>klists := ?s, uxTopReadyPriority := ?p\<rparr>)"
    by (simp add: prvAddTaskToReadyList_def taskRECORD_READY_PRIORITY_def ready_list_ok [OF p] on_lists_def Let_def)
  moreover have "sched D T (X - {t}) (k\<lparr>klists := ?s, uxTopReadyPriority := ?p\<rparr>)"
    using k s t p unfolding sched_def ready_def by (auto simp: list_simps)
  moreover have "\<forall>j. container_of ?s j = (if j = state_item t then Some (unat (priority k t)) else container_of (klists k) j)"
      "\<forall>j. ivalue ?s j = ivalue (klists k) j"
    by (simp_all add: list_simps)
  ultimately show ?thesis by blast
qed

section \<open>The tick\<close>

lemma schedD:
  assumes "sched D T X k"
  shows "lists_ok D {10, 11} (kernel_items T) (klists k)" and "l < 15 \<Longrightarrow> l \<in> D"
    and "t \<in> T \<Longrightarrow> iowner (klists k) (state_item t) = t" and "t \<in> T \<Longrightarrow> iowner (klists k) (event_item t) = t"
    and "t \<in> T \<Longrightarrow> unat (priority k t) < 10" and "t \<in> T \<Longrightarrow> state_list k t = None \<longleftrightarrow> t \<in> X"
    and "t \<in> T \<Longrightarrow> state_list k t = Some l \<Longrightarrow> l = unat (priority k t) \<or> l = 10 \<or> l = 11 \<or> l = 13 \<or> l = 14"
    and "t \<in> T \<Longrightarrow> event_list k t = Some l \<Longrightarrow> l = 12 \<or> 15 \<le> l"
    and "pxDelayedTaskList k = 10 \<or> pxDelayedTaskList k = 11"
    and "pxOverflowDelayedTaskList k = 10 \<or> pxOverflowDelayedTaskList k = 11"
    and "pxDelayedTaskList k \<noteq> pxOverflowDelayedTaskList k"
  using assms by (auto simp: sched_def)

text \<open>The items of a list below 15 other than the pending one are state items, those of the others event items.\<close>

lemma state_list_items:
  assumes k: "sched D T X k" and i: "i \<in> kernel_items T" "container_of (klists k) i = Some l" and l: "l < 15" "l \<noteq> 12"
  obtains t where "t \<in> T" "i = state_item t"
  using i schedD(8) [OF k, of _ l] l by (auto simp: kernel_items_def)

lemma event_list_items:
  assumes k: "sched D T X k" and i: "i \<in> kernel_items T" "container_of (klists k) i = Some l" and l: "l = 12 \<or> 15 \<le> l"
  obtains t where "t \<in> T" "i = event_item t"
proof -
  obtain t where t: "t \<in> T" "i = state_item t \<or> i = event_item t" using i(1) by (auto simp: kernel_items_def)
  have "l < 15 \<and> l \<noteq> 12" if "i = state_item t"
    using schedD(7) [OF k t(1), of l] schedD(5) [OF k t(1)] i(2) that by auto
  then show thesis using that t l by auto
qed

lemma state_list_empty:
  assumes k: "sched D T X k" and l: "l < 15" "l \<noteq> 12"
  shows "listLIST_IS_EMPTY l (klists k) \<longleftrightarrow> (\<forall>t \<in> T. state_list k t \<noteq> Some l)"
proof -
  have "(\<forall>i \<in> kernel_items T. container_of (klists k) i \<noteq> Some l) \<longleftrightarrow> (\<forall>t \<in> T. state_list k t \<noteq> Some l)"
    using state_list_items [OF k _ _ l] by (metis kernel_items_mem(1))
  then show ?thesis using ok_empty [OF schedD(1) [OF k] schedD(2) [OF k l(1)]] by simp
qed

lemma event_list_empty:
  assumes k: "sched D T X k" and l: "l \<in> D" "l = 12 \<or> 15 \<le> l"
  shows "listLIST_IS_EMPTY l (klists k) \<longleftrightarrow> (\<forall>t \<in> T. event_list k t \<noteq> Some l)"
proof -
  have "(\<forall>i \<in> kernel_items T. container_of (klists k) i \<noteq> Some l) \<longleftrightarrow> (\<forall>t \<in> T. event_list k t \<noteq> Some l)"
    using event_list_items [OF k _ _ l(2)] by (metis kernel_items_mem(2))
  then show ?thesis using ok_empty [OF schedD(1) [OF k] l(1)] by simp
qed

lemma delayed_head:
  assumes k: "sched D T X k" and l: "l = 10 \<or> l = 11" and u: "u \<in> T" "state_list k u = Some l"
  obtains t where "t \<in> T" "state_list k t = Some l" "listGET_OWNER_OF_HEAD_ENTRY l (klists k) = Some t"
    "listGET_ITEM_VALUE_OF_HEAD_ENTRY l (klists k) = wake k t"
    "\<forall>u \<in> T. state_list k u = Some l \<longrightarrow> wake k t \<le> wake k u"
proof -
  have lD: "l \<in> D" using schedD(2) [OF k] l by auto
  obtain i where i: "i \<in> kernel_items T" "container_of (klists k) i = Some l" "next_of (klists k) (End l) = Item i"
      "l \<in> {10, 11} \<Longrightarrow> \<forall>j \<in> kernel_items T. container_of (klists k) j = Some l \<longrightarrow> ivalue (klists k) i \<le> ivalue (klists k) j"
    by (rule ok_head [OF schedD(1) [OF k] lD _ u(2)]) (use u in auto)
  have "l < 15" "l \<noteq> 12" using l by auto
  then obtain t where t: "t \<in> T" "i = state_item t" by (rule state_list_items [OF k i(1,2)])
  show thesis
    by (rule that [of t]) (use t i l schedD(3) [OF k] in
      \<open>auto simp: listGET_OWNER_OF_HEAD_ENTRY_def listGET_ITEM_VALUE_OF_HEAD_ENTRY_def\<close>)
qed

lemma event_head:
  assumes k: "sched D T X k" and l: "l \<in> D" "l = 12 \<or> 15 \<le> l" and u: "u \<in> T" "event_list k u = Some l"
  obtains t where "t \<in> T" "event_list k t = Some l" "listGET_OWNER_OF_HEAD_ENTRY l (klists k) = Some t"
proof -
  obtain i where i: "i \<in> kernel_items T" "container_of (klists k) i = Some l" "next_of (klists k) (End l) = Item i"
    by (rule ok_head [OF schedD(1) [OF k] l(1) _ u(2)]) (use u in auto)
  obtain t where t: "t \<in> T" "i = event_item t" by (rule event_list_items [OF k i(1,2) l(2)])
  show thesis
    by (rule that [of t]) (use t i schedD(4) [OF k] in \<open>auto simp: listGET_OWNER_OF_HEAD_ENTRY_def\<close>)
qed

text \<open>The tasks whose time has come at the current tick.\<close>

definition due :: "kernel \<Rightarrow> nat \<Rightarrow> bool" where "due k t \<longleftrightarrow> delayed k t \<and> wake k t \<le> xTickCount k"

lemma unblock_expired_ok:
  assumes "sched D T {} k"
  shows "\<exists>s p n. unblock_expired k sw = Some (sw \<or> (\<exists>t \<in> T. due k t \<and> the (current_priority k) \<le> priority k t),
      k\<lparr>klists := s, uxTopReadyPriority := p, xNextTaskUnblockTime := n\<rparr>) \<and>
    sched D T {} (k\<lparr>klists := s, uxTopReadyPriority := p, xNextTaskUnblockTime := n\<rparr>) \<and>
    (\<forall>t \<in> T. container_of s (state_item t) = (if due k t then Some (unat (priority k t)) else state_list k t) \<and>
      container_of s (event_item t) = (if due k t then None else event_list k t)) \<and>
    (\<forall>j. ivalue s j = ivalue (klists k) j) \<and>
    (\<forall>t \<in> T. delayed k t \<longrightarrow> \<not> due k t \<longrightarrow> n \<le> wake k t)"
  using assms
proof (induction "card {t \<in> T. delayed k t}" arbitrary: k sw rule: less_induct)
  case less
  note k = less.prems
  let ?l = "pxDelayedTaskList k"
  have l: "?l = 10 \<or> ?l = 11" "?l < 15" "?l \<noteq> 12" using schedD(9) [OF k] by auto
  have empty: "listLIST_IS_EMPTY ?l (klists k) \<longleftrightarrow> (\<forall>t \<in> T. \<not> delayed k t)"
    using state_list_empty [OF k l(2,3)] by (simp add: delayed_def)
  show ?case
  proof (cases "\<forall>t \<in> T. \<not> delayed k t")
    case True
    have "sched D T {} (k\<lparr>xNextTaskUnblockTime := portMAX_DELAY\<rparr>)" using k by (simp add: sched_def ready_def)
    moreover have "unblock_expired k sw = Some (sw, k\<lparr>xNextTaskUnblockTime := portMAX_DELAY\<rparr>)"
      using True empty by (simp add: unblock_expired.simps [of k sw])
    moreover have "\<not> due k t" if "t \<in> T" for t using True that by (simp add: due_def)
    ultimately show ?thesis
      using True by (intro exI [of _ "klists k"] exI [of _ "uxTopReadyPriority k"] exI [of _ portMAX_DELAY]) simp
  next
    case False
    then obtain u where "u \<in> T" "state_list k u = Some ?l" by (auto simp: delayed_def)
    from delayed_head [OF k l(1) this]
    obtain t where t: "t \<in> T" "delayed k t" "listGET_OWNER_OF_HEAD_ENTRY ?l (klists k) = Some t"
        "\<forall>u \<in> T. delayed k u \<longrightarrow> wake k t \<le> wake k u"
      unfolding delayed_def by blast
    have nempty: "\<not> listLIST_IS_EMPTY ?l (klists k)" using False empty by simp
    have val: "listGET_LIST_ITEM_VALUE (state_item t) (klists k) = wake k t"
      by (simp add: listGET_LIST_ITEM_VALUE_def value_of_def MiniListItem_t.truncate_def)
    show ?thesis
    proof (cases "xTickCount k < wake k t")
      case True
      have no: "\<not> due k u" if "u \<in> T" for u using t(4) True that by (fastforce simp: due_def)
      have "sched D T {} (k\<lparr>xNextTaskUnblockTime := wake k t\<rparr>)" using k by (simp add: sched_def ready_def)
      moreover have "unblock_expired k sw = Some (sw, k\<lparr>xNextTaskUnblockTime := wake k t\<rparr>)"
        using nempty t(3) val True by (simp add: unblock_expired.simps [of k sw])
      ultimately show ?thesis
        using t(4) no by (intro exI [of _ "klists k"] exI [of _ "uxTopReadyPriority k"] exI [of _ "wake k t"]) simp
    next
      case time: False
      obtain s1 where s1: "remove_item (state_item t) k = Some (k\<lparr>klists := s1\<rparr>)" "sched D T {t} (k\<lparr>klists := s1\<rparr>)"
          "\<forall>j. container_of s1 j = (if j = state_item t then None else container_of (klists k) j)"
          "\<forall>j. ivalue s1 j = ivalue (klists k) j"
        using remove_state [OF k t(1)] by auto
      obtain s2 where s2: "remove_from_event t (k\<lparr>klists := s1\<rparr>) = Some (k\<lparr>klists := s2\<rparr>)" "sched D T {t} (k\<lparr>klists := s2\<rparr>)"
          "\<forall>j. container_of s2 j = (if j = event_item t then None else container_of s1 j)"
          "\<forall>j. ivalue s2 j = ivalue s1 j"
        using remove_event [OF s1(2) t(1)] by auto
      obtain s3 p3 where s3: "prvAddTaskToReadyList t (k\<lparr>klists := s2\<rparr>) = Some (k\<lparr>klists := s3, uxTopReadyPriority := p3\<rparr>)"
          "sched D T {} (k\<lparr>klists := s3, uxTopReadyPriority := p3\<rparr>)"
          "\<forall>j. container_of s3 j = (if j = state_item t then Some (unat (priority k t)) else container_of s2 j)"
          "\<forall>j. ivalue s3 j = ivalue s2 j"
        using add_ready [OF s2(2) t(1)] by auto
      define k3 where "k3 = k\<lparr>klists := s3, uxTopReadyPriority := p3\<rparr>"
      have c3: "container_of s3 j = (if j = state_item t then Some (unat (priority k t)) else if j = event_item t then None
          else container_of (klists k) j)" for j
        by (simp add: s3(3) s2(3) s1(3))
      have v3: "ivalue s3 j = ivalue (klists k) j" for j by (simp add: s3(4) s2(4) s1(4))
      have p: "unat (priority k t) \<noteq> ?l" using schedD(5) [OF k t(1)] l by auto
      have d3: "delayed k3 u \<longleftrightarrow> delayed k u \<and> u \<noteq> t" for u by (auto simp: delayed_def k3_def c3 p)
      have e3: "due k3 u \<longleftrightarrow> due k u \<and> u \<noteq> t" for u using d3 [of u] by (auto simp: due_def k3_def v3)
      have dt: "due k t" using t(2) time by (simp add: due_def)
      obtain c where c: "pxCurrentTCB k = Some c" using k by (auto simp: sched_def)
      then have cp: "current_priority k3 = Some (priority k c)" "current_priority k = Some (priority k c)"
        by (simp_all add: current_priority_def k3_def)
      have "finite T" using schedD(1) [OF k] by (auto simp: lists_ok_def kernel_items_def dest: finite_imageD [OF _ inj_onI])
      then have "card {u \<in> T. delayed k3 u} < card {u \<in> T. delayed k u}"
        using t(1,2) by (intro psubset_card_mono) (auto simp: d3)
      from less.hyps [OF this s3(2) [folded k3_def], of "if priority k t \<ge> priority k c then True else sw"]
      obtain s' p' n where IH: "unblock_expired k3 (if priority k t \<ge> priority k c then True else sw) =
          Some ((if priority k t \<ge> priority k c then True else sw) \<or> (\<exists>u \<in> T. due k3 u \<and> priority k c \<le> priority k3 u),
            k3\<lparr>klists := s', uxTopReadyPriority := p', xNextTaskUnblockTime := n\<rparr>)"
          "sched D T {} (k3\<lparr>klists := s', uxTopReadyPriority := p', xNextTaskUnblockTime := n\<rparr>)"
          "\<forall>u \<in> T. container_of s' (state_item u) = (if due k3 u then Some (unat (priority k3 u)) else state_list k3 u) \<and>
            container_of s' (event_item u) = (if due k3 u then None else event_list k3 u)"
          "\<forall>j. ivalue s' j = ivalue s3 j" "\<forall>u \<in> T. delayed k3 u \<longrightarrow> \<not> due k3 u \<longrightarrow> n \<le> wake k3 u"
        using cp by (auto simp: k3_def)
      have "unblock_expired k sw = unblock_expired k3 (if priority k t \<ge> priority k c then True else sw)"
        using nempty t(3) val time s1(1) s2(1) s3(1) cp c
        by (simp add: unblock_expired.simps [of k sw] k3_def current_priority_def)
      moreover have "k3\<lparr>klists := s', uxTopReadyPriority := p', xNextTaskUnblockTime := n\<rparr> =
          k\<lparr>klists := s', uxTopReadyPriority := p', xNextTaskUnblockTime := n\<rparr>"
        by (simp add: k3_def)
      moreover have "((if priority k t \<ge> priority k c then True else sw) \<or> (\<exists>u \<in> T. due k3 u \<and> priority k c \<le> priority k3 u)) =
          (sw \<or> (\<exists>u \<in> T. due k u \<and> the (current_priority k) \<le> priority k u))"
        using t(1) dt e3 cp(2) by (auto simp: k3_def)
      moreover have "container_of s' (state_item u) = (if due k u then Some (unat (priority k u)) else state_list k u) \<and>
          container_of s' (event_item u) = (if due k u then None else event_list k u)" if "u \<in> T" for u
        using IH(3) [rule_format, OF that] dt c3 e3 [of u] by (auto simp: k3_def split: if_splits)
      moreover have "n \<le> wake k u" if "u \<in> T" "delayed k u" "\<not> due k u" for u
        using IH(5) [rule_format, OF that(1)] that d3 [of u] e3 [of u] dt v3 by (auto simp: k3_def)
      ultimately show ?thesis using IH(1,2,4) v3
        by (intro exI [of _ s'] exI [of _ p'] exI [of _ n]) simp

    qed
  qed
qed

lemma sched_current:
  assumes "sched D T X k"
  obtains c where "c \<in> T" "pxCurrentTCB k = Some c" "current_priority k = Some (priority k c)" "unat (priority k c) < 10"
  using assms unfolding sched_def current_priority_def by fastforce

lemma ready_count:
  assumes k: "sched D T X k" and p: "p < 10"
  shows "listCURRENT_LIST_LENGTH p (klists k) > 1 \<longleftrightarrow> 1 < card {t \<in> T. state_list k t = Some p}"
proof -
  have p15: "p < 15" "p \<noteq> 12" using p by simp_all
  have "{i \<in> kernel_items T. container_of (klists k) i = Some p} = state_item ` {t \<in> T. state_list k t = Some p}"
    by (auto elim!: state_list_items [OF k _ _ p15])
  moreover have "inj_on state_item {t \<in> T. state_list k t = Some p}" by (simp add: inj_on_def)
  ultimately have c: "card {i \<in> kernel_items T. container_of (klists k) i = Some p} = card {t \<in> T. state_list k t = Some p}"
    by (simp add: card_image)
  note len = ok_length [OF schedD(1) [OF k] schedD(2) [OF k p15(1)], unfolded c]
  show ?thesis
    using len by (simp add: listCURRENT_LIST_LENGTH_def word_less_nat_alt unsigned_of_nat take_bit_nat_eq_self)
qed

text \<open>
  The tasks that a tick wakes: those delayed until the new tick, in the list that is current after the tick.
\<close>

definition wakes_at_tick :: "kernel \<Rightarrow> nat \<Rightarrow> bool" where
  "wakes_at_tick k t \<longleftrightarrow> wake k t = xTickCount k + 1 \<and>
     state_list k t = Some (if xTickCount k + 1 = 0 then pxOverflowDelayedTaskList k else pxDelayedTaskList k)"

lemma tick_run:
  assumes "uxSchedulerSuspended k = 0" and "k0 = k\<lparr>xTickCount := xTickCount k + 1\<rparr>"
    and "(if xTickCount k0 = 0 then taskSWITCH_DELAYED_LISTS k0 else Some k0) = Some k1"
    and "(if xTickCount k1 \<ge> xNextTaskUnblockTime k1 then unblock_expired k1 False else Some (False, k1)) = Some (sw, k2)"
    and "current_priority k2 = Some p" and "unat p < 10"
  shows "xTaskIncrementTick k = Some (if xYieldPending k2 then True
    else if listCURRENT_LIST_LENGTH (unat p) (klists k2) > 1 then True else sw, k2)"
  unfolding xTaskIncrementTick_def assms(2) [symmetric] Let_def assms(3)
  by (simp add: assms(1,4,5) ready_list_ok [OF assms(6)])

lemma tick_ok:
  assumes k: "sched D T {} k" and tm: "timely T k" and run: "uxSchedulerSuspended k = 0" and c: "pxCurrentTCB k = Some c"
  shows "\<exists>s p n. let k' = k\<lparr>klists := s, uxTopReadyPriority := p, xNextTaskUnblockTime := n, xTickCount := xTickCount k + 1,
      pxDelayedTaskList := if xTickCount k + 1 = 0 then pxOverflowDelayedTaskList k else pxDelayedTaskList k,
      pxOverflowDelayedTaskList := if xTickCount k + 1 = 0 then pxDelayedTaskList k else pxOverflowDelayedTaskList k,
      xNumOfOverflows := if xTickCount k + 1 = 0 then xNumOfOverflows k + 1 else xNumOfOverflows k\<rparr>
    in xTaskIncrementTick k = Some (xYieldPending k \<or> (\<exists>t \<in> T. wakes_at_tick k t \<and> priority k c \<le> priority k t) \<or>
        1 < card {t \<in> T. state_list k' t = Some (unat (priority k c))}, k') \<and>
      sched D T {} k' \<and> timely T k' \<and>
      (\<forall>t \<in> T. state_list k' t = (if wakes_at_tick k t then Some (unat (priority k t)) else state_list k t) \<and>
        event_list k' t = (if wakes_at_tick k t then None else event_list k t)) \<and>
      (\<forall>j. ivalue s j = ivalue (klists k) j)"
proof -
  define w where "w \<longleftrightarrow> xTickCount k + 1 = 0"
  let ?k0 = "k\<lparr>xTickCount := xTickCount k + 1\<rparr>"
  define d o' where "d = (if w then pxOverflowDelayedTaskList k else pxDelayedTaskList k)"
    and "o' = (if w then pxDelayedTaskList k else pxOverflowDelayedTaskList k)"
  define v where "v = (if w then xNumOfOverflows k + 1 else xNumOfOverflows k)"
  have l: "pxDelayedTaskList k < 15" "pxDelayedTaskList k \<noteq> 12" "d < 15" "d \<noteq> 12" "d = 10 \<or> d = 11"
    using schedD(9,10) [OF k] by (auto simp: d_def)
  have max: "x \<le> xTickCount k" if w for x
  proof -
    have "xTickCount k = - 1" using that by (simp add: w_def eq_neg_iff_add_eq_0)
    then show ?thesis by simp
  qed
  have none: "\<not> delayed k t" if w "t \<in> T" for t
  proof
    assume "delayed k t"
    then have "xTickCount k < wake k t" using tm that(2) by (simp add: timely_def)
    then show False using max [OF that(1), of "wake k t"] by simp
  qed
  obtain n1 where n1: "(if xTickCount ?k0 = 0 then taskSWITCH_DELAYED_LISTS ?k0 else Some ?k0) =
      Some (k\<lparr>xTickCount := xTickCount k + 1, pxDelayedTaskList := d, pxOverflowDelayedTaskList := o', xNumOfOverflows := v,
        xNextTaskUnblockTime := n1\<rparr>)"
    "\<forall>t \<in> T. state_list k t = Some d \<longrightarrow> n1 \<le> wake k t \<and> xTickCount k + 1 \<le> wake k t"
  proof (cases w)
    case True
    define k2 where "k2 = k\<lparr>xTickCount := xTickCount k + 1, pxDelayedTaskList := d, pxOverflowDelayedTaskList := o', xNumOfOverflows := v\<rparr>"
    have "listLIST_IS_EMPTY (pxDelayedTaskList k) (klists k)"
      using none [OF True] state_list_empty [OF k l(1,2)] by (simp add: delayed_def)
    then have "taskSWITCH_DELAYED_LISTS ?k0 = Some (prvResetNextTaskUnblockTime k2)"
      using True by (simp add: taskSWITCH_DELAYED_LISTS_def k2_def d_def o'_def v_def)
    moreover have "xNextTaskUnblockTime (prvResetNextTaskUnblockTime k2) \<le> wake k t" if t: "t \<in> T" "state_list k t = Some d" for t
    proof -
      have "\<not> listLIST_IS_EMPTY d (klists k)" using state_list_empty [OF k l(3,4)] t by auto
      moreover obtain u where "listGET_ITEM_VALUE_OF_HEAD_ENTRY d (klists k) = wake k u" "wake k u \<le> wake k t"
        by (rule delayed_head [OF k l(5) t]) (use t in blast)
      ultimately show ?thesis by (simp add: prvResetNextTaskUnblockTime_def k2_def)
    qed
    moreover have "prvResetNextTaskUnblockTime k2 = k\<lparr>xTickCount := xTickCount k + 1, pxDelayedTaskList := d,
        pxOverflowDelayedTaskList := o', xNumOfOverflows := v, xNextTaskUnblockTime := xNextTaskUnblockTime (prvResetNextTaskUnblockTime k2)\<rparr>"
      by (simp add: prvResetNextTaskUnblockTime_def k2_def)
    ultimately show thesis
      using that [of "xNextTaskUnblockTime (prvResetNextTaskUnblockTime k2)"] True by (simp add: w_def)
  next
    case False
    have "xTickCount k + 1 \<le> wake k t" if "xTickCount k < wake k t" for t
      using that False by (simp add: w_def inc_le)
    then show thesis
      using that [of "xNextTaskUnblockTime k"] False tm by (auto simp: w_def d_def o'_def v_def timely_def delayed_def)
  qed
  define k1 where "k1 = k\<lparr>xTickCount := xTickCount k + 1, pxDelayedTaskList := d, pxOverflowDelayedTaskList := o',
    xNumOfOverflows := v, xNextTaskUnblockTime := n1\<rparr>"
  have s1: "sched D T {} k1" using k by (auto simp: sched_def k1_def d_def o'_def ready_def)
  have due1: "due k1 t \<longleftrightarrow> wakes_at_tick k t" if "t \<in> T" for t
    using n1(2) that by (auto simp: due_def delayed_def wakes_at_tick_def k1_def d_def w_def)
  have cp: "the (current_priority k1) = priority k c" using c by (simp add: current_priority_def k1_def)
  obtain s p n where u: "(if xTickCount k1 \<ge> xNextTaskUnblockTime k1 then unblock_expired k1 False else Some (False, k1)) =
        Some (\<exists>t \<in> T. due k1 t \<and> priority k c \<le> priority k t, k1\<lparr>klists := s, uxTopReadyPriority := p, xNextTaskUnblockTime := n\<rparr>)"
      "sched D T {} (k1\<lparr>klists := s, uxTopReadyPriority := p, xNextTaskUnblockTime := n\<rparr>)"
      "\<forall>t \<in> T. container_of s (state_item t) = (if due k1 t then Some (unat (priority k t)) else state_list k t) \<and>
        container_of s (event_item t) = (if due k1 t then None else event_list k t)"
      "\<forall>j. ivalue s j = ivalue (klists k) j" "\<forall>t \<in> T. delayed k1 t \<longrightarrow> \<not> due k1 t \<longrightarrow> n \<le> wake k t"
  proof (cases "xTickCount k1 \<ge> xNextTaskUnblockTime k1")
    case True
    obtain s p n where e: "unblock_expired k1 False = Some (False \<or> (\<exists>t \<in> T. due k1 t \<and> the (current_priority k1) \<le> priority k1 t),
        k1\<lparr>klists := s, uxTopReadyPriority := p, xNextTaskUnblockTime := n\<rparr>)"
      "sched D T {} (k1\<lparr>klists := s, uxTopReadyPriority := p, xNextTaskUnblockTime := n\<rparr>)"
      "\<forall>t \<in> T. container_of s (state_item t) = (if due k1 t then Some (unat (priority k1 t)) else state_list k1 t) \<and>
        container_of s (event_item t) = (if due k1 t then None else event_list k1 t)"
      "\<forall>j. ivalue s j = ivalue (klists k1) j" "\<forall>t \<in> T. delayed k1 t \<longrightarrow> \<not> due k1 t \<longrightarrow> n \<le> wake k1 t"
      using unblock_expired_ok [OF s1, of False] by blast
    have k1: "tcb k1 = tcb k" "klists k1 = klists k" by (simp_all add: k1_def)
    show thesis
      by (rule that [where s = s and p = p and n = n]) (use e True cp k1 in simp_all)
  next
    case False
    have no: "\<not> due k1 t" if "t \<in> T" for t
      using n1(2) that False by (auto simp: due_def delayed_def k1_def)
    have k1: "k1\<lparr>klists := klists k, uxTopReadyPriority := uxTopReadyPriority k, xNextTaskUnblockTime := n1\<rparr> = k1"
      by (simp add: k1_def)
    show thesis
      by (rule that [where s = "klists k" and p = "uxTopReadyPriority k" and n = n1]) (use False no s1 k1 n1(2) in \<open>auto simp: delayed_def k1_def\<close>)
  qed
  define k' where "k' = k1\<lparr>klists := s, uxTopReadyPriority := p, xNextTaskUnblockTime := n\<rparr>"
  have p10: "unat (priority k c) < 10" using k c by (auto simp: sched_def)
  have cp': "current_priority k' = Some (priority k c)" using c by (simp add: current_priority_def k'_def k1_def)
  have "xTaskIncrementTick k = Some (xYieldPending k \<or> (\<exists>t \<in> T. due k1 t \<and> priority k c \<le> priority k t) \<or>
      1 < card {t \<in> T. state_list k' t = Some (unat (priority k c))}, k')"
  proof -
    have yp: "xYieldPending k' = xYieldPending k" by (simp add: k'_def k1_def)
    have "listCURRENT_LIST_LENGTH (unat (priority k c)) (klists k') > 1 \<longleftrightarrow>
        1 < card {t \<in> T. state_list k' t = Some (unat (priority k c))}"
      using ready_count [OF u(2) p10] by (simp add: k'_def)
    then show ?thesis
      using tick_run [OF run refl n1(1) [folded k1_def] u(1) [folded k'_def] cp' p10] yp by auto
  qed
  moreover have woken: "(\<exists>t \<in> T. due k1 t \<and> priority k c \<le> priority k t) = (\<exists>t \<in> T. wakes_at_tick k t \<and> priority k c \<le> priority k t)"
    using due1 by blast
  moreover have tm': "timely T k'"
  proof -
    have "xTickCount k + 1 < wake k' t \<and> n \<le> wake k' t" if t: "t \<in> T" "delayed k' t" for t
    proof -
      have nd: "\<not> due k1 t"
      proof
        assume "due k1 t"
        then have "d = unat (priority k t)" using u(3) t by (auto simp: delayed_def k'_def k1_def)
        then show False using l(5) schedD(5) [OF k t(1)] by auto
      qed
      then have "delayed k1 t" using u(3) t by (auto simp: delayed_def k'_def k1_def)
      then show ?thesis using nd u(4,5) t(1) by (auto simp: due_def k'_def k1_def)
    qed
    then show ?thesis by (simp add: timely_def k'_def k1_def)
  qed
  moreover have keq: "k' = k\<lparr>klists := s, uxTopReadyPriority := p, xNextTaskUnblockTime := n, xTickCount := xTickCount k + 1,
      pxDelayedTaskList := d, pxOverflowDelayedTaskList := o', xNumOfOverflows := v\<rparr>"
    by (simp add: k'_def k1_def)
  moreover have lists: "\<forall>t \<in> T. state_list k' t = (if wakes_at_tick k t then Some (unat (priority k t)) else state_list k t) \<and>
      event_list k' t = (if wakes_at_tick k t then None else event_list k t)"
    using u(3) due1 by (simp add: k'_def k1_def)
  ultimately have final: "xTaskIncrementTick k = Some (xYieldPending k \<or> (\<exists>t \<in> T. wakes_at_tick k t \<and> priority k c \<le> priority k t) \<or>
      1 < card {t \<in> T. state_list k' t = Some (unat (priority k c))}, k') \<and> sched D T {} k' \<and> timely T k' \<and>
      (\<forall>t \<in> T. state_list k' t = (if wakes_at_tick k t then Some (unat (priority k t)) else state_list k t) \<and>
        event_list k' t = (if wakes_at_tick k t then None else event_list k t)) \<and>
      (\<forall>j. ivalue s j = ivalue (klists k) j)"
    using u(2,4) by (simp only: k'_def [symmetric]) blast
  show ?thesis
    unfolding Let_def using final [unfolded keq, unfolded d_def o'_def v_def w_def] by blast
qed

section \<open>The context switch\<close>

declare top_ready.simps [simp del]

lemma ready_list_tasks:
  assumes k: "sched D T X k" and p: "unat p < 10" and t: "t \<in> T"
  shows "state_list k t = Some (unat p) \<longleftrightarrow> ready k t \<and> priority k t = p"
  using schedD(7) [OF k t, of "unat p"] p by (auto simp: ready_def word_unat_eq_iff)

lemma top_ready_ok:
  assumes k: "sched D T X k"
  shows "unat q < 10 \<Longrightarrow> \<exists>t \<in> T. ready k t \<and> priority k t \<le> q \<Longrightarrow>
    \<exists>t \<in> T. top_ready (klists k) q = Some (priority k t, unat (priority k t)) \<and> ready k t \<and> priority k t \<le> q \<and>
      (\<forall>u \<in> T. ready k u \<longrightarrow> priority k u \<le> q \<longrightarrow> priority k u \<le> priority k t)"
proof (induction "unat q" arbitrary: q)
  case 0
  then have q: "q = 0" by (simp add: unat_eq_0)
  then obtain t where t: "t \<in> T" "ready k t" "priority k t = 0" using 0 by auto
  have "\<not> listLIST_IS_EMPTY (unat (0 :: u32)) (klists k)"
    using state_list_empty [OF k, of 0] t by (auto simp: ready_def)
  then have "top_ready (klists k) 0 = Some (0, 0)" by (simp add: top_ready.simps [of _ 0] ready_list_ok)
  then show ?case using t q by (intro bexI [of _ t]) simp_all
next
  case (Suc n)
  have q: "unat q < 15" "unat q \<noteq> 12" using Suc.prems(1) by simp_all
  have empty: "listLIST_IS_EMPTY (unat q) (klists k) \<longleftrightarrow> (\<forall>t \<in> T. \<not> (ready k t \<and> priority k t = q))"
    using state_list_empty [OF k q] ready_list_tasks [OF k Suc.prems(1)] by blast
  show ?case
  proof (cases "\<exists>t \<in> T. ready k t \<and> priority k t = q")
    case True
    then show ?thesis using empty ready_list_ok [OF Suc.prems(1)] by (auto simp: top_ready.simps [of _ q])
  next
    case False
    have q0: "q \<noteq> 0" using Suc.hyps(2) by auto
    then have m: "unat (q - 1) = n" using Suc.hyps(2) by (simp add: unat_minus_one)
    have le: "priority k t \<le> q - 1" if "t \<in> T" "ready k t" "priority k t \<le> q" for t
    proof -
      have "priority k t < q" using that False by (auto simp: order_less_le)
      then show ?thesis using m Suc.hyps(2) by (simp add: word_le_nat_alt word_less_nat_alt)
    qed
    have "\<exists>t \<in> T. top_ready (klists k) (q - 1) = Some (priority k t, unat (priority k t)) \<and> ready k t \<and> priority k t \<le> q - 1 \<and>
        (\<forall>u \<in> T. ready k u \<longrightarrow> priority k u \<le> q - 1 \<longrightarrow> priority k u \<le> priority k t)"
      by (rule Suc.hyps(1)) (use m Suc.prems Suc.hyps(2) le in auto)
    then obtain t where t: "t \<in> T" "top_ready (klists k) (q - 1) = Some (priority k t, unat (priority k t))" "ready k t"
        "priority k t \<le> q - 1" "\<forall>u \<in> T. ready k u \<longrightarrow> priority k u \<le> q - 1 \<longrightarrow> priority k u \<le> priority k t"
      by blast
    have "top_ready (klists k) q = top_ready (klists k) (q - 1)"
      using False empty q0 ready_list_ok [OF Suc.prems(1)] by (simp add: top_ready.simps [of _ q])
    moreover have "priority k t \<le> q" using t(4) m Suc.hyps(2) by (simp add: word_le_nat_alt)
    ultimately show ?thesis using t le by (intro bexI [of _ t]) auto
  qed
qed

lemma switch_ok:
  assumes k: "sched D T X k" and run: "uxSchedulerSuspended k = 0" and r: "\<exists>t \<in> T. ready k t"
  shows "\<exists>s t. vTaskSwitchContext k = Some (k\<lparr>xYieldPending := False, klists := s, pxCurrentTCB := Some t,
      uxTopReadyPriority := priority k t\<rparr>) \<and>
    sched D T X (k\<lparr>xYieldPending := False, klists := s, pxCurrentTCB := Some t, uxTopReadyPriority := priority k t\<rparr>) \<and>
    t \<in> T \<and> ready k t \<and> (\<forall>u \<in> T. ready k u \<longrightarrow> priority k u \<le> priority k t) \<and> list_items s = list_items (klists k)"
proof -
  have top: "unat (uxTopReadyPriority k) < 10" "\<forall>t \<in> T. ready k t \<longrightarrow> priority k t \<le> uxTopReadyPriority k"
    using k by (simp_all add: sched_def)
  obtain t where t: "t \<in> T" "top_ready (klists k) (uxTopReadyPriority k) = Some (priority k t, unat (priority k t))" "ready k t"
      "\<forall>u \<in> T. ready k u \<longrightarrow> priority k u \<le> priority k t"
    using top_ready_ok [OF k top(1)] r top(2) by blast
  have p10: "unat (priority k t) < 10" using schedD(5) [OF k t(1)] .
  then have l: "unat (priority k t) < 15" "unat (priority k t) \<noteq> 12" by simp_all
  have st: "state_list k t = Some (unat (priority k t))" using t(3) by (simp add: ready_def)
  have mem: "state_item t \<in> kernel_items T" using t(1) by simp
  obtain i s where i: "i \<in> kernel_items T" "container_of (klists k) i = Some (unat (priority k t))"
      "lists_ok D {10, 11} (kernel_items T) s" "list_items s = list_items (klists k)"
      "listGET_OWNER_OF_NEXT_ENTRY (unat (priority k t)) (klists k) = (Some (iowner (klists k) i), s)"
    by (rule ok_next_entry [OF schedD(1) [OF k] schedD(2) [OF k l(1)] mem st])
  obtain u where u: "u \<in> T" "i = state_item u" by (rule state_list_items [OF k i(1,2) l])
  have ru: "ready k u" "priority k u = priority k t"
    using ready_list_tasks [OF k p10 u(1)] i(2) u(2) by simp_all
  let ?k = "k\<lparr>xYieldPending := False, klists := s, pxCurrentTCB := Some u, uxTopReadyPriority := priority k u\<rparr>"
  have "vTaskSwitchContext k = Some ?k"
    using run t(2) i(5) u schedD(3) [OF k u(1)] ru(2)
    by (simp add: vTaskSwitchContext_def taskSELECT_HIGHEST_PRIORITY_TASK_def)
  moreover have "sched D T X ?k"
  proof -
    have v: "ivalue s j = ivalue (klists k) j" for j using i(4) by (simp add: value_of_def)
    show ?thesis
      using k i(3,4) u(1) t(4) ru p10 unfolding sched_def ready_def by (auto simp: i(4) ready_def)
  qed
  ultimately show ?thesis using u(1) ru t(4) i(4) by (intro exI [of _ s] exI [of _ u]) simp
qed

end
