(* ===== verification/KernelRun.thy ===== *)
theory KernelRun
  imports KernelSched
begin

text \<open>
  The operations of the scheduler on the invariant of \<open>KernelSched\<close>: each of them, in every state that the
  invariant allows, ends without a failed assertion, and its effect is given by where each task is afterwards.
\<close>

section \<open>Single moves of a task\<close>

text \<open>\<open>k'\<close> differs from \<open>k\<close> in its lists only; \<open>a\<close>, \<open>e\<close> and \<open>w\<close> say where the tasks are and when they are due.\<close>

definition view :: "kernel \<Rightarrow> kernel \<Rightarrow> (nat \<Rightarrow> nat option) \<Rightarrow> (nat \<Rightarrow> nat option) \<Rightarrow> (nat \<Rightarrow> u32) \<Rightarrow> bool" where
  "view k k' a e w \<longleftrightarrow> (\<exists>s p. k' = k\<lparr>klists := s, uxTopReadyPriority := p\<rparr>) \<and>
     (\<forall>t. state_list k' t = a t) \<and> (\<forall>t. event_list k' t = e t) \<and> (\<forall>t. wake k' t = w t)"

lemma viewD:
  assumes "view k k' a e w"
  shows "state_list k' t = a t" "event_list k' t = e t" "wake k' t = w t" "tcb k' = tcb k"
    "pxCurrentTCB k' = pxCurrentTCB k" "pxDelayedTaskList k' = pxDelayedTaskList k"
    "pxOverflowDelayedTaskList k' = pxOverflowDelayedTaskList k" "uxCurrentNumberOfTasks k' = uxCurrentNumberOfTasks k"
    "xTickCount k' = xTickCount k" "xSchedulerRunning k' = xSchedulerRunning k" "xPendedTicks k' = xPendedTicks k"
    "xYieldPending k' = xYieldPending k" "xNumOfOverflows k' = xNumOfOverflows k" "uxTaskNumber k' = uxTaskNumber k"
    "xNextTaskUnblockTime k' = xNextTaskUnblockTime k" "uxSchedulerSuspended k' = uxSchedulerSuspended k"
    "uxDeletedTasksWaitingCleanUp k' = uxDeletedTasksWaitingCleanUp k" "current_priority k' = current_priority k"
  using assms by (auto simp: view_def current_priority_def)

lemma view_trans:
  assumes "view k k1 a e w" and "view k1 k2 b f v"
  shows "view k k2 b f v"
proof -
  obtain s p s' p' where "k1 = k\<lparr>klists := s, uxTopReadyPriority := p\<rparr>" "k2 = k1\<lparr>klists := s', uxTopReadyPriority := p'\<rparr>"
    using assms unfolding view_def by blast
  then have "k2 = k\<lparr>klists := s', uxTopReadyPriority := p'\<rparr>" by simp
  then show ?thesis using assms(2) unfolding view_def by blast
qed

lemma remove_state_view:
  assumes k: "sched D T X k" and t: "t \<in> T" "t \<notin> X"
  shows "\<exists>k'. remove_item (state_item t) k = Some k' \<and> sched D T (insert t X) k' \<and>
    view k k' ((state_list k)(t := None)) (event_list k) (wake k)"
proof -
  obtain s where s: "remove_item (state_item t) k = Some (k\<lparr>klists := s\<rparr>)" "sched D T (insert t X) (k\<lparr>klists := s\<rparr>)"
      "\<forall>j. container_of s j = (if j = state_item t then None else container_of (klists k) j)"
      "\<forall>j. ivalue s j = ivalue (klists k) j"
    using remove_state [OF k t] by blast
  have "view k (k\<lparr>klists := s\<rparr>) ((state_list k)(t := None)) (event_list k) (wake k)"
    unfolding view_def by (intro conjI exI [of _ s] exI [of _ "uxTopReadyPriority k"]) (simp_all add: s(3,4))
  then show ?thesis using s(1,2) by blast
qed

lemma remove_event_view:
  assumes k: "sched D T X k" and t: "t \<in> T"
  shows "\<exists>k'. remove_from_event t k = Some k' \<and> sched D T X k' \<and> view k k' (state_list k) ((event_list k)(t := None)) (wake k)"
proof -
  obtain s where s: "remove_from_event t k = Some (k\<lparr>klists := s\<rparr>)" "sched D T X (k\<lparr>klists := s\<rparr>)"
      "\<forall>j. container_of s j = (if j = event_item t then None else container_of (klists k) j)"
      "\<forall>j. ivalue s j = ivalue (klists k) j"
    using remove_event [OF k t] by blast
  have "view k (k\<lparr>klists := s\<rparr>) (state_list k) ((event_list k)(t := None)) (wake k)"
    unfolding view_def by (intro conjI exI [of _ s] exI [of _ "uxTopReadyPriority k"]) (simp_all add: s(3,4))
  then show ?thesis using s(1,2) by blast
qed

lemma remove_event_item_view:
  assumes k: "sched D T X k" and t: "t \<in> T" "event_list k t \<noteq> None"
  shows "\<exists>k'. remove_item (event_item t) k = Some k' \<and> sched D T X k' \<and> view k k' (state_list k) ((event_list k)(t := None)) (wake k)"
  using remove_event_view [OF k t(1)] t(2) by (simp add: remove_from_event_def listLIST_ITEM_CONTAINER_def)

lemma add_ready_view:
  assumes k: "sched D T X k" and t: "t \<in> T" "t \<in> X"
  shows "\<exists>k'. prvAddTaskToReadyList t k = Some k' \<and> sched D T (X - {t}) k' \<and>
    view k k' ((state_list k)(t := Some (unat (priority k t)))) (event_list k) (wake k)"
proof -
  obtain s p where s: "prvAddTaskToReadyList t k = Some (k\<lparr>klists := s, uxTopReadyPriority := p\<rparr>)"
      "sched D T (X - {t}) (k\<lparr>klists := s, uxTopReadyPriority := p\<rparr>)"
      "\<forall>j. container_of s j = (if j = state_item t then Some (unat (priority k t)) else container_of (klists k) j)"
      "\<forall>j. ivalue s j = ivalue (klists k) j"
    using add_ready [OF k t] by blast
  have "view k (k\<lparr>klists := s, uxTopReadyPriority := p\<rparr>) ((state_list k)(t := Some (unat (priority k t)))) (event_list k) (wake k)"
    unfolding view_def by (intro conjI exI [of _ s] exI [of _ p]) (simp_all add: s(3,4))
  then show ?thesis using s(1,2) by blast
qed

lemma make_ready_view:
  assumes k: "sched D T {} k" and t: "t \<in> T"
  shows "\<exists>k'. do { k \<leftarrow> remove_item (state_item t) k; prvAddTaskToReadyList t k } = Some k' \<and> sched D T {} k' \<and>
    view k k' ((state_list k)(t := Some (unat (priority k t)))) (event_list k) (wake k)"
proof -
  obtain k1 where k1: "remove_item (state_item t) k = Some k1" "sched D T {t} k1"
      "view k k1 ((state_list k)(t := None)) (event_list k) (wake k)"
    using remove_state_view [OF k t] by auto
  obtain k2 where k2: "prvAddTaskToReadyList t k1 = Some k2" "sched D T {} k2"
      "view k1 k2 ((state_list k1)(t := Some (unat (priority k1 t)))) (event_list k1) (wake k1)"
    using add_ready_view [OF k1(2) t] by auto
  have "view k k2 ((state_list k)(t := Some (unat (priority k t)))) (event_list k) (wake k)"
    using view_trans [OF k1(3) k2(3)] unfolding view_def by (simp add: viewD [OF k1(3)])
  then show ?thesis using k1(1) k2(1,2) by auto
qed

text \<open>A state item that is in no list goes to the end of a list, or to its place in a delayed list.\<close>

lemma add_end_view:
  assumes k: "sched D T X k" and t: "t \<in> T" "t \<in> X" and l: "l = 13 \<or> l = 14"
  shows "sched D T (X - {t}) (on_lists (vListInsertEnd l (state_item t)) k)"
    and "view k (on_lists (vListInsertEnd l (state_item t)) k) ((state_list k)(t := Some l)) (event_list k) (wake k)"
proof -
  let ?s = "vListInsertEnd l (state_item t) (klists k)"
  have none: "state_list k t = None" using schedD(6) [OF k t(1)] t(2) by simp
  have "lists_ok D {10, 11} (kernel_items T) ?s"
    by (rule ok_insert_end [OF schedD(1) [OF k] _ none]) (use t l schedD(2) [OF k, of l] in auto)
  then show "sched D T (X - {t}) (on_lists (vListInsertEnd l (state_item t)) k)"
    using k t l unfolding sched_def ready_def on_lists_def by (auto simp: list_simps)
  show "view k (on_lists (vListInsertEnd l (state_item t)) k) ((state_list k)(t := Some l)) (event_list k) (wake k)"
    unfolding view_def
    by (intro conjI exI [of _ ?s] exI [of _ "uxTopReadyPriority k"]) (simp_all add: list_simps on_lists_def)
qed

lemma set_wake_view:
  assumes k: "sched D T X k" and t: "t \<in> T" "t \<in> X"
  shows "sched D T X (on_lists (listSET_LIST_ITEM_VALUE (state_item t) v) k)"
    and "view k (on_lists (listSET_LIST_ITEM_VALUE (state_item t) v) k) (state_list k) (event_list k) ((wake k)(t := v))"
proof -
  let ?s = "listSET_LIST_ITEM_VALUE (state_item t) v (klists k)"
  have "lists_ok D {10, 11} (kernel_items T) ?s"
    by (rule ok_set_value [OF schedD(1) [OF k]]) (use schedD(6) [OF k t(1)] t in simp)
  then show "sched D T X (on_lists (listSET_LIST_ITEM_VALUE (state_item t) v) k)"
    using k t unfolding sched_def ready_def on_lists_def by (auto simp: list_simps set_value_updates)
  show "view k (on_lists (listSET_LIST_ITEM_VALUE (state_item t) v) k) (state_list k) (event_list k) ((wake k)(t := v))"
    unfolding view_def
    by (intro conjI exI [of _ ?s] exI [of _ "uxTopReadyPriority k"]) (auto simp: list_simps set_value_updates on_lists_def)
qed

lemma add_delayed_view:
  assumes k: "sched D T X k" and t: "t \<in> T" "t \<in> X" and l: "l = 10 \<or> l = 11"
  shows "\<exists>k'. insert_item l (state_item t) k = Some k' \<and> sched D T (X - {t}) k' \<and>
    view k k' ((state_list k)(t := Some l)) (event_list k) (wake k)"
proof -
  have none: "state_list k t = None" using schedD(6) [OF k t(1)] t(2) by simp
  have lD: "l \<in> D" using schedD(2) [OF k, of l] l by auto
  obtain s where s: "vListInsert l (state_item t) (klists k) = Some s" "lists_ok D {10, 11} (kernel_items T) s"
    using ok_insert [OF schedD(1) [OF k] _ none lD] t(1) by auto
  note keep = vListInsert_keeps [OF s(1)]
  have "sched D T (X - {t}) (k\<lparr>klists := s\<rparr>)"
    using k s(2) t l unfolding sched_def ready_def by (auto simp: keep)
  moreover have "view k (k\<lparr>klists := s\<rparr>) ((state_list k)(t := Some l)) (event_list k) (wake k)"
    unfolding view_def by (intro conjI exI [of _ s] exI [of _ "uxTopReadyPriority k"]) (simp_all add: keep)
  ultimately show ?thesis using s(1) by (simp add: insert_item_def)
qed

text \<open>The event item of a task: into the pending list or the list of an event, and its value.\<close>

lemma add_event_view:
  assumes k: "sched D T X k" and t: "t \<in> T" "event_list k t = None" and l: "l = 12 \<or> l \<in> D \<and> 15 \<le> l"
  shows "sched D T X (on_lists (vListInsertEnd l (event_item t)) k)"
    and "view k (on_lists (vListInsertEnd l (event_item t)) k) (state_list k) ((event_list k)(t := Some l)) (wake k)"
    and "\<exists>k'. insert_item l (event_item t) k = Some k' \<and> sched D T X k' \<and>
      view k k' (state_list k) ((event_list k)(t := Some l)) (wake k)"
proof -
  let ?s = "vListInsertEnd l (event_item t) (klists k)"
  have lD: "l \<in> D" using schedD(2) [OF k, of l] l by auto
  have "lists_ok D {10, 11} (kernel_items T) ?s"
    by (rule ok_insert_end [OF schedD(1) [OF k] _ t(2) lD]) (use t(1) l in auto)
  then show "sched D T X (on_lists (vListInsertEnd l (event_item t)) k)"
    using k t l unfolding sched_def ready_def on_lists_def by (auto simp: list_simps)
  show "view k (on_lists (vListInsertEnd l (event_item t)) k) (state_list k) ((event_list k)(t := Some l)) (wake k)"
    unfolding view_def
    by (intro conjI exI [of _ ?s] exI [of _ "uxTopReadyPriority k"]) (simp_all add: list_simps on_lists_def)
  obtain s where s: "vListInsert l (event_item t) (klists k) = Some s" "lists_ok D {10, 11} (kernel_items T) s"
    using ok_insert [OF schedD(1) [OF k] _ t(2) lD] t(1) by auto
  note keep = vListInsert_keeps [OF s(1)]
  have "sched D T X (k\<lparr>klists := s\<rparr>)"
    using k s(2) t l unfolding sched_def ready_def by (auto simp: keep)
  moreover have "view k (k\<lparr>klists := s\<rparr>) (state_list k) ((event_list k)(t := Some l)) (wake k)"
    unfolding view_def by (intro conjI exI [of _ s] exI [of _ "uxTopReadyPriority k"]) (simp_all add: keep)
  ultimately show "\<exists>k'. insert_item l (event_item t) k = Some k' \<and> sched D T X k' \<and>
      view k k' (state_list k) ((event_list k)(t := Some l)) (wake k)"
    using s(1) by (simp add: insert_item_def)
qed

lemma set_event_value_view:
  assumes k: "sched D T X k" and t: "t \<in> T"
  shows "sched D T X (on_lists (listSET_LIST_ITEM_VALUE (event_item t) v) k)"
    and "view k (on_lists (listSET_LIST_ITEM_VALUE (event_item t) v) k) (state_list k) (event_list k) (wake k)"
proof -
  let ?s = "listSET_LIST_ITEM_VALUE (event_item t) v (klists k)"
  have "lists_ok D {10, 11} (kernel_items T) ?s"
    by (rule ok_set_value [OF schedD(1) [OF k]]) (use schedD(8) [OF k t] in auto)
  then show "sched D T X (on_lists (listSET_LIST_ITEM_VALUE (event_item t) v) k)"
    using k t unfolding sched_def ready_def on_lists_def by (auto simp: list_simps set_value_updates)
  show "view k (on_lists (listSET_LIST_ITEM_VALUE (event_item t) v) k) (state_list k) (event_list k) (wake k)"
    unfolding view_def
    by (intro conjI exI [of _ ?s] exI [of _ "uxTopReadyPriority k"]) (auto simp: list_simps set_value_updates on_lists_def)
qed

section \<open>The state between two operations\<close>

text \<open>
  \<open>i\<close> is the idle task, which is always ready. While the scheduler is not suspended there is no pending tick
  and no task waits in the list of pending ready tasks.
\<close>

definition placed :: "nat set \<Rightarrow> nat set \<Rightarrow> nat \<Rightarrow> kernel \<Rightarrow> bool" where
  "placed D T i k \<longleftrightarrow> sched D T {} k \<and> timely T k \<and> i \<in> T \<and> ready k i \<and>
     (uxSchedulerSuspended k = 0 \<longrightarrow> xPendedTicks k = 0 \<and> (\<forall>t \<in> T. event_list k t \<noteq> Some 12)) \<and>
     xSchedulerRunning k \<and> uxCurrentNumberOfTasks k = word_of_nat (card T)"

text \<open>Unless a yield is pending, the running task is ready and no ready task has a higher priority.\<close>

definition best :: "nat set \<Rightarrow> kernel \<Rightarrow> bool" where
  "best T k \<longleftrightarrow> xYieldPending k \<or>
     (\<exists>c \<in> T. pxCurrentTCB k = Some c \<and> ready k c \<and> (\<forall>u \<in> T. ready k u \<longrightarrow> priority k u \<le> priority k c))"

text \<open>A task that is ready waits for no event.\<close>

definition free :: "nat set \<Rightarrow> kernel \<Rightarrow> bool" where
  "free T k \<longleftrightarrow> (\<forall>t \<in> T. ready k t \<longrightarrow> event_list k t = None)"

definition kernel_ok :: "nat set \<Rightarrow> nat set \<Rightarrow> nat \<Rightarrow> kernel \<Rightarrow> bool" where
  "kernel_ok D T i k \<longleftrightarrow> placed D T i k \<and> best T k \<and> free T k"

lemma kernel_okD:
  assumes "kernel_ok D T i k"
  shows "placed D T i k" "best T k" "free T k"
  using assms by (simp_all add: kernel_ok_def)

text \<open>What an operation that concerns only the tasks of \<open>A\<close> keeps.\<close>

definition untouched :: "nat set \<Rightarrow> nat set \<Rightarrow> kernel \<Rightarrow> kernel \<Rightarrow> bool" where
  "untouched T A k k' \<longleftrightarrow>
     (\<forall>u \<in> T - A. state_list k' u = state_list k u \<and> wake k' u = wake k u \<and> priority k' u = priority k u) \<and>
     pxDelayedTaskList k' = pxDelayedTaskList k \<and> pxOverflowDelayedTaskList k' = pxOverflowDelayedTaskList k \<and>
     xTickCount k' = xTickCount k \<and> xPendedTicks k' = xPendedTicks k \<and> uxSchedulerSuspended k' = uxSchedulerSuspended k"

lemma untouched_refl [simp]: "untouched T A k k" by (simp add: untouched_def)

lemma untouched_trans: "untouched T A k k1 \<Longrightarrow> untouched T A k1 k2 \<Longrightarrow> untouched T A k k2"
  by (auto simp: untouched_def)

lemma untouched_mono: "untouched T A k k' \<Longrightarrow> A \<subseteq> B \<Longrightarrow> untouched T B k k'"
  by (auto simp: untouched_def)

lemma untouched_view:
  assumes "view k k' a e w" and "\<And>u. u \<notin> A \<Longrightarrow> a u = state_list k u \<and> w u = wake k u"
  shows "untouched T A k k'"
  using assms by (simp add: untouched_def viewD [OF assms(1)])

lemma placedD:
  assumes "placed D T i k"
  shows "sched D T {} k" "timely T k" "i \<in> T" "ready k i" "xSchedulerRunning k"
    "uxCurrentNumberOfTasks k = word_of_nat (card T)" "uxSchedulerSuspended k = 0 \<Longrightarrow> xPendedTicks k = 0"
    "uxSchedulerSuspended k = 0 \<Longrightarrow> t \<in> T \<Longrightarrow> event_list k t \<noteq> Some 12"
  using assms by (auto simp: placed_def)

lemma placed_tasks:
  assumes "placed D T i k"
  shows "finite T" and "uxCurrentNumberOfTasks k > 0"
proof -
  have ok: "finite (kernel_items T)" "card (kernel_items T) < 2 ^ 32 - 1"
    using schedD(1) [OF placedD(1) [OF assms]] by (simp_all add: lists_ok_def)
  have inj: "inj_on state_item T" by (simp add: inj_on_def)
  show fin: "finite T" using finite_imageD [OF _ inj] ok(1) by (simp add: kernel_items_def)
  have "card T \<le> card (kernel_items T)"
    using card_mono [OF ok(1), of "state_item ` T"] card_image [OF inj] by (simp add: kernel_items_def)
  moreover have "card T > 0" using fin placedD(3) [OF assms] by (auto simp: card_gt_0_iff)
  ultimately have "unat (uxCurrentNumberOfTasks k) > 0"
    using ok(2) placedD(6) [OF assms] by (simp add: unsigned_of_nat take_bit_nat_eq_self)
  then show "uxCurrentNumberOfTasks k > 0" by (simp add: unat_gt_0 word_neq_0_conv)
qed

lemma placed_view:
  assumes k: "placed D T i k" and v: "view k k' a e w" and s: "sched D T {} k'" and tm: "timely T k'"
    and i: "a i = state_list k i" and e: "\<And>t. t \<in> T \<Longrightarrow> uxSchedulerSuspended k = 0 \<Longrightarrow> e t = Some 12 \<Longrightarrow> event_list k t = Some 12"
  shows "placed D T i k'"
  using k s tm i e unfolding placed_def ready_def by (auto simp: viewD [OF v])

lemma timely_view:
  assumes "timely T k" and v: "view k k' a e w"
    and "\<And>t. t \<in> T \<Longrightarrow> a t = Some (pxDelayedTaskList k) \<Longrightarrow>
      (state_list k t = Some (pxDelayedTaskList k) \<and> w t = wake k t) \<or> xTickCount k < w t \<and> xNextTaskUnblockTime k \<le> w t"
  shows "timely T k'"
  using assms(1,3) unfolding timely_def delayed_def by (fastforce simp: viewD [OF v])

text \<open>Fields outside the lists.\<close>

lemma sched_fields [simp]:
  "sched D T X (k\<lparr>xYieldPending := b\<rparr>) = sched D T X k"
  "sched D T X (k\<lparr>uxSchedulerSuspended := n\<rparr>) = sched D T X k"
  "sched D T X (k\<lparr>xPendedTicks := n\<rparr>) = sched D T X k"
  "sched D T X (k\<lparr>xNextTaskUnblockTime := n\<rparr>) = sched D T X k"
  "sched D T X (k\<lparr>uxCurrentNumberOfTasks := n\<rparr>) = sched D T X k"
  "sched D T X (k\<lparr>uxTaskNumber := n\<rparr>) = sched D T X k"
  "sched D T X (k\<lparr>uxDeletedTasksWaitingCleanUp := n\<rparr>) = sched D T X k"
  by (simp_all add: sched_def ready_def)

lemma timely_fields [simp]:
  "timely T (k\<lparr>xYieldPending := b\<rparr>) = timely T k"
  "timely T (k\<lparr>uxSchedulerSuspended := n\<rparr>) = timely T k"
  "timely T (k\<lparr>xPendedTicks := n\<rparr>) = timely T k"
  "timely T (k\<lparr>uxCurrentNumberOfTasks := n\<rparr>) = timely T k"
  "timely T (k\<lparr>uxTaskNumber := n\<rparr>) = timely T k"
  "timely T (k\<lparr>uxDeletedTasksWaitingCleanUp := n\<rparr>) = timely T k"
  by (simp_all add: timely_def delayed_def)

lemma ready_fields [simp]:
  "ready (k\<lparr>xYieldPending := b\<rparr>) t = ready k t"
  "ready (k\<lparr>uxSchedulerSuspended := n\<rparr>) t = ready k t"
  "ready (k\<lparr>xPendedTicks := n\<rparr>) t = ready k t"
  "ready (k\<lparr>xNextTaskUnblockTime := n\<rparr>) t = ready k t"
  "ready (k\<lparr>uxCurrentNumberOfTasks := n\<rparr>) t = ready k t"
  "ready (k\<lparr>uxTaskNumber := n\<rparr>) t = ready k t"
  "ready (k\<lparr>uxDeletedTasksWaitingCleanUp := n\<rparr>) t = ready k t"
  by (simp_all add: ready_def)

lemma best_yield [simp]: "best T (k\<lparr>xYieldPending := True\<rparr>)" by (simp add: best_def)

lemma placed_yield [simp]: "placed D T i (k\<lparr>xYieldPending := b\<rparr>) = placed D T i k"
  by (simp add: placed_def)

lemma untouched_yield [simp]:
  "untouched T A k (k'\<lparr>xYieldPending := b\<rparr>) = untouched T A k k'"
  "untouched T A k (k'\<lparr>xNextTaskUnblockTime := n\<rparr>) = untouched T A k k'"
  by (simp_all add: untouched_def)

lemma free_fields [simp]:
  "free T (k\<lparr>xYieldPending := b\<rparr>) = free T k"
  "free T (k\<lparr>uxSchedulerSuspended := n\<rparr>) = free T k"
  "free T (k\<lparr>xPendedTicks := n\<rparr>) = free T k"
  "free T (k\<lparr>xNextTaskUnblockTime := n\<rparr>) = free T k"
  by (simp_all add: free_def)

lemma kernel_ok_yield: "placed D T i k \<Longrightarrow> free T k \<Longrightarrow> kernel_ok D T i (k\<lparr>xYieldPending := True\<rparr>)"
  by (simp add: kernel_ok_def)

text \<open>A yield leads from any such state to one in which the best ready task runs.\<close>

definition switched :: "kernel \<Rightarrow> kernel \<Rightarrow> bool" where
  "switched k k' \<longleftrightarrow> (\<exists>s c p b. k' = k\<lparr>xYieldPending := b, klists := s, pxCurrentTCB := c, uxTopReadyPriority := p\<rparr> \<and>
     list_items s = list_items (klists k))"

lemma switchedD:
  assumes "switched k k'"
  shows "state_list k' t = state_list k t" "event_list k' t = event_list k t" "wake k' t = wake k t" "tcb k' = tcb k"
    "pxDelayedTaskList k' = pxDelayedTaskList k"
    "pxOverflowDelayedTaskList k' = pxOverflowDelayedTaskList k" "uxCurrentNumberOfTasks k' = uxCurrentNumberOfTasks k"
    "xTickCount k' = xTickCount k" "xSchedulerRunning k' = xSchedulerRunning k" "xPendedTicks k' = xPendedTicks k"
    "xNumOfOverflows k' = xNumOfOverflows k" "uxTaskNumber k' = uxTaskNumber k"
    "xNextTaskUnblockTime k' = xNextTaskUnblockTime k" "uxSchedulerSuspended k' = uxSchedulerSuspended k"
    "uxDeletedTasksWaitingCleanUp k' = uxDeletedTasksWaitingCleanUp k" "list_items (klists k') = list_items (klists k)"
  using assms by (auto simp: switched_def value_of_def)

lemma switched_untouched: "switched k k' \<Longrightarrow> untouched T A k k'"
  by (simp add: untouched_def switchedD)

lemma free_switched: "switched k k' \<Longrightarrow> free T k' = free T k"
  by (simp add: free_def ready_def switchedD)

lemma switch_placed:
  assumes k: "placed D T i k" and fr: "free T k"
  shows "\<exists>k'. vTaskSwitchContext k = Some k' \<and> kernel_ok D T i k' \<and> switched k k'"
proof (cases "uxSchedulerSuspended k = 0")
  case False
  have "switched k (k\<lparr>xYieldPending := True\<rparr>)" unfolding switched_def
    by (intro exI [of _ "klists k"] exI [of _ "pxCurrentTCB k"] exI [of _ "uxTopReadyPriority k"] exI [of _ True]) simp
  then show ?thesis using False kernel_ok_yield [OF k fr] by (simp add: vTaskSwitchContext_def)
next
  case True
  obtain s t where s: "vTaskSwitchContext k = Some (k\<lparr>xYieldPending := False, klists := s, pxCurrentTCB := Some t,
        uxTopReadyPriority := priority k t\<rparr>)"
      "sched D T {} (k\<lparr>xYieldPending := False, klists := s, pxCurrentTCB := Some t, uxTopReadyPriority := priority k t\<rparr>)"
      "t \<in> T" "ready k t" "\<forall>u \<in> T. ready k u \<longrightarrow> priority k u \<le> priority k t" "list_items s = list_items (klists k)"
    using switch_ok [OF placedD(1) [OF k] True] placedD(3,4) [OF k] by blast
  let ?k = "k\<lparr>xYieldPending := False, klists := s, pxCurrentTCB := Some t, uxTopReadyPriority := priority k t\<rparr>"
  have sw: "switched k ?k" unfolding switched_def using s(6) by blast
  have r: "ready ?k u = ready k u" for u using switchedD(1,4) [OF sw] by (simp add: ready_def)
  have "timely T ?k"
    using placedD(2) [OF k] switchedD [OF sw] by (simp add: timely_def delayed_def del: kernel.update_convs)
  then have "placed D T i ?k"
    using k s(2) switchedD [OF sw] r by (simp add: placed_def)
  moreover have "best T ?k" using s(3,4,5) r by (simp add: best_def)
  moreover have "free T ?k" using free_switched [OF sw] fr by simp
  ultimately show ?thesis using s(1) sw by (auto simp: kernel_ok_def)
qed

section \<open>Delaying the running task\<close>

lemma reset_unblock:
  assumes k: "sched D T X k"
  shows "\<exists>n. prvResetNextTaskUnblockTime k = k\<lparr>xNextTaskUnblockTime := n\<rparr> \<and>
    (\<forall>t \<in> T. delayed k t \<longrightarrow> n \<le> wake k t)"
proof -
  let ?l = "pxDelayedTaskList k"
  have l: "?l = 10 \<or> ?l = 11" "?l < 15" "?l \<noteq> 12" using schedD(9) [OF k] by auto
  show ?thesis
  proof (cases "\<exists>t \<in> T. delayed k t")
    case True
    then obtain u where u: "u \<in> T" "state_list k u = Some ?l" by (auto simp: delayed_def)
    then have "\<not> listLIST_IS_EMPTY ?l (klists k)" using state_list_empty [OF k l(2,3)] by auto
    moreover obtain t where "listGET_ITEM_VALUE_OF_HEAD_ENTRY ?l (klists k) = wake k t"
        "\<forall>u \<in> T. state_list k u = Some ?l \<longrightarrow> wake k t \<le> wake k u"
      by (rule delayed_head [OF k l(1) u])
    ultimately show ?thesis
      by (intro exI [of _ "wake k t"]) (simp add: prvResetNextTaskUnblockTime_def delayed_def)
  next
    case False
    then show ?thesis
      by (intro exI [of _ "xNextTaskUnblockTime (prvResetNextTaskUnblockTime k)"]) (simp add: prvResetNextTaskUnblockTime_def)
  qed
qed

lemma timely_reset:
  assumes k: "sched D T X k" and tm: "\<forall>t \<in> T. delayed k t \<longrightarrow> xTickCount k < wake k t"
  shows "timely T (prvResetNextTaskUnblockTime k)"
  using reset_unblock [OF k] tm by (auto simp: timely_def delayed_def)

lemma placed_next:
  assumes "placed D T i k" and "timely T (k\<lparr>xNextTaskUnblockTime := n\<rparr>)"
  shows "placed D T i (k\<lparr>xNextTaskUnblockTime := n\<rparr>)"
  using assms by (simp add: placed_def)

lemma best_next [simp]: "best T (k\<lparr>xNextTaskUnblockTime := n\<rparr>) = best T k"
  by (simp add: best_def)

lemma placed_reset:
  assumes k: "placed D T i k"
  shows "placed D T i (prvResetNextTaskUnblockTime k)" and "best T (prvResetNextTaskUnblockTime k) = best T k"
    and "untouched T A k' (prvResetNextTaskUnblockTime k) = untouched T A k' k"
    and "switched (prvResetNextTaskUnblockTime k) k2 \<Longrightarrow> untouched T A k k2"
proof -
  obtain n where n: "prvResetNextTaskUnblockTime k = k\<lparr>xNextTaskUnblockTime := n\<rparr>" "\<forall>t \<in> T. delayed k t \<longrightarrow> n \<le> wake k t"
    using reset_unblock [OF placedD(1) [OF k]] by blast
  have "timely T (k\<lparr>xNextTaskUnblockTime := n\<rparr>)" using placedD(2) [OF k] n(2) by (auto simp: timely_def delayed_def)
  then show "placed D T i (prvResetNextTaskUnblockTime k)" using n(1) placed_next [OF k] by simp
  show "best T (prvResetNextTaskUnblockTime k) = best T k"
    "untouched T A k' (prvResetNextTaskUnblockTime k) = untouched T A k' k" by (simp_all add: n(1))
  show "untouched T A k k2" if "switched (prvResetNextTaskUnblockTime k) k2"
    using switched_untouched [OF that, of T A] by (auto simp: n(1) untouched_def)
qed

text \<open>Where \<open>prvAddCurrentTaskToDelayedList\<close> puts the running task.\<close>

definition delay_list :: "u32 \<Rightarrow> bool \<Rightarrow> kernel \<Rightarrow> nat" where
  "delay_list n block k =
     (if n = portMAX_DELAY \<and> block then xSuspendedTaskList
      else if xTickCount k + n < xTickCount k then pxOverflowDelayedTaskList k else pxDelayedTaskList k)"

lemma add_delayed_ok:
  assumes k: "placed D T i k" and c: "pxCurrentTCB k = Some c" "c \<noteq> i" and n: "n > 0"
  shows "\<exists>k' u. prvAddCurrentTaskToDelayedList n block k = Some (k'\<lparr>xNextTaskUnblockTime := u\<rparr>) \<and>
    placed D T i (k'\<lparr>xNextTaskUnblockTime := u\<rparr>) \<and>
    view k k' ((state_list k)(c := Some (delay_list n block k))) (event_list k)
      (if n = portMAX_DELAY \<and> block then wake k else (wake k)(c := xTickCount k + n))"
proof -
  have s: "sched D T {} k" and cT: "c \<in> T" using placedD(1) [OF k] c(1) by (auto simp: sched_def)
  note dl = schedD(9,10,11) [OF s]
  obtain k1 where k1: "remove_item (state_item c) k = Some k1" "sched D T {c} k1"
      "view k k1 ((state_list k)(c := None)) (event_list k) (wake k)"
    using remove_state_view [OF s cT] by auto
  note v1 = viewD [OF k1(3)]
  have timely1: "timely T k1" by (rule timely_view [OF placedD(2) [OF k] k1(3)]) (simp split: if_splits)
  show ?thesis
  proof (cases "n = portMAX_DELAY \<and> block")
    case True
    let ?k = "on_lists (vListInsertEnd xSuspendedTaskList (state_item c)) k1"
    have s2: "sched D T {} ?k" and v2: "view k1 ?k ((state_list k1)(c := Some 14)) (event_list k1) (wake k1)"
      using add_end_view [OF k1(2) cT, of 14] by (simp_all add: xSuspendedTaskList_def)
    have v: "view k ?k ((state_list k)(c := Some 14)) (event_list k) (wake k)"
      using view_trans [OF k1(3) v2] by (simp add: view_def v1)
    have "timely T ?k" by (rule timely_view [OF placedD(2) [OF k] v]) (use dl in \<open>auto split: if_splits\<close>)
    then have "placed D T i ?k" by (rule placed_view [OF k v s2]) (use c(2) in auto)
    then have final: "prvAddCurrentTaskToDelayedList n block k = Some (?k\<lparr>xNextTaskUnblockTime := xNextTaskUnblockTime ?k\<rparr>)"
        "placed D T i (?k\<lparr>xNextTaskUnblockTime := xNextTaskUnblockTime ?k\<rparr>)"
      using True k1(1) c(1) by (simp_all add: prvAddCurrentTaskToDelayedList_def)
    moreover have "delay_list n block k = 14" using True by (simp add: delay_list_def xSuspendedTaskList_def)
    ultimately show ?thesis using v True by (intro exI [of _ ?k] exI [of _ "xNextTaskUnblockTime ?k"]) simp
  next
    case False
    let ?w = "xTickCount k + n" and ?l = "delay_list n block k"
    let ?k2 = "on_lists (listSET_LIST_ITEM_VALUE (state_item c) ?w) k1"
    have l: "?l = 10 \<or> ?l = 11" using dl False by (auto simp: delay_list_def)
    have s2: "sched D T {c} ?k2" and v2: "view k1 ?k2 (state_list k1) (event_list k1) ((wake k1)(c := ?w))"
      using set_wake_view [OF k1(2) cT] by simp_all
    note w2 = viewD [OF v2]
    obtain k3 where k3: "insert_item ?l (state_item c) ?k2 = Some k3" "sched D T {} k3"
        "view ?k2 k3 ((state_list ?k2)(c := Some ?l)) (event_list ?k2) (wake ?k2)"
      using add_delayed_view [OF s2 cT _ l] by auto
    have v: "view k k3 ((state_list k)(c := Some ?l)) (event_list k) ((wake k)(c := ?w))"
      using view_trans [OF k1(3) view_trans [OF v2 k3(3)]] by (simp add: view_def v1 w2)
    note w3 = viewD [OF v]
    define u where "u = (if \<not> ?w < xTickCount k \<and> ?w < xNextTaskUnblockTime k then ?w else xNextTaskUnblockTime k)"
    have "prvAddCurrentTaskToDelayedList n block k = Some (k3\<lparr>xNextTaskUnblockTime := u\<rparr>)"
    proof -
      have f: "\<not> (n = portMAX_DELAY \<and> block)" using False by simp
      have e: "k3\<lparr>xNextTaskUnblockTime := xNextTaskUnblockTime k\<rparr> = k3" using w3(15) by simp
      show ?thesis
      proof (cases "?w < xTickCount k")
        case True
        then have "?l = pxOverflowDelayedTaskList k" by (simp only: delay_list_def f if_False if_True)
        then show ?thesis using c(1) k1(1) k3(1) True e v1 w2
          unfolding prvAddCurrentTaskToDelayedList_def if_not_P [OF f] Let_def u_def by simp
      next
        case nt: False
        then have "?l = pxDelayedTaskList k" by (simp only: delay_list_def f if_False)
        then show ?thesis using c(1) k1(1) k3(1) nt e v1 w2 w3
          unfolding prvAddCurrentTaskToDelayedList_def if_not_P [OF f] Let_def u_def by simp
      qed
    qed
    moreover have "timely T (k3\<lparr>xNextTaskUnblockTime := u\<rparr>)"
    proof -
      have "xTickCount k < wake k3 t \<and> u \<le> wake k3 t" if t: "t \<in> T" "state_list k3 t = Some (pxDelayedTaskList k)" for t
      proof (cases "t = c")
        case True
        then have "?l = pxDelayedTaskList k" using t w3 by simp
        then have nw: "\<not> ?w < xTickCount k" using False dl by (auto simp: delay_list_def split: if_splits)
        have "?w \<noteq> xTickCount k" using n by auto
        then have "xTickCount k < ?w" using nw by (metis not_less_iff_gr_or_eq)
        then show ?thesis using True nw w3(3) by (simp add: u_def not_less)
      next
        case nt: False
        then have "delayed k t" using t w3 by (simp add: delayed_def)
        then show ?thesis using placedD(2) [OF k] t nt w3 by (auto simp: timely_def u_def)
      qed
      then show ?thesis by (simp add: timely_def delayed_def w3)
    qed
    moreover have "placed D T i (k3\<lparr>xNextTaskUnblockTime := u\<rparr>)"
    proof -
      have "ready k3 i" using placedD(4) [OF k] c(2) by (simp add: ready_def w3)
      then show ?thesis using k k3(2) calculation(2) unfolding placed_def by (auto simp: w3)
    qed
    ultimately show ?thesis unfolding if_not_P [OF False] using v by blast
  qed
qed

section \<open>Resuming the scheduler\<close>

lemma view_refl: "view k k (state_list k) (event_list k) (wake k)"
  unfolding view_def by (intro conjI exI [of _ "klists k"] exI [of _ "uxTopReadyPriority k"]) simp_all

lemma view_yield:
  assumes "view (k\<lparr>xYieldPending := b\<rparr>) k' a e w"
  shows "view k (k'\<lparr>xYieldPending := xYieldPending k\<rparr>) a e w"
proof -
  obtain s p where k': "k' = k\<lparr>xYieldPending := b\<rparr>\<lparr>klists := s, uxTopReadyPriority := p\<rparr>" using assms by (auto simp: view_def)
  have "k'\<lparr>xYieldPending := xYieldPending k\<rparr> = k\<lparr>klists := s, uxTopReadyPriority := p\<rparr>" unfolding k' by simp
  then have "\<exists>s p. k'\<lparr>xYieldPending := xYieldPending k\<rparr> = k\<lparr>klists := s, uxTopReadyPriority := p\<rparr>" by blast
  then show ?thesis unfolding view_def by (intro conjI) (simp_all add: viewD(1-3) [OF assms])
qed

abbreviation pends :: "nat set \<Rightarrow> kernel \<Rightarrow> nat \<Rightarrow> bool" where "pends T k t \<equiv> t \<in> T \<and> event_list k t = Some 12"

lemma move_pending_step:
  assumes k: "sched D T {} k" and t: "pends T k t"
  shows "\<exists>k'. do { k \<leftarrow> remove_item (event_item t) k; k \<leftarrow> remove_item (state_item t) k; prvAddTaskToReadyList t k } = Some k' \<and>
    sched D T {} k' \<and>
    view k k' ((state_list k)(t := Some (unat (priority k t)))) ((event_list k)(t := None)) (wake k)"
proof -
  obtain k1 where k1: "remove_item (event_item t) k = Some k1" "sched D T {} k1"
      "view k k1 (state_list k) ((event_list k)(t := None)) (wake k)"
    using remove_event_item_view [OF k] t by auto
  obtain k2 where k2: "do { k \<leftarrow> remove_item (state_item t) k1; prvAddTaskToReadyList t k } = Some k2" "sched D T {} k2"
      "view k1 k2 ((state_list k1)(t := Some (unat (priority k1 t)))) (event_list k1) (wake k1)"
    using make_ready_view [OF k1(2)] t by blast
  have "view k k2 ((state_list k)(t := Some (unat (priority k t)))) ((event_list k)(t := None)) (wake k)"
    using view_trans [OF k1(3) k2(3)] by (simp add: view_def viewD [OF k1(3)])
  then show ?thesis using k1(1) k2(1,2) by simp
qed

lemma move_pending_run:
  assumes "\<not> listLIST_IS_EMPTY xPendingReadyList (klists k)"
    and "listGET_OWNER_OF_HEAD_ENTRY xPendingReadyList (klists k) = Some t"
    and "do { k \<leftarrow> remove_item (event_item t) k; k \<leftarrow> remove_item (state_item t) k; prvAddTaskToReadyList t k } = Some k1"
    and "current_priority k1 = Some p"
  shows "move_pending k m = move_pending (if priority k1 t \<ge> p then k1\<lparr>xYieldPending := True\<rparr> else k1) True"
  using assms by (simp add: move_pending.simps [of k m] bind_eq_Some_conv) (auto simp: bind_eq_Some_conv)

lemma move_pending_ok:
  assumes "sched D T {} k"
  shows "\<exists>k'. move_pending k m = Some (m \<or> (\<exists>t. pends T k t),
      k'\<lparr>xYieldPending := xYieldPending k \<or> (\<exists>t. pends T k t \<and> the (current_priority k) \<le> priority k t)\<rparr>) \<and>
    sched D T {} k' \<and>
    view k k' (\<lambda>t. if pends T k t then Some (unat (priority k t)) else state_list k t)
      (\<lambda>t. if pends T k t then None else event_list k t) (wake k)"
  using assms
proof (induction "card {t. pends T k t}" arbitrary: k m rule: less_induct)
  case less
  note k = less.prems
  have empty: "listLIST_IS_EMPTY 12 (klists k) \<longleftrightarrow> \<not> (\<exists>t. pends T k t)"
    using event_list_empty [OF k, of 12] schedD(2) [OF k, of 12] by auto
  show ?case
  proof (cases "\<exists>t. pends T k t")
    case False
    then have "move_pending k m = Some (m, k)" using empty by (simp add: move_pending.simps [of k m] xPendingReadyList_def)
    moreover have none: "\<not> pends T k t" for t using False by blast
    moreover have "view k k (\<lambda>t. if pends T k t then Some (unat (priority k t)) else state_list k t)
        (\<lambda>t. if pends T k t then None else event_list k t) (wake k)"
      using view_refl [of k] by (simp only: none if_False)
    moreover have e: "xYieldPending k \<or> (\<exists>t. pends T k t \<and> the (current_priority k) \<le> priority k t) \<longleftrightarrow> xYieldPending k"
        "m \<or> (\<exists>t. pends T k t) \<longleftrightarrow> m"
      using False by blast+
    ultimately show ?thesis unfolding e using k by (intro exI [of _ k]) simp
  next
    case True
    then obtain u where u: "u \<in> T" "event_list k u = Some 12" by blast
    obtain t where t: "t \<in> T" "event_list k t = Some 12" "listGET_OWNER_OF_HEAD_ENTRY 12 (klists k) = Some t"
      using event_head [OF k schedD(2) [OF k] _ u] by auto
    obtain k1 where k1: "do { k \<leftarrow> remove_item (event_item t) k; k \<leftarrow> remove_item (state_item t) k; prvAddTaskToReadyList t k } =
          Some k1" "sched D T {} k1"
        "view k k1 ((state_list k)(t := Some (unat (priority k t)))) ((event_list k)(t := None)) (wake k)"
      using move_pending_step [OF k conjI [OF t(1,2)]] by blast
    note v1 = viewD [OF k1(3)]
    obtain c where c: "current_priority k = Some (priority k c)" using sched_current [OF k] by blast
    define y where "y \<longleftrightarrow> xYieldPending k \<or> priority k c \<le> priority k t"
    have k1y: "(if priority k1 t \<ge> priority k c then k1\<lparr>xYieldPending := True\<rparr> else k1) = k1\<lparr>xYieldPending := y\<rparr>"
      using v1(4,12) by (simp add: y_def)
    have run: "move_pending k m = move_pending (k1\<lparr>xYieldPending := y\<rparr>) True"
      using move_pending_run [OF _ _ k1(1), of "priority k c" m] True empty t(3) c v1(18) k1y
      by (simp add: xPendingReadyList_def)
    define k2 where "k2 = k1\<lparr>xYieldPending := y\<rparr>"
    have p2: "pends T k2 u \<longleftrightarrow> pends T k u \<and> u \<noteq> t" for u by (auto simp: k2_def v1)
    have "finite T" using schedD(1) [OF k] by (auto simp: lists_ok_def kernel_items_def dest: finite_imageD [OF _ inj_onI])
    then have "card {u. pends T k2 u} < card {u. pends T k u}"
      using t(1,2) by (intro psubset_card_mono) (auto simp: p2)
    moreover have "sched D T {} k2" using k1(2) by (simp add: k2_def)
    moreover have "current_priority k2 = current_priority k1" by (simp add: k2_def current_priority_def)
    then have f2: "tcb k2 = tcb k" "xYieldPending k2 = y" "the (current_priority k2) = priority k c"
      using c v1(4,18) by (simp_all add: k2_def)
    ultimately obtain k3 where k3: "move_pending k2 True =
          Some (True \<or> (\<exists>u. pends T k2 u), k3\<lparr>xYieldPending := y \<or> (\<exists>u. pends T k2 u \<and> priority k c \<le> priority k u)\<rparr>)"
        "sched D T {} k3"
        "view k2 k3 (\<lambda>u. if pends T k2 u then Some (unat (priority k u)) else state_list k2 u)
          (\<lambda>u. if pends T k2 u then None else event_list k2 u) (wake k2)"
      using less.hyps [of k2 True] unfolding f2 by blast
    have v: "view k1 (k3\<lparr>xYieldPending := xYieldPending k1\<rparr>) (\<lambda>u. if pends T k2 u then Some (unat (priority k u)) else state_list k2 u)
        (\<lambda>u. if pends T k2 u then None else event_list k2 u) (wake k2)"
      by (rule view_yield) (use k3(3) in \<open>simp add: k2_def\<close>)
    have "view k (k3\<lparr>xYieldPending := xYieldPending k1\<rparr>) (\<lambda>u. if pends T k u then Some (unat (priority k u)) else state_list k u)
        (\<lambda>u. if pends T k u then None else event_list k u) (wake k)"
      using view_trans [OF k1(3) v] t(1,2) unfolding view_def p2 by (auto simp: k2_def v1)
    moreover have "(y \<or> (\<exists>u. pends T k2 u \<and> priority k c \<le> priority k u)) \<longleftrightarrow>
        xYieldPending k \<or> (\<exists>u. pends T k u \<and> the (current_priority k) \<le> priority k u)"
      using t(1,2) p2 c by (auto simp: y_def)
    ultimately show ?thesis
      using run k3(1,2) True by (intro exI [of _ "k3\<lparr>xYieldPending := xYieldPending k1\<rparr>"]) (simp add: k2_def)
  qed
qed

text \<open>A tick, as a relation between the states before and after it.\<close>

definition same_fields :: "kernel \<Rightarrow> kernel \<Rightarrow> bool" where
  "same_fields k k' \<longleftrightarrow> tcb k' = tcb k \<and> pxCurrentTCB k' = pxCurrentTCB k \<and> xSchedulerRunning k' = xSchedulerRunning k \<and>
     xPendedTicks k' = xPendedTicks k \<and> uxSchedulerSuspended k' = uxSchedulerSuspended k \<and>
     uxCurrentNumberOfTasks k' = uxCurrentNumberOfTasks k \<and> uxTaskNumber k' = uxTaskNumber k \<and>
     uxDeletedTasksWaitingCleanUp k' = uxDeletedTasksWaitingCleanUp k"

definition ticked :: "nat set \<Rightarrow> kernel \<Rightarrow> kernel \<Rightarrow> bool" where
  "ticked T k k' \<longleftrightarrow> same_fields k k' \<and> xTickCount k' = xTickCount k + 1 \<and>
     pxDelayedTaskList k' = (if xTickCount k + 1 = 0 then pxOverflowDelayedTaskList k else pxDelayedTaskList k) \<and>
     pxOverflowDelayedTaskList k' = (if xTickCount k + 1 = 0 then pxDelayedTaskList k else pxOverflowDelayedTaskList k) \<and>
     (\<forall>t \<in> T. state_list k' t = (if wakes_at_tick k t then Some (unat (priority k t)) else state_list k t) \<and>
        event_list k' t = (if wakes_at_tick k t then None else event_list k t) \<and> wake k' t = wake k t)"

lemma tick_ticked:
  assumes k: "sched D T {} k" and tm: "timely T k" and run: "uxSchedulerSuspended k = 0" and c: "pxCurrentTCB k = Some c"
  shows "\<exists>sw k'. xTaskIncrementTick k = Some (sw, k') \<and> sched D T {} k' \<and> timely T k' \<and> ticked T k k' \<and>
    xYieldPending k' = xYieldPending k \<and>
    (\<not> sw \<longrightarrow> \<not> xYieldPending k \<and> (\<forall>t \<in> T. wakes_at_tick k t \<longrightarrow> priority k t < priority k c))"
proof -
  obtain s p n k' where k': "k' = k\<lparr>klists := s, uxTopReadyPriority := p, xNextTaskUnblockTime := n, xTickCount := xTickCount k + 1,
        pxDelayedTaskList := if xTickCount k + 1 = 0 then pxOverflowDelayedTaskList k else pxDelayedTaskList k,
        pxOverflowDelayedTaskList := if xTickCount k + 1 = 0 then pxDelayedTaskList k else pxOverflowDelayedTaskList k,
        xNumOfOverflows := if xTickCount k + 1 = 0 then xNumOfOverflows k + 1 else xNumOfOverflows k\<rparr>"
      and r: "xTaskIncrementTick k = Some (xYieldPending k \<or> (\<exists>t \<in> T. wakes_at_tick k t \<and> priority k c \<le> priority k t) \<or>
          1 < card {t \<in> T. state_list k' t = Some (unat (priority k c))}, k')"
        "sched D T {} k'" "timely T k'"
        "\<forall>t \<in> T. state_list k' t = (if wakes_at_tick k t then Some (unat (priority k t)) else state_list k t) \<and>
          event_list k' t = (if wakes_at_tick k t then None else event_list k t)"
        "\<forall>j. ivalue s j = ivalue (klists k) j"
    using tick_ok [OF k tm run c] unfolding Let_def by blast
  have f: "klists k' = s" "same_fields k k'" "xTickCount k' = xTickCount k + 1" "xYieldPending k' = xYieldPending k"
    "pxDelayedTaskList k' = (if xTickCount k + 1 = 0 then pxOverflowDelayedTaskList k else pxDelayedTaskList k)"
    "pxOverflowDelayedTaskList k' = (if xTickCount k + 1 = 0 then pxDelayedTaskList k else pxOverflowDelayedTaskList k)"
    by (simp_all add: k' same_fields_def)
  have "ticked T k k'" using f r(4,5) by (simp add: ticked_def)
  then show ?thesis using r(1-3) f(4) by (intro exI [of _ k'] exI conjI) (auto simp: not_le intro: leI)
qed

text \<open>The ticks after which a delayed task is due; the tick counter may wrap before that.\<close>

definition remaining :: "kernel \<Rightarrow> nat \<Rightarrow> nat \<Rightarrow> bool" where
  "remaining k t m \<longleftrightarrow> 0 < m \<and>
     (delayed k t \<and> unat (wake k t) = unat (xTickCount k) + m \<or>
      state_list k t = Some (pxOverflowDelayedTaskList k) \<and> unat (wake k t) + 2 ^ 32 = unat (xTickCount k) + m)"

lemma unat_suc: "unat ((x :: u32) + 1) = (if x + 1 = 0 then 0 else unat x + 1)"
  by (metis Suc_eq_plus1 unat_0 unatSuc add.commute)

lemma suc_wrap: "(x :: u32) + 1 = 0 \<longleftrightarrow> unat x = 2 ^ 32 - 1"
proof -
  have "x + 1 = 0 \<longleftrightarrow> x = - 1" by (simp add: eq_neg_iff_add_eq_0)
  also have "\<dots> \<longleftrightarrow> unat x = unat (- 1 :: u32)" by (simp only: word_unat_eq_iff)
  finally show ?thesis by (simp add: unsigned_minus_1_eq_mask mask_eq_exp_minus_1)
qed

lemma remaining_tick:
  assumes t: "t \<in> T" and tk: "ticked T k k'" and r: "remaining k t m" and l: "pxDelayedTaskList k \<noteq> pxOverflowDelayedTaskList k"
  shows "if m = 1 then wakes_at_tick k t else remaining k' t (m - 1) \<and> \<not> wakes_at_tick k t"
proof -
  have w32: "unat x < 2 ^ 32" for x :: u32 using unsigned_less [of x] by simp
  have eq: "x = y + 1 \<longleftrightarrow> unat x = unat (y + 1)" for x y :: u32 by (simp only: word_unat_eq_iff)
  have st: "state_list k' t = (if wakes_at_tick k t then Some (unat (priority k t)) else state_list k t)" "wake k' t = wake k t"
    using tk t by (simp_all add: ticked_def)
  show ?thesis
  proof (cases "delayed k t \<and> unat (wake k t) = unat (xTickCount k) + m")
    case True
    then have nw: "xTickCount k + 1 \<noteq> 0" using r w32 [of "wake k t"] by (auto simp: suc_wrap remaining_def)
    then have "wakes_at_tick k t \<longleftrightarrow> m = 1"
      using True by (auto simp: wakes_at_tick_def delayed_def eq unat_suc)
    then show ?thesis using True nw tk st r by (auto simp: ticked_def remaining_def delayed_def unat_suc)
  next
    case False
    then have o: "state_list k t = Some (pxOverflowDelayedTaskList k)" "unat (wake k t) + 2 ^ 32 = unat (xTickCount k) + m" "0 < m"
      using r by (auto simp: remaining_def)
    show ?thesis
    proof (cases "xTickCount k + 1 = 0")
      case True
      then have "unat (wake k t) + 1 = m" using o by (simp add: suc_wrap)
      moreover from this have "wakes_at_tick k t \<longleftrightarrow> m = 1"
        using True o by (auto simp: wakes_at_tick_def word_unat_eq_iff)
      ultimately show ?thesis using True tk st o by (auto simp: ticked_def remaining_def delayed_def)
    next
      case nz: False
      have "\<not> wakes_at_tick k t" using nz o(1) l by (simp add: wakes_at_tick_def)
      moreover have "m \<noteq> 1" using nz o(2) w32 [of "xTickCount k"] by (auto simp: suc_wrap)
      ultimately show ?thesis using nz tk st o by (auto simp: ticked_def remaining_def unat_suc)
    qed
  qed
qed

text \<open>Several ticks.\<close>

definition after_ticks :: "nat set \<Rightarrow> nat \<Rightarrow> kernel \<Rightarrow> kernel \<Rightarrow> bool" where
  "after_ticks T n k k' \<longleftrightarrow> same_fields k k' \<and> xTickCount k' = xTickCount k + word_of_nat n \<and>
     (\<forall>t \<in> T. wake k' t = wake k t \<and> (event_list k' t = event_list k t \<or> event_list k' t = None) \<and>
        (state_list k t \<notin> {Some 10, Some 11} \<longrightarrow> state_list k' t = state_list k t) \<and>
        (\<forall>m. remaining k t m \<longrightarrow> (if n < m then remaining k' t (m - n) else ready k' t)))"

lemma after_ticks_0: "after_ticks T 0 k k"
  by (auto simp: after_ticks_def same_fields_def remaining_def)

lemma ready_not_delayed:
  assumes "sched D T X k" "t \<in> T" "ready k t"
  shows "state_list k t \<notin> {Some 10, Some 11}" "state_list k t \<noteq> Some 14" "state_list k t \<noteq> Some 13"
  using assms schedD(5) [OF assms(1,2)] by (auto simp: ready_def)

lemma after_ticks_1:
  assumes k: "sched D T {} k" and tk: "ticked T k k'"
  shows "after_ticks T 1 k k'"
proof -
  have r: "if 1 < m then remaining k' t (m - 1) else ready k' t" if t: "t \<in> T" "remaining k t m" for t m
    using remaining_tick [OF t(1) tk t(2) schedD(11) [OF k]] t tk
    by (auto simp: ready_def ticked_def same_fields_def remaining_def split: if_splits)
  have s: "state_list k' t = state_list k t" if "t \<in> T" "state_list k t \<notin> {Some 10, Some 11}" for t
    using that tk schedD(9,10) [OF k] by (auto simp: ticked_def wakes_at_tick_def split: if_splits)
  have w: "wake k' t = wake k t \<and> (event_list k' t = event_list k t \<or> event_list k' t = None)" if "t \<in> T" for t
    using that tk by (simp add: ticked_def)
  have f: "same_fields k k'" "xTickCount k' = xTickCount k + word_of_nat 1" using tk by (simp_all add: ticked_def)
  show ?thesis unfolding after_ticks_def
    by (intro conjI ballI allI impI; (rule f | rule w [THEN conjunct1] | rule w [THEN conjunct2] | rule s | rule r); assumption)
qed

lemma after_ticks_trans:
  assumes a: "after_ticks T n k k1" and k1: "sched D T {} k1" and b: "after_ticks T m k1 k2"
  shows "after_ticks T (n + m) k k2"
proof -
  have f: "same_fields k k1" "same_fields k1 k2" using a b by (simp_all add: after_ticks_def)
  have r1: "state_list k2 t = state_list k1 t" if "t \<in> T" "ready k1 t" for t
    using b that ready_not_delayed(1) [OF k1 that] by (simp add: after_ticks_def)
  have "if n + m < r then remaining k2 t (r - (n + m)) else ready k2 t" if t: "t \<in> T" "remaining k t r" for t r
  proof (cases "n < r")
    case True
    then have "remaining k1 t (r - n)" using a t by (simp add: after_ticks_def)
    then have "if m < r - n then remaining k2 t (r - n - m) else ready k2 t" using b t(1) unfolding after_ticks_def by blast
    moreover have "m < r - n \<longleftrightarrow> n + m < r" "r - n - m = r - (n + m)" using True by auto
    ultimately show ?thesis by (simp only:)
  next
    case False
    then have rd: "ready k1 t" using a t by (simp add: after_ticks_def)
    then have "ready k2 t" using r1 [OF t(1) rd] f by (simp add: ready_def same_fields_def)
    then show ?thesis using False by simp
  qed
  moreover have "xTickCount k2 = xTickCount k + word_of_nat (n + m)" using a b by (simp add: after_ticks_def)
  moreover have "same_fields k k2" using f by (simp add: same_fields_def)
  moreover have "state_list k2 t = state_list k t" if t: "t \<in> T" "state_list k t \<notin> {Some 10, Some 11}" for t
  proof -
    have "state_list k1 t = state_list k t" using a t unfolding after_ticks_def by blast
    moreover from this have "state_list k2 t = state_list k1 t" using b t unfolding after_ticks_def by auto
    ultimately show ?thesis by simp
  qed
  moreover have "wake k2 t = wake k t \<and> (event_list k2 t = event_list k t \<or> event_list k2 t = None)" if t: "t \<in> T" for t
    using a b t unfolding after_ticks_def by (metis (no_types, lifting))
  ultimately show ?thesis by (simp add: after_ticks_def)
qed

lemma pended_ticks_ok:
  assumes "sched D T {} k" "timely T k" "uxSchedulerSuspended k = 0" "pxCurrentTCB k = Some c"
  shows "\<exists>k'. pended_ticks n k = Some k' \<and> sched D T {} k' \<and> timely T k' \<and> after_ticks T n k k' \<and>
    (\<forall>t \<in> T. ready k' t \<longrightarrow> ready k t \<or> event_list k' t = None) \<and>
    (\<not> xYieldPending k' \<longrightarrow> \<not> xYieldPending k \<and>
      (\<forall>t \<in> T. ready k' t \<longrightarrow> ready k t \<or> priority k t < priority k c))"
  using assms
proof (induction n arbitrary: k)
  case 0
  then show ?case using after_ticks_0 [of T k] by auto
next
  case (Suc n)
  note k = Suc.prems(1)
  obtain sw k1 where k1: "xTaskIncrementTick k = Some (sw, k1)" "sched D T {} k1" "timely T k1" "ticked T k k1"
      "xYieldPending k1 = xYieldPending k"
      "\<not> sw \<longrightarrow> \<not> xYieldPending k \<and> (\<forall>t \<in> T. wakes_at_tick k t \<longrightarrow> priority k t < priority k c)"
    using tick_ticked [OF Suc.prems] by blast
  define k2 where "k2 = k1\<lparr>xYieldPending := sw \<or> xYieldPending k1\<rparr>"
  have step: "pended_ticks (Suc n) k = pended_ticks n k2" using k1(1) by (cases sw) (simp_all add: k2_def)
  have s2: "sched D T {} k2" "timely T k2" "ticked T k k2"
    using k1(2-4) by (simp_all add: k2_def ticked_def same_fields_def)
  have f2: "uxSchedulerSuspended k2 = 0" "pxCurrentTCB k2 = Some c" "tcb k2 = tcb k"
    using s2(3) Suc.prems(3,4) by (simp_all add: ticked_def same_fields_def)
  obtain k' where k': "pended_ticks n k2 = Some k'" "sched D T {} k'" "timely T k'" "after_ticks T n k2 k'"
      "\<not> xYieldPending k' \<longrightarrow> \<not> xYieldPending k2 \<and> (\<forall>t \<in> T. ready k' t \<longrightarrow> ready k2 t \<or> priority k2 t < priority k2 c)"
      "\<forall>t \<in> T. ready k' t \<longrightarrow> ready k2 t \<or> event_list k' t = None"
    using Suc.IH [OF s2(1,2) f2(1,2)] by blast
  have "after_ticks T (Suc n) k k'"
    using after_ticks_trans [OF after_ticks_1 [OF k s2(3)] s2(1) k'(4)] by simp
  moreover have "ready k t \<or> priority k t < priority k c" if "\<not> xYieldPending k'" "t \<in> T" "ready k' t" for t
  proof (cases "ready k2 t")
    case True
    then have "wakes_at_tick k t \<or> ready k t"
      using s2(3) that(2) by (auto simp: ready_def ticked_def same_fields_def split: if_splits)
    then show ?thesis using that k1(6) k'(5) by (auto simp: k2_def)
  next
    case False
    then show ?thesis using that k'(5) f2(3) by auto
  qed
  moreover have "\<not> xYieldPending k" if "\<not> xYieldPending k'" using that k'(5) k1(5) by (auto simp: k2_def)
  moreover have "ready k t \<or> event_list k' t = None" if t: "t \<in> T" "ready k' t" for t
  proof (cases "ready k2 t")
    case True
    then have "ready k t \<or> event_list k2 t = None"
      using s2(3) t(1) by (auto simp: ready_def ticked_def same_fields_def split: if_splits)
    then show ?thesis using k'(4) t(1) unfolding after_ticks_def by auto
  next
    case False
    moreover have "ready k2 t \<or> event_list k' t = None" using k'(6) [rule_format, OF t] .
    ultimately show ?thesis by simp
  qed
  ultimately show ?case unfolding step using k'(1-3) by (intro exI [of _ k'] conjI ballI impI)
qed

section \<open>Tasks that an operation does not concern\<close>

text \<open>
  \<open>n\<close> ticks have passed for the tasks of \<open>B\<close>: those that were ready still are, those that were delayed are due
  \<open>n\<close> ticks earlier. It speaks of the tasks that wait for no event.
\<close>

definition progress :: "nat \<Rightarrow> nat set \<Rightarrow> kernel \<Rightarrow> kernel \<Rightarrow> bool" where
  "progress n B k k' \<longleftrightarrow> (\<forall>t \<in> B. event_list k t = None \<longrightarrow> event_list k' t = None \<and> (ready k t \<longrightarrow> ready k' t) \<and>
     (\<forall>m. remaining k t m \<longrightarrow> (if n < m then remaining k' t (m - n) else ready k' t)))"

lemma progressI:
  assumes "\<And>t. t \<in> B \<Longrightarrow> event_list k t = None \<Longrightarrow> event_list k' t = None"
    and "\<And>t. t \<in> B \<Longrightarrow> event_list k t = None \<Longrightarrow> ready k t \<Longrightarrow> ready k' t"
    and "\<And>t m. t \<in> B \<Longrightarrow> event_list k t = None \<Longrightarrow> remaining k t m \<Longrightarrow>
      (if n < m then remaining k' t (m - n) else ready k' t)"
  shows "progress n B k k'"
  unfolding progress_def by (intro ballI allI conjI impI; (rule assms; assumption)?)

lemma progress_trans:
  assumes a: "progress n B k k1" and b: "progress m B k1 k2"
  shows "progress (n + m) B k k2"
proof (rule progressI)
  fix t assume t: "t \<in> B" "event_list k t = None"
  have t1: "event_list k1 t = None" using a t unfolding progress_def by blast
  show "event_list k2 t = None" using b t(1) t1 unfolding progress_def by blast
  show "ready k2 t" if "ready k t" using a b t t1 that unfolding progress_def by blast
  fix r assume r: "remaining k t r"
  show "if n + m < r then remaining k2 t (r - (n + m)) else ready k2 t"
  proof (cases "n < r")
    case True
    then have "remaining k1 t (r - n)" using a t r unfolding progress_def by auto
    then have "if m < r - n then remaining k2 t (r - n - m) else ready k2 t" using b t(1) t1 unfolding progress_def by blast
    moreover have "m < r - n \<longleftrightarrow> n + m < r" "r - n - m = r - (n + m)" using True by auto
    ultimately show ?thesis by (simp only:)
  next
    case False
    then have "ready k1 t" using a t r unfolding progress_def by auto
    then have "ready k2 t" using b t(1) t1 unfolding progress_def by blast
    then show ?thesis using False by simp
  qed
qed

lemma progress_0:
  assumes "\<And>t. t \<in> B \<Longrightarrow> event_list k t = None \<Longrightarrow> event_list k' t = None \<and> state_list k' t = state_list k t \<and>
      wake k' t = wake k t \<and> priority k' t = priority k t"
    and "pxDelayedTaskList k' = pxDelayedTaskList k" "pxOverflowDelayedTaskList k' = pxOverflowDelayedTaskList k"
      "xTickCount k' = xTickCount k"
  shows "progress 0 B k k'"
proof (rule progressI)
  fix t assume t: "t \<in> B" "event_list k t = None"
  note e = assms(1) [OF t]
  show "event_list k' t = None" using e by simp
  show "ready k' t" if "ready k t" using e that by (simp add: ready_def)
  fix m assume "remaining k t m"
  then show "if 0 < m then remaining k' t (m - 0) else ready k' t"
    using e by (simp add: remaining_def delayed_def assms(2-4))
qed

lemma progress_same:
  assumes "\<And>t. t \<in> B \<Longrightarrow> event_list k t = None \<Longrightarrow> event_list k1 t = None \<and> state_list k1 t = state_list k t \<and>
      wake k1 t = wake k t \<and> priority k1 t = priority k t"
    and "pxDelayedTaskList k1 = pxDelayedTaskList k" "pxOverflowDelayedTaskList k1 = pxOverflowDelayedTaskList k"
      "xTickCount k1 = xTickCount k" and "progress n B k1 k2"
  shows "progress n B k k2"
  using progress_trans [OF progress_0 [OF assms(1-4)] assms(5)] by simp

lemma progress_refl [simp]: "progress 0 B k k"
  by (rule progress_0) simp_all

lemma progress_switched: "switched k k' \<Longrightarrow> progress 0 B k k'"
  by (rule progress_0) (simp_all add: switchedD)

lemma progress_mono: "progress n B k k' \<Longrightarrow> C \<subseteq> B \<Longrightarrow> progress n C k k'"
  by (auto simp: progress_def)

lemma progress_fields [simp]:
  "progress n B k (k'\<lparr>xYieldPending := b\<rparr>) = progress n B k k'"
  "progress n B k (k'\<lparr>xNextTaskUnblockTime := w\<rparr>) = progress n B k k'"
  "progress n B k (k'\<lparr>uxSchedulerSuspended := s\<rparr>) = progress n B k k'"
  "progress n B k (k'\<lparr>xPendedTicks := s\<rparr>) = progress n B k k'"
  "progress n B (k\<lparr>uxSchedulerSuspended := s\<rparr>) k' = progress n B k k'"
  "progress n B (k\<lparr>xNextTaskUnblockTime := w\<rparr>) k' = progress n B k k'"
  by (simp_all add: progress_def remaining_def ready_def delayed_def)

lemma progress_after:
  assumes "after_ticks T n k k'" and "sched D T X k" and "B \<subseteq> T"
  shows "progress n B k k'"
proof (rule progressI)
  fix t assume t: "t \<in> B" "event_list k t = None"
  then have tT: "t \<in> T" using assms(3) by blast
  show "event_list k' t = None" using assms(1) tT t unfolding after_ticks_def by auto
  show "ready k' t" if "ready k t"
    using ready_not_delayed(1) [OF assms(2) tT that] assms(1) tT that unfolding after_ticks_def ready_def same_fields_def by auto
  show "if n < m then remaining k' t (m - n) else ready k' t" if "remaining k t m" for m
    using assms(1) tT that unfolding after_ticks_def by blast
qed

section \<open>The end of a suspension of the scheduler\<close>

lemma resume_run:
  assumes "uxSchedulerSuspended k = 1" and "uxCurrentNumberOfTasks k > 0"
    and "move_pending (k\<lparr>uxSchedulerSuspended := 0\<rparr>) False = Some (m, k1)"
    and "k2 = (if m then prvResetNextTaskUnblockTime k1 else k1)"
    and "pended_ticks (unat (xPendedTicks k2)) k2 = Some k3"
  shows "xTaskResumeAll k = (let k4 = k3\<lparr>xPendedTicks := 0\<rparr> in
    if xYieldPending k4 then map_option (Pair True) (vTaskSwitchContext k4) else Some (False, k4))"
proof -
  have "k3 = k2 \<and> k2\<lparr>xPendedTicks := 0\<rparr> = k2" if "xPendedTicks k2 = 0"
    using that assms(5) by simp
  then have e: "(if xPendedTicks k2 > 0 then map_option (\<lambda>k. k\<lparr>xPendedTicks := 0\<rparr>) (pended_ticks (unat (xPendedTicks k2)) k2)
      else Some k2) = Some (k3\<lparr>xPendedTicks := 0\<rparr>)"
    using assms(5) by (cases "xPendedTicks k2 = 0") (auto simp: word_neq_0_conv)
  have e1: "k\<lparr>uxSchedulerSuspended := uxSchedulerSuspended k - 1\<rparr> = k\<lparr>uxSchedulerSuspended := 0\<rparr>" using assms(1) by simp
  have n: "uxSchedulerSuspended k \<noteq> 0" using assms(1) by simp
  have "uxSchedulerSuspended (k\<lparr>uxSchedulerSuspended := 0\<rparr>) = 0 \<and> uxCurrentNumberOfTasks (k\<lparr>uxSchedulerSuspended := 0\<rparr>) > 0"
    using assms(2) by simp
  then show ?thesis
    unfolding xTaskResumeAll_def e1 Let_def if_not_P [OF n] using assms(3) e
    by (simp add: assms(4) [symmetric] split del: if_split cong: if_cong)
qed

lemma resume_all_ok:
  assumes k: "placed D T i k" and fr: "free T k" and s: "uxSchedulerSuspended k = 1" and c: "pxCurrentTCB k = Some c"
  shows "\<exists>f k'. xTaskResumeAll k = Some (f, k') \<and> placed D T i k' \<and> free T k' \<and> uxSchedulerSuspended k' = 0 \<and> tcb k' = tcb k \<and>
    (f \<longrightarrow> best T k') \<and>
    (\<not> f \<longrightarrow> \<not> xYieldPending k' \<and> \<not> xYieldPending k \<and> pxCurrentTCB k' = pxCurrentTCB k \<and>
      (\<forall>t \<in> T. ready k' t \<longrightarrow> ready k t \<or> priority k t < priority k c)) \<and>
    (\<forall>t \<in> T. pends T k t \<or> ready k t \<longrightarrow> ready k' t) \<and> progress (unat (xPendedTicks k)) T k k'"
proof -
  define k0 where "k0 = k\<lparr>uxSchedulerSuspended := 0\<rparr>"
  have s0: "sched D T {} k0" "timely T k0" using placedD(1,2) [OF k] by (simp_all add: k0_def)
  have c0: "current_priority k0 = Some (priority k c)" using c by (simp add: k0_def current_priority_def)
  then have f0: "klists k0 = klists k" "tcb k0 = tcb k" "xYieldPending k0 = xYieldPending k" "the (current_priority k0) = priority k c"
      "(False \<or> b) = b" for b
    by (simp_all add: k0_def)
  define y where "y \<longleftrightarrow> xYieldPending k \<or> (\<exists>t. pends T k t \<and> priority k c \<le> priority k t)"
  obtain k1 where k1: "move_pending k0 False = Some (\<exists>t. pends T k t, k1\<lparr>xYieldPending := y\<rparr>)" "sched D T {} k1"
      "view k0 k1 (\<lambda>t. if pends T k t then Some (unat (priority k t)) else state_list k t)
        (\<lambda>t. if pends T k t then None else event_list k t) (wake k)"
    using move_pending_ok [OF s0(1), of False] unfolding f0 y_def by blast
  note v1 = viewD [OF k1(3)]
  have tm1: "timely T k1"
    by (rule timely_view [OF s0(2) k1(3)])
      (use schedD(5,9) [OF placedD(1) [OF k]] in \<open>fastforce simp: k0_def split: if_splits\<close>)
  define k2 where "k2 = (if \<exists>t. pends T k t then prvResetNextTaskUnblockTime (k1\<lparr>xYieldPending := y\<rparr>) else k1\<lparr>xYieldPending := y\<rparr>)"
  have "\<exists>n. k2 = k1\<lparr>xYieldPending := y, xNextTaskUnblockTime := n\<rparr> \<and> timely T k2"
  proof (cases "\<exists>t. pends T k t")
    case True
    obtain n where n: "prvResetNextTaskUnblockTime (k1\<lparr>xYieldPending := y\<rparr>) = k1\<lparr>xYieldPending := y\<rparr>\<lparr>xNextTaskUnblockTime := n\<rparr>"
        "\<forall>t \<in> T. delayed (k1\<lparr>xYieldPending := y\<rparr>) t \<longrightarrow> n \<le> wake (k1\<lparr>xYieldPending := y\<rparr>) t"
      using reset_unblock [of D T "{}" "k1\<lparr>xYieldPending := y\<rparr>"] k1(2) by auto
    have "timely T (k1\<lparr>xYieldPending := y, xNextTaskUnblockTime := n\<rparr>)"
      using n(2) tm1 by (auto simp: timely_def delayed_def)
    then show ?thesis using True n(1) by (auto simp: k2_def)
  next
    case False
    then show ?thesis using tm1 by (intro exI [of _ "xNextTaskUnblockTime k1"]) (auto simp: k2_def)
  qed
  then obtain n where k2: "k2 = k1\<lparr>xYieldPending := y, xNextTaskUnblockTime := n\<rparr>" "timely T k2" by blast
  have s2: "sched D T {} k2" using k1(2) by (simp add: k2(1))
  have f2: "uxSchedulerSuspended k2 = 0" "pxCurrentTCB k2 = Some c" "tcb k2 = tcb k" "xPendedTicks k2 = xPendedTicks k"
    "pxDelayedTaskList k2 = pxDelayedTaskList k" "pxOverflowDelayedTaskList k2 = pxOverflowDelayedTaskList k"
    "xTickCount k2 = xTickCount k"
    using v1 c by (simp_all add: k2(1) k0_def)
  have p2: "state_list k2 t = (if pends T k t then Some (unat (priority k t)) else state_list k t)"
      "event_list k2 t = (if pends T k t then None else event_list k t)" "wake k2 t = wake k t" for t
    using v1 by (simp_all add: k2(1))
  obtain k3 where k3: "pended_ticks (unat (xPendedTicks k2)) k2 = Some k3" "sched D T {} k3" "timely T k3"
      "after_ticks T (unat (xPendedTicks k)) k2 k3"
      "\<not> xYieldPending k3 \<longrightarrow> \<not> xYieldPending k2 \<and>
        (\<forall>t \<in> T. ready k3 t \<longrightarrow> ready k2 t \<or> priority k2 t < priority k2 c)"
      and ev: "\<forall>t \<in> T. ready k3 t \<longrightarrow> ready k2 t \<or> event_list k3 t = None"
    using pended_ticks_ok [OF s2 k2(2) f2(1,2), of "unat (xPendedTicks k)"] f2(4) by auto
  have sf: "same_fields k2 k3" using k3(4) by (simp add: after_ticks_def)
  define k4 where "k4 = k3\<lparr>xPendedTicks := 0\<rparr>"
  have "progress 0 T k k2" by (rule progress_0) (simp_all add: p2 f2)
  then have pr: "progress (unat (xPendedTicks k)) T k k4"
    using progress_trans [OF _ progress_after [OF k3(4) s2 order_refl], of 0 k] by (simp add: k4_def)
  have rd: "ready k4 t" if t: "t \<in> T" "pends T k t \<or> ready k t" for t
  proof -
    have r2: "ready k2 t" using t(2) by (auto simp: ready_def p2 f2)
    have "ready k3 t"
      using ready_not_delayed(1) [OF s2 t(1) r2] k3(4) t(1) r2 sf unfolding after_ticks_def ready_def same_fields_def by auto
    then show ?thesis by (simp add: k4_def ready_def)
  qed
  have ri: "ready k4 i" using rd placedD(3,4) [OF k] by blast
  have np: "event_list k4 t \<noteq> Some 12" if "t \<in> T" for t
  proof -
    have "event_list k2 t \<noteq> Some 12" using that by (simp add: p2)
    then show ?thesis using k3(4) that unfolding after_ticks_def k4_def by auto
  qed
  have p4: "placed D T i k4"
    using k k3(2,3) sf ri np f2(1) v1 unfolding placed_def by (simp add: k4_def same_fields_def k2(1) k0_def)
  have f4: "uxSchedulerSuspended k4 = 0" "tcb k4 = tcb k" "pxCurrentTCB k4 = pxCurrentTCB k"
    using sf f2 c by (simp_all add: k4_def same_fields_def)
  have fr4: "free T k4"
  proof -
    have "event_list k4 t = None" if t: "t \<in> T" "ready k4 t" for t
    proof (cases "ready k2 t")
      case True
      then have "event_list k2 t = None" using fr t(1) by (auto simp: free_def ready_def p2 f2 split: if_splits)
      then show ?thesis using k3(4) t(1) unfolding after_ticks_def k4_def by auto
    next
      case False
      moreover have "ready k3 t" using t(2) by (simp add: k4_def ready_def)
      ultimately have "event_list k3 t = None" using ev t(1) by blast
      then show ?thesis by (simp add: k4_def)
    qed
    then show ?thesis by (simp add: free_def)
  qed
  have run: "xTaskResumeAll k = (if xYieldPending k4 then map_option (Pair True) (vTaskSwitchContext k4) else Some (False, k4))"
    using resume_run [OF s placed_tasks(2) [OF k] k1(1) [unfolded k0_def] k2_def k3(1)] by (simp add: k4_def)
  show ?thesis
  proof (cases "xYieldPending k4")
    case False
    have "ready k t \<or> priority k t < priority k c" if t: "t \<in> T" "ready k4 t" for t
    proof -
      have y3: "\<not> xYieldPending k3" "ready k3 t" using False t by (simp_all add: k4_def)
      then have "\<not> y" "ready k2 t \<or> priority k t < priority k c" using k3(5) t(1) by (auto simp: k2(1) f2(3) v1(4) k0_def)
      then show ?thesis using t(1) by (auto simp: ready_def p2 f2(3) y_def not_le split: if_splits)
    qed
    moreover have "\<not> xYieldPending k"
      using k3(5) False by (auto simp: k4_def k2(1) y_def)
    ultimately show ?thesis using run False p4 fr4 f4 rd pr by (intro exI [of _ False] exI [of _ k4]) simp
  next
    case True
    obtain k5 where k5: "vTaskSwitchContext k4 = Some k5" "kernel_ok D T i k5" "switched k4 k5"
      using switch_placed [OF p4 fr4] by blast
    note w = switchedD [OF k5(3)]
    have "progress (unat (xPendedTicks k)) T k k5" using progress_trans [OF pr progress_switched [OF k5(3)]] by simp
    moreover have "ready k5 t = ready k4 t" for t by (simp add: ready_def w)
    ultimately show ?thesis using run True k5(1,2) f4(1,2) rd
      by (intro exI [of _ True] exI [of _ k5]) (simp add: kernel_ok_def w)
  qed
qed

section \<open>The tick interrupt\<close>

lemma tick_isr_ok:
  assumes k: "kernel_ok D T i k"
  shows "\<exists>k'. vPortTickISR k = Some k' \<and> kernel_ok D T i k' \<and> uxSchedulerSuspended k' = uxSchedulerSuspended k \<and>
    (if uxSchedulerSuspended k = 0 then progress 1 T k k' \<and> xPendedTicks k' = 0
     else progress 0 T k k' \<and> xPendedTicks k' = xPendedTicks k + 1)"
proof (cases "uxSchedulerSuspended k = 0")
  case False
  let ?k = "k\<lparr>xPendedTicks := xPendedTicks k + 1\<rparr>"
  have "vPortTickISR k = Some ?k" using False by (simp add: vPortTickISR_def xTaskIncrementTick_def)
  moreover have "kernel_ok D T i ?k" using k False by (simp add: kernel_ok_def placed_def best_def)
  moreover have "progress 0 T k ?k" by (rule progress_0) simp_all
  ultimately show ?thesis using False by simp
next
  case True
  note p = kernel_okD(1) [OF k] and b = kernel_okD(2) [OF k] and fr = kernel_okD(3) [OF k]
  note s = placedD(1) [OF p]
  obtain c where c: "pxCurrentTCB k = Some c" using s by (auto simp: sched_def)
  obtain sw k1 where k1: "xTaskIncrementTick k = Some (sw, k1)" "sched D T {} k1" "timely T k1" "ticked T k k1"
      "xYieldPending k1 = xYieldPending k"
      "\<not> sw \<longrightarrow> \<not> xYieldPending k \<and> (\<forall>t \<in> T. wakes_at_tick k t \<longrightarrow> priority k t < priority k c)"
    using tick_ticked [OF s placedD(2) [OF p] True c] by blast
  note a = after_ticks_1 [OF s k1(4)]
  have pr: "progress 1 T k k1" by (rule progress_after [OF a s]) simp
  have f: "same_fields k k1" using k1(4) by (simp add: ticked_def)
  have r1: "ready k1 t \<longleftrightarrow> wakes_at_tick k t \<or> ready k t" if "t \<in> T" for t
    using k1(4) that f by (auto simp: ticked_def ready_def same_fields_def split: if_splits)
  have "event_list k1 t \<noteq> Some 12" if "t \<in> T" for t
    using k1(4) that placedD(8) [OF p True that] by (simp add: ticked_def split: if_splits)
  then have p1: "placed D T i k1"
    using p k1(2,3) f r1 unfolding placed_def by (simp add: same_fields_def True)
  have f1: "uxSchedulerSuspended k1 = uxSchedulerSuspended k" "xPendedTicks k1 = 0"
    using f placedD(7) [OF p True] by (simp_all add: same_fields_def)
  have fr1: "free T k1"
    using fr r1 k1(4) by (auto simp: free_def ticked_def)
  show ?thesis
  proof (cases sw)
    case False
    have "best T k1" using b k1(6) False f r1 c unfolding best_def same_fields_def by (auto intro: less_imp_le)
    then show ?thesis using k1(1) False p1 fr1 pr f1 True by (simp add: vPortTickISR_def kernel_ok_def)
  next
    case sw: True
    obtain k2 where k2: "vTaskSwitchContext k1 = Some k2" "kernel_ok D T i k2" "switched k1 k2"
      using switch_placed [OF p1 fr1] by blast
    have "progress 1 T k k2" using progress_trans [OF pr progress_switched [OF k2(3)]] by simp
    then show ?thesis using k1(1) sw k2(1,2) switchedD [OF k2(3)] f1 True by (simp add: vPortTickISR_def)
  qed
qed

section \<open>Suspending and resuming the scheduler, delays and waits\<close>

lemma suspend_all_ok:
  assumes k: "placed D T i k" and n: "uxSchedulerSuspended k < portMAX_DELAY"
  shows "placed D T i (vTaskSuspendAll k)" and "best T (vTaskSuspendAll k) = best T k"
    and "progress 0 B k (vTaskSuspendAll k)"
proof -
  have "uxSchedulerSuspended k + 1 \<noteq> 0" using n by (auto simp: eq_neg_iff_add_eq_0 [symmetric] portMAX_DELAY_def)
  then show "placed D T i (vTaskSuspendAll k)" using k by (simp add: placed_def vTaskSuspendAll_def)
  show "best T (vTaskSuspendAll k) = best T k" by (simp add: best_def vTaskSuspendAll_def)
  have "progress 0 B k k" by (rule progress_0) simp_all
  then show "progress 0 B k (vTaskSuspendAll k)" by (simp add: vTaskSuspendAll_def)
qed

lemma best_same:
  assumes b: "best T k" and y: "xYieldPending k \<Longrightarrow> xYieldPending k'" and c: "pxCurrentTCB k' = pxCurrentTCB k"
    and r: "\<And>t. t \<in> T \<Longrightarrow> ready k' t \<Longrightarrow> \<not> xYieldPending k' \<Longrightarrow> ready k t \<and> priority k' t \<le> priority k t \<or>
      (\<exists>c. pxCurrentTCB k = Some c \<and> priority k' t \<le> priority k' c)"
    and rc: "\<And>c. c \<in> T \<Longrightarrow> pxCurrentTCB k = Some c \<Longrightarrow> ready k c \<Longrightarrow> ready k' c \<and> priority k c \<le> priority k' c"
  shows "best T k'"
proof (cases "xYieldPending k'")
  case False
  then obtain d where d: "d \<in> T" "pxCurrentTCB k = Some d" "ready k d" "\<forall>u \<in> T. ready k u \<longrightarrow> priority k u \<le> priority k d"
    using b y by (auto simp: best_def)
  have "priority k' t \<le> priority k' d" if "t \<in> T" "ready k' t" for t
    using r [OF that False] d rc [OF d(1-3)] that by (auto intro: order_trans)
  then show ?thesis using d rc [OF d(1-3)] c by (auto simp: best_def)
qed (simp add: best_def)

text \<open>\<open>pended\<close> ticks pass when the last suspension of the scheduler ends.\<close>

lemma resume_all_kernel_ok:
  assumes k: "kernel_ok D T i k" and s: "uxSchedulerSuspended k \<noteq> 0"
  shows "\<exists>f k'. xTaskResumeAll k = Some (f, k') \<and> kernel_ok D T i k' \<and>
    (if uxSchedulerSuspended k = 1 then uxSchedulerSuspended k' = 0 \<and> progress (unat (xPendedTicks k)) T k k' \<and> xPendedTicks k' = 0
     else uxSchedulerSuspended k' = uxSchedulerSuspended k - 1 \<and> progress 0 T k k' \<and> xPendedTicks k' = xPendedTicks k)"
proof (cases "uxSchedulerSuspended k = 1")
  case False
  then have "uxSchedulerSuspended k - 1 \<noteq> 0" by simp
  moreover from this have "kernel_ok D T i (k\<lparr>uxSchedulerSuspended := uxSchedulerSuspended k - 1\<rparr>)"
    using k by (simp add: kernel_ok_def placed_def best_def)
  moreover have "progress 0 T k k" by (rule progress_0) simp_all
  ultimately show ?thesis using s False by (intro exI [of _ False]) (simp add: xTaskResumeAll_def)
next
  case True
  note p = kernel_okD(1) [OF k] and b = kernel_okD(2) [OF k] and fr = kernel_okD(3) [OF k]
  obtain c where c: "pxCurrentTCB k = Some c" using placedD(1) [OF p] by (auto simp: sched_def)
  obtain f k' where r: "xTaskResumeAll k = Some (f, k')" "placed D T i k'" "free T k'" "uxSchedulerSuspended k' = 0" "tcb k' = tcb k"
      "f \<longrightarrow> best T k'" "\<not> f \<longrightarrow> \<not> xYieldPending k' \<and> \<not> xYieldPending k \<and> pxCurrentTCB k' = pxCurrentTCB k \<and>
        (\<forall>t \<in> T. ready k' t \<longrightarrow> ready k t \<or> priority k t < priority k c)"
      "progress (unat (xPendedTicks k)) T k k'"
      "\<forall>t \<in> T. ready k t \<longrightarrow> ready k' t"
    using resume_all_ok [OF p fr True c] by blast
  have "best T k'"
  proof (cases f)
    case False
    show ?thesis
      by (rule best_same [OF b]) (use r False c in \<open>auto intro: less_imp_le\<close>)
  qed (use r(6) in simp)
  then show ?thesis using r(1,2,3,4,8) True placedD(7) [OF r(2,4)] by (simp add: kernel_ok_def)
qed

text \<open>After \<open>prvAddCurrentTaskToDelayedList\<close> the running task is due in the number of ticks it asked for.\<close>

lemma delay_remaining:
  assumes v: "view k k' ((state_list k)(c := Some (delay_list n block k))) e
      (if n = portMAX_DELAY \<and> block then wake k else (wake k)(c := xTickCount k + n))"
    and n: "n > 0" "\<not> (n = portMAX_DELAY \<and> block)"
  shows "remaining k' c (unat n)"
proof -
  note w = viewD [OF v]
  have pos: "0 < unat n" using n(1) by (simp add: unat_gt_0)
  have wk: "wake k' c = xTickCount k + n" using w(3) unfolding if_not_P [OF n(2)] by simp
  have l: "state_list k' c = Some (if xTickCount k + n < xTickCount k then pxOverflowDelayedTaskList k else pxDelayedTaskList k)"
    using w(1) unfolding delay_list_def if_not_P [OF n(2)] by simp
  have s: "unat (xTickCount k + n) = (if xTickCount k + n < xTickCount k then unat (xTickCount k) + unat n - 2 ^ 32
      else unat (xTickCount k) + unat n) \<and> (xTickCount k + n < xTickCount k \<longrightarrow> 2 ^ 32 \<le> unat (xTickCount k) + unat n)"
  proof -
    have b: "unat (xTickCount k) < 2 ^ 32" "unat n < 2 ^ 32" using unsigned_less [of n] unsigned_less [of "xTickCount k"] by simp_all
    have "unat (xTickCount k + n) = (unat (xTickCount k) + unat n) mod 2 ^ 32" by (simp add: unat_word_ariths)
    then show ?thesis using b by (auto simp: word_less_nat_alt mod_if)
  qed
  show ?thesis
  proof (cases "xTickCount k + n < xTickCount k")
    case True
    then show ?thesis using pos wk l s by (simp add: remaining_def w)
  next
    case False
    then show ?thesis using pos wk l s by (simp add: remaining_def delayed_def w)
  qed
qed

text \<open>What a task does that waits: it goes to a delayed list, the scheduler is resumed, and it yields.\<close>

definition resume_and_yield :: "kernel \<Rightarrow> kernel option" where
  "resume_and_yield k = do { (xAlreadyYielded, k) \<leftarrow> xTaskResumeAll k; if xAlreadyYielded then Some k else vTaskSwitchContext k }"

lemma resume_and_yield_ok:
  assumes k: "placed D T i k" and fr: "free T k" and s: "uxSchedulerSuspended k = 1"
  shows "\<exists>k'. resume_and_yield k = Some k' \<and> kernel_ok D T i k' \<and> uxSchedulerSuspended k' = 0 \<and>
    progress (unat (xPendedTicks k)) T k k'"
proof -
  obtain c where c: "pxCurrentTCB k = Some c" using placedD(1) [OF k] by (auto simp: sched_def)
  obtain f k1 where r: "xTaskResumeAll k = Some (f, k1)" "placed D T i k1" "free T k1" "uxSchedulerSuspended k1 = 0"
      "f \<longrightarrow> best T k1" "progress (unat (xPendedTicks k)) T k k1"
    using resume_all_ok [OF k fr s c] by blast
  show ?thesis
  proof (cases f)
    case True
    then show ?thesis using r by (simp add: resume_and_yield_def kernel_ok_def)
  next
    case False
    obtain k2 where k2: "vTaskSwitchContext k1 = Some k2" "kernel_ok D T i k2" "switched k1 k2"
      using switch_placed [OF r(2,3)] by blast
    have "progress (unat (xPendedTicks k)) T k k2" using progress_trans [OF r(6) progress_switched [OF k2(3)]] by simp
    then show ?thesis using r(1,4) False k2(1,2) switchedD [OF k2(3)] by (simp add: resume_and_yield_def)
  qed
qed

lemma delay_and_yield_ok:
  assumes k: "placed D T i k" and s: "uxSchedulerSuspended k = 1" and c: "pxCurrentTCB k = Some c" "c \<noteq> i" and n: "n > 0"
    and fr: "\<And>t. t \<in> T \<Longrightarrow> t \<noteq> c \<Longrightarrow> ready k t \<Longrightarrow> event_list k t = None"
  shows "\<exists>k1 k'. prvAddCurrentTaskToDelayedList n block k = Some k1 \<and> resume_and_yield k1 = Some k' \<and> kernel_ok D T i k' \<and>
    uxSchedulerSuspended k' = 0 \<and> progress (unat (xPendedTicks k)) (T - {c}) k k' \<and>
    (\<not> (n = portMAX_DELAY \<and> block) \<longrightarrow> event_list k c = None \<longrightarrow> unat (xPendedTicks k) < unat n \<longrightarrow>
      remaining k' c (unat n - unat (xPendedTicks k)) \<and> event_list k' c = None)"
proof -
  obtain k0 u where k0: "prvAddCurrentTaskToDelayedList n block k = Some (k0\<lparr>xNextTaskUnblockTime := u\<rparr>)"
      "placed D T i (k0\<lparr>xNextTaskUnblockTime := u\<rparr>)"
      "view k k0 ((state_list k)(c := Some (delay_list n block k))) (event_list k)
        (if n = portMAX_DELAY \<and> block then wake k else (wake k)(c := xTickCount k + n))"
    using add_delayed_ok [OF k c n] by blast
  note v = viewD [OF k0(3)]
  have cT: "c \<in> T" and dl: "delay_list n block k = 10 \<or> delay_list n block k = 11 \<or> delay_list n block k = 14"
    using placedD(1) [OF k] c(1) schedD(9,10) [OF placedD(1) [OF k]]
    by (auto simp: sched_def delay_list_def xSuspendedTaskList_def)
  let ?k1 = "k0\<lparr>xNextTaskUnblockTime := u\<rparr>"
  have "\<not> ready k0 c" using schedD(5) [OF placedD(1) [OF k] cT] dl by (auto simp: ready_def v)
  then have fr1: "free T ?k1" using fr by (auto simp: free_def ready_def v)
  have s1: "uxSchedulerSuspended ?k1 = 1" "xPendedTicks ?k1 = xPendedTicks k" using s v by simp_all
  obtain k' where k': "resume_and_yield ?k1 = Some k'" "kernel_ok D T i k'" "uxSchedulerSuspended k' = 0"
      "progress (unat (xPendedTicks k)) T ?k1 k'"
    using resume_and_yield_ok [OF k0(2) fr1 s1(1)] s1(2) by auto
  have "progress 0 (T - {c}) k k0" by (rule progress_0) (auto simp: v)
  then have p: "progress (unat (xPendedTicks k)) (T - {c}) k k'"
    using progress_trans [OF _ progress_mono [OF k'(4), of "T - {c}"], of 0 k] by auto
  have rem: "remaining k' c (unat n - unat (xPendedTicks k)) \<and> event_list k' c = None"
    if b: "\<not> (n = portMAX_DELAY \<and> block)" "event_list k c = None" "unat (xPendedTicks k) < unat n"
  proof -
    have "remaining ?k1 c (unat n)" using delay_remaining [OF k0(3) n b(1)] by (simp add: remaining_def delayed_def)
    moreover have "event_list ?k1 c = None" using b(2) v by simp
    ultimately show ?thesis using k'(4) cT b(3) unfolding progress_def by fastforce
  qed
  show ?thesis by (rule exI [of _ ?k1], rule exI [of _ k']) (simp add: k0(1) k'(1-3) p rem)
qed

lemma current_cases:
  assumes "kernel_ok D T i k"
  obtains c where "c \<in> T" "pxCurrentTCB k = Some c"
  using placedD(1) [OF kernel_okD(1) [OF assms]] by (auto simp: sched_def)

lemma delay_ok:
  assumes k: "kernel_ok D T i k" and c: "pxCurrentTCB k = Some c" and n: "n > 0 \<Longrightarrow> c \<noteq> i \<and> uxSchedulerSuspended k = 0"
  shows "\<exists>k'. vTaskDelay n k = Some k' \<and> kernel_ok D T i k' \<and> uxSchedulerSuspended k' = uxSchedulerSuspended k \<and>
    xPendedTicks k' = xPendedTicks k \<and> progress 0 (if n > 0 then T - {c} else T) k k' \<and>
    (n > 0 \<longrightarrow> event_list k c = None \<longrightarrow> remaining k' c (unat n) \<and> event_list k' c = None)"
proof (cases "n > 0")
  case False
  obtain k' where k': "vTaskSwitchContext k = Some k'" "kernel_ok D T i k'" "switched k k'"
    using switch_placed [OF kernel_okD(1,3) [OF k]] by blast
  then show ?thesis using False switchedD [OF k'(3)] progress_switched [OF k'(3)] by (simp add: vTaskDelay_def)
next
  case True
  have s: "uxSchedulerSuspended k = 0" and ci: "c \<noteq> i" using n [OF True] by simp_all
  have p: "placed D T i (vTaskSuspendAll k)"
    using suspend_all_ok(1) [OF kernel_okD(1) [OF k]] s by (simp add: portMAX_DELAY_def)
  have f: "uxSchedulerSuspended (vTaskSuspendAll k) = 1" "pxCurrentTCB (vTaskSuspendAll k) = Some c"
      "xPendedTicks (vTaskSuspendAll k) = 0" "\<And>t. event_list (vTaskSuspendAll k) t = event_list k t"
      "\<And>t. ready (vTaskSuspendAll k) t = ready k t" "xPendedTicks k = 0"
    using s c placedD(7) [OF kernel_okD(1) [OF k] s] by (simp_all add: vTaskSuspendAll_def)
  obtain k1 k' where r: "prvAddCurrentTaskToDelayedList n False (vTaskSuspendAll k) = Some k1" "resume_and_yield k1 = Some k'"
      "kernel_ok D T i k'" "uxSchedulerSuspended k' = 0" "progress 0 (T - {c}) (vTaskSuspendAll k) k'"
      "event_list k c = None \<longrightarrow> remaining k' c (unat n) \<and> event_list k' c = None"
    using delay_and_yield_ok [OF p f(1,2) ci True, where block = False] kernel_okD(3) [OF k] True
    unfolding f(3,4,5) by (auto simp: free_def unat_gt_0)
  have "vTaskDelay n k = Some k'"
    using True s r(1,2) by (auto simp: vTaskDelay_def resume_and_yield_def)
  moreover have "progress 0 (T - {c}) k k'" using r(5) by (simp add: vTaskSuspendAll_def)
  ultimately show ?thesis using True r(3,4,6) s f(6) placedD(7) [OF kernel_okD(1) [OF r(3)] r(4)] by simp
qed

section \<open>Suspension of tasks\<close>

lemma set_tcb_fields [simp]:
  "klists (set_tcb t f k) = klists k" "pxCurrentTCB (set_tcb t f k) = pxCurrentTCB k"
  "pxDelayedTaskList (set_tcb t f k) = pxDelayedTaskList k" "pxOverflowDelayedTaskList (set_tcb t f k) = pxOverflowDelayedTaskList k"
  "uxCurrentNumberOfTasks (set_tcb t f k) = uxCurrentNumberOfTasks k" "xTickCount (set_tcb t f k) = xTickCount k"
  "uxTopReadyPriority (set_tcb t f k) = uxTopReadyPriority k" "xSchedulerRunning (set_tcb t f k) = xSchedulerRunning k"
  "xPendedTicks (set_tcb t f k) = xPendedTicks k" "xYieldPending (set_tcb t f k) = xYieldPending k"
  "xNumOfOverflows (set_tcb t f k) = xNumOfOverflows k" "xNextTaskUnblockTime (set_tcb t f k) = xNextTaskUnblockTime k"
  "uxSchedulerSuspended (set_tcb t f k) = uxSchedulerSuspended k" "tcb (set_tcb t f k) = (tcb k)(t := f (tcb k t))"
  by (simp_all add: set_tcb_def)

lemma set_tcb_same_priority:
  assumes "uxPriority (f (tcb k t)) = priority k t"
  shows "sched D T X (set_tcb t f k) = sched D T X k" "ready (set_tcb t f k) u = ready k u"
    "placed D T i (set_tcb t f k) = placed D T i k" "best T (set_tcb t f k) = best T k" "free T (set_tcb t f k) = free T k"
    "timely T (set_tcb t f k) = timely T k" "progress n B k' (set_tcb t f k) = progress n B k' k"
proof -
  have p: "priority (set_tcb t f k) u = priority k u" for u using assms by simp
  have r: "ready (set_tcb t f k) u = ready k u" for u unfolding ready_def p by simp
  then show "ready (set_tcb t f k) u = ready k u" .
  have s: "sched D T X (set_tcb t f k) = sched D T X k" for X unfolding sched_def p r by simp
  then show "sched D T X (set_tcb t f k) = sched D T X k" .
  show tm: "timely T (set_tcb t f k) = timely T k" by (simp add: timely_def delayed_def)
  show "placed D T i (set_tcb t f k) = placed D T i k" unfolding placed_def s tm r by simp
  show "best T (set_tcb t f k) = best T k" unfolding best_def p r by simp
  show "free T (set_tcb t f k) = free T k" unfolding free_def r by simp
  show "progress n B k' (set_tcb t f k) = progress n B k' k"
    unfolding progress_def r by (simp add: remaining_def delayed_def)
qed

lemma best_other:
  assumes b: "best T k" and v: "view k k' a e w" and t: "pxCurrentTCB k \<noteq> Some t"
    and a: "\<And>u. u \<noteq> t \<Longrightarrow> a u = state_list k u" "a t \<noteq> Some (unat (priority k t))"
  shows "best T k'"
proof -
  have "ready k u" if "ready k' u" for u
    using that a by (cases "u = t") (auto simp: ready_def viewD [OF v])
  then show ?thesis
    by (intro best_same [OF b]) (use t a(1) in \<open>auto simp: ready_def viewD [OF v]\<close>)
qed

lemma free_view:
  assumes f: "free T k" and v: "view k k' a e w"
    and "\<And>t. t \<in> T \<Longrightarrow> a t = Some (unat (priority k t)) \<Longrightarrow> e t = None \<or> a t = state_list k t \<and> e t = event_list k t"
  shows "free T k'"
proof -
  have "event_list k' t = None" if t: "t \<in> T" "ready k' t" for t
  proof -
    have at: "a t = Some (unat (priority k t))" using t(2) by (simp add: ready_def viewD [OF v])
    from assms(3) [OF t(1) at] show ?thesis
    proof
      assume "a t = state_list k t \<and> e t = event_list k t"
      then show ?thesis using f t(1) at by (auto simp: free_def ready_def viewD [OF v])
    qed (simp add: viewD [OF v])
  qed
  then show ?thesis by (simp add: free_def)
qed

lemma suspend_ok:
  assumes k: "kernel_ok D T i k" and h: "prvGetTCBFromHandle h k = Some t" "t \<in> T" "t \<noteq> i"
    and s: "pxCurrentTCB k = Some t \<Longrightarrow> uxSchedulerSuspended k = 0"
  shows "\<exists>k'. vTaskSuspend h k = Some k' \<and> kernel_ok D T i k' \<and> uxSchedulerSuspended k' = uxSchedulerSuspended k \<and>
    xPendedTicks k' = xPendedTicks k \<and> progress 0 (T - {t}) k k' \<and> state_list k' t = Some 14 \<and> event_list k' t = None"
proof -
  note p = kernel_okD(1) [OF k]
  note sc = placedD(1) [OF p]
  obtain k1 where k1: "remove_item (state_item t) k = Some k1" "sched D T {t} k1"
      "view k k1 ((state_list k)(t := None)) (event_list k) (wake k)"
    using remove_state_view [OF sc h(2)] by auto
  obtain k2 where k2: "remove_from_event t k1 = Some k2" "sched D T {t} k2"
      "view k1 k2 (state_list k1) ((event_list k1)(t := None)) (wake k1)"
    using remove_event_view [OF k1(2) h(2)] by blast
  note v1 = viewD [OF k1(3)] and v2 = viewD [OF k2(3)]
  define k3 where "k3 = on_lists (vListInsertEnd 14 (state_item t)) k2"
  have s3: "sched D T {} k3" and v3: "view k2 k3 ((state_list k2)(t := Some 14)) (event_list k2) (wake k2)"
    using add_end_view [OF k2(2) h(2), of 14] by (simp_all add: k3_def)
  have v: "view k k3 ((state_list k)(t := Some 14)) ((event_list k)(t := None)) (wake k)"
    using view_trans [OF k1(3) view_trans [OF k2(3) v3]] by (simp add: view_def v1 v2)
  have nr: "unat (priority k t) \<noteq> 14" "pxDelayedTaskList k \<noteq> 14" using schedD(5) [OF sc h(2)] schedD(9) [OF sc] by auto
  have tm3: "timely T k3" by (rule timely_view [OF placedD(2) [OF p] v]) (use nr in \<open>auto split: if_splits\<close>)
  have p3: "placed D T i k3" by (rule placed_view [OF p v s3 tm3]) (use h(3) in \<open>auto split: if_splits\<close>)
  have f3: "free T k3" by (rule free_view [OF kernel_okD(3) [OF k] v]) (use nr in \<open>auto split: if_splits\<close>)
  have pr3: "progress 0 (T - {t}) k k3" by (rule progress_0) (auto simp: viewD [OF v])
  define f where "f = (\<lambda>c :: TCB_t. if ucNotifyState c = taskWAITING_NOTIFICATION then c\<lparr>ucNotifyState := taskNOT_WAITING_NOTIFICATION\<rparr> else c)"
  define k4 where "k4 = set_tcb t f k3"
  have fp: "uxPriority (f (tcb k3 t)) = priority k3 t" by (simp add: f_def)
  note same = set_tcb_same_priority [where f = f and k = k3 and t = t, OF fp, folded k4_def]
  obtain n where n: "prvResetNextTaskUnblockTime k4 = k4\<lparr>xNextTaskUnblockTime := n\<rparr>"
    using reset_unblock [of D T "{}" k4] s3 same by auto
  define k5 where "k5 = prvResetNextTaskUnblockTime k4"
  have p5: "placed D T i k5" using placed_reset(1) [of D T i k4] p3 same by (simp add: k5_def)
  have f5: "free T k5" "progress 0 (T - {t}) k k5" "best T k5 = best T k3"
    using f3 pr3 same by (simp_all add: k5_def n)
  have w5: "state_list k5 u = state_list k3 u" "event_list k5 u = event_list k3 u" "uxSchedulerSuspended k5 = uxSchedulerSuspended k"
      "xPendedTicks k5 = xPendedTicks k" "pxCurrentTCB k5 = pxCurrentTCB k" "xSchedulerRunning k5" for u
    using viewD [OF v] placedD(5) [OF p] unfolding k5_def n by (simp_all add: k4_def)
  have run: "vTaskSuspend h k = (if pxCurrentTCB k = Some t then if uxSchedulerSuspended k5 \<noteq> 0 then None else vTaskSwitchContext k5
      else Some k5)"
  proof -
    have "xSchedulerRunning k4" using viewD(10) [OF v] placedD(5) [OF p] by (simp add: k4_def)
    then have e5: "(if xSchedulerRunning k4 then prvResetNextTaskUnblockTime k4 else k4) = k5" by (simp add: k5_def)
    have e3: "on_lists (vListInsertEnd xSuspendedTaskList (state_item t)) k2 = k3" by (simp add: k3_def xSuspendedTaskList_def)
    have e4: "set_tcb t (\<lambda>c. if ucNotifyState c = taskWAITING_NOTIFICATION
        then c\<lparr>ucNotifyState := taskNOT_WAITING_NOTIFICATION\<rparr> else c) k3 = k4" by (simp add: k4_def f_def)
    show ?thesis
      unfolding vTaskSuspend_def h(1) Option.bind.bind_lunit k1(1) k2(1) Let_def e3 e4 e5
      using w5(5,6) by auto
  qed
  show ?thesis
  proof (cases "pxCurrentTCB k = Some t")
    case False
    have "best T k3" by (rule best_other [OF kernel_okD(2) [OF k] v False]) (use nr in auto)
    then show ?thesis using run False p5 f5 w5 viewD [OF v] by (simp add: kernel_ok_def)
  next
    case True
    obtain k6 where k6: "vTaskSwitchContext k5 = Some k6" "kernel_ok D T i k6" "switched k5 k6"
      using switch_placed [OF p5 f5(1)] by blast
    have "progress 0 (T - {t}) k k6" using progress_trans [OF f5(2) progress_switched [OF k6(3)]] by simp
    then show ?thesis using run True s w5 k6(1,2) switchedD [OF k6(3)] viewD [OF v] by simp
  qed
qed

lemma make_ready_ok:
  assumes k: "kernel_ok D T i k" and t: "t \<in> T" "event_list k t = None" and c: "pxCurrentTCB k = Some c"
  shows "\<exists>k'. do { k \<leftarrow> remove_item (state_item t) k; prvAddTaskToReadyList t k } = Some k' \<and>
    placed D T i k' \<and> free T k' \<and> (priority k t \<le> priority k c \<longrightarrow> best T k') \<and>
    view k k' ((state_list k)(t := Some (unat (priority k t)))) (event_list k) (wake k)"
proof -
  note p = kernel_okD(1) [OF k]
  note s = placedD(1) [OF p]
  obtain k1 where k1: "do { k \<leftarrow> remove_item (state_item t) k; prvAddTaskToReadyList t k } = Some k1" "sched D T {} k1"
      "view k k1 ((state_list k)(t := Some (unat (priority k t)))) (event_list k) (wake k)"
    using make_ready_view [OF s t(1)] by blast
  note v = viewD [OF k1(3)]
  have nd: "unat (priority k t) \<noteq> pxDelayedTaskList k" using schedD(5) [OF s t(1)] schedD(9) [OF s] by auto
  have "timely T k1" by (rule timely_view [OF placedD(2) [OF p] k1(3)]) (use nd in \<open>auto split: if_splits\<close>)
  then have "placed D T i k1"
    by (rule placed_view [OF p k1(3,2)]) (use placedD(4) [OF p] in \<open>auto simp: ready_def split: if_splits\<close>)
  moreover have "free T k1" by (rule free_view [OF kernel_okD(3) [OF k] k1(3)]) (use t in \<open>auto split: if_splits\<close>)
  moreover have "best T k1" if le: "priority k t \<le> priority k c"
    by (rule best_same [OF kernel_okD(2) [OF k]]) (use c le in \<open>auto simp: v ready_def split: if_splits\<close>)
  ultimately show ?thesis using k1(1,3) by blast
qed

lemma make_ready_progress:
  assumes "view k k' ((state_list k)(t := Some (unat (priority k t)))) (event_list k) (wake k)"
  shows "progress 0 (T - {t}) k k'"
  by (rule progress_0) (auto simp: viewD [OF assms])

text \<open>A wake-up that is followed by a yield if the task should preempt the running one.\<close>

lemma wake_and_yield_ok:
  assumes k: "kernel_ok D T i k" and t: "t \<in> T" "event_list k t = None" and c: "pxCurrentTCB k = Some c"
    and y: "\<not> y \<longrightarrow> priority k t \<le> priority k c"
  shows "\<exists>k1 k'. do { k \<leftarrow> remove_item (state_item t) k; prvAddTaskToReadyList t k } = Some k1 \<and>
    current_priority k1 = Some (priority k c) \<and> priority k1 t = priority k t \<and> event_list k1 t = None \<and>
    (if y then vTaskSwitchContext k1 else Some k1) = Some k' \<and> kernel_ok D T i k' \<and>
    uxSchedulerSuspended k' = uxSchedulerSuspended k \<and> xPendedTicks k' = xPendedTicks k \<and>
    progress 0 (T - {t}) k k' \<and> ready k' t"
proof -
  obtain k1 where k1: "do { k \<leftarrow> remove_item (state_item t) k; prvAddTaskToReadyList t k } = Some k1" "placed D T i k1"
      "free T k1" "priority k t \<le> priority k c \<longrightarrow> best T k1"
      "view k k1 ((state_list k)(t := Some (unat (priority k t)))) (event_list k) (wake k)"
    using make_ready_ok [OF k t c] by blast
  note v = viewD [OF k1(5)]
  have p: "current_priority k1 = Some (priority k c)" "priority k1 t = priority k t" "event_list k1 t = None"
    using c t(2) v by (simp_all add: current_priority_def)
  have r: "ready k1 t" by (simp add: ready_def v)
  show ?thesis
  proof (cases y)
    case False
    then show ?thesis using k1 p r make_ready_progress [OF k1(5)] v y by (simp add: kernel_ok_def)
  next
    case True
    obtain k2 where k2: "vTaskSwitchContext k1 = Some k2" "kernel_ok D T i k2" "switched k1 k2"
      using switch_placed [OF k1(2,3)] by blast
    have "progress 0 (T - {t}) k k2"
      using progress_trans [OF make_ready_progress [OF k1(5)] progress_switched [OF k2(3)]] by simp
    moreover have "ready k2 t" using r by (simp add: ready_def switchedD [OF k2(3)])
    ultimately show ?thesis using k1(1) p True k2(1,2) switchedD [OF k2(3)] v by simp
  qed
qed

lemma resume_ok:
  assumes k: "kernel_ok D T i k" and t: "t \<in> T"
  shows "\<exists>k'. vTaskResume t k = Some k' \<and> kernel_ok D T i k' \<and> uxSchedulerSuspended k' = uxSchedulerSuspended k \<and>
    xPendedTicks k' = xPendedTicks k \<and> progress 0 (T - {t}) k k' \<and>
    (pxCurrentTCB k \<noteq> Some t \<longrightarrow> state_list k t = Some 14 \<longrightarrow> event_list k t = None \<longrightarrow> ready k' t)"
proof (cases "Some t \<noteq> pxCurrentTCB k \<and> prvTaskIsTaskSuspended t k")
  case False
  have "vTaskResume t k = Some k" unfolding vTaskResume_def if_not_P [OF False] ..
  moreover have "progress 0 (T - {t}) k k" by (rule progress_0) simp_all
  ultimately show ?thesis using k False
    by (auto simp: prvTaskIsTaskSuspended_def listIS_CONTAINED_WITHIN_def listLIST_ITEM_CONTAINER_def xSuspendedTaskList_def
        xPendingReadyList_def)
next
  case True
  then have e: "event_list k t = None" by (simp add: prvTaskIsTaskSuspended_def listLIST_ITEM_CONTAINER_def)
  obtain c where c: "pxCurrentTCB k = Some c" by (rule current_cases [OF k])
  obtain k1 k' where r: "do { k \<leftarrow> remove_item (state_item t) k; prvAddTaskToReadyList t k } = Some k1"
      "current_priority k1 = Some (priority k c)" "priority k1 t = priority k t"
      "(if priority k t \<ge> priority k c then vTaskSwitchContext k1 else Some k1) = Some k'" "kernel_ok D T i k'"
      "uxSchedulerSuspended k' = uxSchedulerSuspended k" "xPendedTicks k' = xPendedTicks k" "progress 0 (T - {t}) k k'" "ready k' t"
    using wake_and_yield_ok [OF k t e c, of "priority k t \<ge> priority k c"] by (auto simp: not_le less_imp_le)
  obtain k0 where k0: "remove_item (state_item t) k = Some k0" "prvAddTaskToReadyList t k0 = Some k1"
    using r(1) by (auto simp: bind_eq_Some_conv)
  have "vTaskResume t k = Some k'"
    unfolding vTaskResume_def if_P [OF True] k0 Option.bind.bind_lunit r(2,3) by (rule r(4))
  then show ?thesis using r by blast
qed

lemma resume_from_isr_ok:
  assumes k: "kernel_ok D T i k" and t: "t \<in> T"
  shows "\<exists>y k'. xTaskResumeFromISR t k = Some (y, k') \<and> kernel_ok D T i k' \<and> uxSchedulerSuspended k' = uxSchedulerSuspended k \<and>
    xPendedTicks k' = xPendedTicks k \<and> progress 0 (T - {t}) k k'"
proof (cases "prvTaskIsTaskSuspended t k")
  case False
  moreover have "progress 0 (T - {t}) k k" by (rule progress_0) simp_all
  ultimately show ?thesis using k by (intro exI [of _ False] exI [of _ k]) (simp add: xTaskResumeFromISR_def)
next
  case True
  then have e: "event_list k t = None" "state_list k t = Some 14"
    by (simp_all add: prvTaskIsTaskSuspended_def listLIST_ITEM_CONTAINER_def listIS_CONTAINED_WITHIN_def xSuspendedTaskList_def)
  note p = kernel_okD(1) [OF k]
  note s = placedD(1) [OF p]
  obtain c where c: "pxCurrentTCB k = Some c" by (rule current_cases [OF k])
  show ?thesis
  proof (cases "uxSchedulerSuspended k = 0")
    case False
    let ?k = "on_lists (vListInsertEnd 12 (event_item t)) k"
    have s1: "sched D T {} ?k" and v: "view k ?k (state_list k) ((event_list k)(t := Some 12)) (wake k)"
      using add_event_view(1,2) [OF s t e(1), of 12] by simp_all
    have nr: "unat (priority k t) \<noteq> 14" using schedD(5) [OF s t] by auto
    have "timely T ?k" by (rule timely_view [OF placedD(2) [OF p] v]) simp
    then have "placed D T i ?k" by (rule placed_view [OF p v s1]) (use False in auto)
    moreover have "best T ?k" by (rule best_same [OF kernel_okD(2) [OF k]]) (auto simp: viewD [OF v] ready_def)
    moreover have "free T ?k" by (rule free_view [OF kernel_okD(3) [OF k] v]) (use nr e in auto)
    moreover have "progress 0 (T - {t}) k ?k" by (rule progress_0) (auto simp: viewD [OF v])
    ultimately show ?thesis using True False viewD [OF v]
      by (intro exI [of _ False] exI [of _ ?k]) (simp add: xTaskResumeFromISR_def kernel_ok_def xPendingReadyList_def)
  next
    case run: True
    define y where "y \<longleftrightarrow> priority k t \<ge> priority k c"
    let ?k = "k\<lparr>xYieldPending := y \<or> xYieldPending k\<rparr>"
    have ky: "(if y then k\<lparr>xYieldPending := True\<rparr> else k) = ?k" by simp
    have k': "kernel_ok D T i ?k" using k by (cases y) (simp_all add: kernel_ok_def)
    obtain k1 where k1: "do { k \<leftarrow> remove_item (state_item t) ?k; prvAddTaskToReadyList t k } = Some k1" "placed D T i k1" "free T k1"
        "priority k t \<le> priority k c \<longrightarrow> best T k1"
        "view ?k k1 ((state_list ?k)(t := Some (unat (priority ?k t)))) (event_list ?k) (wake ?k)"
      using make_ready_ok [OF k' t, of c] e(1) c by auto
    note v = viewD [OF k1(5)]
    have "best T k1" using k1(4) v(12) by (cases y) (auto simp: y_def best_def)
    moreover have "progress 0 (T - {t}) ?k k1" using make_ready_progress [OF k1(5)] .
    then have "progress 0 (T - {t}) k k1" by (simp add: progress_def remaining_def delayed_def)
    moreover have "xTaskResumeFromISR t k = Some (y, k1)"
      using True run k1(1) c ky unfolding xTaskResumeFromISR_def by (auto simp: current_priority_def y_def bind_eq_Some_conv Let_def)
    ultimately show ?thesis using k1(2,3) v by (intro exI [of _ y] exI [of _ k1]) (simp add: kernel_ok_def)
  qed
qed

section \<open>Changing a priority\<close>

lemma remove_set_tcb: "remove_item i (set_tcb t f k) = map_option (set_tcb t f) (remove_item i k)"
  by (cases "uxListRemove i (klists k)") (auto simp: remove_item_def set_tcb_def split: prod.splits)

lemma sched_set_priority:
  assumes k: "sched D T X k" and t: "t \<in> T" "\<not> ready k t" and q: "unat (uxPriority (g (tcb k t))) < 10"
  shows "sched D T X (set_tcb t g k)" and "ready (set_tcb t g k) u = ready k u"
proof -
  have high: "10 \<le> l" if "state_list k t = Some l" for l
    using schedD(7) [OF k t(1) that] t(2) that by (auto simp: ready_def)
  have nr: "\<not> ready (set_tcb t g k) t" using high q by (fastforce simp: ready_def)
  then have r: "ready (set_tcb t g k) u = ready k u" for u using t(2) by (cases "u = t") (simp_all add: ready_def)
  then show "ready (set_tcb t g k) u = ready k u" .
  have le: "priority (set_tcb t g k) u \<le> uxTopReadyPriority k" if "u \<in> T" "ready k u" for u
    using k that t(2) by (cases "u = t") (auto simp: sched_def)
  have places: "l = unat (priority (set_tcb t g k) u) \<or> l = 10 \<or> l = 11 \<or> l = 13 \<or> l = 14"
    if u: "u \<in> T" "state_list k u = Some l" for u l
    using schedD(7) [OF k u] high schedD(5) [OF k t(1)] u by (cases "u = t") fastforce+
  show "sched D T X (set_tcb t g k)"
    using k q r le places unfolding sched_def by (simp del: set_tcb_fields(14)) (auto)
qed

text \<open>The value of the event item and the priority of the task change, and a ready task moves to its new list.\<close>

lemma follow_view:
  assumes k: "sched D T X k" and t: "t \<in> T"
  shows "sched D T X (follow_priority t p k)" and "view k (follow_priority t p k) (state_list k) (event_list k) (wake k)"
  using set_event_value_view [OF k t] k view_refl [of k] by (simp_all add: follow_priority_def)

definition requeue :: "nat \<Rightarrow> u32 \<Rightarrow> kernel \<Rightarrow> kernel option" where
  "requeue t p k =
     do {
       ready \<leftarrow> is_ready_at p t k;
       if ready then do { k \<leftarrow> remove_item (state_item t) k; prvAddTaskToReadyList t k } else Some k
     }"

lemma requeue_ok:
  assumes k: "placed D T i k" and t: "t \<in> T" and q: "unat (uxPriority (g (tcb k t))) < 10"
  shows "\<exists>k'. requeue t (priority k t) (follow_priority t p (set_tcb t g k)) = Some k' \<and> placed D T i k' \<and>
    (\<forall>u. ready k' u = ready k u) \<and> (\<forall>u. u \<noteq> t \<longrightarrow> state_list k' u = state_list k u) \<and>
    (\<forall>u. event_list k' u = event_list k u) \<and> (\<forall>u. wake k' u = wake k u) \<and> tcb k' = (tcb k)(t := g (tcb k t)) \<and>
    pxCurrentTCB k' = pxCurrentTCB k \<and> xYieldPending k' = xYieldPending k \<and>
    pxDelayedTaskList k' = pxDelayedTaskList k \<and> pxOverflowDelayedTaskList k' = pxOverflowDelayedTaskList k \<and>
    xTickCount k' = xTickCount k \<and> xPendedTicks k' = xPendedTicks k \<and> uxSchedulerSuspended k' = uxSchedulerSuspended k"
proof -
  note s = placedD(1) [OF k]
  define kf where "kf = follow_priority t p k"
  have sf: "sched D T {} kf" and vf: "view k kf (state_list k) (event_list k) (wake k)"
    using follow_view [OF s t] by (simp_all add: kf_def)
  note v = viewD [OF vf]
  have swap: "follow_priority t p (set_tcb t g k) = set_tcb t g kf"
    by (simp add: kf_def follow_priority_def on_lists_def set_tcb_def)
  have at: "is_ready_at (priority k t) t (set_tcb t g kf) = Some (ready k t)"
    using schedD(5) [OF s t] v(1) by (simp add: is_ready_at_def ready_list_ok ready_def listIS_CONTAINED_WITHIN_def)
  have tm: "timely T kf" by (rule timely_view [OF placedD(2) [OF k] vf]) simp
  have rf: "ready kf u = ready k u" for u by (simp add: ready_def v)
  show ?thesis
  proof (cases "ready k t")
    case False
    have nf: "\<not> ready kf t" and qf: "unat (uxPriority (g (tcb kf t))) < 10" using False rf q v(4) by simp_all
    have "sched D T {} (set_tcb t g kf)" "\<And>u. ready (set_tcb t g kf) u = ready k u"
      using sched_set_priority [where g = g, OF sf t nf qf] rf by simp_all
    moreover from this have "placed D T i (set_tcb t g kf)"
      using k tm by (simp add: placed_def v timely_def delayed_def)
    ultimately show ?thesis using swap at False by (simp add: requeue_def v)
  next
    case True
    obtain kr where kr: "remove_item (state_item t) kf = Some kr" "sched D T {t} kr"
        "view kf kr ((state_list kf)(t := None)) (event_list kf) (wake kf)"
      using remove_state_view [OF sf t] by auto
    note r = viewD [OF kr(3)]
    define kt where "kt = set_tcb t g kr"
    have nr: "\<not> ready kr t" and qr: "unat (uxPriority (g (tcb kr t))) < 10"
      using q r by (simp_all add: ready_def v(4))
    have st: "sched D T {t} kt" using sched_set_priority(1) [where g = g, OF kr(2) t nr qr] by (simp add: kt_def)
    obtain ka where ka: "prvAddTaskToReadyList t kt = Some ka" "sched D T {} ka"
        "view kt ka ((state_list kt)(t := Some (unat (priority kt t)))) (event_list kt) (wake kt)"
      using add_ready_view [OF st t] by auto
    note w = viewD [OF ka(3)]
    have kt: "state_list kt u = (if u = t then None else state_list k u)" "event_list kt u = event_list k u"
        "wake kt u = wake k u" "tcb kt = (tcb k)(t := g (tcb k t))" for u
      by (simp_all add: kt_def r v)
    have ra: "ready ka u = ready k u" for u
      using True by (cases "u = t") (simp_all add: ready_def w kt)
    have nd: "unat (priority kt t) \<noteq> pxDelayedTaskList k" using q schedD(9) [OF s] by (auto simp: kt)
    have "timely T ka"
      using placedD(2) [OF k] nd unfolding timely_def delayed_def
      by (auto simp: w kt) (simp_all add: kt_def r v)
    then have "placed D T i ka"
      using k ka(2) ra unfolding placed_def by (auto simp: w kt) (simp_all add: kt_def r v)
    moreover have "requeue t (priority k t) (set_tcb t g kf) = Some ka"
      using at True kr(1) ka(1) by (simp add: requeue_def remove_set_tcb kt_def)
    moreover have "pxCurrentTCB ka = pxCurrentTCB k" "xYieldPending ka = xYieldPending k"
        "pxDelayedTaskList ka = pxDelayedTaskList k" "pxOverflowDelayedTaskList ka = pxOverflowDelayedTaskList k"
        "xTickCount ka = xTickCount k" "xPendedTicks ka = xPendedTicks k" "uxSchedulerSuspended ka = uxSchedulerSuspended k"
      by (simp_all add: w) (simp_all add: kt_def r v)
    ultimately show ?thesis unfolding swap using ra by (intro exI [of _ ka]) (simp add: w kt)
  qed
qed

lemma priority_set_run:
  "vTaskPrioritySet h p k =
     (if p \<ge> configMAX_PRIORITIES then None
      else do {
        t \<leftarrow> prvGetTCBFromHandle h k;
        let b = uxBasePriority (tcb k t);
        if b \<noteq> p
        then do {
          y \<leftarrow> (if p > b then if Some t \<noteq> pxCurrentTCB k then map_option (\<lambda>c. p \<ge> c) (current_priority k) else Some False
               else Some (Some t = pxCurrentTCB k));
          k \<leftarrow> requeue t (priority k t) (follow_priority t p (set_tcb t
            (\<lambda>c. (if uxBasePriority c = uxPriority c then c\<lparr>uxPriority := p\<rparr> else c)\<lparr>uxBasePriority := p\<rparr>) k));
          if y then vTaskSwitchContext k else Some k
        }
        else Some k
      })"
proof -
  have "set_tcb t g (set_tcb t f k) = set_tcb t (\<lambda>c. g (f c)) k" for t f g by (simp add: set_tcb_def)
  then show ?thesis by (simp add: vTaskPrioritySet_def requeue_def Let_def cong: if_cong)
qed

lemma priority_set_ok:
  assumes k: "kernel_ok D T i k" and h: "prvGetTCBFromHandle h k = Some t" "t \<in> T" and p: "p < 10"
  shows "\<exists>k'. vTaskPrioritySet h p k = Some k' \<and> kernel_ok D T i k' \<and> uxSchedulerSuspended k' = uxSchedulerSuspended k \<and>
    xPendedTicks k' = xPendedTicks k \<and> progress 0 (T - {t}) k k' \<and> (ready k' t = ready k t)"
proof (cases "uxBasePriority (tcb k t) = p")
  case True
  moreover have "progress 0 (T - {t}) k k" by (rule progress_0) simp_all
  ultimately show ?thesis using k h p by (simp add: priority_set_run configMAX_PRIORITIES_def not_le)
next
  case False
  define g where "g = (\<lambda>c :: TCB_t. (if uxBasePriority c = uxPriority c then c\<lparr>uxPriority := p\<rparr> else c)\<lparr>uxBasePriority := p\<rparr>)"
  note pl = kernel_okD(1) [OF k]
  obtain c where c: "c \<in> T" "pxCurrentTCB k = Some c" by (rule current_cases [OF k])
  have q: "unat (uxPriority (g (tcb k t))) < 10"
    using schedD(5) [OF placedD(1) [OF pl] h(2)] p by (auto simp: g_def word_less_nat_alt)
  obtain k1 where k1: "requeue t (priority k t) (follow_priority t p (set_tcb t g k)) = Some k1" "placed D T i k1"
      and v: "\<And>u. ready k1 u = ready k u" "\<And>u. u \<noteq> t \<Longrightarrow> state_list k1 u = state_list k u"
        "\<And>u. event_list k1 u = event_list k u" "\<And>u. wake k1 u = wake k u" "tcb k1 = (tcb k)(t := g (tcb k t))"
        "pxCurrentTCB k1 = pxCurrentTCB k" "xYieldPending k1 = xYieldPending k"
        "pxDelayedTaskList k1 = pxDelayedTaskList k" "pxOverflowDelayedTaskList k1 = pxOverflowDelayedTaskList k"
        "xTickCount k1 = xTickCount k" "xPendedTicks k1 = xPendedTicks k" "uxSchedulerSuspended k1 = uxSchedulerSuspended k"
    using requeue_ok [where g = g and p = p, OF pl h(2) q] by blast
  have fr: "free T k1" using kernel_okD(3) [OF k] by (simp add: free_def v)
  have pr: "progress 0 (T - {t}) k k1" by (rule progress_0) (auto simp: v)
  define y where "y \<longleftrightarrow> (if p > uxBasePriority (tcb k t) then t \<noteq> c \<and> p \<ge> priority k c else t = c)"
  have run: "vTaskPrioritySet h p k = (if y then vTaskSwitchContext k1 else Some k1)"
    using False h(1) p c(2) k1(1) unfolding priority_set_run g_def [symmetric]
    by (auto simp: configMAX_PRIORITIES_def not_le [symmetric] y_def current_priority_def)
  show ?thesis
  proof (cases y)
    case False
    have up: "priority k c \<le> priority k1 c"
      using False by (auto simp: v y_def g_def split: if_splits)
    have "best T k1"
    proof (rule best_same [OF kernel_okD(2) [OF k]])
      fix u assume u: "u \<in> T" "ready k1 u"
      have "priority k1 u \<le> priority k u \<or> priority k1 u \<le> priority k1 c"
        using False up by (auto simp: v y_def g_def not_le split: if_splits)
      then show "ready k u \<and> priority k1 u \<le> priority k u \<or> (\<exists>c. pxCurrentTCB k = Some c \<and> priority k1 u \<le> priority k1 c)"
        using u c(2) v(1) by blast
    qed (use up c v in auto)
    then show ?thesis using run False k1(2) fr pr v by (simp add: kernel_ok_def)
  next
    case True
    obtain k2 where k2: "vTaskSwitchContext k1 = Some k2" "kernel_ok D T i k2" "switched k1 k2"
      using switch_placed [OF k1(2) fr] by blast
    have "progress 0 (T - {t}) k k2" using progress_trans [OF pr progress_switched [OF k2(3)]] by simp
    moreover have "ready k2 t = ready k t" using v(1) [of t] by (simp add: ready_def switchedD [OF k2(3)])
    ultimately show ?thesis using run True k2(1,2) switchedD [OF k2(3)] v by simp
  qed
qed

section \<open>Events\<close>

text \<open>
  How a task waits on a list of an event, in the order of the functions of \<open>queue.c\<close> that block: with the
  scheduler suspended it is put into the list and into a delayed list; then the scheduler is resumed and the
  task yields.
\<close>

definition wait_on_list :: "nat \<Rightarrow> u32 \<Rightarrow> kernel \<Rightarrow> kernel option" where
  "wait_on_list l n k = do { k \<leftarrow> vTaskPlaceOnEventList l n (vTaskSuspendAll k); resume_and_yield k }"

lemma place_on_event_ok:
  assumes k: "placed D T i k" and s: "uxSchedulerSuspended k = 1" and c: "pxCurrentTCB k = Some c" "c \<noteq> i" and n: "n > 0"
    and fr: "free T k" "event_list k c = None" and l: "l \<in> D" "15 \<le> l"
  shows "\<exists>k1 k'. vTaskPlaceOnEventList l n k = Some k1 \<and> resume_and_yield k1 = Some k' \<and> kernel_ok D T i k' \<and>
    uxSchedulerSuspended k' = 0 \<and> progress (unat (xPendedTicks k)) (T - {c}) k k'"
proof -
  note sc = placedD(1) [OF k]
  have cT: "c \<in> T" using sc c(1) by (auto simp: sched_def)
  obtain k0 where k0: "insert_item l (event_item c) k = Some k0" "sched D T {} k0"
      "view k k0 (state_list k) ((event_list k)(c := Some l)) (wake k)"
    using add_event_view(3) [OF sc cT fr(2)] l by blast
  note v = viewD [OF k0(3)]
  have "timely T k0" by (rule timely_view [OF placedD(2) [OF k] k0(3)]) simp
  then have p0: "placed D T i k0" by (rule placed_view [OF k k0(3,2)]) (use l in \<open>auto split: if_splits\<close>)
  have f0: "uxSchedulerSuspended k0 = 1" "pxCurrentTCB k0 = Some c" "xPendedTicks k0 = xPendedTicks k"
    using s c(1) v by simp_all
  have fr0: "event_list k0 t = None" if "t \<in> T" "t \<noteq> c" "ready k0 t" for t
    using fr(1) that by (auto simp: free_def ready_def v)
  obtain k1 k' where r: "prvAddCurrentTaskToDelayedList n True k0 = Some k1" "resume_and_yield k1 = Some k'" "kernel_ok D T i k'"
      "uxSchedulerSuspended k' = 0" "progress (unat (xPendedTicks k0)) (T - {c}) k0 k'"
    using delay_and_yield_ok [OF p0 f0(1,2) c(2) n, where block = True] fr0 by blast
  have "progress 0 (T - {c}) k k0" by (rule progress_0) (auto simp: v)
  then have "progress (unat (xPendedTicks k)) (T - {c}) k k'" using progress_trans [OF _ r(5), of 0 k] f0(3) by simp
  moreover have "vTaskPlaceOnEventList l n k = Some k1" using c(1) k0(1) r(1) by (simp add: vTaskPlaceOnEventList_def)
  ultimately show ?thesis using r(2-4) by blast
qed

lemma suspend_all_once:
  assumes k: "kernel_ok D T i k" and s: "uxSchedulerSuspended k = 0"
  shows "placed D T i (vTaskSuspendAll k)" "free T (vTaskSuspendAll k)" "uxSchedulerSuspended (vTaskSuspendAll k) = 1"
    "xPendedTicks (vTaskSuspendAll k) = 0" "pxCurrentTCB (vTaskSuspendAll k) = pxCurrentTCB k"
    "progress n B (vTaskSuspendAll k) k' = progress n B k k'"
  using suspend_all_ok(1) [OF kernel_okD(1) [OF k]] s kernel_okD(3) [OF k] placedD(7) [OF kernel_okD(1) [OF k]]
  by (simp_all add: portMAX_DELAY_def vTaskSuspendAll_def)

lemma wait_on_list_ok:
  assumes k: "kernel_ok D T i k" and s: "uxSchedulerSuspended k = 0" and c: "pxCurrentTCB k = Some c" "c \<noteq> i" and n: "n > 0"
    and e: "event_list k c = None" and l: "l \<in> D" "15 \<le> l"
  shows "\<exists>k'. wait_on_list l n k = Some k' \<and> kernel_ok D T i k' \<and> uxSchedulerSuspended k' = 0 \<and> xPendedTicks k' = 0 \<and>
    progress 0 (T - {c}) k k'"
proof -
  note a = suspend_all_once [OF k s]
  have c': "pxCurrentTCB (vTaskSuspendAll k) = Some c" using c(1) a(5) by simp
  have e': "event_list (vTaskSuspendAll k) c = None" using e by (simp add: vTaskSuspendAll_def)
  obtain k1 k' where r: "vTaskPlaceOnEventList l n (vTaskSuspendAll k) = Some k1" "resume_and_yield k1 = Some k'"
      "kernel_ok D T i k'" "uxSchedulerSuspended k' = 0" "progress 0 (T - {c}) k k'"
    using place_on_event_ok [OF a(1,3) c' c(2) n a(2) e' l] unfolding a(4,6) by auto
  then show ?thesis using placedD(7) [OF kernel_okD(1) [OF r(3)] r(4)] by (simp add: wait_on_list_def)
qed

lemma remove_from_event_list_ok:
  assumes k: "kernel_ok D T i k" and l: "l \<in> D" "15 \<le> l" and u: "u \<in> T" "event_list k u = Some l"
    and c: "pxCurrentTCB k = Some c"
  shows "\<exists>t k'. t \<in> T \<and> event_list k t = Some l \<and> xTaskRemoveFromEventList l k = Some (priority k t > priority k c, k') \<and>
    kernel_ok D T i k' \<and> uxSchedulerSuspended k' = uxSchedulerSuspended k \<and> xPendedTicks k' = xPendedTicks k \<and>
    progress 0 T k k' \<and> (uxSchedulerSuspended k = 0 \<longrightarrow> ready k' t)"
proof -
  note p = kernel_okD(1) [OF k]
  note s = placedD(1) [OF p]
  obtain t where t: "t \<in> T" "event_list k t = Some l" "listGET_OWNER_OF_HEAD_ENTRY l (klists k) = Some t"
    using event_head [OF s l(1) disjI2 [OF l(2)] u] by blast
  have nr: "state_list k t \<noteq> Some (unat (priority k t))" using kernel_okD(3) [OF k] t(1,2) by (auto simp: free_def ready_def)
  obtain k1 where k1: "remove_item (event_item t) k = Some k1" "sched D T {} k1"
      "view k k1 (state_list k) ((event_list k)(t := None)) (wake k)"
    using remove_event_item_view [OF s t(1)] t(2) by auto
  note v = viewD [OF k1(3)]
  have "timely T k1" by (rule timely_view [OF placedD(2) [OF p] k1(3)]) simp
  then have p1: "placed D T i k1" by (rule placed_view [OF p k1(3,2)]) (use l in \<open>auto split: if_splits\<close>)
  have b1: "best T k1" by (rule best_same [OF kernel_okD(2) [OF k]]) (auto simp: ready_def v)
  have f1: "free T k1" by (rule free_view [OF kernel_okD(3) [OF k] k1(3)]) (use nr in auto)
  have k1ok: "kernel_ok D T i k1" using p1 b1 f1 by (simp add: kernel_ok_def)
  have pr1: "progress 0 T k k1" by (rule progress_0) (auto simp: v)
  have c1: "pxCurrentTCB k1 = Some c" using c v by simp
  have run: "xTaskRemoveFromEventList l k = Some (priority k t > priority k c,
      if priority k t > priority k c then k2\<lparr>xYieldPending := True\<rparr> else k2)"
    if k2: "(if uxSchedulerSuspended k1 = 0 then do { k \<leftarrow> remove_item (state_item t) k1; prvAddTaskToReadyList t k }
      else Some (on_lists (vListInsertEnd xPendingReadyList (event_item t)) k1)) = Some k2"
      "tcb k2 = tcb k" "pxCurrentTCB k2 = Some c" for k2
    using t(3) k1(1) k2 unfolding xTaskRemoveFromEventList_def by (simp add: current_priority_def)
  show ?thesis
  proof (cases "uxSchedulerSuspended k = 0")
    case True
    obtain k2 where k2: "do { k \<leftarrow> remove_item (state_item t) k1; prvAddTaskToReadyList t k } = Some k2" "placed D T i k2"
        "free T k2" "priority k1 t \<le> priority k1 c \<longrightarrow> best T k2"
        "view k1 k2 ((state_list k1)(t := Some (unat (priority k1 t)))) (event_list k1) (wake k1)"
      using make_ready_ok [OF k1ok t(1) _ c1] v(2) by auto
    note w = viewD [OF k2(5)]
    have pr: "progress 0 T k k2"
      by (rule progress_0) (use t(2) in \<open>auto simp: w v\<close>)
    define k3 where "k3 = (if priority k t > priority k c then k2\<lparr>xYieldPending := True\<rparr> else k2)"
    have "kernel_ok D T i k3" "progress 0 T k k3" "ready k3 t"
      using k2(2-4) pr v(4) by (auto simp: k3_def kernel_ok_def ready_def w not_less)
    moreover have "uxSchedulerSuspended k3 = uxSchedulerSuspended k" "xPendedTicks k3 = xPendedTicks k"
      by (simp_all add: k3_def w v)
    moreover have "xTaskRemoveFromEventList l k = Some (priority k t > priority k c, k3)"
      using run [of k2] k2(1) True v w c1 by (simp add: k3_def)
    ultimately show ?thesis using t(1,2) by (intro exI [of _ t] exI [of _ k3]) simp
  next
    case False
    define k2 where "k2 = on_lists (vListInsertEnd 12 (event_item t)) k1"
    have e1: "event_list k1 t = None" using v by simp
    have s2: "sched D T {} k2" and v2: "view k1 k2 (state_list k1) ((event_list k1)(t := Some 12)) (wake k1)"
      using add_event_view(1,2) [OF k1(2) t(1) e1, of 12] by (simp_all add: k2_def)
    note w = viewD [OF v2]
    have "timely T k2" by (rule timely_view [OF placedD(2) [OF p1] v2]) simp
    then have p2: "placed D T i k2" by (rule placed_view [OF p1 v2 s2]) (use False v in auto)
    have b2: "best T k2" by (rule best_same [OF b1]) (auto simp: w ready_def)
    have f2: "free T k2" by (rule free_view [OF f1 v2]) (use nr in \<open>auto simp: v\<close>)
    define k3 where "k3 = (if priority k t > priority k c then k2\<lparr>xYieldPending := True\<rparr> else k2)"
    have pr: "progress 0 T k k2" by (rule progress_0) (use t(2) in \<open>auto simp: w v\<close>)
    have "kernel_ok D T i k3" "progress 0 T k k3" using p2 b2 f2 pr by (simp_all add: k3_def kernel_ok_def)
    moreover have "uxSchedulerSuspended k3 = uxSchedulerSuspended k" "xPendedTicks k3 = xPendedTicks k"
      by (simp_all add: k3_def w v)
    moreover have "xTaskRemoveFromEventList l k = Some (priority k t > priority k c, k3)"
      using run [of k2] False v w c1 by (simp add: k3_def k2_def xPendingReadyList_def)
    ultimately show ?thesis using t(1,2) False by (intro exI [of _ t] exI [of _ k3]) simp
  qed
qed

section \<open>Notifications\<close>

lemma kernel_ok_tcb:
  assumes "uxPriority (f (tcb k t)) = priority k t"
  shows "kernel_ok D T i (set_tcb t f k) = kernel_ok D T i k" "progress n B (set_tcb t f k) k' = progress n B k k'"
proof -
  note s = set_tcb_same_priority [where f = f and k = k and t = t, OF assms]
  show "kernel_ok D T i (set_tcb t f k) = kernel_ok D T i k" by (simp add: kernel_ok_def s)
  show "progress n B (set_tcb t f k) k' = progress n B k k'"
    unfolding progress_def s(2) by (simp add: remaining_def delayed_def)
qed

lemma notify_ok:
  assumes k: "kernel_ok D T i k" and t: "t \<in> T" and w: "ucNotifyState (tcb k t) = taskWAITING_NOTIFICATION \<Longrightarrow> event_list k t = None"
  shows "\<exists>k'. xTaskGenericNotify t 0 v a k =
      Some (fst (notify_value a v (ucNotifyState (tcb k t)) (ulNotifiedValue (tcb k t))), ulNotifiedValue (tcb k t), k') \<and>
    kernel_ok D T i k' \<and> uxSchedulerSuspended k' = uxSchedulerSuspended k \<and> xPendedTicks k' = xPendedTicks k \<and>
    progress 0 (T - {t}) k k' \<and> (ucNotifyState (tcb k t) = taskWAITING_NOTIFICATION \<longrightarrow> ready k' t)"
proof -
  obtain c where c: "pxCurrentTCB k = Some c" by (rule current_cases [OF k])
  define r where "r = notify_value a v (ucNotifyState (tcb k t)) (ulNotifiedValue (tcb k t))"
  define f where "f = (\<lambda>c :: TCB_t. c\<lparr>ulNotifiedValue := snd r, ucNotifyState := taskNOTIFICATION_RECEIVED\<rparr>)"
  define k0 where "k0 = set_tcb t f k"
  have "uxPriority (f (tcb k t)) = priority k t" by (simp add: f_def)
  note s = kernel_ok_tcb [where f = f and k = k and t = t, OF this, folded k0_def]
  have k0: "kernel_ok D T i k0" using k s by simp
  show ?thesis
  proof (cases "ucNotifyState (tcb k t) = taskWAITING_NOTIFICATION")
    case False
    have "xTaskGenericNotify t 0 v a k = Some (fst r, ulNotifiedValue (tcb k t), k0)"
      using False by (simp add: xTaskGenericNotify_def configTASK_NOTIFICATION_ARRAY_ENTRIES_def Let_def
        r_def [symmetric] split_beta k0_def f_def)
    moreover have "progress 0 (T - {t}) k k0"
      using s(2) [of 0 "T - {t}" k0] by (simp add: progress_0)
    ultimately show ?thesis using False k0 by (simp add: r_def k0_def)
  next
    case True
    have e: "event_list k0 t = None" using w [OF True] by (simp add: k0_def)
    have c0: "pxCurrentTCB k0 = Some c" using c by (simp add: k0_def)
    obtain k1 k' where q: "do { k \<leftarrow> remove_item (state_item t) k0; prvAddTaskToReadyList t k } = Some k1"
        "current_priority k1 = Some (priority k0 c)" "priority k1 t = priority k0 t" "event_list k1 t = None"
        "(if priority k0 t > priority k0 c then vTaskSwitchContext k1 else Some k1) = Some k'" "kernel_ok D T i k'"
        "uxSchedulerSuspended k' = uxSchedulerSuspended k0" "xPendedTicks k' = xPendedTicks k0"
        "progress 0 (T - {t}) k0 k'" "ready k' t"
      using wake_and_yield_ok [OF k0 t e c0, of "priority k0 t > priority k0 c"] by (auto simp: not_less)
    obtain kr where kr: "remove_item (state_item t) k0 = Some kr" "prvAddTaskToReadyList t kr = Some k1"
      using q(1) by (auto simp: bind_eq_Some_conv)
    have "xTaskGenericNotify t 0 v a k = Some (fst r, ulNotifiedValue (tcb k t), k')"
      using True kr q(2-5)
      unfolding xTaskGenericNotify_def Let_def r_def [symmetric] split_beta f_def [symmetric] k0_def [symmetric]
      by (simp add: configTASK_NOTIFICATION_ARRAY_ENTRIES_def listLIST_ITEM_CONTAINER_def split: if_splits)
    then show ?thesis using q(6-10) s(2) by (simp add: r_def k0_def)
  qed
qed

lemma wake_from_isr_ok:
  assumes k: "kernel_ok D T i k" and t: "t \<in> T" and w: "n = taskWAITING_NOTIFICATION \<Longrightarrow> event_list k t = None"
    and nr: "n = taskWAITING_NOTIFICATION \<Longrightarrow> uxSchedulerSuspended k \<noteq> 0 \<Longrightarrow> \<not> ready k t"
  shows "\<exists>y k'. wake_from_isr t n k = Some (y, k') \<and> kernel_ok D T i k' \<and> uxSchedulerSuspended k' = uxSchedulerSuspended k \<and>
    xPendedTicks k' = xPendedTicks k \<and> progress 0 (T - {t}) k k'"
proof (cases "n = taskWAITING_NOTIFICATION")
  case False
  moreover have "progress 0 (T - {t}) k k" by (rule progress_0) simp_all
  ultimately show ?thesis using k by (intro exI [of _ False] exI [of _ k]) (simp add: wake_from_isr_def)
next
  case True
  have e: "event_list k t = None" by (rule w [OF True])
  note p = kernel_okD(1) [OF k]
  obtain c where c: "pxCurrentTCB k = Some c" by (rule current_cases [OF k])
  define y where "y \<longleftrightarrow> priority k t > priority k c"
  have fin: ?thesis if k1: "wake_from_isr t n k = Some (y, if y then k1\<lparr>xYieldPending := True\<rparr> else k1)" "placed D T i k1" "free T k1"
      "\<not> y \<longrightarrow> best T k1" "progress 0 (T - {t}) k k1" "uxSchedulerSuspended k1 = uxSchedulerSuspended k"
      "xPendedTicks k1 = xPendedTicks k" for k1
    using k1 by (intro exI [of _ y] exI [of _ "if y then k1\<lparr>xYieldPending := True\<rparr> else k1"]) (simp add: kernel_ok_def)
  show ?thesis
  proof (cases "uxSchedulerSuspended k = 0")
    case run: True
    obtain k1 where k1: "do { k \<leftarrow> remove_item (state_item t) k; prvAddTaskToReadyList t k } = Some k1" "placed D T i k1"
        "free T k1" "priority k t \<le> priority k c \<longrightarrow> best T k1"
        "view k k1 ((state_list k)(t := Some (unat (priority k t)))) (event_list k) (wake k)"
      using make_ready_ok [OF k t e c] by blast
    note v = viewD [OF k1(5)]
    show ?thesis
    proof (rule fin [OF _ k1(2,3)])
      show "wake_from_isr t n k = Some (y, if y then k1\<lparr>xYieldPending := True\<rparr> else k1)"
        using True run e k1(1) c v by (simp add: wake_from_isr_def listLIST_ITEM_CONTAINER_def current_priority_def y_def)
    qed (use k1(4) make_ready_progress [OF k1(5)] v in \<open>auto simp: y_def not_less\<close>)
  next
    case False
    define k1 where "k1 = on_lists (vListInsertEnd 12 (event_item t)) k"
    have s1: "sched D T {} k1" and v1: "view k k1 (state_list k) ((event_list k)(t := Some 12)) (wake k)"
      using add_event_view(1,2) [OF placedD(1) [OF p] t e, of 12] by (simp_all add: k1_def)
    note v = viewD [OF v1]
    show ?thesis
    proof (rule fin)
      show "wake_from_isr t n k = Some (y, if y then k1\<lparr>xYieldPending := True\<rparr> else k1)"
        using True False e c v
        by (simp add: wake_from_isr_def listLIST_ITEM_CONTAINER_def current_priority_def y_def xPendingReadyList_def k1_def)
      have "timely T k1" by (rule timely_view [OF placedD(2) [OF p] v1]) simp
      then show "placed D T i k1" by (rule placed_view [OF p v1 s1]) (use False in auto)
      show "free T k1" by (rule free_view [OF kernel_okD(3) [OF k] v1]) (use nr [OF True False] in \<open>auto simp: ready_def\<close>)
      show "\<not> y \<longrightarrow> best T k1" using best_same [OF kernel_okD(2) [OF k], of k1] by (auto simp: v ready_def)
      show "progress 0 (T - {t}) k k1" by (rule progress_0) (auto simp: v)
    qed (simp_all add: v)
  qed
qed

lemma block_ok:
  assumes k: "kernel_ok D T i k" and c: "pxCurrentTCB k = Some c" "c \<noteq> i" and n: "n > 0"
  shows "\<exists>k1 k'. prvAddCurrentTaskToDelayedList n block k = Some k1 \<and> vTaskSwitchContext k1 = Some k' \<and> kernel_ok D T i k' \<and>
    uxSchedulerSuspended k' = uxSchedulerSuspended k \<and> xPendedTicks k' = xPendedTicks k \<and> progress 0 (T - {c}) k k'"
proof -
  obtain k0 u where k0: "prvAddCurrentTaskToDelayedList n block k = Some (k0\<lparr>xNextTaskUnblockTime := u\<rparr>)"
      "placed D T i (k0\<lparr>xNextTaskUnblockTime := u\<rparr>)"
      "view k k0 ((state_list k)(c := Some (delay_list n block k))) (event_list k)
        (if n = portMAX_DELAY \<and> block then wake k else (wake k)(c := xTickCount k + n))"
    using add_delayed_ok [OF kernel_okD(1) [OF k] c n] by blast
  note v = viewD [OF k0(3)]
  note s = placedD(1) [OF kernel_okD(1) [OF k]]
  have cT: "c \<in> T" using s c(1) by (auto simp: sched_def)
  have "\<not> ready k0 c"
    using schedD(5) [OF s cT] schedD(9,10) [OF s] by (auto simp: ready_def v delay_list_def xSuspendedTaskList_def split: if_splits)
  then have fr: "free T (k0\<lparr>xNextTaskUnblockTime := u\<rparr>)" using kernel_okD(3) [OF k] by (auto simp: free_def ready_def v split: if_splits)
  obtain k' where k': "vTaskSwitchContext (k0\<lparr>xNextTaskUnblockTime := u\<rparr>) = Some k'" "kernel_ok D T i k'"
      "switched (k0\<lparr>xNextTaskUnblockTime := u\<rparr>) k'"
    using switch_placed [OF k0(2) fr] by blast
  have "progress 0 (T - {c}) k k0" by (rule progress_0) (auto simp: v)
  then have "progress 0 (T - {c}) k k'" using progress_trans [OF _ progress_switched [OF k'(3)], of 0 "T - {c}" k] by simp
  then show ?thesis using k0(1) k'(1,2) switchedD [OF k'(3)] v by simp
qed

lemma take_enter_ok:
  assumes k: "kernel_ok D T i k" and c: "pxCurrentTCB k = Some c" and n: "n > 0 \<Longrightarrow> c \<noteq> i"
  shows "\<exists>k'. ulTaskGenericNotifyTake_enter 0 n k = Some k' \<and> kernel_ok D T i k' \<and>
    uxSchedulerSuspended k' = uxSchedulerSuspended k \<and> xPendedTicks k' = xPendedTicks k \<and> progress 0 (T - {c}) k k'"
    and "\<exists>k'. xTaskGenericNotifyWait_enter 0 b n k = Some k' \<and> kernel_ok D T i k' \<and>
    uxSchedulerSuspended k' = uxSchedulerSuspended k \<and> xPendedTicks k' = xPendedTicks k \<and> progress 0 (T - {c}) k k'"
proof -
  have one: "\<exists>k'. (if n > 0 then do { k \<leftarrow> prvAddCurrentTaskToDelayedList n True (set_tcb c f k); vTaskSwitchContext k }
      else Some (set_tcb c f k)) = Some k' \<and> kernel_ok D T i k' \<and>
      uxSchedulerSuspended k' = uxSchedulerSuspended k \<and> xPendedTicks k' = xPendedTicks k \<and> progress 0 (T - {c}) k k'"
    if f: "uxPriority (f (tcb k c)) = priority k c" for f
  proof -
    note s = kernel_ok_tcb [where f = f and k = k and t = c, OF f]
    have pr: "progress 0 (T - {c}) k (set_tcb c f k)" using s(2) progress_refl by blast
    show ?thesis
    proof (cases "n > 0")
      case True
      have k0: "kernel_ok D T i (set_tcb c f k)" "pxCurrentTCB (set_tcb c f k) = Some c" using k s(1) c by simp_all
      show ?thesis using block_ok [OF k0 n [OF True] True, where block = True] True by (auto simp: s(2))
    next
      case False
      then show ?thesis using pr k s(1) by simp
    qed
  qed
  have refl: "progress 0 (T - {c}) k k" by (rule progress_0) simp_all
  show "\<exists>k'. ulTaskGenericNotifyTake_enter 0 n k = Some k' \<and> kernel_ok D T i k' \<and>
    uxSchedulerSuspended k' = uxSchedulerSuspended k \<and> xPendedTicks k' = xPendedTicks k \<and> progress 0 (T - {c}) k k'"
    using one [of "\<lambda>c. c\<lparr>ucNotifyState := taskWAITING_NOTIFICATION\<rparr>"] k refl c
    by (cases "n > 0") (simp_all add: ulTaskGenericNotifyTake_enter_def configTASK_NOTIFICATION_ARRAY_ENTRIES_def Let_def)
  show "\<exists>k'. xTaskGenericNotifyWait_enter 0 b n k = Some k' \<and> kernel_ok D T i k' \<and>
    uxSchedulerSuspended k' = uxSchedulerSuspended k \<and> xPendedTicks k' = xPendedTicks k \<and> progress 0 (T - {c}) k k'"
    using one [of "\<lambda>c. c\<lparr>ulNotifiedValue := ulNotifiedValue c AND NOT b, ucNotifyState := taskWAITING_NOTIFICATION\<rparr>"] k refl c
    by (cases "n > 0") (simp_all add: xTaskGenericNotifyWait_enter_def configTASK_NOTIFICATION_ARRAY_ENTRIES_def Let_def)
qed

section \<open>Periodic delays\<close>

lemma delay_until_ok:
  assumes k: "kernel_ok D T i k" and s: "uxSchedulerSuspended k = 0" and c: "pxCurrentTCB k = Some c" "c \<noteq> i" and n: "n > 0"
  shows "\<exists>d k'. xTaskDelayUntil w n k = Some (d, w + n, k') \<and> kernel_ok D T i k' \<and> uxSchedulerSuspended k' = 0 \<and>
    xPendedTicks k' = 0 \<and> progress 0 (T - {c}) k k' \<and>
    d = (unat (xTickCount k - w) < unat n) \<and>
    (d \<longrightarrow> event_list k c = None \<longrightarrow> remaining k' c (unat (w + n - xTickCount k)) \<and> event_list k' c = None)"
proof -
  define d where "d \<longleftrightarrow> (if xTickCount k < w then w + n < w \<and> w + n > xTickCount k else w + n < w \<or> w + n > xTickCount k)"
  have deq: "d = (unat (xTickCount k - w) < unat n)" unfolding d_def by unat_arith
  note a = suspend_all_once [OF k s]
  define k0 where "k0 = vTaskSuspendAll k"
  have f: "xTickCount k0 = xTickCount k" "pxCurrentTCB k0 = Some c" "\<And>t. event_list k0 t = event_list k t"
      "\<And>t. ready k0 t = ready k t" using c(1) by (simp_all add: k0_def vTaskSuspendAll_def)
  have n0: "n \<noteq> 0" using n by auto
  have run: "xTaskDelayUntil w n k = do {
      k \<leftarrow> (if d then prvAddCurrentTaskToDelayedList (w + n - xTickCount k) False k0 else Some k0);
      k \<leftarrow> resume_and_yield k; Some (d, w + n, k) }"
    unfolding xTaskDelayUntil_def Let_def k0_def [symmetric] f(1) d_def [symmetric]
    using n0 s by (cases d) (simp_all add: resume_and_yield_def split_def)
  show ?thesis
  proof (cases d)
    case False
    obtain k' where r: "resume_and_yield k0 = Some k'" "kernel_ok D T i k'" "uxSchedulerSuspended k' = 0" "progress 0 T k k'"
      using resume_and_yield_ok [OF a(1-3)] unfolding a(4,6) by (auto simp: k0_def)
    then show ?thesis using run False deq placedD(7) [OF kernel_okD(1) [OF r(2)] r(3)] progress_mono [OF r(4), of "T - {c}"]
      by (intro exI [of _ False] exI [of _ k']) auto
  next
    case True
    have pos: "w + n - xTickCount k > 0" using True n0 by (auto simp: d_def word_neq_0_conv [symmetric] split: if_splits)
    obtain k1 k' where r: "prvAddCurrentTaskToDelayedList (w + n - xTickCount k) False k0 = Some k1" "resume_and_yield k1 = Some k'"
        "kernel_ok D T i k'" "uxSchedulerSuspended k' = 0" "progress 0 (T - {c}) k k'"
        "event_list k c = None \<longrightarrow> remaining k' c (unat (w + n - xTickCount k)) \<and> event_list k' c = None"
      using delay_and_yield_ok [OF a(1,3) f(2) [unfolded k0_def] c(2) pos, where block = False] kernel_okD(3) [OF k] pos
      unfolding a(4,6) f(3,4) [unfolded k0_def] k0_def by (auto simp: free_def unat_gt_0)
    then show ?thesis using run True deq placedD(7) [OF kernel_okD(1) [OF r(3)] r(4)]
      by (intro exI [of _ True] exI [of _ k']) auto
  qed
qed

end
