(* ===== verification/KernelStart.thy ===== *)
theory KernelStart
  imports KernelRun
begin

text \<open>
  The creation of tasks, before and after the start of the scheduler, and the state in which the scheduler starts.
\<close>

section \<open>Lists, items and owners of a new task\<close>

lemma ok_new_list:
  assumes ok: "lists_ok D S I s" and l: "l \<notin> D"
  shows "lists_ok (insert l D) S I (vListInitialise l s)"
proof -
  obtain A where A: "dom A = D" "lists_hold s I A" "\<forall>l \<in> S. \<forall>a. A l = Some a \<longrightarrow> sorted (map (ivalue s) (fst a))"
    using ok unfolding lists_ok_def by blast
  have "A l = None" using A(1) l by auto
  then have "lists_hold (vListInitialise l s) I (A(l \<mapsto> ([], None)))" using lists_hold_initialise [OF A(2)] by blast
  moreover have "dom (A(l \<mapsto> ([], None))) = insert l D" using A(1) by auto
  moreover have "sorted (map (ivalue (vListInitialise l s)) (fst a))" if "k \<in> S" "(A(l \<mapsto> ([], None))) k = Some a" for k a
    using A(3) [rule_format, OF that(1), of a] that(2) by (cases "k = l") (auto simp: list_simps)
  ultimately show ?thesis using ok unfolding lists_ok_def by (metis (no_types, lifting))
qed

lemma ok_new_lists:
  "lists_ok D S I s \<Longrightarrow> distinct ls \<Longrightarrow> set ls \<inter> D = {} \<Longrightarrow> lists_ok (set ls \<union> D) S I (fold vListInitialise ls s)"
proof (induction ls arbitrary: D s)
  case (Cons l ls)
  then have "lists_ok (set ls \<union> insert l D) S I (fold vListInitialise ls (vListInitialise l s))"
    by (intro Cons.IH ok_new_list) auto
  then show ?case by simp
qed simp

lemma ok_new_item:
  assumes ok: "lists_ok D S I s" and i: "i \<notin> I" "card I + 1 < 2 ^ 32 - 1"
  shows "lists_ok D S (insert i I) (vListInitialiseItem i s)"
proof -
  obtain A where A: "dom A = D" "lists_hold s I A" "\<forall>l \<in> S. \<forall>a. A l = Some a \<longrightarrow> sorted (map (ivalue s) (fst a))"
    using ok unfolding lists_ok_def by blast
  have "finite I" using ok by (simp add: lists_ok_def)
  then have "finite (insert i I)" "card (insert i I) < 2 ^ 32 - 1" using i by simp_all
  moreover have "lists_hold (vListInitialiseItem i s) (insert i I) A" by (rule lists_hold_initialise_item [OF A(2)]) (use i in simp)
  moreover have "ivalue (vListInitialiseItem i s) = ivalue s" by (simp add: vListInitialiseItem_def list_simps fun_eq_iff)
  ultimately show ?thesis using A(1,3) unfolding lists_ok_def by auto
qed

lemma owner_updates_all:
  "next_of (listSET_LIST_ITEM_OWNER i v s) r = next_of s r" "prev_of (listSET_LIST_ITEM_OWNER i v s) r = prev_of s r"
  "value_of (listSET_LIST_ITEM_OWNER i v s) r = value_of s r"
  "container_of (listSET_LIST_ITEM_OWNER i v s) j = container_of s j"
  "list_heads (listSET_LIST_ITEM_OWNER i v s) = list_heads s"
  "iowner (listSET_LIST_ITEM_OWNER i v s) j = (if j = i then v else iowner s j)"
  by (cases r; simp add: next_of_def prev_of_def value_of_def listSET_LIST_ITEM_OWNER_def set_item_def
      MiniListItem_t.truncate_def)+

lemma ok_owner:
  assumes ok: "lists_ok D S I s"
  shows "lists_ok D S I (listSET_LIST_ITEM_OWNER i v s)"
proof -
  obtain A where A: "dom A = D" "lists_hold s I A" "\<forall>l \<in> S. \<forall>a. A l = Some a \<longrightarrow> sorted (map (ivalue s) (fst a))"
    using ok unfolding lists_ok_def by blast
  let ?s = "listSET_LIST_ITEM_OWNER i v s"
  have "ring ?s k b" if "A k = Some b" for k b
    by (rule ring_frame [OF lists_hold_ring [OF A(2) that]]) (simp_all add: owner_updates_all)
  then have "lists_hold ?s I A"
    using A(2) unfolding lists_hold_def by (simp add: owner_updates_all del: split_paired_All split_paired_Ex)
  moreover have "ivalue ?s = ivalue s" by (simp add: owner_updates_all fun_eq_iff)
  ultimately show ?thesis using ok A(1,3) unfolding lists_ok_def by auto
qed

section \<open>A new task\<close>

definition created_priority :: "u32 \<Rightarrow> u32" where
  "created_priority p = (if p \<ge> configMAX_PRIORITIES then configMAX_PRIORITIES - 1 else p)"

lemma created_priority_bound: "unat (created_priority p) < 10"
  by (auto simp: created_priority_def configMAX_PRIORITIES_def not_le word_less_nat_alt)

lemma kernel_items_insert: "kernel_items (insert t T) = insert (state_item t) (insert (event_item t) (kernel_items T))"
  by (auto simp: kernel_items_def)

lemma card_kernel_items:
  assumes "finite T"
  shows "card (kernel_items T) = 2 * card T"
proof -
  have "state_item ` T \<inter> event_item ` T = {}" by auto
  then have "card (kernel_items T) = card (state_item ` T) + card (event_item ` T)"
    using assms unfolding kernel_items_def by (simp add: card_Un_disjoint)
  then show ?thesis by (simp add: card_image inj_on_def)
qed

lemma new_task_fields:
  "pxCurrentTCB (prvInitialiseNewTask p t k) = pxCurrentTCB k"
  "pxDelayedTaskList (prvInitialiseNewTask p t k) = pxDelayedTaskList k"
  "pxOverflowDelayedTaskList (prvInitialiseNewTask p t k) = pxOverflowDelayedTaskList k"
  "uxCurrentNumberOfTasks (prvInitialiseNewTask p t k) = uxCurrentNumberOfTasks k"
  "xTickCount (prvInitialiseNewTask p t k) = xTickCount k" "uxTopReadyPriority (prvInitialiseNewTask p t k) = uxTopReadyPriority k"
  "xSchedulerRunning (prvInitialiseNewTask p t k) = xSchedulerRunning k" "xPendedTicks (prvInitialiseNewTask p t k) = xPendedTicks k"
  "xYieldPending (prvInitialiseNewTask p t k) = xYieldPending k"
  "xNextTaskUnblockTime (prvInitialiseNewTask p t k) = xNextTaskUnblockTime k"
  "uxSchedulerSuspended (prvInitialiseNewTask p t k) = uxSchedulerSuspended k"
  "priority (prvInitialiseNewTask p t k) u = (if u = t then created_priority p else priority k u)"
  by (simp_all add: prvInitialiseNewTask_def Let_def on_lists_def set_tcb_def created_priority_def)

lemma new_task_lists:
  assumes ok: "lists_ok D S (kernel_items T) (klists k)" and t: "t \<notin> T" "2 * card T + 2 < 2 ^ 32 - 1" "finite T"
  shows "lists_ok D S (kernel_items (insert t T)) (klists (prvInitialiseNewTask p t k))"
    and "container_of (klists (prvInitialiseNewTask p t k)) j =
      (if j = state_item t \<or> j = event_item t then None else container_of (klists k) j)"
    and "ivalue (klists (prvInitialiseNewTask p t k)) j =
      (if j = event_item t then configMAX_PRIORITIES - created_priority p else ivalue (klists k) j)"
    and "iowner (klists (prvInitialiseNewTask p t k)) j = (if j = state_item t \<or> j = event_item t then t else iowner (klists k) j)"
proof -
  define s where "s = vListInitialiseItem (event_item t) (vListInitialiseItem (state_item t) (klists k))"
  have kl: "klists (prvInitialiseNewTask p t k) = listSET_LIST_ITEM_OWNER (event_item t) t
      (listSET_LIST_ITEM_VALUE (event_item t) (configMAX_PRIORITIES - created_priority p)
        (listSET_LIST_ITEM_OWNER (state_item t) t s))"
    by (simp add: prvInitialiseNewTask_def Let_def on_lists_def set_tcb_def created_priority_def s_def)
  have c: "card (kernel_items T) = 2 * card T" by (rule card_kernel_items [OF t(3)])
  have f: "finite (kernel_items T)" using t(3) by (simp add: kernel_items_def)
  have "lists_ok D S (insert (state_item t) (kernel_items T)) (vListInitialiseItem (state_item t) (klists k))"
    by (rule ok_new_item [OF ok]) (use t c in simp_all)
  then have "lists_ok D S (insert (event_item t) (insert (state_item t) (kernel_items T))) s"
    unfolding s_def by (rule ok_new_item) (use t c f in simp_all)
  then have "lists_ok D S (kernel_items (insert t T)) s" by (simp add: kernel_items_insert insert_commute)
  then show "lists_ok D S (kernel_items (insert t T)) (klists (prvInitialiseNewTask p t k))"
    unfolding kl by (intro ok_owner ok_set_value) (simp_all add: owner_updates_all s_def vListInitialiseItem_def list_simps)
  show "container_of (klists (prvInitialiseNewTask p t k)) j =
      (if j = state_item t \<or> j = event_item t then None else container_of (klists k) j)"
    by (simp add: kl owner_updates_all set_value_updates s_def vListInitialiseItem_def list_simps)
  show "ivalue (klists (prvInitialiseNewTask p t k)) j =
      (if j = event_item t then configMAX_PRIORITIES - created_priority p else ivalue (klists k) j)"
    by (simp add: kl owner_updates_all set_value_updates s_def vListInitialiseItem_def list_simps)
  show "iowner (klists (prvInitialiseNewTask p t k)) j = (if j = state_item t \<or> j = event_item t then t else iowner (klists k) j)"
    by (simp add: kl owner_updates_all set_value_updates s_def vListInitialiseItem_def list_simps)
qed

lemma new_task_sched:
  assumes k: "sched D T {} k" and t: "t \<notin> T" "2 * card T + 2 < 2 ^ 32 - 1"
  shows "sched D (insert t T) {t} (prvInitialiseNewTask p t k)"
proof -
  have "finite T" using schedD(1) [OF k] by (auto simp: lists_ok_def kernel_items_def dest: finite_imageD [OF _ inj_onI])
  note n = new_task_lists [OF schedD(1) [OF k] t this, of p]
  have ne: "u \<noteq> t" if "u \<in> T" for u using t(1) that by auto
  have r: "ready (prvInitialiseNewTask p t k) u \<longleftrightarrow> u \<noteq> t \<and> ready k u" for u
    by (simp add: ready_def n new_task_fields)
  show ?thesis
    using k n(1) created_priority_bound [of p] ne unfolding sched_def r
    by (auto simp: n(2-4) new_task_fields)
qed

section \<open>Before the start of the scheduler\<close>

text \<open>The initial values of the variables of \<open>tasks.c\<close>; the lists and the control blocks hold anything.\<close>

definition kernel_at_reset :: "kernel_lists \<Rightarrow> (nat \<Rightarrow> TCB_t) \<Rightarrow> kernel" where
  "kernel_at_reset s m = \<lparr>klists = s, tcb = m, pxCurrentTCB = None, pxDelayedTaskList = 0, pxOverflowDelayedTaskList = 0,
     uxCurrentNumberOfTasks = 0, xTickCount = 0, uxTopReadyPriority = 0, xSchedulerRunning = False, xPendedTicks = 0,
     xYieldPending = False, xNumOfOverflows = 0, uxTaskNumber = 0, xNextTaskUnblockTime = 0, uxSchedulerSuspended = 0,
     uxDeletedTasksWaitingCleanUp = 0\<rparr>"

definition prepared :: "nat set \<Rightarrow> nat set \<Rightarrow> kernel \<Rightarrow> bool" where
  "prepared D T k \<longleftrightarrow> finite T \<and> \<not> xSchedulerRunning k \<and> uxSchedulerSuspended k = 0 \<and> xPendedTicks k = 0 \<and> \<not> xYieldPending k \<and>
     uxCurrentNumberOfTasks k = word_of_nat (card T) \<and> unat (uxTopReadyPriority k) < 10 \<and>
     (if T = {} then pxCurrentTCB k = None \<and> lists_ok D {10, 11} {} (klists k) \<and> D \<inter> {..<15} = {}
      else sched D T {} k \<and> (\<forall>t \<in> T. ready k t \<and> event_list k t = None) \<and>
        (\<exists>c \<in> T. pxCurrentTCB k = Some c \<and> (\<forall>u \<in> T. priority k u \<le> priority k c)))"

lemma lists_ok_nil: "lists_ok {} S {} s"
  unfolding lists_ok_def lists_hold_def by (auto intro: exI [of _ Map.empty])

lemma prepared_reset: "prepared {} {} (kernel_at_reset s m)"
  by (simp add: prepared_def kernel_at_reset_def lists_ok_nil)

lemma init_task_lists:
  "prvInitialiseTaskLists k = k\<lparr>klists := fold vListInitialise [0..<15] (klists k), pxDelayedTaskList := 10,
     pxOverflowDelayedTaskList := 11\<rparr>"
proof -
  have "[0..<15] = [0..<10] @ [10, 11, 12, 13, 14 :: nat]" by (simp add: upt_rec)
  then show ?thesis
    by (simp add: prvInitialiseTaskLists_def Let_def on_lists_def configMAX_PRIORITIES_def xDelayedTaskList1_def
        xDelayedTaskList2_def xPendingReadyList_def xTasksWaitingTermination_def xSuspendedTaskList_def)
qed

lemma fold_initialise_items: "list_items (fold vListInitialise ls s) = list_items s"
  by (induction ls arbitrary: s) (simp_all add: list_simps)

lemma sched_current_update: "sched D T X k \<Longrightarrow> c \<in> T \<Longrightarrow> sched D T X (k\<lparr>pxCurrentTCB := Some c\<rparr>)"
  by (simp add: sched_def ready_def)

text \<open>The last step of a creation: the task goes to its ready list.\<close>

lemma add_created:
  assumes k: "sched D (insert t T) {t} k" and t: "t \<notin> T"
  shows "\<exists>k'. prvAddTaskToReadyList t k = Some k' \<and> sched D (insert t T) {} k' \<and> ready k' t \<and>
    view k k' ((state_list k)(t := Some (unat (priority k t)))) (event_list k) (wake k)"
proof -
  obtain k' where k': "prvAddTaskToReadyList t k = Some k'" "sched D (insert t T) ({t} - {t}) k'"
      "view k k' ((state_list k)(t := Some (unat (priority k t)))) (event_list k) (wake k)"
    using add_ready_view [OF k, of t] by auto
  then show ?thesis by (auto simp: ready_def viewD [OF k'(3)])
qed

lemma first_task_sched:
  assumes k: "prepared D {} k"
  shows "sched ({..<15} \<union> D) {t} {t} (prvInitialiseTaskLists ((prvInitialiseNewTask p t k)\<lparr>uxCurrentNumberOfTasks := 1,
      pxCurrentTCB := Some t\<rparr>))"
    and "event_list (prvInitialiseTaskLists ((prvInitialiseNewTask p t k)\<lparr>uxCurrentNumberOfTasks := 1, pxCurrentTCB := Some t\<rparr>)) t = None"
proof -
  have ok: "lists_ok D {10, 11} {} (klists k)" "D \<inter> {..<15} = {}" "unat (uxTopReadyPriority k) < 10"
    using k by (simp_all add: prepared_def)
  have ki: "kernel_items {} = {}" by (simp add: kernel_items_def)
  note n = new_task_lists [of D "{10, 11}" "{}" k t p, unfolded ki, OF ok(1), simplified]
  let ?s = "fold vListInitialise [0..<15] (klists (prvInitialiseNewTask p t k))"
  have "lists_ok (set [0..<15] \<union> D) {10, 11} (kernel_items {t}) ?s"
    by (rule ok_new_lists [OF n(1)]) (use ok(2) in auto)
  moreover have "set [0..<15] = {..<15 :: nat}" by auto
  ultimately have l: "lists_ok ({..<15} \<union> D) {10, 11} (kernel_items {t}) ?s" by simp
  have i: "container_of ?s j = container_of (klists (prvInitialiseNewTask p t k)) j"
      "iowner ?s j = iowner (klists (prvInitialiseNewTask p t k)) j" for j
    by (simp_all add: fold_initialise_items)
  show "sched ({..<15} \<union> D) {t} {t} (prvInitialiseTaskLists ((prvInitialiseNewTask p t k)\<lparr>uxCurrentNumberOfTasks := 1,
      pxCurrentTCB := Some t\<rparr>))"
    unfolding init_task_lists sched_def ready_def
    using l created_priority_bound [of p] ok(3) by (simp add: i n(2,4) new_task_fields)
  show "event_list (prvInitialiseTaskLists ((prvInitialiseNewTask p t k)\<lparr>uxCurrentNumberOfTasks := 1, pxCurrentTCB := Some t\<rparr>)) t = None"
    unfolding init_task_lists by (simp add: i n(2))
qed

lemma add_new_task_run:
  "prvAddNewTaskToReadyList t k =
    (let k1 = (case pxCurrentTCB k of
         None \<Rightarrow> if uxCurrentNumberOfTasks k + 1 = 1
           then prvInitialiseTaskLists (k\<lparr>uxCurrentNumberOfTasks := uxCurrentNumberOfTasks k + 1, pxCurrentTCB := Some t\<rparr>)
           else k\<lparr>uxCurrentNumberOfTasks := uxCurrentNumberOfTasks k + 1, pxCurrentTCB := Some t\<rparr>
       | Some c \<Rightarrow> if \<not> xSchedulerRunning k \<and> priority k c \<le> priority k t
           then k\<lparr>uxCurrentNumberOfTasks := uxCurrentNumberOfTasks k + 1, pxCurrentTCB := Some t\<rparr>
           else k\<lparr>uxCurrentNumberOfTasks := uxCurrentNumberOfTasks k + 1\<rparr>)
     in do {
       k2 \<leftarrow> prvAddTaskToReadyList t (k1\<lparr>uxTaskNumber := uxTaskNumber k1 + 1\<rparr>);
       if xSchedulerRunning k2 then do { p \<leftarrow> current_priority k2; if p < priority k2 t then vTaskSwitchContext k2 else Some k2 }
       else Some k2
     })"
  by (cases "pxCurrentTCB k") (simp_all add: prvAddNewTaskToReadyList_def Let_def cong: if_cong)

lemma create_prepared:
  assumes k: "prepared D T k" and t: "t \<notin> T" "2 * card T + 2 < 2 ^ 32 - 1"
  shows "\<exists>k'. xTaskCreate p (Some t) k = Some (True, k') \<and> prepared ({..<15} \<union> D) (insert t T) k' \<and>
    (\<forall>u. priority k' u = (if u = t then created_priority p else priority k u))"
proof (cases "T = {}")
  case True
  define k1 where "k1 = prvInitialiseTaskLists ((prvInitialiseNewTask p t k)\<lparr>uxCurrentNumberOfTasks := 1, pxCurrentTCB := Some t\<rparr>)"
  have s1: "sched ({..<15} \<union> D) {t} {t} k1" "event_list k1 t = None"
    using first_task_sched [OF k [unfolded True]] by (simp_all only: k1_def)
  have f1: "xSchedulerRunning k1 = False" "uxSchedulerSuspended k1 = 0" "xPendedTicks k1 = 0" "xYieldPending k1 = False"
      "uxCurrentNumberOfTasks k1 = 1" "pxCurrentTCB k1 = Some t"
    using k by (simp_all add: k1_def init_task_lists new_task_fields prepared_def)
  let ?k1 = "k1\<lparr>uxTaskNumber := uxTaskNumber k1 + 1\<rparr>"
  obtain k2 where k2: "prvAddTaskToReadyList t ?k1 = Some k2" "sched ({..<15} \<union> D) {t} {} k2" "ready k2 t"
      "view ?k1 k2 ((state_list ?k1)(t := Some (unat (priority ?k1 t)))) (event_list ?k1) (wake ?k1)"
    using add_created [of "{..<15} \<union> D" t "{}" ?k1] s1(1) by auto
  note v = viewD [OF k2(4)]
  have "pxCurrentTCB (prvInitialiseNewTask p t k) = None" "uxCurrentNumberOfTasks (prvInitialiseNewTask p t k) = 0"
    using k True by (simp_all add: new_task_fields prepared_def)
  then have "xTaskCreate p (Some t) k = Some (True, k2)"
    using k2(1) v(10) f1(1) by (simp add: xTaskCreate_def add_new_task_run k1_def)
  moreover have "prepared ({..<15} \<union> D) {t} k2"
    using k2(2,3) f1 s1(2) unfolding prepared_def by (auto simp: v sched_def)
  moreover have "priority k2 u = (if u = t then created_priority p else priority k u)" for u
    by (simp add: v k1_def init_task_lists new_task_fields)
  ultimately show ?thesis using True by auto
next
  case False
  then have s: "sched D T {} k" and r: "\<forall>t \<in> T. ready k t \<and> event_list k t = None"
    and c: "\<exists>c \<in> T. pxCurrentTCB k = Some c \<and> (\<forall>u \<in> T. priority k u \<le> priority k c)"
    using k by (simp_all add: prepared_def)
  obtain c where c: "c \<in> T" "pxCurrentTCB k = Some c" "\<forall>u \<in> T. priority k u \<le> priority k c" using c by blast
  define k0 where "k0 = prvInitialiseNewTask p t k"
  have fin: "finite T" using k by (simp add: prepared_def)
  note n = new_task_lists [OF schedD(1) [OF s] t fin, of p, folded k0_def]
  note nf = new_task_fields [of p t k, folded k0_def]
  have s0: "sched D (insert t T) {t} k0" using new_task_sched [OF s t] by (simp add: k0_def)
  have ct: "c \<noteq> t" using c(1) t(1) by auto
  define b where "b \<longleftrightarrow> priority k c \<le> created_priority p"
  define k1 where "k1 = (if b then k0\<lparr>uxCurrentNumberOfTasks := uxCurrentNumberOfTasks k + 1, pxCurrentTCB := Some t\<rparr>
    else k0\<lparr>uxCurrentNumberOfTasks := uxCurrentNumberOfTasks k + 1\<rparr>)"
  have f1: "xSchedulerRunning k1 = False" "uxSchedulerSuspended k1 = 0" "xPendedTicks k1 = 0" "xYieldPending k1 = False"
      "uxCurrentNumberOfTasks k1 = word_of_nat (card T) + 1" "pxCurrentTCB k1 = Some (if b then t else c)" "klists k1 = klists k0"
      "tcb k1 = tcb k0"
    using k c(2) by (simp_all add: k1_def nf prepared_def)
  have s1: "sched D (insert t T) {t} (k1\<lparr>uxTaskNumber := uxTaskNumber k1 + 1\<rparr>)"
    using s0 by (simp add: k1_def sched_current_update)
  let ?k1 = "k1\<lparr>uxTaskNumber := uxTaskNumber k1 + 1\<rparr>"
  obtain k2 where k2: "prvAddTaskToReadyList t ?k1 = Some k2" "sched D (insert t T) {} k2" "ready k2 t"
      "view ?k1 k2 ((state_list ?k1)(t := Some (unat (priority ?k1 t)))) (event_list ?k1) (wake ?k1)"
    using add_created [OF s1 t(1)] by auto
  note v = viewD [OF k2(4)]
  have nr: "\<not> xSchedulerRunning k" using k by (simp add: prepared_def)
  have "xTaskCreate p (Some t) k = Some (True, k2)"
    using k2(1) v(10) f1(1) c(2) ct nr
    by (cases b) (simp_all add: xTaskCreate_def add_new_task_run k0_def [symmetric] nf b_def [symmetric] k1_def)
  moreover have "prepared ({..<15} \<union> D) (insert t T) k2"
  proof -
    have p2: "priority k2 u = (if u = t then created_priority p else priority k u)" for u by (simp add: v f1 nf)
    have "ready k2 u \<and> event_list k2 u = None" if "u \<in> insert t T" for u
      using r that k2(3) t(1) by (auto simp: ready_def v f1 n(2) nf)
    moreover have "\<exists>c \<in> insert t T. pxCurrentTCB k2 = Some c \<and> (\<forall>u \<in> insert t T. priority k2 u \<le> priority k2 c)"
    proof (cases b)
      case True
      then show ?thesis using c by (intro bexI [of _ t]) (auto simp: v f1 p2 b_def nf intro: order_trans)
    next
      case False
      then show ?thesis using c ct by (intro bexI [of _ c]) (auto simp: v f1 p2 b_def nf not_le intro: less_imp_le)
    qed
    moreover have "{..<15} \<union> D = D" using s by (auto simp: sched_def)
    ultimately show ?thesis
      using k2(2) f1 fin t(1) unfolding prepared_def by (auto simp: v sched_def add.commute)
  qed
  moreover have "priority k2 u = (if u = t then created_priority p else priority k u)" for u by (simp add: v f1 nf)
  ultimately show ?thesis by blast
qed

section \<open>The start of the scheduler\<close>

lemma start_ok:
  assumes k: "prepared D T k" and t: "t \<notin> T" "2 * card T + 2 < 2 ^ 32 - 1"
  shows "\<exists>k'. vTaskStartScheduler (Some t) k = Some k' \<and> kernel_ok ({..<15} \<union> D) (insert t T) t k' \<and>
    uxSchedulerSuspended k' = 0 \<and> \<not> xYieldPending k' \<and> (\<forall>u \<in> insert t T. ready k' u \<and> event_list k' u = None) \<and>
    (\<forall>u. priority k' u = (if u = t then 0 else priority k u))"
proof -
  obtain k1 where k1: "xTaskCreate 0 (Some t) k = Some (True, k1)" "prepared ({..<15} \<union> D) (insert t T) k1"
      "\<forall>u. priority k1 u = (if u = t then created_priority 0 else priority k u)"
    using create_prepared [OF k t] by blast
  have p: "sched ({..<15} \<union> D) (insert t T) {} k1" "\<forall>u \<in> insert t T. ready k1 u \<and> event_list k1 u = None"
      "\<exists>c \<in> insert t T. pxCurrentTCB k1 = Some c \<and> (\<forall>u \<in> insert t T. priority k1 u \<le> priority k1 c)"
      "uxSchedulerSuspended k1 = 0" "xPendedTicks k1 = 0" "uxCurrentNumberOfTasks k1 = word_of_nat (card (insert t T))"
    using k1(2) unfolding prepared_def by auto
  define k2 where "k2 = k1\<lparr>xNextTaskUnblockTime := portMAX_DELAY, xSchedulerRunning := True, xTickCount := 0\<rparr>"
  have f: "state_list k2 u = state_list k1 u" "event_list k2 u = event_list k1 u" "tcb k2 = tcb k1"
      "pxDelayedTaskList k2 = pxDelayedTaskList k1" "ready k2 u = ready k1 u" "pxCurrentTCB k2 = pxCurrentTCB k1"
      "uxSchedulerSuspended k2 = 0" for u
    using p(4) by (simp_all add: k2_def ready_def)
  have "\<not> delayed k2 u" if u: "u \<in> insert t T" for u
  proof -
    have "ready k1 u" using p(2) u by blast
    then have "state_list k1 u \<notin> {Some 10, Some 11}" by (rule ready_not_delayed(1) [OF p(1) u])
    then show ?thesis using schedD(9) [OF p(1)] by (auto simp: delayed_def f)
  qed
  then have tm: "timely (insert t T) k2" by (simp add: timely_def)
  have s2: "sched ({..<15} \<union> D) (insert t T) {} k2" using p(1) by (simp add: sched_def k2_def ready_def)
  have "placed ({..<15} \<union> D) (insert t T) t k2"
    using s2 tm p(2,5,6) unfolding placed_def by (simp add: f) (simp add: k2_def)
  moreover have "best (insert t T) k2"
    using p(2,3) unfolding best_def by (auto simp: f)
  moreover have "free (insert t T) k2" using p(2) unfolding free_def by (simp add: f)
  moreover have "vTaskStartScheduler (Some t) k = Some k2" using k1(1) by (simp add: vTaskStartScheduler_def k2_def)
  moreover have "\<not> xYieldPending k2" using k1(2) by (simp add: k2_def prepared_def)
  moreover have "priority k2 u = (if u = t then 0 else priority k u)" for u
    using k1(3) by (simp add: f created_priority_def configMAX_PRIORITIES_def)
  ultimately show ?thesis using f(2,5,7) p(2) by (auto simp: kernel_ok_def)
qed

section \<open>Creation while the scheduler runs\<close>

lemma create_running:
  assumes k: "kernel_ok D T i k" and t: "t \<notin> T" "2 * card T + 2 < 2 ^ 32 - 1"
  shows "\<exists>k'. xTaskCreate p (Some t) k = Some (True, k') \<and> kernel_ok D (insert t T) i k' \<and>
    uxSchedulerSuspended k' = uxSchedulerSuspended k \<and> xPendedTicks k' = xPendedTicks k \<and> progress 0 T k k'"
proof -
  note pl = kernel_okD(1) [OF k]
  note s = placedD(1) [OF pl]
  obtain c where c: "c \<in> T" "pxCurrentTCB k = Some c" by (rule current_cases [OF k])
  have fin: "finite T" by (rule placed_tasks(1) [OF pl])
  define k0 where "k0 = prvInitialiseNewTask p t k"
  note n = new_task_lists [OF schedD(1) [OF s] t fin, of p, folded k0_def]
  note nf = new_task_fields [of p t k, folded k0_def]
  have s0: "sched D (insert t T) {t} k0" using new_task_sched [OF s t] by (simp add: k0_def)
  have ne: "u \<noteq> t" if "u \<in> T" for u using t(1) that by auto
  define k1 where "k1 = k0\<lparr>uxCurrentNumberOfTasks := uxCurrentNumberOfTasks k + 1, uxTaskNumber := uxTaskNumber k0 + 1\<rparr>"
  have s1: "sched D (insert t T) {t} k1" using s0 by (simp add: k1_def)
  obtain k2 where k2: "prvAddTaskToReadyList t k1 = Some k2" "sched D (insert t T) {} k2" "ready k2 t"
      "view k1 k2 ((state_list k1)(t := Some (unat (priority k1 t)))) (event_list k1) (wake k1)"
    using add_created [OF s1 t(1)] by auto
  note v = viewD [OF k2(4)]
  have f: "state_list k2 u = state_list k u" "event_list k2 u = event_list k u" "wake k2 u = wake k u"
      "priority k2 u = priority k u" "ready k2 u = ready k u" if "u \<in> T" for u
    using ne [OF that] by (simp_all add: v k1_def n nf ready_def)
  have ft: "event_list k2 t = None" "state_list k2 t = Some (unat (priority k2 t))" by (simp_all add: v k1_def n nf)
  have g: "xTickCount k2 = xTickCount k" "xNextTaskUnblockTime k2 = xNextTaskUnblockTime k" "xSchedulerRunning k2"
      "pxDelayedTaskList k2 = pxDelayedTaskList k" "pxOverflowDelayedTaskList k2 = pxOverflowDelayedTaskList k"
      "uxSchedulerSuspended k2 = uxSchedulerSuspended k" "xPendedTicks k2 = xPendedTicks k" "pxCurrentTCB k2 = pxCurrentTCB k"
      "xYieldPending k2 = xYieldPending k" "uxCurrentNumberOfTasks k2 = uxCurrentNumberOfTasks k + 1"
    using placedD(5) [OF pl] by (simp_all add: v k1_def nf)
  have "unat (priority k2 t) < 10" by (rule schedD(5) [OF k2(2)]) simp
  then have "\<not> delayed k2 t" using schedD(9) [OF s] by (auto simp: delayed_def g ft(2))
  then have tm: "timely (insert t T) k2"
    using placedD(2) [OF pl] f unfolding timely_def delayed_def by (auto simp: g)
  have p2: "placed D (insert t T) i k2"
    using pl k2(2) tm f ft(1) t(1) fin unfolding placed_def by (simp add: g add.commute)
  have f2: "free (insert t T) k2" using kernel_okD(3) [OF k] f ft(1) by (auto simp: free_def)
  have pr: "progress 0 T k k2" by (rule progress_0) (simp_all add: f g)
  have run: "xTaskCreate p (Some t) k = map_option (Pair True)
      (if priority k c < priority k2 t then vTaskSwitchContext k2 else Some k2)"
  proof -
    have "current_priority k2 = Some (priority k c)" using c f(4) [OF c(1)] by (simp add: current_priority_def g)
    moreover have "pxCurrentTCB k0 = Some c" "xSchedulerRunning k0" using c(2) placedD(5) [OF pl] by (simp_all add: nf)
    ultimately show ?thesis
      using k2(1) g(3) by (simp add: xTaskCreate_def add_new_task_run k0_def [symmetric] k1_def nf)
  qed
  show ?thesis
  proof (cases "priority k c < priority k2 t")
    case False
    have "best (insert t T) k2"
      using kernel_okD(2) [OF k] c f False unfolding best_def by (auto simp: g)
    then show ?thesis using run False p2 f2 pr g by (simp add: kernel_ok_def)
  next
    case True
    obtain k3 where k3: "vTaskSwitchContext k2 = Some k3" "kernel_ok D (insert t T) i k3" "switched k2 k3"
      using switch_placed [OF p2 f2] by blast
    have "progress 0 T k k3" using progress_trans [OF pr progress_switched [OF k3(3)]] by simp
    then show ?thesis using run True k3(1,2) switchedD [OF k3(3)] g by simp
  qed
qed

section \<open>A new list of events\<close>

lemma new_list_same:
  "state_list (on_lists (vListInitialise l) k) t = state_list k t" "event_list (on_lists (vListInitialise l) k) t = event_list k t"
  "wake (on_lists (vListInitialise l) k) t = wake k t" "tcb (on_lists (vListInitialise l) k) = tcb k"
  "iowner (klists (on_lists (vListInitialise l) k)) j = iowner (klists k) j"
  "ready (on_lists (vListInitialise l) k) t = ready k t"
  by (simp_all add: on_lists_def list_simps ready_def)

lemma on_lists_fields [simp]:
  "pxCurrentTCB (on_lists f k) = pxCurrentTCB k" "pxDelayedTaskList (on_lists f k) = pxDelayedTaskList k"
  "pxOverflowDelayedTaskList (on_lists f k) = pxOverflowDelayedTaskList k"
  "uxCurrentNumberOfTasks (on_lists f k) = uxCurrentNumberOfTasks k" "xTickCount (on_lists f k) = xTickCount k"
  "uxTopReadyPriority (on_lists f k) = uxTopReadyPriority k" "xSchedulerRunning (on_lists f k) = xSchedulerRunning k"
  "xPendedTicks (on_lists f k) = xPendedTicks k" "xYieldPending (on_lists f k) = xYieldPending k"
  "xNextTaskUnblockTime (on_lists f k) = xNextTaskUnblockTime k" "uxSchedulerSuspended (on_lists f k) = uxSchedulerSuspended k"
  "klists (on_lists f k) = f (klists k)"
  by (simp_all add: on_lists_def)

lemma new_list_sched:
  assumes k: "sched D T X k" and l: "l \<notin> D"
  shows "sched (insert l D) T X (on_lists (vListInitialise l) k)"
proof -
  have "lists_ok (insert l D) {10, 11} (kernel_items T) (klists (on_lists (vListInitialise l) k))"
    using ok_new_list [OF schedD(1) [OF k] l] by simp
  then show ?thesis
    using k unfolding sched_def new_list_same by auto
qed

lemma new_list_ok:
  assumes k: "kernel_ok D T i k" and l: "l \<notin> D"
  shows "kernel_ok (insert l D) T i (on_lists (vListInitialise l) k)" and "progress 0 B k (on_lists (vListInitialise l) k)"
proof -
  note s = new_list_sched [OF placedD(1) [OF kernel_okD(1) [OF k]] l]
  show "kernel_ok (insert l D) T i (on_lists (vListInitialise l) k)"
    using k s unfolding kernel_ok_def placed_def best_def free_def timely_def delayed_def new_list_same by simp
  show "progress 0 B k (on_lists (vListInitialise l) k)"
    by (rule progress_0) (simp_all add: new_list_same del: on_lists_fields(12))
qed

lemma new_list_prepared:
  assumes k: "prepared D T k" and l: "l \<notin> D" "15 \<le> l"
  shows "prepared (insert l D) T (on_lists (vListInitialise l) k)"
proof (cases "T = {}")
  case True
  then show ?thesis using k l ok_new_list [of D "{10, 11}" "{}" "klists k" l] by (simp add: prepared_def)
next
  case False
  then show ?thesis using k new_list_sched [of D T "{}" k l] l(1)
    by (simp add: prepared_def new_list_same del: on_lists_fields(12))
qed

end
