(* ===== verification/KernelSystem.thy ===== *)
theory KernelSystem
  imports KernelStart
begin

text \<open>
  The scheduler as a system: the operations that tasks and interrupts call, in any order that their conditions
  of use allow, from the state in which \<open>vTaskStartScheduler\<close> ends.
\<close>

section \<open>Operations\<close>

datatype kernel_op = TickISR | Yield | SuspendScheduler | ResumeScheduler | Delay u32 | DelayUntil u32 u32 |
  SuspendTask "nat option" | ResumeTask nat | ResumeTaskFromISR nat | SetPriority "nat option" u32 |
  WaitOn nat u32 | SignalOn nat | Notify nat u32 eNotifyAction | NotifyFromISR nat u32 eNotifyAction |
  TakeNotification u32 | WaitNotification u32 u32 | CreateTask u32 nat | NewList nat

text \<open>\<open>members\<close> are the tasks that were created, \<open>events\<close> the lists of queues and event groups.\<close>

record kernel_system =
  kern :: kernel
  members :: "nat list"
  events :: "nat list"

fun kernel_do :: "kernel_op \<Rightarrow> kernel \<Rightarrow> kernel option" where
  "kernel_do TickISR k = vPortTickISR k"
| "kernel_do Yield k = vTaskSwitchContext k"
| "kernel_do SuspendScheduler k = Some (vTaskSuspendAll k)"
| "kernel_do ResumeScheduler k = map_option snd (xTaskResumeAll k)"
| "kernel_do (Delay n) k = vTaskDelay n k"
| "kernel_do (DelayUntil w n) k = map_option (\<lambda>(d, w, k). k) (xTaskDelayUntil w n k)"
| "kernel_do (SuspendTask h) k = vTaskSuspend h k"
| "kernel_do (ResumeTask t) k = vTaskResume t k"
| "kernel_do (ResumeTaskFromISR t) k = map_option snd (xTaskResumeFromISR t k)"
| "kernel_do (SetPriority h p) k = vTaskPrioritySet h p k"
| "kernel_do (WaitOn l n) k = wait_on_list l n k"
| "kernel_do (SignalOn l) k = map_option snd (xTaskRemoveFromEventList l k)"
| "kernel_do (Notify t v a) k = map_option (\<lambda>(r, v, k). k) (xTaskGenericNotify t 0 v a k)"
| "kernel_do (NotifyFromISR t v a) k = map_option (\<lambda>(r, v, y, k). k) (xTaskGenericNotifyFromISR t 0 v a k)"
| "kernel_do (TakeNotification n) k = ulTaskGenericNotifyTake_enter 0 n k"
| "kernel_do (WaitNotification b n) k = xTaskGenericNotifyWait_enter 0 b n k"
| "kernel_do (CreateTask p t) k = map_option snd (xTaskCreate p (Some t) k)"
| "kernel_do (NewList l) k = Some (on_lists (vListInitialise l) k)"

definition kernel_step :: "kernel_op \<Rightarrow> kernel_system \<Rightarrow> kernel_system option" where
  "kernel_step op s = map_option (\<lambda>k. s\<lparr>kern := k,
     members := (case op of CreateTask p t \<Rightarrow> t # members s | _ \<Rightarrow> members s),
     events := (case op of NewList l \<Rightarrow> l # events s | _ \<Rightarrow> events s)\<rparr>) (kernel_do op (kern s))"

fun kernel_run :: "kernel_op list \<Rightarrow> kernel_system \<Rightarrow> kernel_system option" where
  "kernel_run [] s = Some s"
| "kernel_run (op # ops) s = do { s \<leftarrow> kernel_step op s; kernel_run ops s }"

text \<open>
  The conditions of use. A task blocks only while the scheduler is not suspended, the idle task \<open>i\<close> never does.
\<close>

abbreviation may_block :: "nat \<Rightarrow> kernel \<Rightarrow> bool" where
  "may_block i k \<equiv> uxSchedulerSuspended k = 0 \<and> pxCurrentTCB k \<noteq> Some i"

abbreviation waits_for_notification :: "kernel \<Rightarrow> nat \<Rightarrow> bool" where
  "waits_for_notification k t \<equiv> ucNotifyState (tcb k t) = taskWAITING_NOTIFICATION"

fun op_allowed :: "nat \<Rightarrow> kernel_op \<Rightarrow> kernel_system \<Rightarrow> bool" where
  "op_allowed i SuspendScheduler s = (uxSchedulerSuspended (kern s) < portMAX_DELAY)"
| "op_allowed i ResumeScheduler s = (uxSchedulerSuspended (kern s) \<noteq> 0)"
| "op_allowed i (Delay n) s = (n > 0 \<longrightarrow> may_block i (kern s))"
| "op_allowed i (DelayUntil w n) s = (n > 0 \<and> may_block i (kern s))"
| "op_allowed i (SuspendTask h) s =
     (case prvGetTCBFromHandle h (kern s) of None \<Rightarrow> False
      | Some t \<Rightarrow> t \<in> set (members s) \<and> t \<noteq> i \<and> (pxCurrentTCB (kern s) = Some t \<longrightarrow> uxSchedulerSuspended (kern s) = 0))"
| "op_allowed i (ResumeTask t) s = (t \<in> set (members s))"
| "op_allowed i (ResumeTaskFromISR t) s = (t \<in> set (members s))"
| "op_allowed i (SetPriority h p) s =
     (case prvGetTCBFromHandle h (kern s) of None \<Rightarrow> False | Some t \<Rightarrow> t \<in> set (members s) \<and> p < configMAX_PRIORITIES)"
| "op_allowed i (WaitOn l n) s = (n > 0 \<and> may_block i (kern s) \<and> l \<in> set (events s) \<and>
     (case pxCurrentTCB (kern s) of None \<Rightarrow> False | Some c \<Rightarrow> event_list (kern s) c = None))"
| "op_allowed i (SignalOn l) s = (l \<in> set (events s) \<and> \<not> listLIST_IS_EMPTY l (klists (kern s)))"
| "op_allowed i (Notify t v a) s =
     (t \<in> set (members s) \<and> (waits_for_notification (kern s) t \<longrightarrow> event_list (kern s) t = None))"
| "op_allowed i (NotifyFromISR t v a) s =
     (t \<in> set (members s) \<and> (waits_for_notification (kern s) t \<longrightarrow> event_list (kern s) t = None \<and>
        (uxSchedulerSuspended (kern s) \<noteq> 0 \<longrightarrow> \<not> ready (kern s) t)))"
| "op_allowed i (TakeNotification n) s = (n > 0 \<longrightarrow> may_block i (kern s))"
| "op_allowed i (WaitNotification b n) s = (n > 0 \<longrightarrow> may_block i (kern s))"
| "op_allowed i (CreateTask p t) s = (t \<notin> set (members s) \<and> 2 * length (members s) + 2 < 2 ^ 32 - 1)"
| "op_allowed i (NewList l) s = (l \<notin> set (events s) \<and> 15 \<le> l)"
| "op_allowed i _ s = True"

fun run_allowed :: "nat \<Rightarrow> kernel_op list \<Rightarrow> kernel_system \<Rightarrow> bool" where
  "run_allowed i [] s = True"
| "run_allowed i (op # ops) s =
     (op_allowed i op s \<and> (case kernel_step op s of None \<Rightarrow> True | Some s' \<Rightarrow> run_allowed i ops s'))"

text \<open>The tasks whose state an operation changes on purpose.\<close>

fun touches :: "kernel_op \<Rightarrow> kernel \<Rightarrow> nat set" where
  "touches (Delay n) k = (if n > 0 then set_option (pxCurrentTCB k) else {})"
| "touches (DelayUntil w n) k = set_option (pxCurrentTCB k)"
| "touches (SuspendTask h) k = set_option (prvGetTCBFromHandle h k)"
| "touches (ResumeTask t) k = {t}"
| "touches (ResumeTaskFromISR t) k = {t}"
| "touches (SetPriority h p) k = set_option (prvGetTCBFromHandle h k)"
| "touches (WaitOn l n) k = set_option (pxCurrentTCB k)"
| "touches (Notify t v a) k = {t}"
| "touches (NotifyFromISR t v a) k = {t}"
| "touches (TakeNotification n) k = set_option (pxCurrentTCB k)"
| "touches (WaitNotification b n) k = set_option (pxCurrentTCB k)"
| "touches op k = {}"

section \<open>Every operation keeps the invariant\<close>

definition system_ok :: "nat \<Rightarrow> kernel_system \<Rightarrow> bool" where
  "system_ok i s \<longleftrightarrow> kernel_ok ({..<15} \<union> set (events s)) (set (members s)) i (kern s) \<and> distinct (members s) \<and>
     (\<forall>l \<in> set (events s). 15 \<le> l)"

text \<open>The ticks that an operation lets pass, and those that are pending afterwards.\<close>

definition ticks_passed :: "kernel_op \<Rightarrow> kernel \<Rightarrow> nat" where
  "ticks_passed op k =
     (if op = TickISR then if uxSchedulerSuspended k = 0 then 1 else 0
      else if op = ResumeScheduler \<and> uxSchedulerSuspended k = 1 then unat (xPendedTicks k) else 0)"

definition ticks_pended :: "kernel_op \<Rightarrow> kernel \<Rightarrow> u32" where
  "ticks_pended op k =
     (if op = TickISR then if uxSchedulerSuspended k = 0 then xPendedTicks k else xPendedTicks k + 1
      else if op = ResumeScheduler \<and> uxSchedulerSuspended k = 1 then 0 else xPendedTicks k)"

definition op_result :: "nat \<Rightarrow> kernel_op \<Rightarrow> kernel_system \<Rightarrow> kernel \<Rightarrow> bool" where
  "op_result i op s k' \<longleftrightarrow> kernel_do op (kern s) = Some k' \<and>
     kernel_ok ({..<15} \<union> set (case op of NewList l \<Rightarrow> l # events s | _ \<Rightarrow> events s))
       (set (case op of CreateTask p t \<Rightarrow> t # members s | _ \<Rightarrow> members s)) i k' \<and>
     xPendedTicks k' = ticks_pended op (kern s) \<and>
     progress (ticks_passed op (kern s)) (set (members s) - touches op (kern s)) (kern s) k'"

lemma op_result_step:
  assumes ok: "system_ok i s" and al: "op_allowed i op s" and r: "op_result i op s k'"
  shows "\<exists>s'. kernel_step op s = Some s' \<and> kern s' = k' \<and> system_ok i s' \<and> set (members s) \<subseteq> set (members s')"
  using assms unfolding op_result_def system_ok_def kernel_step_def
  by (cases op) (auto intro: order_trans)

lemma system_okD:
  assumes "system_ok i s"
  shows "kernel_ok ({..<15} \<union> set (events s)) (set (members s)) i (kern s)"
    and "l \<in> set (events s) \<Longrightarrow> 15 \<le> l" and "distinct (members s)"
  using assms by (simp_all add: system_ok_def)

lemma op_ok:
  assumes ok: "system_ok i s" and al: "op_allowed i op s"
  shows "\<exists>k'. op_result i op s k'"
proof -
  note k = system_okD(1) [OF ok]
  let ?k = "kern s" and ?T = "set (members s)"
  obtain c where c: "c \<in> ?T" "pxCurrentTCB ?k = Some c" by (rule current_cases [OF k])
  show ?thesis
  proof (cases op)
    case TickISR
    obtain k' where k': "vPortTickISR ?k = Some k'" "kernel_ok ({..<15} \<union> set (events s)) ?T i k'"
        "if uxSchedulerSuspended ?k = 0 then progress 1 ?T ?k k' \<and> xPendedTicks k' = 0
         else progress 0 ?T ?k k' \<and> xPendedTicks k' = xPendedTicks ?k + 1"
      using tick_isr_ok [OF k] by blast
    then show ?thesis using placedD(7) [OF kernel_okD(1) [OF k]] TickISR
      by (auto simp: op_result_def ticks_passed_def ticks_pended_def split: if_splits)
  next
    case Yield
    obtain k' where "vTaskSwitchContext ?k = Some k'" "kernel_ok ({..<15} \<union> set (events s)) ?T i k'" "switched ?k k'"
      using switch_placed [OF kernel_okD(1,3) [OF k]] by blast
    then show ?thesis using Yield progress_switched switchedD(10)
      by (auto simp: op_result_def ticks_passed_def ticks_pended_def)
  next
    case SuspendScheduler
    then show ?thesis using suspend_all_ok [OF kernel_okD(1) [OF k]] al k
      by (auto simp: op_result_def ticks_passed_def ticks_pended_def kernel_ok_def vTaskSuspendAll_def)
  next
    case ResumeScheduler
    obtain f k' where "xTaskResumeAll ?k = Some (f, k')" "kernel_ok ({..<15} \<union> set (events s)) ?T i k'"
        "if uxSchedulerSuspended ?k = 1 then uxSchedulerSuspended k' = 0 \<and> progress (unat (xPendedTicks ?k)) ?T ?k k' \<and> xPendedTicks k' = 0
         else uxSchedulerSuspended k' = uxSchedulerSuspended ?k - 1 \<and> progress 0 ?T ?k k' \<and> xPendedTicks k' = xPendedTicks ?k"
      using resume_all_kernel_ok [OF k] al ResumeScheduler by auto
    then show ?thesis using ResumeScheduler
      by (auto simp: op_result_def ticks_passed_def ticks_pended_def split: if_splits)
  next
    case (Delay n)
    then show ?thesis using delay_ok [OF k c(2), of n] al c(2)
      by (auto simp: op_result_def ticks_passed_def ticks_pended_def split: if_splits)
  next
    case (DelayUntil w n)
    then show ?thesis
      using delay_until_ok [OF k _ c(2), of n w] al c(2) placedD(7) [OF kernel_okD(1) [OF k]]
      by (fastforce simp: op_result_def ticks_passed_def ticks_pended_def)
  next
    case (SuspendTask h)
    then obtain t where t: "prvGetTCBFromHandle h ?k = Some t" "t \<in> ?T" "t \<noteq> i" "pxCurrentTCB ?k = Some t \<Longrightarrow> uxSchedulerSuspended ?k = 0"
      using al by (auto split: option.splits)
    show ?thesis using suspend_ok [OF k t] t(1) SuspendTask
      by (auto simp: op_result_def ticks_passed_def ticks_pended_def)
  next
    case (ResumeTask t)
    then show ?thesis using resume_ok [OF k, of t] al by (auto simp: op_result_def ticks_passed_def ticks_pended_def)
  next
    case (ResumeTaskFromISR t)
    then show ?thesis using resume_from_isr_ok [OF k, of t] al
      by (auto simp: op_result_def ticks_passed_def ticks_pended_def)
  next
    case (SetPriority h p)
    then obtain t where t: "prvGetTCBFromHandle h ?k = Some t" "t \<in> ?T" "p < 10"
      using al by (auto simp: configMAX_PRIORITIES_def split: option.splits)
    show ?thesis using priority_set_ok [OF k t] t(1) SetPriority
      by (auto simp: op_result_def ticks_passed_def ticks_pended_def)
  next
    case (WaitOn l n)
    then have "15 \<le> l" using al system_okD(2) [OF ok] by auto
    then show ?thesis using wait_on_list_ok [OF k _ c(2), of n l] al c(2) WaitOn placedD(7) [OF kernel_okD(1) [OF k]]
      by (auto simp: op_result_def ticks_passed_def ticks_pended_def)
  next
    case (SignalOn l)
    then have l: "l \<in> {..<15} \<union> set (events s)" "15 \<le> l" using al system_okD(2) [OF ok] by auto
    have "\<exists>u \<in> ?T. event_list ?k u = Some l"
      using event_list_empty [OF placedD(1) [OF kernel_okD(1) [OF k]] l(1) disjI2 [OF l(2)]] al SignalOn by auto
    then obtain u where u: "u \<in> ?T" "event_list ?k u = Some l" by blast
    show ?thesis using remove_from_event_list_ok [OF k l u c(2)] SignalOn
      by (auto simp: op_result_def ticks_passed_def ticks_pended_def)
  next
    case (Notify t v a)
    then show ?thesis using notify_ok [OF k, of t v a] al
      by (auto simp: op_result_def ticks_passed_def ticks_pended_def)
  next
    case (NotifyFromISR t v a)
    define f where "f = (\<lambda>x :: TCB_t. x\<lparr>ulNotifiedValue := snd (notify_value a v (ucNotifyState (tcb ?k t)) (ulNotifiedValue (tcb ?k t))),
      ucNotifyState := taskNOTIFICATION_RECEIVED\<rparr>)"
    have fp: "uxPriority (f (tcb ?k t)) = priority ?k t" by (simp add: f_def)
    note same = kernel_ok_tcb [where f = f and k = ?k and t = t, OF fp] set_tcb_same_priority(2) [where f = f and k = ?k and t = t, OF fp]
    obtain y k' where "wake_from_isr t (ucNotifyState (tcb ?k t)) (set_tcb t f ?k) = Some (y, k')"
        "kernel_ok ({..<15} \<union> set (events s)) ?T i k'" "xPendedTicks k' = xPendedTicks ?k" "progress 0 (?T - {t}) ?k k'"
      using wake_from_isr_ok [of "{..<15} \<union> set (events s)" ?T i "set_tcb t f ?k" t "ucNotifyState (tcb ?k t)"] al NotifyFromISR k
      by (auto simp: same)
    then show ?thesis using NotifyFromISR
      by (auto simp: op_result_def ticks_passed_def ticks_pended_def xTaskGenericNotifyFromISR_def Let_def split_beta
        configTASK_NOTIFICATION_ARRAY_ENTRIES_def f_def)
  next
    case (TakeNotification n)
    then show ?thesis using take_enter_ok(1) [OF k c(2), of n] al c(2)
      by (auto simp: op_result_def ticks_passed_def ticks_pended_def)
  next
    case (WaitNotification b n)
    then show ?thesis using take_enter_ok(2) [OF k c(2), of n b] al c(2)
      by (auto simp: op_result_def ticks_passed_def ticks_pended_def)
  next
    case (CreateTask p t)
    then show ?thesis using create_running [OF k, of t p] al distinct_card [OF system_okD(3) [OF ok]]
      by (auto simp: op_result_def ticks_passed_def ticks_pended_def)
  next
    case (NewList l)
    then have "l \<notin> {..<15} \<union> set (events s)" using al by auto
    from new_list_ok [OF k this] show ?thesis using NewList
      by (auto simp: op_result_def ticks_passed_def ticks_pended_def)
  qed
qed

section \<open>From reset to the start of the scheduler\<close>

fun create_tasks :: "(u32 \<times> nat) list \<Rightarrow> kernel \<Rightarrow> kernel option" where
  "create_tasks [] k = Some k"
| "create_tasks ((p, t) # ps) k = do { (r, k) \<leftarrow> xTaskCreate p (Some t) k; create_tasks ps k }"

definition kernel_boot :: "nat list \<Rightarrow> (u32 \<times> nat) list \<Rightarrow> nat \<Rightarrow> kernel \<Rightarrow> kernel_system option" where
  "kernel_boot ls ps i k =
     do {
       k \<leftarrow> create_tasks ps (fold (\<lambda>l. on_lists (vListInitialise l)) ls k);
       k \<leftarrow> vTaskStartScheduler (Some i) k;
       Some \<lparr>kern = k, members = i # map snd ps, events = ls\<rparr>
     }"

definition boot_allowed :: "nat list \<Rightarrow> (u32 \<times> nat) list \<Rightarrow> nat \<Rightarrow> bool" where
  "boot_allowed ls ps i \<longleftrightarrow> distinct ls \<and> (\<forall>l \<in> set ls. 15 \<le> l) \<and> distinct (i # map snd ps) \<and> 2 * length ps + 2 < 2 ^ 32 - 1"

lemma new_lists_prepared:
  "prepared D T k \<Longrightarrow> distinct ls \<Longrightarrow> set ls \<inter> D = {} \<Longrightarrow> \<forall>l \<in> set ls. 15 \<le> l \<Longrightarrow>
    prepared (D \<union> set ls) T (fold (\<lambda>l. on_lists (vListInitialise l)) ls k)"
proof (induction ls arbitrary: D k)
  case (Cons l ls)
  then have "prepared (insert l D \<union> set ls) T (fold (\<lambda>l. on_lists (vListInitialise l)) ls (on_lists (vListInitialise l) k))"
    by (intro Cons.IH new_list_prepared) auto
  then show ?case by simp
qed simp

lemma create_tasks_prepared:
  "prepared D T k \<Longrightarrow> distinct (map snd ps) \<Longrightarrow> snd ` set ps \<inter> T = {} \<Longrightarrow> 2 * (card T + length ps) < 2 ^ 32 - 1 \<Longrightarrow>
    \<exists>k' E. create_tasks ps k = Some k' \<and> D \<subseteq> E \<and> E \<subseteq> {..<15} \<union> D \<and> prepared E (T \<union> snd ` set ps) k' \<and>
      (\<forall>(p, t) \<in> set ps. priority k' t = created_priority p) \<and>
      (\<forall>u. u \<notin> snd ` set ps \<longrightarrow> priority k' u = priority k u)"
proof (induction ps arbitrary: D T k)
  case (Cons pt ps)
  obtain p t where pt: "pt = (p, t)" by (cases pt)
  have fin: "finite T" using Cons.prems(1) by (simp add: prepared_def)
  have t: "t \<notin> T" "2 * card T + 2 < 2 ^ 32 - 1" "t \<notin> snd ` set ps" using Cons.prems(2-4) pt by auto
  obtain k1 where k1: "xTaskCreate p (Some t) k = Some (True, k1)" "prepared ({..<15} \<union> D) (insert t T) k1"
      "\<forall>u. priority k1 u = (if u = t then created_priority p else priority k u)"
    using create_prepared [OF Cons.prems(1) t(1,2)] by blast
  have "distinct (map snd ps)" "snd ` set ps \<inter> insert t T = {}" "2 * (card (insert t T) + length ps) < 2 ^ 32 - 1"
    using Cons.prems(2-4) pt t fin by auto
  from Cons.IH [OF k1(2) this]
  obtain k' E where "create_tasks ps k1 = Some k'" "{..<15} \<union> D \<subseteq> E" "E \<subseteq> {..<15} \<union> ({..<15} \<union> D)"
      "prepared E (insert t T \<union> snd ` set ps) k'" "\<forall>(p, t) \<in> set ps. priority k' t = created_priority p"
      "\<forall>u. u \<notin> snd ` set ps \<longrightarrow> priority k' u = priority k1 u"
    by blast
  then show ?case using k1(1,3) pt t(3) by (intro exI [of _ k'] exI [of _ E]) auto
qed auto

text \<open>The state after the start: every task is ready, with the priority it was created with.\<close>

lemma kernel_boot_ok:
  assumes b: "boot_allowed ls ps i"
  shows "\<exists>s. kernel_boot ls ps i (kernel_at_reset l m) = Some s \<and> system_ok i s \<and> members s = i # map snd ps \<and> events s = ls \<and>
    uxSchedulerSuspended (kern s) = 0 \<and> \<not> xYieldPending (kern s) \<and>
    (\<forall>t \<in> set (members s). ready (kern s) t \<and> event_list (kern s) t = None) \<and>
    priority (kern s) i = 0 \<and> (\<forall>(p, t) \<in> set ps. priority (kern s) t = created_priority p)"
proof -
  have ls: "distinct ls" "\<forall>l \<in> set ls. 15 \<le> l" and ps: "distinct (map snd ps)" "i \<notin> snd ` set ps" "2 * length ps + 2 < 2 ^ 32 - 1"
    using b by (auto simp: boot_allowed_def)
  have p1: "prepared (set ls) {} (fold (\<lambda>l. on_lists (vListInitialise l)) ls (kernel_at_reset l m))"
    using new_lists_prepared [OF prepared_reset ls(1) _ ls(2), of l m] by simp
  obtain k2 E where k2: "create_tasks ps (fold (\<lambda>l. on_lists (vListInitialise l)) ls (kernel_at_reset l m)) = Some k2"
      "set ls \<subseteq> E" "E \<subseteq> {..<15} \<union> set ls" "prepared E (snd ` set ps) k2"
      "\<forall>(p, t) \<in> set ps. priority k2 t = created_priority p"
    using create_tasks_prepared [OF p1 ps(1)] ps(3) by auto
  have "card (snd ` set ps) \<le> length ps" using card_image_le [of "set ps" snd] card_length [of ps] by simp
  then have "2 * card (snd ` set ps) + 2 < 2 ^ 32 - 1" using ps(3) by simp
  from start_ok [OF k2(4) ps(2) this] obtain k3 where k3: "vTaskStartScheduler (Some i) k2 = Some k3"
      "kernel_ok ({..<15} \<union> E) (insert i (snd ` set ps)) i k3" "uxSchedulerSuspended k3 = 0" "\<not> xYieldPending k3"
      "\<forall>u \<in> insert i (snd ` set ps). ready k3 u \<and> event_list k3 u = None" "\<forall>u. priority k3 u = (if u = i then 0 else priority k2 u)"
    by blast
  have e: "{..<15} \<union> E = {..<15} \<union> set ls" using k2(2,3) by auto
  define s where "s = \<lparr>kern = k3, members = i # map snd ps, events = ls\<rparr>"
  have "system_ok i s" using k3(2) ps ls e by (simp add: s_def system_ok_def)
  moreover have "\<forall>(p, t) \<in> set ps. priority k3 t = created_priority p" using k2(5) k3(6) ps(2) by force
  moreover have "kernel_boot ls ps i (kernel_at_reset l m) = Some s" using k2(1) k3(1) by (simp add: kernel_boot_def s_def)
  ultimately show ?thesis using k3(3-6) by (intro exI [of _ s]) (simp add: s_def)
qed

text \<open>The states that the system reaches.\<close>

inductive kernel_reachable :: "nat \<Rightarrow> kernel_system \<Rightarrow> bool" for i where
  boot: "boot_allowed ls ps i \<Longrightarrow> kernel_boot ls ps i (kernel_at_reset l m) = Some s \<Longrightarrow> kernel_reachable i s"
| step: "kernel_reachable i s \<Longrightarrow> op_allowed i op s \<Longrightarrow> kernel_step op s = Some s' \<Longrightarrow> kernel_reachable i s'"

inductive_cases kernel_reachableE: "kernel_reachable i s"

lemma reachable_ok: "kernel_reachable i s \<Longrightarrow> system_ok i s"
proof (induction rule: kernel_reachable.induct)
  case (boot ls ps l m s)
  then show ?case using kernel_boot_ok [OF boot(1), of l m] by auto
next
  case (step s op s')
  then show ?case using op_ok [of i s op] op_result_step [of i s op] by force
qed

text \<open>A list of allowed operations runs to its end.\<close>

lemma run_ok:
  "system_ok i s \<Longrightarrow> run_allowed i ops s \<Longrightarrow> \<exists>s'. kernel_run ops s = Some s' \<and> system_ok i s' \<and> set (members s) \<subseteq> set (members s')"
proof (induction ops arbitrary: s)
  case (Cons op ops)
  have al: "op_allowed i op s" using Cons.prems(2) by simp
  obtain k1 where "op_result i op s k1" using op_ok [OF Cons.prems(1) al] by blast
  then obtain s1 where s1: "kernel_step op s = Some s1" "system_ok i s1" "set (members s) \<subseteq> set (members s1)"
    using op_result_step [OF Cons.prems(1) al] by blast
  then show ?case using Cons.IH [OF s1(2)] Cons.prems(2) by fastforce
qed simp

lemma reachable_run: "kernel_reachable i s \<Longrightarrow> run_allowed i ops s \<Longrightarrow> kernel_run ops s = Some s' \<Longrightarrow> kernel_reachable i s'"
proof (induction ops arbitrary: s)
  case (Cons op ops)
  obtain s1 where s1: "kernel_step op s = Some s1" "kernel_run ops s1 = Some s'"
    using Cons.prems(3) by (auto simp: bind_eq_Some_conv)
  have "kernel_reachable i s1" by (rule kernel_reachable.step [OF Cons.prems(1) _ s1(1)]) (use Cons.prems(2) in simp)
  then show ?case using Cons.IH [OF _ _ s1(2)] Cons.prems(2) s1(1) by simp
qed simp

end
