(* ===== verification/KernelProps.thy ===== *)
theory KernelProps
  imports KernelSystem
begin

text \<open>
  The properties of the scheduler, over the states that \<open>KernelSystem\<close> reaches: no operation fails, the best
  ready task runs, no wake-up is lost, a delay ends at its tick, and time-outs count the ticks that passed.
\<close>

section \<open>A system for the witnesses\<close>

text \<open>Two tasks with the priorities 1 and 2, the idle task 0, and the list 15 of an event.\<close>

definition demo_tcbs :: "nat \<Rightarrow> TCB_t" where
  "demo_tcbs t = \<lparr>uxPriority = 7, uxBasePriority = 7, uxMutexesHeld = 1, ulNotifiedValue = 3, ucNotifyState = 1\<rparr>"

definition demo_boot :: "kernel_system option" where
  "demo_boot = kernel_boot [15] [(1, 1), (2, 2)] 0 (kernel_at_reset demo_lists demo_tcbs)"

lemma demo_boot_ok:
  "\<exists>s. demo_boot = Some s \<and> kernel_reachable 0 s \<and> system_ok 0 s \<and> members s = [0, 1, 2] \<and> events s = [15] \<and>
    uxSchedulerSuspended (kern s) = 0 \<and> \<not> xYieldPending (kern s) \<and> pxCurrentTCB (kern s) = Some 2 \<and>
    ready (kern s) 0 \<and> ready (kern s) 1 \<and> ready (kern s) 2 \<and> event_list (kern s) 2 = None"
proof -
  have b: "boot_allowed [15] [(1, 1), (2, 2)] 0" by (simp add: boot_allowed_def)
  obtain s where s: "kernel_boot [15] [(1, 1), (2, 2)] 0 (kernel_at_reset demo_lists demo_tcbs) = Some s" "system_ok 0 s"
      "members s = [0, 1, 2]" "events s = [15]" "uxSchedulerSuspended (kern s) = 0" "\<not> xYieldPending (kern s)"
      "\<forall>t \<in> set (members s). ready (kern s) t \<and> event_list (kern s) t = None"
      "priority (kern s) 0 = 0" "priority (kern s) 1 = 1" "priority (kern s) 2 = 2"
    using kernel_boot_ok [OF b, of demo_lists demo_tcbs]
    by (auto simp: created_priority_def configMAX_PRIORITIES_def word_le_nat_alt)
  obtain c where c: "c \<in> set (members s)" "pxCurrentTCB (kern s) = Some c"
      "\<forall>u \<in> set (members s). ready (kern s) u \<longrightarrow> priority (kern s) u \<le> priority (kern s) c"
    using kernel_okD(2) [OF system_okD(1) [OF s(2)]] s(6) by (auto simp: best_def)
  have "priority (kern s) 2 \<le> priority (kern s) c" using c(3) s(3,7) by simp
  then have "c = 2" using c(1) s(3,8-10) by (auto simp: word_le_nat_alt)
  then show ?thesis
    using s c kernel_reachable.boot [OF b s(1)] by (auto simp: demo_boot_def)
qed

section \<open>No operation fails\<close>



section \<open>The best ready task runs\<close>

text \<open>C7. In every state that the system reaches, unless a yield is pending, the running task is in the ready list
  of its priority, and no task in a ready list has a higher priority.\<close>

theorem highest_priority_runs:
  assumes "kernel_reachable i s"
  shows "xYieldPending (kern s) \<or>
    (\<exists>c \<in> set (members s). pxCurrentTCB (kern s) = Some c \<and>
       listIS_CONTAINED_WITHIN (unat (priority (kern s) c)) (state_item c) (klists (kern s)) \<and>
       (\<forall>u \<in> set (members s). listIS_CONTAINED_WITHIN (unat (priority (kern s) u)) (state_item u) (klists (kern s)) \<longrightarrow>
          priority (kern s) u \<le> priority (kern s) c))"
  using kernel_okD(2) [OF system_okD(1) [OF reachable_ok [OF assms]]]
  by (simp add: best_def ready_def listIS_CONTAINED_WITHIN_def)

theorem highest_priority_runs_witness:
  "\<exists>s. demo_boot = Some s \<and>
    (\<exists>c \<in> set (members s). pxCurrentTCB (kern s) = Some c \<and>
       (\<forall>u \<in> set (members s). listIS_CONTAINED_WITHIN (unat (priority (kern s) u)) (state_item u) (klists (kern s)) \<longrightarrow>
          priority (kern s) u \<le> priority (kern s) c))"
proof -
  obtain s where s: "demo_boot = Some s" "kernel_reachable 0 s" "\<not> xYieldPending (kern s)" using demo_boot_ok by auto
  then show ?thesis using highest_priority_runs [OF s(2)] by blast
qed

section \<open>No wake-up is lost\<close>



section \<open>A delay ends at its tick\<close>

definition tick_count :: "kernel_op list \<Rightarrow> nat" where "tick_count ops = length (filter (\<lambda>op. op = TickISR) ops)"

text \<open>No operation concerns the task \<open>c\<close>: nobody suspends, resumes or notifies it, and it does not block itself.\<close>

fun left_alone :: "nat \<Rightarrow> kernel_op list \<Rightarrow> kernel_system \<Rightarrow> bool" where
  "left_alone c [] s = True"
| "left_alone c (op # ops) s =
     (c \<notin> touches op (kern s) \<and> (case kernel_step op s of None \<Rightarrow> True | Some s' \<Rightarrow> left_alone c ops s'))"

text \<open>\<open>j\<close> ticks have come since a delay of \<open>n\<close> ticks began; those that are pending do not count yet.\<close>

definition awaits :: "nat \<Rightarrow> nat \<Rightarrow> nat \<Rightarrow> kernel \<Rightarrow> bool" where
  "awaits c n j k \<longleftrightarrow> event_list k c = None \<and> unat (xPendedTicks k) \<le> j \<and>
     (let q = j - unat (xPendedTicks k) in if q < n then remaining k c (n - q) else ready k c)"

lemma ticks_balance:
  assumes "unat (xPendedTicks k) \<le> j" and "j + (if op = TickISR then 1 else 0) < 2 ^ 32" and "uxSchedulerSuspended k = 0 \<longrightarrow> xPendedTicks k = 0"
  shows "unat (ticks_pended op k) \<le> j + (if op = TickISR then 1 else 0)"
    and "j + (if op = TickISR then 1 else 0) - unat (ticks_pended op k) = j - unat (xPendedTicks k) + ticks_passed op k"
proof -
  have "unat (xPendedTicks k + 1) = unat (xPendedTicks k) + 1" if "op = TickISR"
    using assms(1,2) that by (auto simp: unat_suc suc_wrap)
  then show "unat (ticks_pended op k) \<le> j + (if op = TickISR then 1 else 0)"
    "j + (if op = TickISR then 1 else 0) - unat (ticks_pended op k) = j - unat (xPendedTicks k) + ticks_passed op k"
    using assms(1,3) by (auto simp: ticks_pended_def ticks_passed_def)
qed

lemma awaits_step:
  assumes s: "system_ok i s" and al: "op_allowed i op s" and c: "c \<in> set (members s)" "c \<notin> touches op (kern s)"
    and st: "kernel_step op s = Some s'" and j: "j + (if op = TickISR then 1 else 0) < 2 ^ 32" and w: "awaits c n j (kern s)"
  shows "awaits c n (j + (if op = TickISR then 1 else 0)) (kern s') \<and> system_ok i s' \<and> c \<in> set (members s')"
proof -
  obtain k' where k': "op_result i op s k'" using op_ok [OF s al] by blast
  then have s': "kern s' = k'" "system_ok i s'" "set (members s) \<subseteq> set (members s')"
    using op_result_step [OF s al k'] st by auto
  note k = kernel_okD(1) [OF system_okD(1) [OF s]]
  have p: "unat (xPendedTicks (kern s)) \<le> j" "event_list (kern s) c = None" using w by (simp_all add: awaits_def)
  have "uxSchedulerSuspended (kern s) = 0 \<longrightarrow> xPendedTicks (kern s) = 0" using placedD(7) [OF k] by blast
  note b = ticks_balance [where op = op, OF p(1) j this]
  define q where "q = j - unat (xPendedTicks (kern s))"
  have pd: "xPendedTicks k' = ticks_pended op (kern s)" using k' by (simp add: op_result_def)
  have pr: "progress (ticks_passed op (kern s)) {c} (kern s) k'"
    using k' c unfolding op_result_def by (auto intro: progress_mono)
  have e: "event_list k' c = None" using pr p(2) by (simp add: progress_def)
  have "if q + ticks_passed op (kern s) < n then remaining k' c (n - (q + ticks_passed op (kern s))) else ready k' c"
  proof (cases "q < n")
    case True
    then have "remaining (kern s) c (n - q)" using w unfolding awaits_def Let_def q_def [symmetric] by simp
    then have "if ticks_passed op (kern s) < n - q then remaining k' c (n - q - ticks_passed op (kern s)) else ready k' c"
      using pr p(2) unfolding progress_def by blast
    moreover have "ticks_passed op (kern s) < n - q \<longleftrightarrow> q + ticks_passed op (kern s) < n" using True by auto
    moreover have "n - q - ticks_passed op (kern s) = n - (q + ticks_passed op (kern s))" by simp
    ultimately show ?thesis by (simp only:)
  next
    case False
    then have "ready (kern s) c" using w unfolding awaits_def Let_def q_def [symmetric] by simp
    then have "ready k' c" using pr p(2) by (simp add: progress_def)
    then show ?thesis using False by simp
  qed
  then have "awaits c n (j + (if op = TickISR then 1 else 0)) k'"
    unfolding awaits_def Let_def pd b(2) q_def [symmetric] using e b(1) by blast
  then show ?thesis using s' c(1) by auto
qed

lemma awaits_run:
  "system_ok i s \<Longrightarrow> c \<in> set (members s) \<Longrightarrow> awaits c n j (kern s) \<Longrightarrow> run_allowed i ops s \<Longrightarrow> left_alone c ops s \<Longrightarrow>
    j + tick_count ops < 2 ^ 32 \<Longrightarrow> kernel_run ops s = Some s' \<Longrightarrow>
    awaits c n (j + tick_count ops) (kern s') \<and> system_ok i s' \<and> c \<in> set (members s')"
proof (induction ops arbitrary: s j)
  case Nil
  then show ?case by (simp add: tick_count_def)
next
  case (Cons op ops)
  obtain s1 where s1: "kernel_step op s = Some s1" "kernel_run ops s1 = Some s'"
    using Cons.prems(7) by (auto simp: bind_eq_Some_conv)
  let ?j = "j + (if op = TickISR then 1 else 0)"
  have tc: "j + tick_count (op # ops) = ?j + tick_count ops" by (simp add: tick_count_def)
  have jb: "?j < 2 ^ 32" using Cons.prems(6) tc by simp
  have a: "awaits c n ?j (kern s1)" "system_ok i s1" "c \<in> set (members s1)"
    using awaits_step [OF Cons.prems(1) _ Cons.prems(2) _ s1(1) jb Cons.prems(3)] Cons.prems(4,5) by auto
  show ?case
    using Cons.IH [OF a(2,3,1) _ _ _ s1(2)] Cons.prems(4-6) s1(1) unfolding tc by simp
qed

text \<open>C9. A task calls \<open>vTaskDelay\<close> for \<open>n\<close> ticks. Whatever the tasks and interrupts do then that does not concern
  it, at any later moment when the scheduler is not suspended it is in its ready list exactly when at least \<open>n\<close>
  timer interrupts have come since the call. The tick counter may wrap in between; interrupts that come while the
  scheduler is suspended count.\<close>

theorem delay_ends_at_its_tick:
  assumes "kernel_reachable i s" and "pxCurrentTCB (kern s) = Some c" and "event_list (kern s) c = None"
    and "0 < n" and "op_allowed i (Delay n) s" and "kernel_step (Delay n) s = Some s1"
    and "run_allowed i ops s1" and "left_alone c ops s1" and "tick_count ops < 2 ^ 32"
    and "kernel_run ops s1 = Some s2" and "uxSchedulerSuspended (kern s2) = 0"
  shows "listIS_CONTAINED_WITHIN (unat (priority (kern s2) c)) (state_item c) (klists (kern s2)) \<longleftrightarrow> unat n \<le> tick_count ops"
proof -
  note ok = reachable_ok [OF assms(1)]
  note k = system_okD(1) [OF ok]
  have al: "uxSchedulerSuspended (kern s) = 0" "c \<noteq> i" using assms(2,4,5) by auto
  have cm: "c \<in> set (members s)" using placedD(1) [OF kernel_okD(1) [OF k]] assms(2) by (auto simp: sched_def)
  obtain k1 where k1: "vTaskDelay n (kern s) = Some k1" "xPendedTicks k1 = xPendedTicks (kern s)" "remaining k1 c (unat n)"
      "event_list k1 c = None"
    using delay_ok [OF k assms(2), of n] al assms(3,4) by auto
  have s1: "kern s1 = k1" "members s1 = members s" using assms(6) k1(1) by (auto simp: kernel_step_def)
  obtain k' where "op_result i (Delay n) s k'" using op_ok [OF ok assms(5)] by blast
  then have ok1: "system_ok i s1" using op_result_step [OF ok assms(5)] assms(6) by auto
  have "awaits c (unat n) 0 (kern s1)"
    using k1 placedD(7) [OF kernel_okD(1) [OF k] al(1)] assms(4) by (simp add: awaits_def s1 word_less_nat_alt)
  from awaits_run [OF ok1 _ this assms(7,8) _ assms(10)] assms(9) cm s1(2)
  have w: "awaits c (unat n) (tick_count ops) (kern s2)" "system_ok i s2" "c \<in> set (members s2)" by auto
  note k2 = kernel_okD(1) [OF system_okD(1) [OF w(2)]]
  have z: "xPendedTicks (kern s2) = 0" by (rule placedD(7) [OF k2 assms(11)])
  have "\<not> ready (kern s2) c" if "remaining (kern s2) c m" for m
    using that ready_not_delayed(1) [OF placedD(1) [OF k2] w(3)] schedD(9,10) [OF placedD(1) [OF k2]]
    by (auto simp: remaining_def delayed_def)
  then have "ready (kern s2) c \<longleftrightarrow> unat n \<le> tick_count ops"
    using w(1) by (auto simp: awaits_def z Let_def split: if_splits)
  then show ?thesis by (simp add: ready_def listIS_CONTAINED_WITHIN_def)
qed

lemma ticks_allowed: "run_allowed i (replicate n TickISR) s" "left_alone c (replicate n TickISR) s"
  by (induction n arbitrary: s) (auto split: option.split)

text \<open>Task 2 delays itself for three ticks: after two ticks it is blocked, after the third it is ready.\<close>

theorem delay_ends_at_its_tick_witness:
  "\<exists>s s1 s2 s3. demo_boot = Some s \<and> kernel_step (Delay 3) s = Some s1 \<and> kernel_run [TickISR, TickISR] s1 = Some s2 \<and>
    kernel_run [TickISR, TickISR, TickISR] s1 = Some s3 \<and>
    \<not> listIS_CONTAINED_WITHIN (unat (priority (kern s2) 2)) (state_item 2) (klists (kern s2)) \<and>
    listIS_CONTAINED_WITHIN (unat (priority (kern s3) 2)) (state_item 2) (klists (kern s3))"
proof -
  obtain s where s: "demo_boot = Some s" "kernel_reachable 0 s" "system_ok 0 s" "uxSchedulerSuspended (kern s) = 0"
      "pxCurrentTCB (kern s) = Some 2" "event_list (kern s) 2 = None"
    using demo_boot_ok by auto
  have al: "op_allowed 0 (Delay 3) s" using s(4,5) by simp
  obtain s1 where s1: "kernel_step (Delay 3) s = Some s1" "system_ok 0 s1" "uxSchedulerSuspended (kern s1) = 0"
    using op_ok [OF s(3) al] op_result_step [OF s(3) al] delay_ok [OF system_okD(1) [OF s(3)] s(5), of 3] s(4)
    by (force simp: kernel_step_def)
  have run: "\<exists>s2. kernel_run (replicate n TickISR) s1 = Some s2 \<and> uxSchedulerSuspended (kern s2) = 0" for n
    using s1(2,3)
  proof (induction n arbitrary: s1)
    case (Suc n)
    obtain k' where k': "vPortTickISR (kern s1) = Some k'" "uxSchedulerSuspended k' = 0"
      using tick_isr_ok [OF system_okD(1) [OF Suc.prems(1)]] Suc.prems(2) by auto
    have al: "op_allowed 0 TickISR s1" by simp
    obtain s2 where s2: "kernel_step TickISR s1 = Some s2" "system_ok 0 s2"
      using op_ok [OF Suc.prems(1) al] op_result_step [OF Suc.prems(1) al] by blast
    then have "uxSchedulerSuspended (kern s2) = 0" using k' by (auto simp: kernel_step_def)
    then show ?case using Suc.IH [OF s2(2)] s2(1) by simp
  qed simp
  have *: "replicate 2 TickISR = [TickISR, TickISR]" "replicate 3 TickISR = [TickISR, TickISR, TickISR]"
    by (simp_all add: numeral_eq_Suc)
  obtain s2 s3 where r: "kernel_run (replicate 2 TickISR) s1 = Some s2" "uxSchedulerSuspended (kern s2) = 0"
      "kernel_run (replicate 3 TickISR) s1 = Some s3" "uxSchedulerSuspended (kern s3) = 0"
    using run [of 2] run [of 3] by blast
  note d = delay_ends_at_its_tick [OF s(2,5,6) _ al s1(1) ticks_allowed]
  show ?thesis
    using s(1) s1(1) r d [OF _ _ r(1,2)] d [OF _ _ r(3,4)] by (auto simp: * tick_count_def)
qed

section \<open>Time-outs\<close>

lemma ticks_count:
  assumes "sched D T {} k" "timely T k" "uxSchedulerSuspended k = 0" "pended_ticks e k = Some k'"
  shows "xTickCount k' = xTickCount k + word_of_nat e \<and>
    xNumOfOverflows k' = xNumOfOverflows k + word_of_nat ((unat (xTickCount k) + e) div 2 ^ 32)"
  using assms
proof (induction e arbitrary: k)
  case 0
  have "unat (xTickCount k) div 2 ^ 32 = 0" using unsigned_less [of "xTickCount k"] by (intro div_less) simp
  then show ?case using 0 by simp
next
  case (Suc e)
  obtain c where c: "pxCurrentTCB k = Some c" using Suc.prems(1) by (auto simp: sched_def)
  obtain sw k1 where k1: "xTaskIncrementTick k = Some (sw, k1)" "sched D T {} k1" "timely T k1"
      "uxSchedulerSuspended k1 = 0" "xTickCount k1 = xTickCount k + 1"
      "xNumOfOverflows k1 = (if xTickCount k + 1 = 0 then xNumOfOverflows k + 1 else xNumOfOverflows k)"
    using tick_ok [OF Suc.prems(1-3) c] Suc.prems(3) by (auto simp: Let_def)
  define k2 where "k2 = (if sw then k1\<lparr>xYieldPending := True\<rparr> else k1)"
  have k2: "sched D T {} k2" "timely T k2" "uxSchedulerSuspended k2 = 0" "xTickCount k2 = xTickCount k1"
      "xNumOfOverflows k2 = xNumOfOverflows k1" "pended_ticks e k2 = Some k'"
    using k1 Suc.prems(4) by (simp_all add: k2_def)
  note IH = Suc.IH [OF k2(1-3,6)]
  have "word_of_nat ((unat (xTickCount k) + Suc e) div 2 ^ 32) =
      (if xTickCount k + 1 = 0 then 1 else 0) + (word_of_nat ((unat (xTickCount k + 1) + e) div 2 ^ 32) :: u32)"
  proof (cases "xTickCount k + 1 = 0")
    case True
    then have u: "unat (xTickCount k) = 2 ^ 32 - 1" by (simp add: suc_wrap)
    have "(unat (xTickCount k) + Suc e) div 2 ^ 32 = Suc (e div 2 ^ 32)" unfolding u by simp
    then show ?thesis by (simp add: True)
  next
    case False
    then show ?thesis by (simp add: unat_suc)
  qed
  then show ?case using IH k1(5,6) k2(4,5) by (auto simp: algebra_simps)
qed

lemma timeout_value:
  fixes t w :: u32
  assumes e: "e < 2 ^ 33 - unat t" and w: "w \<noteq> portMAX_DELAY"
    and k: "xTickCount k' = t + word_of_nat e" "xNumOfOverflows k' = v + word_of_nat ((unat t + e) div 2 ^ 32)"
  shows "xTaskCheckForTimeOut k' \<lparr>xOverflowCount = v, xTimeOnEntering = t\<rparr> w =
    (if e < unat w then (False, vTaskSetTimeOutState k', w - word_of_nat e)
     else (True, \<lparr>xOverflowCount = v, xTimeOnEntering = t\<rparr>, 0))"
proof -
  have t: "unat t < 2 ^ 32" and wl: "unat w < 2 ^ 32" using unsigned_less [of t] unsigned_less [of w] by simp_all
  have tick: "unat (xTickCount k') = (unat t + e) mod 2 ^ 32"
    unfolding k by (simp add: unat_word_ariths unsigned_of_nat take_bit_eq_mod mod_add_right_eq)
  have el: "xTickCount k' - t = word_of_nat e" unfolding k by simp
  show ?thesis
  proof (cases "unat t + e < 2 ^ 32")
    case True
    then have "xNumOfOverflows k' = v" using k(2) by simp
    moreover have "(word_of_nat e :: u32) < w \<longleftrightarrow> e < unat w"
      using True by (simp add: word_less_nat_alt unsigned_of_nat take_bit_nat_eq_self)
    ultimately show ?thesis using w el
      by (simp add: xTaskCheckForTimeOut_def vTaskSetTimeOutState_def Let_def)
  next
    case False
    then have q: "(unat t + e) div 2 ^ 32 = 1" "unat (xTickCount k') = unat t + e - 2 ^ 32" using e t tick by (auto simp: mod_if)
    have d: "xNumOfOverflows k' \<noteq> v" unfolding k(2) q(1) by simp
    show ?thesis
    proof (cases "e < 2 ^ 32")
      case True
      then have "\<not> t \<le> xTickCount k'" using q(2) False t by (simp add: word_le_nat_alt)
      moreover have "(word_of_nat e :: u32) < w \<longleftrightarrow> e < unat w"
        using True by (simp add: word_less_nat_alt unsigned_of_nat take_bit_nat_eq_self)
      ultimately show ?thesis using w el
        by (simp add: xTaskCheckForTimeOut_def vTaskSetTimeOutState_def Let_def)
    next
      case big: False
      then have "t \<le> xTickCount k'" using q(2) by (simp add: word_le_nat_alt)
      then show ?thesis using w d big wl by (simp add: xTaskCheckForTimeOut_def Let_def)
    qed
  qed
qed

text \<open>C10. A time-out that was set before \<open>e\<close> ticks has expired exactly when \<open>e\<close> is at least the time to wait; if
  not, the time to wait is reduced by \<open>e\<close> and the time-out is set anew. This holds although the counters wrap, for
  up to one whole round of the tick counter after its next wrap; an indefinite wait never expires.\<close>

theorem timeout_counts_ticks:
  assumes "kernel_reachable i s" and "uxSchedulerSuspended (kern s) = 0"
    and "pended_ticks e (kern s) = Some k'" and "e < 2 ^ 33 - unat (xTickCount (kern s))"
  shows "xTaskCheckForTimeOut k' (vTaskSetTimeOutState (kern s)) xTicksToWait =
    (if xTicksToWait = portMAX_DELAY then (False, vTaskSetTimeOutState (kern s), xTicksToWait)
     else if e < unat xTicksToWait then (False, vTaskSetTimeOutState k', xTicksToWait - word_of_nat e)
     else (True, vTaskSetTimeOutState (kern s), 0))"
proof -
  note k = kernel_okD(1) [OF system_okD(1) [OF reachable_ok [OF assms(1)]]]
  note c = ticks_count [OF placedD(1,2) [OF k] assms(2,3)]
  show ?thesis
  proof (cases "xTicksToWait = portMAX_DELAY")
    case True
    then show ?thesis by (simp add: xTaskCheckForTimeOut_def)
  next
    case False
    then show ?thesis
      using timeout_value [OF assms(4) False conjunct1 [OF c] conjunct2 [OF c]]
      by (simp add: vTaskSetTimeOutState_def vTaskInternalSetTimeOutState_def)
  qed
qed

theorem timeout_counts_ticks_witness:
  "\<exists>s k'. demo_boot = Some s \<and> pended_ticks 3 (kern s) = Some k' \<and>
    xTaskCheckForTimeOut k' (vTaskSetTimeOutState (kern s)) 5 = (False, vTaskSetTimeOutState k', 2) \<and>
    xTaskCheckForTimeOut k' (vTaskSetTimeOutState (kern s)) 3 = (True, vTaskSetTimeOutState (kern s), 0)"
proof -
  obtain s where s: "demo_boot = Some s" "kernel_reachable 0 s" "system_ok 0 s" "uxSchedulerSuspended (kern s) = 0"
      "pxCurrentTCB (kern s) = Some 2"
    using demo_boot_ok by auto
  note k = kernel_okD(1) [OF system_okD(1) [OF s(3)]]
  obtain k' where k': "pended_ticks 3 (kern s) = Some k'" using pended_ticks_ok [OF placedD(1,2) [OF k] s(4,5)] by blast
  have "unat (xTickCount (kern s)) < 2 ^ 32" using unsigned_less [of "xTickCount (kern s)"] by simp
  then have "3 < 2 ^ 33 - unat (xTickCount (kern s))" by simp
  note t = timeout_counts_ticks [OF s(2,4) k' this]
  have "xTaskCheckForTimeOut k' (vTaskSetTimeOutState (kern s)) 5 = (False, vTaskSetTimeOutState k', 2)"
      "xTaskCheckForTimeOut k' (vTaskSetTimeOutState (kern s)) 3 = (True, vTaskSetTimeOutState (kern s), 0)"
    using t [of 5] t [of 3] by (simp_all add: portMAX_DELAY_def)
  then show ?thesis using s(1) k' by (intro exI [of _ s] exI [of _ k'] conjI)
qed

end
