(* ===== verification/Spec2Isabelle.thy ===== *)
theory Spec2Isabelle
  imports Prelude Hamming Crc CommonFram FramApi At91Spi SpiBlocking FramNoOs FramDma FramSpec SdCard BootLogic
    Bootloader BootSpec BootProps
    NandModel RawNand NandChip NandFlash NandSpec NandBoot NandBootSpec
    VirtualFram KernelList Heap4 HeapProps
    KernelTasks KernelSched KernelRun KernelStart KernelSystem KernelProps
begin

text \<open>
  Verification development of the C part of the SOURCE on-board software.

  \<^bold>\<open>The program.\<close> The on-board computer iOBC (an AT91SAM9G20) starts from a NOR flash. Its
  bootloader checks its own CRC, reads a group of flags, sizes and reboot counters from an FRAM behind
  an SPI, decides which of up to five images to start (one in the NOR flash, two on each of two SD
  cards), copies it to the SDRAM, corrects it with Hamming codes kept in the FRAM, notes the outcome in
  the SRAM, increments the reboot counter of the image in the FRAM and jumps; a failed copy increments
  the counter and restarts. The main software uses the same FRAM layout through the FRAM API, and the
  SD cards through the SD card API. On the evaluation board the bootloader copies the image from a NAND
  flash instead.

  \<^bold>\<open>The theories and the files they model.\<close>
  \<^item> \<^theory_text>\<open>Prelude\<close>: type synonyms, bytes and words, \<open>memcpy\<close> on buffers, sequences of writes.
  \<^item> \<^theory_text>\<open>Hamming\<close> (\<open>at91/src/utility/hamming.c\<close>): \<open>Compute256\<close>, \<open>Verify256\<close> and the walks over whole
    buffers; blocks are lists of 256 bytes, codes lists of three.
  \<^item> \<^theory_text>\<open>Crc\<close> (\<open>bootloader/utility/CRC.c\<close>): the table and the loop, with bitwise polynomial division as
    reference.
  \<^item> \<^theory_text>\<open>CommonFram\<close> (\<open>bsp_sam9g20/common/fram/CommonFRAM.h\<close>, \<open>.c\<close>): the packed structures as lists of
    members and sizes, from which every \<open>offsetof\<close> is computed; the reserved areas; the address functions.
  \<^item> \<^theory_text>\<open>FramApi\<close> (\<open>FRAMApi.c\<close>): every function over a record of the two calls of the HAL driver, which is
    not in the repository. The locale \<^theory_text>\<open>fram_device\<close> holds the laws of such a device (reads change
    nothing and deliver, writes touch only their range), \<^theory_text>\<open>fram_reliable\<close> that calls in range succeed.
  \<^item> \<^theory_text>\<open>At91Spi\<close> (\<open>bsp_sam9g20/common/At91SpiDriver.c\<close>): the driver down to the registers, its globals,
    its interrupt handlers, and an inductive relation of the interrupts that can follow a transfer.
  \<^item> \<^theory_text>\<open>SpiBlocking\<close> (the blocking transfer of the same file): the device on the wire is a record of
    the register accesses; the locale \<^theory_text>\<open>spi_slave\<close> holds the laws of one that answers in time, and a
    counter of the polls shows the bound for every device.
  \<^item> \<^theory_text>\<open>FramNoOs\<close> (\<open>FRAMNoOs.c\<close>, \<open>FRAMApiNoOs.c\<close>): the polling driver byte by byte over an SPI bus, the
    API of the bootloader, and a model of the FRAM chip. The driver on the chip is shown to be a
    reliable FRAM device (the interpretation \<^theory_text>\<open>noos\<close>), which carries the lemmas of the FRAM API over.
  \<^item> \<^theory_text>\<open>FramDma\<close> (the rest of \<open>FRAMNoOs.c\<close> and \<open>FRAMApiNoOs.c\<close>): start, stop and the reads and writes
    by DMA, over the SPI driver of \<^theory_text>\<open>At91Spi\<close> and \<^theory_text>\<open>SpiBlocking\<close>.
  \<^item> \<^theory_text>\<open>FramSpec\<close>: the properties of the FRAM API and of the driver.
  \<^item> \<^theory_text>\<open>SdCard\<close> (\<open>SDCardApi.c\<close>): every function in the state monad over a record of the calls of the FAT
    library, which is not in the repository; a ledger of open files and file system sessions.
  \<^item> \<^theory_text>\<open>BootLogic\<close> (\<open>bootloader/iobc/norflash/boot_logic.c\<close>, \<open>fram_logic.c\<close>): the decision and the counters.
  \<^item> \<^theory_text>\<open>Bootloader\<close> (\<open>main_norflash.c\<close>, \<open>hamming_logic.c\<close>, \<open>boot_sd.c\<close>, \<open>iobc_common.c\<close>, \<open>SRAMApi.c\<close>): a record
    of memories, devices and globals, and a value for each way in which a start can end.
  \<^item> \<^theory_text>\<open>BootSpec\<close>, \<^theory_text>\<open>BootProps\<close>: the lemmas and the properties of the bootloader as a whole.
  \<^item> \<^theory_text>\<open>NandModel\<close> (\<open>at91/src/memories/nandflash/NandFlashModel.c\<close>, \<open>NandFlashModelList.c\<close>,
    \<open>NandSpareScheme.c\<close>): the known chips, their geometry, the layout of the spare areas and the
    translation of addresses. The first argument of many functions says whether the library is compiled
    with \<open>OP_BOOTSTRAP_on\<close>, as its build file does.
  \<^item> \<^theory_text>\<open>RawNand\<close> (\<open>RawNandFlash.c\<close>): the commands as accesses to a record of the bus operations; the
    locale \<^theory_text>\<open>nand_device\<close> holds the contract of the driver with a chip behind it (pages are read as they
    are, programming clears bits, erasing sets them).
  \<^item> \<^theory_text>\<open>NandChip\<close>: a model of a large page chip, and the proof that the driver on it meets the contract
    (the interpretations \<^theory_text>\<open>chip_with_pin\<close> and \<^theory_text>\<open>chip_with_status\<close>).
  \<^item> \<^theory_text>\<open>NandFlash\<close> (\<open>EccNandFlash.c\<close>, \<open>SkipBlockNandFlash.c\<close>): error correction and bad blocks. The
    local arrays, which the code does not initialise, are the argument \<^theory_text>\<open>nand_stack\<close>, one for all calls.
  \<^item> \<^theory_text>\<open>NandBoot\<close> (\<open>bootloader/at91/common/at91_boot_from_nand.c\<close>): the copy of an image to the SDRAM.
  \<^item> \<^theory_text>\<open>NandSpec\<close>, \<^theory_text>\<open>NandBootSpec\<close>: lemmas and properties of these; the locale \<^theory_text>\<open>page_source\<close> is what
    the copy needs of the read of a page.
  \<^item> \<^theory_text>\<open>VirtualFram\<close> (\<open>bsp_sam9g20/common/fram/VirtualFRAMApi.c\<close>): the FRAM of the evaluation board, a
    file on the SD card, over the FAT library of \<^theory_text>\<open>SdCard\<close> and its calls for positions in a file.
  \<^item> \<^theory_text>\<open>KernelList\<close> (\<open>freertos/src/list.c\<close>, \<open>list.h\<close>): the doubly linked lists of the kernel over a
    store of items and list heads, and their specification as lists of items with a cursor.
  \<^item> \<^theory_text>\<open>Heap4\<close> (\<open>freertos/src/portable/MemMang/heap_4.c\<close>): the allocator over a map from addresses to
    links, the invariant of the heap as a list of blocks, and the refinement of its steps;
    \<^theory_text>\<open>HeapProps\<close>: what it promises. The locale \<^theory_text>\<open>allocator\<close> is what a client needs, with the lemmas
    on sequences of requests; the interpretation \<^theory_text>\<open>kernel_heap\<close> discharges it for the code.
  \<^item> \<^theory_text>\<open>KernelTasks\<close> (\<open>freertos/src/tasks.c\<close>): the scheduler for the configuration of the iOBC: a record of
    the globals, the task control blocks and the lists of \<^theory_text>\<open>KernelList\<close>, and every function on them. A
    failed assertion, a null pointer or a list outside the ready lists is \<open>None\<close>. The two loops without a
    structural bound, over the delayed and the pending list, are partial functions that the lemmas
    \<^theory_text>\<open>unblock_expired_ok\<close> and \<^theory_text>\<open>move_pending_ok\<close> show to end.
  \<^item> \<^theory_text>\<open>KernelSched\<close>, \<^theory_text>\<open>KernelRun\<close>, \<^theory_text>\<open>KernelStart\<close>: the invariant of the scheduler and what each
    operation does to it, up from the state at reset. \<^theory_text>\<open>KernelSystem\<close>: a kernel with its tasks and events, the
    operations of tasks and interrupts as a datatype, the conditions of their use, and the states reached
    by them; \<^theory_text>\<open>KernelProps\<close>: the properties of these states.

  \<^bold>\<open>What the lemmas show.\<close> \<open>Hamming\<close>: the code is linear in the data, so that the difference of two
  codes depends only on the flipped bits; from that follow the correction of single and the detection of
  double errors. \<open>Crc\<close>: the table step is eight bit steps, so that the loop is polynomial division, and
  it is injective in any two neighbouring bytes. \<open>FramApi\<close>: what each write does to each member of the
  critical data block, for every outcome of the device. \<open>FramNoOs\<close>: each turn of the read and write
  loops on the chip. \<open>SdCard\<close> and \<open>BootSpec\<close>: which operations keep, close or lose an open file.
  \<open>BootLogic\<close>: the tree of conditions is a search through a list of candidates. \<open>BootProps\<close>: an image
  with single bit errors is started corrected, one with a double error is not; the retries of an image
  are bounded by its counter; when the self check passes and fails. \<open>NandSpec\<close>: what the error
  correction writes it reads back, with one flipped bit in each 256 bytes. \<open>NandBootSpec\<close>: the copy
  delivers the pages of the good blocks in order; as the library is built, those of all blocks.
  \<open>VirtualFram\<close>: which functions close the file they open. \<open>KernelList\<close>: each operation on the links is
  the one on lists, for sequences of operations; insertion by value ends and sorts; a walk visits every
  item. \<open>Heap4\<close>, \<open>HeapProps\<close>: insertion into the list of free blocks joins neighbours, the search is first
  fit, and for sequences of requests from power-up the regions handed out are disjoint and, once all are
  released, one block again. \<open>KernelSched\<close>, \<open>KernelRun\<close>: every task is on exactly one list, the one its state
  calls for, delayed tasks are in the order of their wake-up, and no operation loses one; \<open>KernelProps\<close>: no
  operation fails, the best ready task runs, delays and time-outs count the ticks that passed.

  \<^bold>\<open>Conventions.\<close> Machine integers are words of their width. A read or write outside a buffer is \<open>None\<close>
  (or \<open>Fault\<close>). Uninitialised bytes are arguments. Null pointers are \<open>None\<close> where the code tests for them.
  The bootloader is modelled for the configuration of \<open>bootloaderConfig.h.in\<close>: no FreeRTOS, the FRAM
  driver without interrupts, the watchdog kicked in the timer interrupt, the HCC file system.

  \<^bold>\<open>Bounds and fuel.\<close> Loops over buffers end because the rest of the buffer shrinks or the counter
  falls. The mutual recursion of the deletion of directories depends on the depth of the directories
  that the library reports, which nothing bounds, and takes fuel; running out of it is \<open>None\<close>, and each
  level of directories costs one unit. The properties of the other operations do not involve fuel.

  \<^bold>\<open>Not modelled.\<close> Traces, LEDs, the watchdog, caches and the jump; the configurations with FreeRTOS or
  with the interrupt driven FRAM in the bootloader; the register drivers
  of the chip vendor, with the set-up of the memory controller and the pins for the NAND flash; the
  flight software in C++. Of the FreeRTOS kernel its queues, event groups, stream buffers, timers and
  co-routines; of the scheduler the stacks, the names, the statistics, the release of the memory of a
  deleted task and what the configuration leaves out. Priority inheritance and the deletion of tasks are
  defined but not among the operations of \<open>KernelSystem\<close>.
  The FRAM HAL, the FAT library and the SD card hardware are parameters.
\<close>

end
